(* ===== verification/Prelude.thy ===== *)
theory Prelude
  imports Main "HOL-Library.Word" "HOL-Library.AList" "HOL-Library.Multiset"
begin

section \<open>Prelude: Go values, errors, results, clocks and the shared lemmas\<close>

text \<open>
  What the component theories share: the widths of Go's integers, the error values of the
  repository (with \<open>errors.Wrap\<close> and \<open>errors.Is\<close>), a result type that
  separates a returned error from a panic, the clock, the order in which Go ranges over a
  map, decimal and hexadecimal text as \<open>fmt\<close> and \<open>strconv\<close> write and
  read it, and the generic list lemmas. The collection \<open>res_elims\<close> inverts a chain
  of calls that returned a value; \<open>pre_simps\<close> holds the rewrite rules of the prelude.
\<close>

unbundle bit_operations_syntax

named_theorems res_elims
named_theorems pre_simps

type_synonym u8 = "8 word"
type_synonym u16 = "16 word"
type_synonym u32 = "32 word"
type_synonym u64 = "64 word"
type_synonym i8 = "8 word"
type_synonym i16 = "16 word"
type_synonym i32 = "32 word"
type_synonym i64 = "64 word"
type_synonym bytes = "8 word list"

subsection \<open>Errors\<close>

text \<open>
  The sentinel errors of \<open>internal/core/errors.go\<close>, \<open>internal/app/parser.go\<close> and
  \<open>abi/get_emulator.go\<close>, the sentinels of packages outside the repository that its code
  compares with, an error made by \<open>errors.New\<close> or \<open>fmt.Errorf\<close>
  (\<open>ErrText\<close>), an error that code outside the repository returned (\<open>ErrExt\<close>, with
  the text it prints), and an error wrapped with a message. Values interpolated into a message
  are left out of its text; nothing in the code reads them back.
\<close>

datatype goerr =
    ErrNotFound
  | ErrInvalidArg
  | ErrNotImplemented
  | ErrAlreadyExists
  | ErrImpossibleParsing
  | ErrUnmatchedContractInterface
  | ErrWrongValueFormat
  | ErrBlockNotFound
  | ErrNoRows
  | ErrText string
  | ErrExt string
  | Wrap goerr string

text \<open>\<open>errors.Is\<close>: some error of the chain is the target.\<close>

fun err_is :: "goerr \<Rightarrow> goerr \<Rightarrow> bool" where
  "err_is (Wrap e m) t = (Wrap e m = t \<or> err_is e t)"
| "err_is e t = (e = t)"

text \<open>\<open>err.Error()\<close>: the messages of the chain, outermost first.\<close>

fun err_text :: "goerr \<Rightarrow> string" where
  "err_text ErrNotFound = ''not found''"
| "err_text ErrInvalidArg = ''invalid arguments''"
| "err_text ErrNotImplemented = ''not implemented''"
| "err_text ErrAlreadyExists = ''already exists''"
| "err_text ErrImpossibleParsing = ''parsing is impossible''"
| "err_text ErrUnmatchedContractInterface =
     ''account state does not match the contract interface description''"
| "err_text ErrWrongValueFormat = ''wrong value for this format''"
| "err_text ErrBlockNotFound = ''block not found''"
| "err_text ErrNoRows = ''sql: no rows in result set''"
| "err_text (ErrText s) = s"
| "err_text (ErrExt s) = s"
| "err_text (Wrap e m) = m @ '': '' @ err_text e"

text \<open>\<open>errors.Wrap(err, m)\<close> of \<open>github.com/pkg/errors\<close>: nil stays nil.\<close>

definition wrap_err :: "goerr option \<Rightarrow> string \<Rightarrow> goerr option" where
  "wrap_err e m = map_option (\<lambda>e. Wrap e m) e"

text \<open>\<open>strings.HasPrefix\<close> and \<open>strings.Contains\<close>.\<close>

fun has_prefix :: "string \<Rightarrow> string \<Rightarrow> bool" where
  "has_prefix xs [] = True"
| "has_prefix [] (y # ys) = False"
| "has_prefix (x # xs) (y # ys) = (x = y \<and> has_prefix xs ys)"

fun str_contains :: "string \<Rightarrow> string \<Rightarrow> bool" where
  "str_contains [] sub = (sub = [])"
| "str_contains (x # xs) sub = (has_prefix (x # xs) sub \<or> str_contains xs sub)"

lemma err_is_refl [simp]: "err_is e e"
  by (cases e) auto

lemma err_is_Wrap [simp]: "err_is e t \<Longrightarrow> err_is (Wrap e m) t"
  by simp

lemma wrap_err_None [simp]: "wrap_err None m = None"
  by (simp add: wrap_err_def)

lemma wrap_err_eq_None [simp]: "wrap_err e m = None \<longleftrightarrow> e = None"
  by (simp add: wrap_err_def)

lemma wrap_err_Some [simp]: "wrap_err (Some e) m = Some (Wrap e m)"
  by (simp add: wrap_err_def)

lemma has_prefix_append [simp]: "has_prefix (xs @ ys) xs"
  by (induction xs) auto

lemma has_prefix_iff: "has_prefix xs ys \<longleftrightarrow> (\<exists>zs. xs = ys @ zs)"
  by (induction xs ys rule: has_prefix.induct) auto

subsection \<open>Results\<close>

text \<open>
  A Go call either returns a value, returns an error, or panics (a nil dereference, an index
  out of range, a failed type assertion, an explicit \<open>panic\<close>).
\<close>

datatype 'a res = Ok 'a | Err goerr | Panic string

text \<open>The usual sequel of a call: \<open>if err != nil { return err }\<close>.\<close>

fun rbind :: "'a res \<Rightarrow> ('a \<Rightarrow> 'b res) \<Rightarrow> 'b res" where
  "rbind (Ok x) f = f x"
| "rbind (Err e) f = Err e"
| "rbind (Panic p) f = Panic p"

text \<open>The sequel that wraps: \<open>if err != nil { return errors.Wrap(err, m) }\<close>.\<close>

fun rwrap :: "string \<Rightarrow> 'a res \<Rightarrow> 'a res" where
  "rwrap m (Ok x) = Ok x"
| "rwrap m (Err e) = Err (Wrap e m)"
| "rwrap m (Panic p) = Panic p"

fun is_ok :: "'a res \<Rightarrow> bool" where
  "is_ok (Ok x) = True"
| "is_ok (Err e) = False"
| "is_ok (Panic p) = False"

fun the_res :: "'a res \<Rightarrow> 'a" where
  "the_res (Ok x) = x"

lemma rbind_Ok_iff [pre_simps]: "rbind r f = Ok y \<longleftrightarrow> (\<exists>x. r = Ok x \<and> f x = Ok y)"
  by (cases r) auto

lemma rwrap_Ok_iff [simp]: "rwrap m r = Ok y \<longleftrightarrow> r = Ok y"
  by (cases r) auto

lemma rwrap_Panic_iff [simp]: "rwrap m r = Panic p \<longleftrightarrow> r = Panic p"
  by (cases r) auto

lemma rbind_OkE [res_elims, elim!]:
  assumes "rbind r f = Ok y"
  obtains x where "r = Ok x" and "f x = Ok y"
  using assms by (cases r) auto

lemma rbind_assoc: "rbind (rbind r f) g = rbind r (\<lambda>x. rbind (f x) g)"
  by (cases r) auto

text \<open>A loop over a slice that stops at the first error, collecting the results.\<close>

fun rmap :: "('a \<Rightarrow> 'b res) \<Rightarrow> 'a list \<Rightarrow> 'b list res" where
  "rmap f [] = Ok []"
| "rmap f (x # xs) = rbind (f x) (\<lambda>y. rbind (rmap f xs) (\<lambda>ys. Ok (y # ys)))"

lemma rmap_Ok_length: "rmap f xs = Ok ys \<Longrightarrow> length ys = length xs"
  by (induction xs arbitrary: ys) auto

lemma rmap_Ok_iff: "rmap f xs = Ok ys \<longleftrightarrow> list_all2 (\<lambda>x y. f x = Ok y) xs ys"
  by (induction xs arbitrary: ys) (auto simp: pre_simps list_all2_Cons1)

subsection \<open>Clock\<close>

text \<open>
  An instant is its distance in nanoseconds from the Unix epoch; \<open>time.Time{}\<close> is the
  first of January of year 1. \<open>time.Since\<close> is a 64-bit duration and saturates.
\<close>

type_synonym gotime = int

definition time_zero :: gotime where
  "time_zero = - 62135596800000000000"

definition max_duration :: int where
  "max_duration = 9223372036854775807"

definition time_since :: "gotime \<Rightarrow> gotime \<Rightarrow> int" where
  "time_since now t = max (- max_duration - 1) (min max_duration (now - t))"

definition seconds :: "int \<Rightarrow> int" where
  "seconds n = n * 1000000000"

lemma time_since_zero: "0 \<le> now \<Longrightarrow> time_since now time_zero = max_duration"
  by (simp add: time_since_def time_zero_def max_duration_def)

lemma time_since_small:
  "0 \<le> now - t \<Longrightarrow> now - t \<le> max_duration \<Longrightarrow> time_since now t = now - t"
  by (simp add: time_since_def max_duration_def)

subsection \<open>Ranging over a map\<close>

text \<open>
  A Go map that the code ranges over is an association list with distinct keys; one that it
  only looks up is a partial function. The language leaves the order of a range open, so a
  function that ranges over a map takes the order as an argument: it permutes the keys.
\<close>

type_synonym 'k key_order = "'k list \<Rightarrow> 'k list"

definition range_order :: "'k key_order \<Rightarrow> bool" where
  "range_order ord \<longleftrightarrow> (\<forall>ks. mset (ord ks) = mset ks)"

lemma range_order_set: "range_order ord \<Longrightarrow> set (ord ks) = set ks"
  by (metis range_order_def set_mset_mset)

lemma range_order_distinct: "range_order ord \<Longrightarrow> distinct (ord ks) = distinct ks"
  by (metis range_order_def mset_eq_imp_distinct_iff)

lemma range_order_id: "range_order (\<lambda>ks. ks)" and range_order_rev: "range_order rev"
  by (simp_all add: range_order_def)

text \<open>The entries of a map in the order of a range.\<close>

definition range_map :: "'k key_order \<Rightarrow> ('k \<times> 'v) list \<Rightarrow> ('k \<times> 'v) list" where
  "range_map ord m = map (\<lambda>k. (k, the (map_of m k))) (ord (map fst m))"

lemma map_the_map_of:
  "distinct (map fst m) \<Longrightarrow> map (\<lambda>k. (k, the (map_of m k))) (map fst m) = m"
  unfolding map_map by (rule map_idI) (auto simp: map_of_is_SomeI)

lemma mset_range_map:
  assumes "range_order ord" and "distinct (map fst m)"
  shows "mset (range_map ord m) = mset m"
proof -
  have "mset (range_map ord m) = image_mset (\<lambda>k. (k, the (map_of m k))) (mset (ord (map fst m)))"
    by (simp add: range_map_def)
  also have "\<dots> = image_mset (\<lambda>k. (k, the (map_of m k))) (mset (map fst m))"
    using assms(1) by (simp add: range_order_def)
  also have "\<dots> = mset (map (\<lambda>k. (k, the (map_of m k))) (map fst m))"
    by (simp only: mset_map)
  also have "\<dots> = mset m"
    by (simp only: map_the_map_of[OF assms(2)])
  finally show ?thesis .
qed

lemma set_range_map:
  assumes "range_order ord" and "distinct (map fst m)"
  shows "set (range_map ord m) = set m"
  using mset_range_map[OF assms] by (metis set_mset_mset)

subsection \<open>Association lists\<close>

lemma alist_delete_filter: "AList.delete k al = filter (\<lambda>p. fst p \<noteq> k) al"
  by (induction al) auto

lemma alist_length_update:
  "length (AList.update k v al) = (if k \<in> fst ` set al then length al else Suc (length al))"
  by (induction al) auto

lemma alist_length_delete:
  "distinct (map fst al) \<Longrightarrow> k \<in> fst ` set al \<Longrightarrow> Suc (length (AList.delete k al)) = length al"
  by (induction al) auto

lemma alist_update_new: "k \<notin> fst ` set al \<Longrightarrow> AList.update k v al = al @ [(k, v)]"
  by (induction al) auto

lemma set_update_subset: "set (AList.update k v al) \<subseteq> insert (k, v) (set al)"
  by (induction al) auto

subsection \<open>Text: decimal and hexadecimal numbers\<close>

text \<open>
  What \<open>%d\<close> and \<open>%x\<close> print and what \<open>strconv.ParseUint\<close>,
  \<open>strconv.ParseInt\<close> and \<open>hex.DecodeString\<close> read. A string is the list of its
  bytes. A base is at most 16 where the code uses it.
\<close>

definition digit_char :: "nat \<Rightarrow> char" where
  "digit_char d = char_of (if d < 10 then 48 + d else 87 + d)"

definition digit_val :: "char \<Rightarrow> nat option" where
  "digit_val c =
     (let n = of_char c :: nat in
      if 48 \<le> n \<and> n \<le> 57 then Some (n - 48)
      else if 97 \<le> n \<and> n \<le> 122 then Some (n - 87)
      else if 65 \<le> n \<and> n \<le> 90 then Some (n - 55) else None)"

fun show_nat :: "nat \<Rightarrow> string" where
  "show_nat n = (if n < 10 then [digit_char n] else show_nat (n div 10) @ [digit_char (n mod 10)])"

declare show_nat.simps [simp del]

definition show_int :: "int \<Rightarrow> string" where
  "show_int i = (if i < 0 then CHR ''-'' # show_nat (nat (- i)) else show_nat (nat i))"

fun parse_digits :: "nat \<Rightarrow> nat \<Rightarrow> nat \<Rightarrow> string \<Rightarrow> nat res" where
  "parse_digits b maxv n [] = Ok n"
| "parse_digits b maxv n (c # cs) =
     (case digit_val c of
        None \<Rightarrow> Err (ErrText ''invalid syntax'')
      | Some d \<Rightarrow>
          if b \<le> d then Err (ErrText ''invalid syntax'')
          else if maxv < n * b + d then Err (ErrText ''value out of range'')
          else parse_digits b maxv (n * b + d) cs)"

definition parse_uint :: "nat \<Rightarrow> nat \<Rightarrow> string \<Rightarrow> nat res" where
  "parse_uint b bits s =
     (if s = [] then Err (ErrText ''invalid syntax'') else parse_digits b (2 ^ bits - 1) 0 s)"

definition parse_int :: "nat \<Rightarrow> nat \<Rightarrow> string \<Rightarrow> int res" where
  "parse_int b bits s =
     (case s of
        [] \<Rightarrow> Err (ErrText ''invalid syntax'')
      | c # cs \<Rightarrow>
          (let neg = (c = CHR ''-''); digits = (if c = CHR ''-'' \<or> c = CHR ''+'' then cs else s)
           in rbind (parse_uint b bits digits) (\<lambda>n.
                if \<not> neg \<and> 2 ^ (bits - 1) \<le> n \<or> neg \<and> 2 ^ (bits - 1) < n
                then Err (ErrText ''value out of range'')
                else Ok (if neg then - int n else int n))))"

fun hex_encode :: "bytes \<Rightarrow> string" where
  "hex_encode [] = []"
| "hex_encode (b # bs) = digit_char (unat b div 16) # digit_char (unat b mod 16) # hex_encode bs"

definition hex_val :: "char \<Rightarrow> nat option" where
  "hex_val c = (case digit_val c of Some d \<Rightarrow> if d < 16 then Some d else None | None \<Rightarrow> None)"

fun hex_decode :: "string \<Rightarrow> bytes res" where
  "hex_decode [] = Ok []"
| "hex_decode [c] = Err (ErrText ''encoding/hex: odd length hex string'')"
| "hex_decode (c # d # cs) =
     (case (hex_val c, hex_val d) of
        (Some h, Some l) \<Rightarrow> rbind (hex_decode cs) (\<lambda>bs. Ok (word_of_nat (16 * h + l) # bs))
      | _ \<Rightarrow> Err (ErrText ''encoding/hex: invalid byte''))"

text \<open>\<open>strings.Split\<close> on a separator of one character.\<close>

fun str_split :: "char \<Rightarrow> string \<Rightarrow> string list" where
  "str_split sep [] = [[]]"
| "str_split sep (c # cs) =
     (if c = sep then [] # str_split sep cs
      else (case str_split sep cs of [] \<Rightarrow> [[c]] | w # ws \<Rightarrow> (c # w) # ws))"

lemma unat_byte: "unat (b :: 8 word) < 256"
  using unsigned_less[of b, where 'a = nat] by simp

lemma digit_val_char: "d < 16 \<Longrightarrow> digit_val (digit_char d) = Some d"
  by (simp add: digit_val_def digit_char_def Let_def)

lemma hex_val_char: "d < 16 \<Longrightarrow> hex_val (digit_char d) = Some d"
  by (simp add: hex_val_def digit_val_char)

lemma digit_char_not: "d < 16 \<Longrightarrow> digit_val c = None \<Longrightarrow> digit_char d \<noteq> c"
  using digit_val_char by force

lemma hex_decode_encode: "hex_decode (hex_encode bs) = Ok bs"
proof (induction bs)
  case (Cons b bs)
  have "unat b < 256" by (rule unat_byte)
  moreover from this have "16 * (unat b div 16) + unat b mod 16 = unat b" by simp
  ultimately show ?case using Cons by (simp add: hex_val_char)
qed simp

lemma length_hex_encode [simp]: "length (hex_encode bs) = 2 * length bs"
  by (induction bs) simp_all

lemma show_nat_ne [simp]: "show_nat n \<noteq> []"
  by (subst show_nat.simps) simp

lemma show_nat_digits: "c \<in> set (show_nat n) \<Longrightarrow> \<exists>d < 10. c = digit_char d"
proof (induction n rule: show_nat.induct)
  case (1 n)
  then show ?case by (subst (asm) (2) show_nat.simps) (auto split: if_splits intro: exI[of _ "n mod 10"])
qed

lemma parse_digits_app:
  "parse_digits b maxv n (xs @ ys) = rbind (parse_digits b maxv n xs) (\<lambda>m. parse_digits b maxv m ys)"
  by (induction xs arbitrary: n) (auto split: option.split)

lemma parse_digits_show: "n \<le> maxv \<Longrightarrow> parse_digits 10 maxv 0 (show_nat n) = Ok n"
proof (induction n rule: show_nat.induct)
  case (1 n)
  then show ?case
    by (subst show_nat.simps) (auto simp: parse_digits_app digit_val_char)
qed

lemma parse_uint_show: "n < 2 ^ bits \<Longrightarrow> parse_uint 10 bits (show_nat n) = Ok n"
  by (simp add: parse_uint_def parse_digits_show)

lemma show_nat_head:
  obtains c cs where "show_nat n = c # cs" and "c \<noteq> CHR ''-''" and "c \<noteq> CHR ''+''"
proof (cases "show_nat n")
  case (Cons c cs)
  then obtain d where "d < 10" "c = digit_char d" using show_nat_digits[of c n] by auto
  then have "c \<noteq> CHR ''-''" and "c \<noteq> CHR ''+''"
    using digit_char_not[of d] by (simp_all add: digit_val_def)
  with Cons that show ?thesis by blast
qed simp

lemma parse_int_show:
  assumes "- (2 ^ (bits - 1)) \<le> i" and "i < 2 ^ (bits - 1)" and "0 < bits"
  shows "parse_int 10 bits (show_int i) = Ok i"
proof -
  have pow: "(2::nat) ^ bits = 2 * 2 ^ (bits - 1)"
    using assms(3) by (metis Suc_diff_1 power_Suc)
  show ?thesis
  proof (cases "i < 0")
    case True
    moreover from this assms(1) have le: "nat (- i) \<le> 2 ^ (bits - 1)"
      by (metis minus_le_iff nat_le_iff of_nat_numeral of_nat_power)
    moreover from this pow have "nat (- i) < 2 ^ bits"
      using le_less_trans[OF le, of "2 ^ bits"] by simp
    ultimately show ?thesis by (simp add: parse_int_def show_int_def parse_uint_show)
  next
    case False
    moreover from this assms(2) have lt: "nat i < 2 ^ (bits - 1)"
      by (metis leI nat_less_iff of_nat_numeral of_nat_power)
    moreover have "nat i < 2 ^ bits"
      using lt pow by (metis mult_2 trans_less_add1)
    moreover obtain c cs where "show_nat (nat i) = c # cs" "c \<noteq> CHR ''-''" "c \<noteq> CHR ''+''"
      by (rule show_nat_head)
    ultimately show ?thesis
      using parse_uint_show[of "nat i" bits] by (simp add: parse_int_def show_int_def)
  qed
qed

lemma parse_digits_bound: "parse_digits b maxv n s = Ok m \<Longrightarrow> n \<le> maxv \<Longrightarrow> m \<le> maxv"
  by (induction b maxv n s rule: parse_digits.induct) (auto split: option.splits if_splits)

lemma parse_int_bound:
  assumes "parse_int b bits s = Ok i"
  shows "- (2 ^ (bits - 1)) \<le> i \<and> i < 2 ^ (bits - 1)"
proof -
  obtain neg n where n: "i = (if neg then - int n else int n)"
      "\<not> (\<not> neg \<and> 2 ^ (bits - 1) \<le> n \<or> neg \<and> 2 ^ (bits - 1) < n)"
    using assms by (fastforce simp: parse_int_def Let_def split: list.splits if_splits)
  show ?thesis
  proof (cases neg)
    case True
    then have "int n \<le> int (2 ^ (bits - 1))" using n(2) by simp
    moreover have "(0::int) < 2 ^ (bits - 1)" by simp
    ultimately show ?thesis using n(1) True by (simp del: zero_less_power)
  next
    case False
    then have "int n < int (2 ^ (bits - 1))" using n(2) by simp
    moreover have "(0::int) < 2 ^ (bits - 1)" by simp
    ultimately show ?thesis using n(1) False by (simp del: zero_less_power)
  qed
qed

lemma str_split_none: "sep \<notin> set s \<Longrightarrow> str_split sep s = [s]"
  by (induction s) auto

lemma str_split_app: "sep \<notin> set s \<Longrightarrow> str_split sep (s @ sep # t) = s # str_split sep t"
  by (induction s) auto

lemma hex_encode_digits: "c \<in> set (hex_encode bs) \<Longrightarrow> digit_val c \<noteq> None"
proof (induction bs)
  case (Cons b bs)
  have "unat b div 16 < 16" using unat_byte[of b] by simp
  with Cons show ?case using digit_val_char by auto
qed simp

lemma show_int_chars:
  assumes "digit_val c = None" and "c \<noteq> CHR ''-''"
  shows "c \<notin> set (show_int i)"
proof -
  have "c \<notin> set (show_nat n)" for n
  proof
    assume "c \<in> set (show_nat n)"
    then obtain d where "d < 10" "c = digit_char d" using show_nat_digits by blast
    with digit_char_not[OF _ assms(1), of d] show False by simp
  qed
  with assms(2) show ?thesis by (simp add: show_int_def)
qed

end
