(* ===== verification/Lru.thy ===== *)
theory Lru
  imports Prelude
begin

section \<open>lru/cache.go: the least recently used cache\<close>

text \<open>
  The cache of \<open>lru/cache.go\<close> with its doubly linked list: an element of
  \<open>container/list\<close> is an identity (its address) with the key it carries, so that the
  pointer \<open>keyPtr\<close> of an item means what it means in the code. Every exported method runs
  under the mutex from its first to its last statement, so a method is one atomic function.
  \<open>lru_inv\<close> is the well-formedness invariant, \<open>lru_abs\<close> the abstraction to a list of
  key/value pairs, most recently used first, and the locale \<open>recency_cache\<close> the contract
  the callers of the cache rely on.
\<close>

subsection \<open>State and operations\<close>

record 'v lru_item =
  it_data :: 'v
  keyPtr :: nat

record ('k, 'v) lru_cache =
  lru_queue :: "(nat \<times> 'k) list"
  lru_items :: "('k \<times> 'v lru_item) list"
  lru_capacity :: int
  lru_fresh :: nat

definition lru_new :: "int \<Rightarrow> ('k, 'v) lru_cache" where
  "lru_new n = \<lparr>lru_queue = [], lru_items = [], lru_capacity = n, lru_fresh = 0\<rparr>"

text \<open>\<open>MoveToFront\<close> of \<open>container/list\<close>: an element of another list is left alone.\<close>

definition move_to_front :: "nat \<Rightarrow> (nat \<times> 'k) list \<Rightarrow> (nat \<times> 'k) list" where
  "move_to_front p q = filter (\<lambda>e. fst e = p) q @ filter (\<lambda>e. fst e \<noteq> p) q"

text \<open>\<open>Back\<close> of an empty list is nil, which \<open>Remove\<close> dereferences.\<close>

definition removeItem :: "('k, 'v) lru_cache \<Rightarrow> ('k, 'v) lru_cache res" where
  "removeItem c =
     (if lru_queue c = [] then Panic ''nil pointer dereference''
      else Ok (c\<lparr>lru_queue := butlast (lru_queue c), lru_items := AList.delete (snd (last (lru_queue c))) (lru_items c)\<rparr>))"

definition updateItem ::
  "('k, 'v) lru_cache \<Rightarrow> 'v lru_item \<Rightarrow> 'k \<Rightarrow> 'v \<Rightarrow> ('k, 'v) lru_cache" where
  "updateItem c item k v =
     c\<lparr>lru_items := AList.update k (item\<lparr>it_data := v\<rparr>) (lru_items c),
       lru_queue := move_to_front (keyPtr item) (lru_queue c)\<rparr>"

definition lru_put :: "('k, 'v) lru_cache \<Rightarrow> 'k \<Rightarrow> 'v \<Rightarrow> ('k, 'v) lru_cache res" where
  "lru_put c k v =
     (case map_of (lru_items c) k of
        None \<Rightarrow>
          rbind (if lru_capacity c = int (length (lru_items c)) then removeItem c else Ok c)
            (\<lambda>c. Ok (c\<lparr>lru_items := AList.update k \<lparr>it_data = v, keyPtr = lru_fresh c\<rparr> (lru_items c),
                       lru_queue := (lru_fresh c, k) # lru_queue c,
                       lru_fresh := Suc (lru_fresh c)\<rparr>))
      | Some item \<Rightarrow> Ok (updateItem c item k v))"

definition lru_get :: "('k, 'v) lru_cache \<Rightarrow> 'k \<Rightarrow> 'v option \<times> ('k, 'v) lru_cache" where
  "lru_get c k =
     (case map_of (lru_items c) k of
        Some item \<Rightarrow> (Some (it_data item), c\<lparr>lru_queue := move_to_front (keyPtr item) (lru_queue c)\<rparr>)
      | None \<Rightarrow> (None, c))"

definition lru_keys :: "'k key_order \<Rightarrow> ('k, 'v) lru_cache \<Rightarrow> 'k list" where
  "lru_keys ord c = ord (map fst (lru_items c))"

subsection \<open>Invariant and abstraction\<close>

definition lru_inv :: "('k, 'v) lru_cache \<Rightarrow> bool" where
  "lru_inv c \<longleftrightarrow>
     distinct (map fst (lru_items c)) \<and> distinct (map fst (lru_queue c)) \<and>
     (\<forall>e k. (e, k) \<in> set (lru_queue c) \<longleftrightarrow>
        map_option keyPtr (map_of (lru_items c) k) = Some e) \<and>
     (\<forall>e \<in> set (lru_queue c). fst e < lru_fresh c) \<and>
     0 < lru_capacity c \<and> int (length (lru_items c)) \<le> lru_capacity c"

definition lru_abs :: "('k, 'v) lru_cache \<Rightarrow> ('k \<times> 'v) list" where
  "lru_abs c = map (\<lambda>(e, k). (k, it_data (the (map_of (lru_items c) k)))) (lru_queue c)"

text \<open>The abstract cache: a list of pairs, most recently used first.\<close>

definition spec_put :: "int \<Rightarrow> 'k \<Rightarrow> 'v \<Rightarrow> ('k \<times> 'v) list \<Rightarrow> ('k \<times> 'v) list" where
  "spec_put n k v r =
     (if k \<in> fst ` set r then (k, v) # AList.delete k r
      else (k, v) # (if n = int (length r) then butlast r else r))"

definition spec_get :: "'k \<Rightarrow> ('k \<times> 'v) list \<Rightarrow> ('k \<times> 'v) list" where
  "spec_get k r =
     (case map_of r k of Some v \<Rightarrow> (k, v) # AList.delete k r | None \<Rightarrow> r)"

lemma lru_inv_new: "0 < n \<Longrightarrow> lru_inv (lru_new n)"
  by (simp add: lru_inv_def lru_new_def)

lemma lru_abs_new [simp]: "lru_abs (lru_new n) = []"
  by (simp add: lru_abs_def lru_new_def)

lemma lru_capacity_new [simp]: "lru_capacity (lru_new n) = n"
  by (simp add: lru_new_def)

text \<open>An element of the queue and the item that points to it determine each other.\<close>

lemma lru_inv_item:
  assumes "lru_inv c" and "map_of (lru_items c) k = Some it"
  shows "(keyPtr it, k) \<in> set (lru_queue c)"
  using assms by (simp add: lru_inv_def)

lemma lru_inv_elem:
  assumes "lru_inv c" and "(e, k) \<in> set (lru_queue c)"
  obtains it where "map_of (lru_items c) k = Some it" and "keyPtr it = e"
  using assms by (auto simp: lru_inv_def)

lemma lru_inv_same:
  assumes "lru_inv c" and "(e, k) \<in> set (lru_queue c)" and "(e', k) \<in> set (lru_queue c)"
  shows "e = e'"
  using assms by (metis lru_inv_elem option.inject)

lemma lru_inv_same_key:
  assumes "lru_inv c" and "(e, k) \<in> set (lru_queue c)" and "(e, k') \<in> set (lru_queue c)"
  shows "k = k'"
proof -
  have "distinct (map fst (lru_queue c))" using assms(1) by (simp add: lru_inv_def)
  then show ?thesis using assms(2,3) by (rule eq_key_imp_eq_value)
qed

lemma lru_queue_keys:
  assumes "lru_inv c"
  shows "distinct (map snd (lru_queue c))" and "set (map snd (lru_queue c)) = fst ` set (lru_items c)"
proof -
  have "distinct (map fst (lru_queue c))" using assms by (simp add: lru_inv_def)
  then have d: "distinct (lru_queue c)" by (simp only: distinct_map)
  have "inj_on snd (set (lru_queue c))"
    using lru_inv_same[OF assms] by (auto simp: inj_on_def)
  with d show "distinct (map snd (lru_queue c))" by (simp add: distinct_map)
  show "set (map snd (lru_queue c)) = fst ` set (lru_items c)"
  proof -
    have "k \<in> set (map snd (lru_queue c)) \<longleftrightarrow> k \<in> fst ` set (lru_items c)" for k
    proof -
      have "k \<in> set (map snd (lru_queue c)) \<longleftrightarrow> (\<exists>e. (e, k) \<in> set (lru_queue c))" by force
      also have "\<dots> \<longleftrightarrow> (\<exists>e. map_option keyPtr (map_of (lru_items c) k) = Some e)"
        using assms unfolding lru_inv_def by blast
      also have "\<dots> \<longleftrightarrow> map_of (lru_items c) k \<noteq> None" by (cases "map_of (lru_items c) k") auto
      finally show ?thesis by (simp add: map_of_eq_None_iff)
    qed
    then show ?thesis by blast
  qed
qed

lemma lru_len:
  assumes "lru_inv c"
  shows "length (lru_queue c) = length (lru_items c)"
proof -
  have "card (set (map snd (lru_queue c))) = card (set (map fst (lru_items c)))"
    using lru_queue_keys(2)[OF assms] by simp
  moreover have "distinct (map fst (lru_items c))" using assms by (simp add: lru_inv_def)
  ultimately show ?thesis using lru_queue_keys(1)[OF assms] by (metis distinct_card length_map)
qed

lemma map_fst_lru_abs: "map fst (lru_abs c) = map snd (lru_queue c)"
  by (simp add: lru_abs_def comp_def split_def)

lemma distinct_lru_abs: "lru_inv c \<Longrightarrow> distinct (map fst (lru_abs c))"
  by (simp add: map_fst_lru_abs lru_queue_keys(1) del: map_map)

lemma lookup_lru_abs:
  assumes "lru_inv c"
  shows "map_of (lru_abs c) k = map_option it_data (map_of (lru_items c) k)"
proof (cases "map_of (lru_items c) k")
  case None
  then have "k \<notin> set (map fst (lru_abs c))"
    using lru_queue_keys(2)[OF assms] by (simp only: map_fst_lru_abs) (simp add: map_of_eq_None_iff)
  then have "map_of (lru_abs c) k = None" by (simp add: map_of_eq_None_iff)
  with None show ?thesis by simp
next
  case (Some it)
  with lru_inv_item[OF assms] have "(k, it_data it) \<in> set (lru_abs c)"
    by (force simp: lru_abs_def)
  with Some distinct_lru_abs[OF assms] show ?thesis by simp
qed

subsection \<open>The operations refine the abstract cache\<close>

lemma filter_fst_eq:
  "distinct (map fst q) \<Longrightarrow> (p, k) \<in> set q \<Longrightarrow> filter (\<lambda>e. fst e = p) q = [(p, k)]"
proof (induction q)
  case (Cons a q)
  show ?case
  proof (cases "a = (p, k)")
    case True
    with Cons.prems(1) show ?thesis by (auto simp: filter_empty_conv image_iff)
  next
    case False
    with Cons.prems have "(p, k) \<in> set q" and "fst a \<noteq> p" by (auto simp: image_iff)
    with Cons show ?thesis by simp
  qed
qed simp

lemma move_to_front_eq:
  assumes "lru_inv c" and "map_of (lru_items c) k = Some it"
  shows "move_to_front (keyPtr it) (lru_queue c) = (keyPtr it, k) # filter (\<lambda>e. snd e \<noteq> k) (lru_queue c)"
proof -
  have mem: "(keyPtr it, k) \<in> set (lru_queue c)" by (rule lru_inv_item[OF assms])
  have "fst e \<noteq> keyPtr it \<longleftrightarrow> snd e \<noteq> k" if "e \<in> set (lru_queue c)" for e
    using that mem assms(1) by (metis lru_inv_same lru_inv_same_key prod.collapse)
  then have "filter (\<lambda>e. fst e \<noteq> keyPtr it) (lru_queue c) = filter (\<lambda>e. snd e \<noteq> k) (lru_queue c)"
    by (rule filter_cong[OF refl])
  moreover have "distinct (map fst (lru_queue c))" using assms(1) by (simp add: lru_inv_def)
  ultimately show ?thesis
    using mem by (simp add: move_to_front_def filter_fst_eq)
qed

lemma set_move_to_front [simp]: "set (move_to_front p q) = set q"
  by (auto simp: move_to_front_def)

lemma distinct_move_to_front:
  "distinct (map fst q) \<Longrightarrow> distinct (map fst (move_to_front p q))"
  by (auto simp: move_to_front_def distinct_map inj_on_def)

lemma abs_delete:
  "AList.delete k (lru_abs c) =
     map (\<lambda>(e, k'). (k', it_data (the (map_of (lru_items c) k')))) (filter (\<lambda>e. snd e \<noteq> k) (lru_queue c))"
  by (simp add: lru_abs_def alist_delete_filter filter_map comp_def split_def)

text \<open>A hit of \<open>Get\<close> and a hit of \<open>Put\<close> move the entry to the front.\<close>

lemma lru_get_refines:
  assumes "lru_inv c"
  shows "lru_inv (snd (lru_get c k))"
    and "fst (lru_get c k) = map_of (lru_abs c) k"
    and "lru_abs (snd (lru_get c k)) = spec_get k (lru_abs c)"
    and "lru_capacity (snd (lru_get c k)) = lru_capacity c"
proof -
  show "lru_inv (snd (lru_get c k))"
    using assms by (auto simp: lru_get_def lru_inv_def distinct_move_to_front split: option.split)
  show "fst (lru_get c k) = map_of (lru_abs c) k"
    by (simp add: lru_get_def lookup_lru_abs[OF assms] split: option.split)
  show "lru_capacity (snd (lru_get c k)) = lru_capacity c"
    by (simp add: lru_get_def split: option.split)
  show "lru_abs (snd (lru_get c k)) = spec_get k (lru_abs c)"
  proof (cases "map_of (lru_items c) k")
    case None
    then show ?thesis by (simp add: lru_get_def spec_get_def lookup_lru_abs[OF assms])
  next
    case (Some it)
    then show ?thesis
      by (simp add: lru_get_def spec_get_def lookup_lru_abs[OF assms] abs_delete)
        (simp add: lru_abs_def move_to_front_eq[OF assms Some])
  qed
qed

lemma lru_put_hit:
  assumes "lru_inv c" and "map_of (lru_items c) k = Some it"
  shows "\<exists>c'. lru_put c k v = Ok c' \<and> lru_inv c' \<and> lru_capacity c' = lru_capacity c \<and>
    lru_abs c' = (k, v) # AList.delete k (lru_abs c)"
proof (intro exI conjI)
  have k: "k \<in> fst ` set (lru_items c)" using assms(2) by (metis map_of_eq_None_iff option.distinct(1))
  show "lru_put c k v = Ok (updateItem c it k v)" using assms(2) by (simp add: lru_put_def)
  have "map_option keyPtr (((map_of (lru_items c))(k \<mapsto> it\<lparr>it_data := v\<rparr>)) k') =
      map_option keyPtr (map_of (lru_items c) k')" for k'
    using assms(2) by simp
  then show "lru_inv (updateItem c it k v)"
    using assms k
    by (simp add: updateItem_def lru_inv_def update_conv' distinct_update distinct_move_to_front
        alist_length_update)
  show "lru_capacity (updateItem c it k v) = lru_capacity c" by (simp add: updateItem_def)
  show "lru_abs (updateItem c it k v) = (k, v) # AList.delete k (lru_abs c)"
    unfolding abs_delete
    by (auto simp: updateItem_def lru_abs_def move_to_front_eq[OF assms] update_conv' intro!: map_cong)
qed

lemma removeItem_refines:
  assumes "lru_inv c" and "lru_queue c \<noteq> []"
  shows "\<exists>c'. removeItem c = Ok c' \<and> lru_inv c' \<and> lru_capacity c' = lru_capacity c \<and>
    lru_abs c' = butlast (lru_abs c) \<and> Suc (length (lru_items c')) = length (lru_items c) \<and>
    (map_of (lru_items c) k = None \<longrightarrow> map_of (lru_items c') k = None)"
proof -
  obtain q e k0 where q: "lru_queue c = q @ [(e, k0)]"
    using assms(2) by (metis append_butlast_last_id prod.collapse)
  let ?c = "c\<lparr>lru_queue := q, lru_items := AList.delete k0 (lru_items c)\<rparr>"
  have keys: "distinct (map snd (lru_queue c))" "k0 \<in> fst ` set (lru_items c)"
    using lru_queue_keys[OF assms(1)] q by (auto simp: image_iff)
  have notin: "k0 \<notin> snd ` set q" using keys(1) q by simp
  have len: "Suc (length (AList.delete k0 (lru_items c))) = length (lru_items c)"
    using assms(1) keys(2) by (intro alist_length_delete) (simp_all add: lru_inv_def)
  have iff: "(e', k') \<in> set q \<longleftrightarrow>
      map_option keyPtr (map_of (AList.delete k0 (lru_items c)) k') = Some e'" for e' k'
  proof (cases "k' = k0")
    case True
    then show ?thesis using notin by (force simp: delete_conv')
  next
    case False
    then have "(e', k') \<in> set q \<longleftrightarrow> (e', k') \<in> set (lru_queue c)" using q by auto
    with False assms(1) show ?thesis by (simp add: lru_inv_def)
  qed
  have "lru_inv ?c"
    using assms(1) q len iff by (auto simp: lru_inv_def distinct_delete)
  moreover have "lru_abs ?c = butlast (lru_abs c)"
    using notin by (force simp: lru_abs_def q delete_conv' intro!: map_cong)
  ultimately show ?thesis using assms(2) q len by (simp add: removeItem_def delete_conv')
qed

lemma lru_insert_refines:
  fixes v :: 'v
  assumes "lru_inv c" and "map_of (lru_items c) k = None"
    and "int (length (lru_items c)) < lru_capacity c"
  defines "c' \<equiv> c\<lparr>lru_items := AList.update k \<lparr>it_data = v, keyPtr = lru_fresh c\<rparr> (lru_items c),
       lru_queue := (lru_fresh c, k) # lru_queue c, lru_fresh := Suc (lru_fresh c)\<rparr>"
  shows "lru_inv c'" and "lru_abs c' = (k, v) # lru_abs c"
proof -
  have k: "k \<notin> fst ` set (lru_items c)" using assms(2) by (simp add: map_of_eq_None_iff)
  have nq: "(e, k) \<notin> set (lru_queue c)" for e using assms(1,2) by (simp add: lru_inv_def)
  have nf: "(lru_fresh c, k') \<notin> set (lru_queue c)" for k' using assms(1) by (force simp: lru_inv_def)
  show "lru_inv c'"
    using assms(1,3) k nq nf
    by (auto simp: c'_def lru_inv_def update_conv' distinct_update alist_length_update less_Suc_eq)
  show "lru_abs c' = (k, v) # lru_abs c"
    using nq by (auto simp: c'_def lru_abs_def update_conv')
qed

text \<open>
  \<open>Put\<close> on a cache of positive capacity never panics and refines the abstract operation:
  a hit replaces the value in place and moves it to the front, a miss pushes a new entry to the
  front after dropping the least recently used one of a full cache.
\<close>

lemma lru_put_refines:
  assumes "lru_inv c"
  shows "\<exists>c'. lru_put c k v = Ok c' \<and> lru_inv c' \<and> lru_capacity c' = lru_capacity c \<and>
    lru_abs c' = spec_put (lru_capacity c) k v (lru_abs c)"
proof (cases "map_of (lru_items c) k")
  case (Some it)
  then have "map_of (lru_abs c) k \<noteq> None" using lookup_lru_abs[OF assms] by simp
  then have "k \<in> fst ` set (lru_abs c)" by (simp add: map_of_eq_None_iff)
  then show ?thesis using lru_put_hit[OF assms Some] by (simp add: spec_put_def)
next
  case None
  then have miss: "k \<notin> fst ` set (lru_abs c)"
    using lookup_lru_abs[OF assms] by (simp flip: map_of_eq_None_iff)
  have len: "length (lru_abs c) = length (lru_items c)"
    using lru_len[OF assms] by (simp add: lru_abs_def)
  show ?thesis
  proof (cases "lru_capacity c = int (length (lru_items c))")
    case True
    moreover from this have "lru_queue c \<noteq> []"
      using assms lru_len[OF assms] by (auto simp: lru_inv_def)
    ultimately obtain c1 where c1: "removeItem c = Ok c1" "lru_inv c1"
        "lru_capacity c1 = lru_capacity c" "lru_abs c1 = butlast (lru_abs c)"
        "map_of (lru_items c1) k = None" "int (length (lru_items c1)) < lru_capacity c1"
      using removeItem_refines[OF assms, of k] None by auto
    with lru_insert_refines[OF c1(2,5,6), of v] True None miss len show ?thesis
      by (simp add: lru_put_def spec_put_def)
  next
    case False
    then have "int (length (lru_items c)) < lru_capacity c" using assms by (simp add: lru_inv_def)
    with lru_insert_refines[OF assms None this, of v] False None miss len show ?thesis
      by (simp add: lru_put_def spec_put_def)
  qed
qed

subsection \<open>Runs of the abstract cache\<close>

datatype ('k, 'v) lru_op = OpPut 'k 'v | OpGet 'k

fun op_key :: "('k, 'v) lru_op \<Rightarrow> 'k" where
  "op_key (OpPut k v) = k"
| "op_key (OpGet k) = k"

fun spec_run :: "int \<Rightarrow> ('k, 'v) lru_op list \<Rightarrow> ('k \<times> 'v) list \<Rightarrow> ('k \<times> 'v) list" where
  "spec_run n [] r = r"
| "spec_run n (OpPut k v # ops) r = spec_run n ops (spec_put n k v r)"
| "spec_run n (OpGet k # ops) r = spec_run n ops (spec_get k r)"

text \<open>What an unbounded map would hold after the same operations.\<close>

fun last_puts :: "('k, 'v) lru_op list \<Rightarrow> ('k \<rightharpoonup> 'v) \<Rightarrow> ('k \<rightharpoonup> 'v)" where
  "last_puts [] m = m"
| "last_puts (OpPut k v # ops) m = last_puts ops (m(k \<mapsto> v))"
| "last_puts (OpGet k # ops) m = last_puts ops m"

lemma map_of_butlast: "map_of (butlast r) k = Some v \<Longrightarrow> map_of r k = Some v"
  by (induction r) (auto split: if_splits)

lemma spec_put_le:
  assumes "map_of r \<subseteq>\<^sub>m m"
  shows "map_of (spec_put n k v r) \<subseteq>\<^sub>m m(k \<mapsto> v)"
proof -
  have "map_of (butlast r) \<subseteq>\<^sub>m map_of r"
    unfolding map_le_def by (metis domD map_of_butlast)
  then have "map_of (butlast r) \<subseteq>\<^sub>m m" using assms by (rule map_le_trans)
  with assms show ?thesis by (simp add: spec_put_def delete_conv')
qed

lemma map_of_spec_get: "map_of (spec_get k r) = map_of r"
  by (auto simp: spec_get_def delete_conv' fun_eq_iff split: option.split)

lemma spec_run_le: "map_of r \<subseteq>\<^sub>m m \<Longrightarrow> map_of (spec_run n ops r) \<subseteq>\<^sub>m last_puts ops m"
  by (induction n ops r arbitrary: m rule: spec_run.induct)
    (simp_all add: spec_put_le map_of_spec_get)

definition spec_ok :: "int \<Rightarrow> ('k \<times> 'v) list \<Rightarrow> bool" where
  "spec_ok n r \<longleftrightarrow> 0 < n \<and> distinct (map fst r) \<and> int (length r) \<le> n"

lemma distinct_butlast_fst: "distinct (map fst r) \<Longrightarrow> distinct (map fst (butlast r))"
  by (simp add: map_butlast distinct_butlast)

lemma fst_set_butlast: "k \<notin> fst ` set r \<Longrightarrow> k \<notin> fst ` set (butlast r)"
  by (auto dest: in_set_butlastD)

lemma spec_ok_front: "spec_ok n r \<Longrightarrow> k \<in> fst ` set r \<Longrightarrow> spec_ok n ((k, v) # AList.delete k r)"
  using alist_length_delete[of r k] delete_notin_dom[of k r]
  by (simp add: spec_ok_def distinct_delete)

lemma spec_ok_put: "spec_ok n r \<Longrightarrow> spec_ok n (spec_put n k v r)"
  using fst_set_butlast[of k r]
  by (auto simp: spec_put_def spec_ok_front) (auto simp: spec_ok_def distinct_butlast_fst)

lemma spec_ok_get: "spec_ok n r \<Longrightarrow> spec_ok n (spec_get k r)"
  by (cases "map_of r k") (auto simp: spec_get_def intro!: spec_ok_front dest!: map_of_SomeD intro: rev_image_eqI)

text \<open>
  An entry survives while fewer other keys than the capacity have been touched since it was last
  used: only touched keys can be in front of it.
\<close>

definition near :: "'k set \<Rightarrow> 'k \<Rightarrow> 'v \<Rightarrow> ('k \<times> 'v) list \<Rightarrow> bool" where
  "near S k v r \<longleftrightarrow> (\<exists>pre post. r = pre @ (k, v) # post \<and> fst ` set pre \<subseteq> S \<and> k \<notin> fst ` set pre)"

lemma near_lookup: "near S k v r \<Longrightarrow> map_of r k = Some v"
  by (auto simp: near_def map_add_Some_iff map_of_eq_None_iff)

lemma near_front: "near S k v ((k, v) # r)"
  unfolding near_def by (rule exI[of _ "[]"]) auto

lemma near_delete:
  assumes "near S k v r" and "k' \<noteq> k"
  shows "near (insert k' S) k v ((k', v') # AList.delete k' r)"
proof -
  obtain pre post where r: "r = pre @ (k, v) # post" "fst ` set pre \<subseteq> S" "k \<notin> fst ` set pre"
    using assms(1) by (auto simp: near_def)
  show ?thesis
    unfolding near_def using r assms(2)
    by (intro exI[of _ "(k', v') # AList.delete k' pre"] exI[of _ "AList.delete k' post"])
      (auto simp: alist_delete_filter)
qed

lemma near_mono: "near S k v r \<Longrightarrow> S \<subseteq> T \<Longrightarrow> near T k v r"
  unfolding near_def by blast

lemma near_butlast:
  assumes "near S k v r" and "distinct (map fst r)" and "finite S"
    and "k' \<notin> fst ` set r" and "card (insert k' S) < length r"
  shows "near (insert k' S) k v ((k', v') # butlast r)"
proof -
  obtain pre post where r: "r = pre @ (k, v) # post" "fst ` set pre \<subseteq> S" "k \<notin> fst ` set pre"
    using assms(1) by (auto simp: near_def)
  have "post \<noteq> []"
  proof
    assume post: "post = []"
    have "length pre = card (fst ` set pre)"
      using assms(2) r(1) by (metis distinct_append distinct_card length_map list.set_map map_append)
    moreover have "k' \<notin> fst ` set pre" using assms(4) r(1) by auto
    ultimately have "Suc (length pre) = card (insert k' (fst ` set pre))" by simp
    also have "\<dots> \<le> card (insert k' S)"
      using r(2) assms(3) by (intro card_mono) auto
    finally show False using assms(5) r(1) post by simp
  qed
  then have "butlast r = pre @ (k, v) # butlast post" using r(1) by (simp add: butlast_append)
  then show ?thesis
    unfolding near_def using r assms(4)
    by (intro exI[of _ "(k', v') # pre"] exI[of _ "butlast post"]) auto
qed

lemma near_put:
  assumes "near S k v r" and "spec_ok n r" and "finite S" and "k' \<noteq> k"
    and "int (card (insert k' S)) < n"
  shows "near (insert k' S) k v (spec_put n k' v' r)"
proof (cases "k' \<in> fst ` set r")
  case True
  then show ?thesis using near_delete[OF assms(1,4)] by (simp add: spec_put_def)
next
  case False
  show ?thesis
  proof (cases "n = int (length r)")
    case True
    then have "card (insert k' S) < length r" using assms(5) by simp
    then show ?thesis
      using near_butlast[OF assms(1) _ assms(3) False] assms(2) False True
      by (simp add: spec_put_def spec_ok_def)
  next
    case neq: False
    then show ?thesis
      using near_delete[OF assms(1,4), of v'] False by (simp add: spec_put_def)
  qed
qed

lemma near_get:
  assumes "near S k v r"
  shows "near (insert k' S) k v (spec_get k' r)"
proof (cases "k' = k")
  case True
  then show ?thesis
    using near_lookup[OF assms] near_front[of "insert k' S" k v] by (simp add: spec_get_def)
next
  case False
  then show ?thesis
    using near_delete[OF assms False] near_mono[OF assms, of "insert k' S"]
    by (auto simp: spec_get_def split: option.split)
qed

lemma spec_run_near:
  assumes "near S k v r" and "spec_ok n r" and "finite S"
    and "int (card (S \<union> op_key ` set ops)) < n" and "\<forall>w. OpPut k w \<notin> set ops"
  shows "map_of (spec_run n ops r) k = Some v"
  using assms
proof (induction n ops r arbitrary: S rule: spec_run.induct)
  case (1 n r)
  then show ?case by (simp add: near_lookup)
next
  case (2 n k' v' ops r)
  have "card (insert k' S) \<le> card (insert k' (S \<union> op_key ` set ops))"
    using "2.prems"(3) by (intro card_mono) auto
  then have "near (insert k' S) k v (spec_put n k' v' r)"
    using "2.prems" by (intro near_put) auto
  then show ?case
    using "2.prems" by (auto intro!: "2.IH"[of "insert k' S"] simp: spec_ok_put)
next
  case (3 n k' ops r)
  then show ?case
    by (auto intro!: "3.IH"[of "insert k' S"] simp: spec_ok_get near_get)
qed

subsection \<open>The contract of the cache and what its clients get from it\<close>

text \<open>A sequence of calls on a cache with operations \<open>put\<close> and \<open>get\<close>.\<close>

fun cache_run :: "('c \<Rightarrow> 'k \<Rightarrow> 'v \<Rightarrow> 'c res) \<Rightarrow> ('c \<Rightarrow> 'k \<Rightarrow> 'v option \<times> 'c) \<Rightarrow>
    ('k, 'v) lru_op list \<Rightarrow> 'c \<Rightarrow> 'c res" where
  "cache_run put get [] c = Ok c"
| "cache_run put get (OpPut k v # ops) c = rbind (put c k v) (cache_run put get ops)"
| "cache_run put get (OpGet k # ops) c = cache_run put get ops (snd (get c k))"

locale recency_cache =
  fixes put :: "'c \<Rightarrow> 'k \<Rightarrow> 'v \<Rightarrow> 'c res"
    and get :: "'c \<Rightarrow> 'k \<Rightarrow> 'v option \<times> 'c"
    and abs :: "'c \<Rightarrow> ('k \<times> 'v) list"
    and inv :: "'c \<Rightarrow> bool"
    and cap :: "'c \<Rightarrow> int"
  assumes put_spec: "inv c \<Longrightarrow> \<exists>c'. put c k v = Ok c' \<and> inv c' \<and> cap c' = cap c \<and>
      abs c' = spec_put (cap c) k v (abs c)"
    and get_value: "inv c \<Longrightarrow> fst (get c k) = map_of (abs c) k"
    and get_spec: "inv c \<Longrightarrow> inv (snd (get c k)) \<and> cap (snd (get c k)) = cap c \<and>
      abs (snd (get c k)) = spec_get k (abs c)"
    and abs_ok: "inv c \<Longrightarrow> spec_ok (cap c) (abs c)"
begin

lemma run_spec:
  "inv c \<Longrightarrow> \<exists>c'. cache_run put get ops c = Ok c' \<and> inv c' \<and> cap c' = cap c \<and>
     abs c' = spec_run (cap c) ops (abs c)"
proof (induction ops arbitrary: c)
  case Nil
  then show ?case by simp
next
  case (Cons x ops)
  show ?case
  proof (cases x)
    case (OpPut k v)
    with put_spec[OF Cons.prems, of k v] Cons.IH show ?thesis by force
  next
    case (OpGet k)
    with get_spec[OF Cons.prems, of k] Cons.IH[of "snd (get c k)"] show ?thesis by simp
  qed
qed

lemma get_sound:
  assumes "inv c" and "abs c = []" and "cache_run put get ops c = Ok c'" and "fst (get c' k) = Some v"
  shows "last_puts ops Map.empty k = Some v"
proof -
  obtain c'' where c'': "cache_run put get ops c = Ok c''" "inv c''"
      "abs c'' = spec_run (cap c) ops (abs c)"
    using run_spec[OF assms(1)] by blast
  then have "map_of (spec_run (cap c) ops []) k = Some v"
    using assms(2-4) get_value by simp
  moreover have "map_of (spec_run (cap c) ops []) \<subseteq>\<^sub>m last_puts ops Map.empty"
    by (rule spec_run_le) simp
  ultimately show ?thesis by (metis domI map_le_def)
qed

lemma put_retained:
  assumes "inv c" and "put c k v = Ok c1" and "cache_run put get ops c1 = Ok c2"
    and "int (card (op_key ` set ops)) < cap c" and "\<forall>w. OpPut k w \<notin> set ops"
  shows "fst (get c2 k) = Some v"
proof -
  obtain c1' where c1: "put c k v = Ok c1'" "inv c1'" "cap c1' = cap c"
      "abs c1' = spec_put (cap c) k v (abs c)"
    using put_spec[OF assms(1)] by blast
  obtain c2' where c2: "cache_run put get ops c1' = Ok c2'" "inv c2'"
      "abs c2' = spec_run (cap c1') ops (abs c1')"
    using run_spec[OF c1(2)] by blast
  have "near {} k v (abs c1)"
    using assms(2) c1(1,4) near_front by (auto simp: spec_put_def)
  then have "map_of (spec_run (cap c) ops (abs c1)) k = Some v"
    using abs_ok[OF c1(2)] assms c1 by (intro spec_run_near[where S = "{}"]) auto
  then show ?thesis using assms(2,3) c1 c2 get_value by simp
qed

end

lemma lru_spec_ok:
  assumes "lru_inv c"
  shows "spec_ok (lru_capacity c) (lru_abs c)"
proof -
  have "length (lru_abs c) = length (lru_items c)"
    using lru_len[OF assms] by (simp add: lru_abs_def)
  moreover have "0 < lru_capacity c" and "int (length (lru_items c)) \<le> lru_capacity c"
    using assms by (simp_all add: lru_inv_def)
  ultimately show ?thesis using distinct_lru_abs[OF assms] by (simp add: spec_ok_def)
qed

interpretation lru: recency_cache lru_put lru_get lru_abs lru_inv lru_capacity
  by unfold_locales (simp_all add: lru_put_refines lru_get_refines lru_spec_ok)

abbreviation lru_run where
  "lru_run \<equiv> cache_run lru_put lru_get"

text \<open>Facts the components that hold a cache use.\<close>

lemmas lru_facts = lru_put_refines lru_get_refines lookup_lru_abs lru_inv_new lru_abs_new

subsection \<open>Properties\<close>

text \<open>
  C9. Refinement: on a well-formed cache (in particular of positive capacity) \<open>Put\<close> never
  panics, keeps the cache well formed and within its capacity, and acts on the list of entries,
  most recently used first, as the abstract cache does: a known key is moved to the front with
  its new value, a new key is pushed to the front and a full cache drops its last entry.
\<close>

theorem lru_put_correct:
  assumes "lru_inv c"
  shows "\<exists>c'. lru_put c k v = Ok c' \<and> lru_inv c' \<and> int (length (lru_items c')) \<le> lru_capacity c \<and>
    lru_abs c' = spec_put (lru_capacity c) k v (lru_abs c)"
proof -
  obtain c' where c': "lru_put c k v = Ok c'" "lru_inv c'" "lru_capacity c' = lru_capacity c"
      "lru_abs c' = spec_put (lru_capacity c) k v (lru_abs c)"
    using lru_put_refines[OF assms, of k v] by blast
  moreover from c'(2) have "int (length (lru_items c')) \<le> lru_capacity c'" by (simp add: lru_inv_def)
  ultimately show ?thesis by auto
qed

theorem lru_put_correct_witness:
  "\<exists>c'. lru_put (lru_new 2 :: (nat, bool) lru_cache) 7 True = Ok c' \<and> lru_abs c' = [(7, True)]"
proof -
  have "lru_inv (lru_new 2 :: (nat, bool) lru_cache)" by (rule lru_inv_new) simp
  from lru_put_correct[OF this, of 7 True] show ?thesis by (auto simp: spec_put_def)
qed

text \<open>
  Whatever sequence of \<open>Put\<close> and \<open>Get\<close> calls is made on a new cache, none
  of them panics, and a value that a later \<open>Get\<close> returns for a key is the one the last
  \<open>Put\<close> of that key stored: eviction may lose an entry but never serves a stale one.
\<close>

theorem lru_get_last_put:
  assumes "0 < n"
  shows "\<exists>c. lru_run ops (lru_new n) = Ok c \<and>
    (\<forall>v. fst (lru_get c k) = Some v \<longrightarrow> last_puts ops Map.empty k = Some v)"
proof -
  obtain c where c: "lru_run ops (lru_new n :: ('a, 'b) lru_cache) = Ok c"
    using lru.run_spec[OF lru_inv_new[OF assms], of ops] by blast
  have "last_puts ops Map.empty k = Some v" if "fst (lru_get c k) = Some v" for v
    by (rule lru.get_sound[OF lru_inv_new[OF assms] lru_abs_new c that])
  with c show ?thesis by (intro exI[of _ c]) simp
qed

theorem lru_get_last_put_witness:
  "\<exists>c. lru_run [OpPut (1::nat) True, OpPut 2 True, OpPut 1 False] (lru_new 1) = Ok c \<and>
    fst (lru_get c 1) \<noteq> Some True"
proof -
  obtain c where c: "lru_run [OpPut (1::nat) True, OpPut 2 True, OpPut 1 False] (lru_new 1) = Ok c"
      "\<forall>v. fst (lru_get c 1) = Some v \<longrightarrow>
        last_puts [OpPut (1::nat) True, OpPut 2 True, OpPut 1 False] Map.empty 1 = Some v"
    using lru_get_last_put[of 1 "[OpPut (1::nat) True, OpPut 2 True, OpPut 1 False]" 1] by force
  then have "fst (lru_get c 1) \<noteq> Some True" by auto
  with c(1) show ?thesis by blast
qed

text \<open>
  Retention: an entry that was just put is still served after any further calls that do not
  put its key again and that touch fewer distinct keys than the capacity: eviction takes the
  least recently used entry, not a recent one.
\<close>

theorem lru_recent_retained:
  assumes "lru_inv c" and "lru_put c k v = Ok c1" and "lru_run ops c1 = Ok c2"
    and "int (card (op_key ` set ops)) < lru_capacity c" and "\<forall>w. OpPut k w \<notin> set ops"
  shows "fst (lru_get c2 k) = Some v"
  by (rule lru.put_retained[OF assms])

theorem lru_recent_retained_witness:
  "fst (lru_get (the_res (lru_run [OpGet 5] (the_res (lru_put
     (the_res (lru_put (lru_new 2 :: (nat, bool) lru_cache) 5 False)) 2 True)))) 2) = Some True"
proof -
  obtain c where c: "lru_put (lru_new 2 :: (nat, bool) lru_cache) 5 False = Ok c" "lru_inv c"
      "lru_capacity c = 2"
    using lru_put_refines[OF lru_inv_new, of 2 5 False] by auto
  obtain c1 where c1: "lru_put c 2 True = Ok c1" "lru_inv c1"
    using lru_put_refines[OF c(2), of 2 True] by auto
  have "lru_run [OpGet 5] c1 = Ok (snd (lru_get c1 5))" by simp
  from lru_recent_retained[OF c(2) c1(1) this] show ?thesis using c c1 by simp
qed

end
