(* ===== verification/Addr.thy ===== *)
theory Addr
  imports Prelude
begin

section \<open>addr/address.go: account addresses\<close>

text \<open>
  \<open>Address\<close> is an array of 33 bytes, the workchain and the account id; here it is the list
  of its bytes, and \<open>is_addr\<close> says that there are 33. A method that fills its receiver
  returns the new value. What the file calls outside the repository is an argument, the record
  \<open>addr_lib\<close>: the checksum of \<open>sigurn/crc16\<close>, \<open>ParseAddr\<close> and
  \<open>NewAddress\<close> of tonutils, and the decoding of a JSON object with the two string fields
  \<open>hex\<close> and \<open>base64\<close>. \<open>addr_lib_ok\<close> states what the code relies on, and
  \<open>addr_lib_impl\<close> is a library that satisfies it.
\<close>

type_synonym addr = bytes

definition is_addr :: "addr \<Rightarrow> bool" where
  "is_addr x \<longleftrightarrow> length x = 33"

text \<open>An address of tonutils, as its accessors \<open>Type\<close>, \<open>Workchain\<close> and \<open>Data\<close> show it.\<close>

record ton_addr =
  ta_std :: bool
  ta_workchain :: i32
  ta_data :: bytes

record addr_lib =
  al_crc16 :: "bytes \<Rightarrow> u16"
  al_parseAddr :: "string \<Rightarrow> ton_addr res"
  al_newAddress :: "u8 \<Rightarrow> u8 \<Rightarrow> bytes \<Rightarrow> ton_addr"
  al_jsonBoth :: "string \<Rightarrow> (string \<times> string) res"

subsection \<open>Base64\<close>

text \<open>\<open>base64.RawURLEncoding\<close>: no padding, minus and underscore as the last two digits.\<close>

definition b64_char :: "nat \<Rightarrow> char" where
  "b64_char d = char_of (if d < 26 then 65 + d else if d < 52 then 71 + d
     else if d < 62 then d - 4 else if d = 62 then 45 else 95)"

fun b64_encode :: "bytes \<Rightarrow> string" where
  "b64_encode (a # b # c # bs) =
     (let n = unat a * 65536 + unat b * 256 + unat c
      in b64_char (n div 262144) # b64_char (n div 4096 mod 64) # b64_char (n div 64 mod 64)
         # b64_char (n mod 64) # b64_encode bs)"
| "b64_encode [a, b] =
     (let n = unat a * 65536 + unat b * 256
      in [b64_char (n div 262144), b64_char (n div 4096 mod 64), b64_char (n div 64 mod 64)])"
| "b64_encode [a] =
     (let n = unat a * 65536 in [b64_char (n div 262144), b64_char (n div 4096 mod 64)])"
| "b64_encode [] = []"

definition be16 :: "u16 \<Rightarrow> bytes" where
  "be16 c = [ucast (drop_bit 8 c), ucast c]"

subsection \<open>The methods of an address\<close>

definition addr_workchain :: "addr \<Rightarrow> i8" where
  "addr_workchain x = x ! 0"

definition from_tonutils :: "ton_addr \<Rightarrow> addr res" where
  "from_tonutils a =
     (if length (ta_data a) \<noteq> 32 then Err (ErrText ''wrong addr data length'')
      else Ok (ucast (ta_workchain a) # ta_data a))"

text \<open>The pointer that \<open>MustFromTonutils\<close> returns is nil for an external or variable address.\<close>

definition must_from_tonutils :: "ton_addr \<Rightarrow> addr option res" where
  "must_from_tonutils a =
     (if \<not> ta_std a then Ok None
      else (case from_tonutils a of
              Ok x \<Rightarrow> Ok (Some x)
            | Err e \<Rightarrow> Panic (err_text e)
            | Panic p \<Rightarrow> Panic p))"

text \<open>\<open>*addr.MustFromTonutils(a)\<close>, the form its callers use.\<close>

definition deref_from_tonutils :: "ton_addr \<Rightarrow> addr res" where
  "deref_from_tonutils a =
     rbind (must_from_tonutils a)
       (\<lambda>p. case p of None \<Rightarrow> Panic ''nil pointer dereference'' | Some x \<Rightarrow> Ok x)"

definition addr_checksum :: "addr_lib \<Rightarrow> addr \<Rightarrow> u16" where
  "addr_checksum L x = al_crc16 L (0x11 # x)"

definition addr_string :: "addr \<Rightarrow> string" where
  "addr_string x = show_int (sint (x ! 0)) @ '':'' @ hex_encode (drop 1 x)"

definition from_string :: "addr_lib \<Rightarrow> string \<Rightarrow> addr res" where
  "from_string L str =
     (case str_split CHR '':'' str of
        [s0, s1] \<Rightarrow>
          rbind (rwrap ''parse address workchain int8'' (parse_int 10 8 s0)) (\<lambda>w.
          rbind (rwrap ''parse address data hex'' (hex_decode s1)) (\<lambda>d.
          from_tonutils (al_newAddress L 0 (word_of_int w) d)))
      | _ \<Rightarrow> Err (ErrText ''wrong address format''))"

definition must_from_string :: "addr_lib \<Rightarrow> string \<Rightarrow> addr res" where
  "must_from_string L str =
     (case from_string L str of Ok x \<Rightarrow> Ok x | Err e \<Rightarrow> Panic (err_text (Wrap e str)) | Panic p \<Rightarrow> Panic p)"

definition addr_base64 :: "addr_lib \<Rightarrow> addr \<Rightarrow> string" where
  "addr_base64 L x = b64_encode (0x11 # x @ be16 (addr_checksum L x))"

definition to_tonutils :: "addr_lib \<Rightarrow> addr \<Rightarrow> ton_addr res" where
  "to_tonutils L x = al_parseAddr L (addr_base64 L x)"

definition must_to_tonutils :: "addr_lib \<Rightarrow> addr \<Rightarrow> ton_addr res" where
  "must_to_tonutils L x =
     (case to_tonutils L x of
        Ok a \<Rightarrow> Ok a | Err e \<Rightarrow> Panic (err_text (Wrap e (addr_string x))) | Panic p \<Rightarrow> Panic p)"

definition from_base64 :: "addr_lib \<Rightarrow> string \<Rightarrow> addr res" where
  "from_base64 L s = rbind (al_parseAddr L s) from_tonutils"

definition must_from_base64 :: "addr_lib \<Rightarrow> string \<Rightarrow> addr res" where
  "must_from_base64 L s =
     (case from_base64 L s of Ok x \<Rightarrow> Ok x | Err e \<Rightarrow> Panic ''to address'' | Panic p \<Rightarrow> Panic p)"

subsection \<open>JSON and SQL\<close>

text \<open>The two strings hold no character that \<open>json.Marshal\<close> escapes.\<close>

definition addr_marshal :: "addr_lib \<Rightarrow> addr \<Rightarrow> string" where
  "addr_marshal L x =
     ''{\"hex\":\"'' @ addr_string x @ ''\",\"base64\":\"'' @ addr_base64 L x @ ''\"}''"

text \<open>\<open>strings.Replace(s, quote, empty, n)\<close> and \<open>strings.TrimSpace\<close> (the ASCII blanks).\<close>

fun drop_quotes :: "nat \<Rightarrow> string \<Rightarrow> string" where
  "drop_quotes n [] = []"
| "drop_quotes 0 s = s"
| "drop_quotes (Suc n) (c # cs) =
     (if c = CHR 0x22 then drop_quotes n cs else c # drop_quotes (Suc n) cs)"

definition is_blank :: "char \<Rightarrow> bool" where
  "is_blank c \<longleftrightarrow> c \<in> {CHR 0x09, CHR 0x0A, CHR 0x0B, CHR 0x0C, CHR 0x0D, CHR '' ''}"

definition trim_space :: "string \<Rightarrow> string" where
  "trim_space s = rev (dropWhile is_blank (rev (dropWhile is_blank s)))"

text \<open>The receiver is filled by the first of the two parsers that accepts.\<close>

definition first_addr :: "addr res \<Rightarrow> addr res \<Rightarrow> addr res" where
  "first_addr p q =
     (case p of
        Ok x \<Rightarrow> Ok x
      | Panic m \<Rightarrow> Panic m
      | Err e \<Rightarrow> (case q of Ok x \<Rightarrow> Ok x | Panic m \<Rightarrow> Panic m
                 | Err e \<Rightarrow> Err (ErrText ''cannot unmarshal to address'')))"

definition addr_unmarshal :: "addr_lib \<Rightarrow> string \<Rightarrow> addr res" where
  "addr_unmarshal L raw =
     (let s = trim_space (drop_quotes 2 raw)
      in if s \<noteq> [] \<and> hd s = CHR ''{''
         then rbind (al_jsonBoth L raw)
                (\<lambda>(h, b). first_addr (from_base64 L b) (from_string L h))
         else first_addr (from_base64 L s) (from_string L s))"

definition addr_unmarshal_text :: "addr_lib \<Rightarrow> string \<Rightarrow> addr res" where
  "addr_unmarshal_text L data = addr_unmarshal L data"

text \<open>A column: NULL, bytes or text (other driver values as the text they convert to), or a
  value that does not convert to a string.\<close>

datatype db_value = DbNull | DbRaw bytes | DbBad goerr

definition addr_value :: "addr option \<Rightarrow> db_value" where
  "addr_value p =
     (case p of None \<Rightarrow> DbNull
      | Some x \<Rightarrow> if list_all (\<lambda>i. i = 0) x then DbNull else DbRaw x)"

text \<open>\<open>sql.NullString.Scan\<close>: the string and whether it is valid.\<close>

fun null_string_scan :: "db_value \<Rightarrow> (bytes \<times> bool) res" where
  "null_string_scan DbNull = Ok ([], False)"
| "null_string_scan (DbRaw b) = Ok (b, True)"
| "null_string_scan (DbBad e) = Err e"

definition addr_scan :: "addr \<Rightarrow> db_value \<Rightarrow> addr res" where
  "addr_scan x v =
     (if v = DbNull then Ok x
      else rbind (null_string_scan v) (\<lambda>(s, valid).
        if \<not> valid then Err (ErrText ''error converting type into address'')
        else if length s \<noteq> 33 then Err (ErrText ''wrong address length'')
        else Ok s))"

definition addr_equal :: "addr option \<Rightarrow> addr option \<Rightarrow> bool" where
  "addr_equal x y =
     (case (x, y) of (Some a, Some b) \<Rightarrow> a = b | _ \<Rightarrow> False)"

subsection \<open>What the code relies on, and a library that provides it\<close>

text \<open>
  \<open>NewAddress\<close> makes a standard address of the data, with the workchain byte sign
  extended; \<open>ParseAddr\<close> reads the user-friendly form of 48 characters when its checksum
  is right and refuses texts of another length; decoding the object that
  \<open>MarshalJSON\<close> writes gives its two fields.
\<close>

definition addr_lib_ok :: "addr_lib \<Rightarrow> bool" where
  "addr_lib_ok L \<longleftrightarrow>
     (\<forall>f w d. al_newAddress L f w d = \<lparr>ta_std = True, ta_workchain = scast w, ta_data = d\<rparr>) \<and>
     (\<forall>w d. length d = 32 \<longrightarrow>
        al_parseAddr L (b64_encode (0x11 # w # d @ be16 (al_crc16 L (0x11 # w # d)))) =
          Ok \<lparr>ta_std = True, ta_workchain = scast w, ta_data = d\<rparr>) \<and>
     (\<forall>s a. al_parseAddr L s = Ok a \<longrightarrow> length s = 48) \<and> (\<forall>s m. al_parseAddr L s \<noteq> Panic m) \<and>
     (\<forall>h b. CHR 0x22 \<notin> set (h @ b) \<longrightarrow>
        al_jsonBoth L (''{\"hex\":\"'' @ h @ ''\",\"base64\":\"'' @ b @ ''\"}'') = Ok (h, b))"

definition b64_val :: "char \<Rightarrow> nat" where
  "b64_val c =
     (let n = of_char c :: nat in
      if n = 45 then 62 else if n = 95 then 63 else if n < 58 then n + 4
      else if n < 91 then n - 65 else n - 71)"

fun b64_decode4 :: "string \<Rightarrow> bytes" where
  "b64_decode4 (a # b # c # d # cs) =
     (let n = b64_val a * 262144 + b64_val b * 4096 + b64_val c * 64 + b64_val d
      in word_of_nat (n div 65536) # word_of_nat (n div 256 mod 256) # word_of_nat (n mod 256)
         # b64_decode4 cs)"
| "b64_decode4 cs = []"

fun crc16_step :: "nat \<Rightarrow> u16 \<Rightarrow> u16" where
  "crc16_step 0 c = c"
| "crc16_step (Suc n) c =
     crc16_step n (if 0x8000 \<le> c then push_bit 1 c XOR 0x1021 else push_bit 1 c)"

definition crc16_xmodem :: "bytes \<Rightarrow> u16" where
  "crc16_xmodem bs = foldl (\<lambda>c b. crc16_step 8 (c XOR push_bit 8 (ucast b))) 0 bs"

definition addr_lib_impl :: addr_lib where
  "addr_lib_impl = \<lparr>
     al_crc16 = crc16_xmodem,
     al_parseAddr = (\<lambda>s.
       if length s \<noteq> 48 then Err (ErrExt ''incorrect address data'')
       else let bs = b64_decode4 s; w = bs ! 1; d = take 32 (drop 2 bs)
            in if drop 34 bs \<noteq> be16 (crc16_xmodem (take 34 bs)) then Err (ErrExt ''incorrect checksum'')
               else Ok \<lparr>ta_std = True, ta_workchain = scast w, ta_data = d\<rparr>),
     al_newAddress = (\<lambda>f w d. \<lparr>ta_std = True, ta_workchain = scast w, ta_data = d\<rparr>),
     al_jsonBoth = (\<lambda>s. case str_split CHR 0x22 s of
         [_, _, _, h, _, _, _, b, _] \<Rightarrow> Ok (h, b)
       | _ \<Rightarrow> Err (ErrExt ''invalid JSON''))\<rparr>"

lemma b64_val_char: "d < 64 \<Longrightarrow> b64_val (b64_char d) = d"
  by (auto simp: b64_val_def b64_char_def Let_def)

lemma b64_group:
  assumes "a < 256" and "b < 256" and "c < (256 :: nat)"
  defines "n \<equiv> a * 65536 + b * 256 + c"
  shows "n div 262144 * 262144 + n div 4096 mod 64 * 4096 + n div 64 mod 64 * 64 + n mod 64 = n"
    and "n div 65536 = a" and "n div 256 mod 256 = b" and "n mod 256 = c" and "n div 262144 < 64"
proof -
  have "n div 262144 = n div 4096 div 64" and "n div 4096 = n div 64 div 64"
    by (simp_all flip: div_mult2_eq)
  then show "n div 262144 * 262144 + n div 4096 mod 64 * 4096 + n div 64 mod 64 * 64 + n mod 64 = n"
    using div_mult_mod_eq[of n 64] div_mult_mod_eq[of "n div 64" 64]
      div_mult_mod_eq[of "n div 4096" 64] by linarith
  have n: "n = c + (a * 256 + b) * 256" by (simp add: n_def)
  have "n mod 256 = c" using assms(3) by (simp only: n mod_mult_self1 mod_less)
  moreover have "n div 256 = a * 256 + b"
    using assms(3) by (simp only: n div_mult_self1[of 256, simplified] div_less add_0_right)
  ultimately have "n mod 256 = c" and "n div 256 = a * 256 + b" by blast+
  with assms(2) show "n mod 256 = c" and "n div 256 mod 256 = b" by simp_all
  show "n div 65536 = a" and "n div 262144 < 64" using assms by (simp_all add: n_def)
qed

lemma length_b64: "length bs = 3 * n \<Longrightarrow> length (b64_encode bs) = 4 * n"
proof (induction n arbitrary: bs)
  case (Suc n)
  then obtain a b c cs where "bs = a # b # c # cs" and "length cs = 3 * n"
    by (auto simp: length_Suc_conv numeral_3_eq_3)
  with Suc.IH show ?case by (simp add: Let_def)
qed simp

lemma b64_decode_encode: "length bs = 3 * n \<Longrightarrow> b64_decode4 (b64_encode bs) = bs"
proof (induction n arbitrary: bs)
  case (Suc n)
  then obtain a b c cs where bs: "bs = a # b # c # cs" and "length cs = 3 * n"
    by (auto simp: length_Suc_conv numeral_3_eq_3)
  with Suc.IH have "b64_decode4 (b64_encode cs) = cs" by blast
  moreover note b64_group[OF unat_byte unat_byte unat_byte, of a b c]
  ultimately show ?case by (simp add: bs Let_def b64_val_char)
qed simp

lemma length_be16 [simp]: "length (be16 c) = 2"
  by (simp add: be16_def)

lemma addr_lib_impl_ok: "addr_lib_ok addr_lib_impl"
proof -
  have parse: "al_parseAddr addr_lib_impl (b64_encode (0x11 # w # d @ be16 (crc16_xmodem (0x11 # w # d)))) =
      Ok \<lparr>ta_std = True, ta_workchain = scast w, ta_data = d\<rparr>" if "length d = 32" for w d
  proof -
    let ?bs = "0x11 # w # d @ be16 (crc16_xmodem (0x11 # w # d))"
    have "length ?bs = 3 * 12" using that by simp
    from b64_decode_encode[OF this] length_b64[OF this] that show ?thesis
      by (simp add: addr_lib_impl_def Let_def)
  qed
  have json: "al_jsonBoth addr_lib_impl (''{\"hex\":\"'' @ h @ ''\",\"base64\":\"'' @ b @ ''\"}'') = Ok (h, b)"
    if "CHR 0x22 \<notin> set (h @ b)" for h b
    using that by (simp add: addr_lib_impl_def str_split_app)
  show ?thesis
    unfolding addr_lib_ok_def
    using parse json by (auto simp: addr_lib_impl_def Let_def split: if_splits)
qed

subsection \<open>Properties\<close>

lemma sint_byte: "- 128 \<le> sint (b :: 8 word)" "sint (b :: 8 word) < 128"
  using sint_range_size[of b] by (simp_all add: word_size)

lemma byte_range: "- (2 ^ (8 - 1)) \<le> sint (b :: 8 word)" "sint (b :: 8 word) < 2 ^ (8 - 1)"
  using sint_byte[of b] by simp_all

lemma word_of_sint: "word_of_int (sint (b :: 8 word)) = b"
  by simp

lemma ucast_scast_byte [simp]: "ucast (scast (b :: 8 word) :: 32 word) = b"
proof (rule bit_eqI)
  fix n
  assume "possible_bit TYPE(8 word) n"
  then have "min 7 n = n" and "n < 8" by simp_all
  then show "bit (ucast (scast b :: 32 word) :: 8 word) n = bit b n" by (simp add: bit_simps)
qed

lemma is_addrE:
  assumes "is_addr x"
  obtains w d where "x = w # d" and "length d = 32"
  using assms by (cases x) (auto simp: is_addr_def)

lemma colon_free: "CHR '':'' \<notin> set (show_int i)" "CHR '':'' \<notin> set (hex_encode bs)"
  using show_int_chars[of "CHR '':''" i] hex_encode_digits[of "CHR '':''" bs]
  by (auto simp: digit_val_def)

lemma from_string_string:
  assumes "addr_lib_ok L" and "is_addr x"
  shows "from_string L (addr_string x) = Ok x"
proof -
  obtain w d where x: "x = w # d" "length d = 32" by (rule is_addrE[OF assms(2)])
  have "str_split CHR '':'' (addr_string x) = [show_int (sint w), hex_encode d]"
    using colon_free by (simp add: addr_string_def x str_split_app str_split_none)
  moreover have "al_newAddress L 0 w d = \<lparr>ta_std = True, ta_workchain = scast w, ta_data = d\<rparr>"
    using assms(1) by (simp add: addr_lib_ok_def)
  moreover have "parse_int 10 8 (show_int (sint w)) = Ok (sint w)"
    by (rule parse_int_show) (use byte_range[of w] in simp_all)
  ultimately show ?thesis using x
    by (simp add: from_string_def hex_decode_encode from_tonutils_def)
qed

lemma from_base64_base64:
  assumes "addr_lib_ok L" and "is_addr x"
  shows "from_base64 L (addr_base64 L x) = Ok x"
proof -
  obtain w d where x: "x = w # d" "length d = 32" by (rule is_addrE[OF assms(2)])
  with assms(1) show ?thesis
    by (simp add: addr_lib_ok_def from_base64_def addr_base64_def addr_checksum_def from_tonutils_def)
qed

lemma from_base64_long:
  assumes "addr_lib_ok L" and "length s \<noteq> 48"
  shows "\<exists>e. from_base64 L s = Err e"
  using assms by (cases "al_parseAddr L s") (auto simp: addr_lib_ok_def from_base64_def)

lemma from_string_length: "from_string L s = Ok x \<Longrightarrow> is_addr x"
  by (auto simp: from_string_def from_tonutils_def is_addr_def split: list.splits if_splits)

text \<open>
  C27. Round trip of the raw form: printing an address as workchain and hexadecimal account id
  and reading it back gives the address, for every workchain byte from -128 to 127; and
  whatever text \<open>FromString\<close> accepts, the address it returns has 33 bytes and prints to a
  text that reads back to the same address.
\<close>

theorem addr_string_roundtrip:
  assumes "addr_lib_ok L"
  shows "(is_addr x \<longrightarrow> from_string L (addr_string x) = Ok x) \<and>
    (from_string L s = Ok y \<longrightarrow> is_addr y \<and> from_string L (addr_string y) = Ok y)"
  using from_string_string[OF assms] from_string_length by blast

text \<open>An account of the masterchain, of which the workchain prints as -1.\<close>

definition elector_addr :: addr where
  "elector_addr = 0xff # replicate 32 0x33"

lemma is_addr_elector [simp]: "is_addr elector_addr"
  by (simp add: is_addr_def elector_addr_def)

theorem addr_string_roundtrip_witness:
  "from_string addr_lib_impl (''-1:'' @ concat (replicate 32 ''33'')) = Ok elector_addr"
proof -
  have "addr_string elector_addr = ''-1:'' @ concat (replicate 32 ''33'')" by code_simp
  with addr_string_roundtrip[OF addr_lib_impl_ok, of elector_addr] show ?thesis by simp
qed

lemma b64_char_plain: "d < 64 \<Longrightarrow> b64_char d \<notin> {CHR 0x22, CHR ''{''} \<and> \<not> is_blank (b64_char d)"
proof -
  assume "d < 64"
  then have "of_char (b64_char d) \<notin> {9, 10, 11, 12, 13, 32, 34, 123 :: nat}"
    by (auto simp: b64_char_def)
  then show ?thesis by (auto simp: is_blank_def)
qed

lemma b64_ex: "x < 64 \<Longrightarrow> \<exists>d < 64. b64_char x = b64_char d"
  by blast

lemma b64_encode_chars: "c \<in> set (b64_encode bs) \<Longrightarrow> \<exists>d < 64. c = b64_char d"
proof (induction bs rule: b64_encode.induct)
  case (1 a b c bs)
  then show ?case using b64_group(5)[OF unat_byte unat_byte unat_byte, of a b c]
    by (auto simp: Let_def intro!: b64_ex)
next
  case (2 a b)
  then show ?case using b64_group(5)[OF unat_byte unat_byte, of 0 a b]
    by (auto simp: Let_def intro!: b64_ex)
next
  case (3 a)
  then show ?case using b64_group(5)[OF unat_byte, of 0 0 a]
    by (auto simp: Let_def intro!: b64_ex)
qed simp

definition plain_text :: "string \<Rightarrow> bool" where
  "plain_text s \<longleftrightarrow> s \<noteq> [] \<and> CHR 0x22 \<notin> set s \<and> hd s \<noteq> CHR ''{'' \<and> (\<forall>c \<in> set s. \<not> is_blank c)"

lemma dropWhile_id: "(\<forall>c \<in> set s. \<not> P c) \<Longrightarrow> dropWhile P s = s"
  by (cases s) auto

lemma trim_plain: "\<forall>c \<in> set s. \<not> is_blank c \<Longrightarrow> trim_space s = s"
  by (simp add: trim_space_def dropWhile_id)

lemma trim_space_head:
  assumes "\<not> is_blank c"
  shows "\<exists>t'. trim_space (c # t) = c # t'"
proof -
  have "dropWhile is_blank (ys @ [c]) = dropWhile is_blank ys @ [c]" for ys
    using assms by (induction ys) auto
  with assms show ?thesis by (simp add: trim_space_def)
qed

lemma drop_quotes_keep: "c \<noteq> CHR 0x22 \<Longrightarrow> drop_quotes 2 (c # cs) = c # drop_quotes 2 cs"
  by (simp add: numeral_2_eq_2)

lemma drop_quotes_none: "CHR 0x22 \<notin> set s \<Longrightarrow> drop_quotes n s = s"
  by (induction n s rule: drop_quotes.induct) auto

lemma drop_quotes_quoted:
  "CHR 0x22 \<notin> set s \<Longrightarrow> drop_quotes 2 (CHR 0x22 # s @ [CHR 0x22]) = s"
proof -
  assume "CHR 0x22 \<notin> set s"
  then have "drop_quotes (Suc 0) (s @ [CHR 0x22]) = s" by (induction s) auto
  then show ?thesis by (simp add: numeral_2_eq_2)
qed

lemma addr_unmarshal_plain:
  assumes "plain_text s"
  shows "addr_unmarshal L s = first_addr (from_base64 L s) (from_string L s)"
    and "addr_unmarshal L (CHR 0x22 # s @ [CHR 0x22]) = first_addr (from_base64 L s) (from_string L s)"
  using assms by (simp_all add: addr_unmarshal_def plain_text_def drop_quotes_none drop_quotes_quoted
      trim_plain)

lemma plain_base64:
  assumes "is_addr x"
  shows "plain_text (addr_base64 L x)"
proof -
  have len: "length (addr_base64 L x) = 48"
    using assms length_b64[of _ 12] by (simp add: addr_base64_def is_addr_def)
  have c: "c \<notin> {CHR 0x22, CHR ''{''} \<and> \<not> is_blank c" if m: "c \<in> set (addr_base64 L x)" for c
  proof -
    obtain d where "d < 64" "c = b64_char d"
      using b64_encode_chars[OF m[unfolded addr_base64_def]] by blast
    with b64_char_plain show ?thesis by simp
  qed
  moreover have "addr_base64 L x \<noteq> []" using len by auto
  ultimately show ?thesis using hd_in_set unfolding plain_text_def by blast
qed

lemma show_int_plain:
  assumes "c \<in> set (show_int i)"
  shows "c \<notin> {CHR 0x22, CHR ''{''} \<and> \<not> is_blank c"
proof -
  have "digit_val c \<noteq> None \<or> c = CHR ''-''" using assms show_int_chars by blast
  then show ?thesis by (auto simp: digit_val_def is_blank_def)
qed

lemma plain_string: "plain_text (addr_string x)"
proof -
  have c: "c \<notin> {CHR 0x22, CHR ''{''} \<and> \<not> is_blank c" if "c \<in> set (addr_string x)" for c
    using that hex_encode_digits[of c "drop 1 x"] show_int_plain[of c "sint (x ! 0)"]
    by (auto simp: addr_string_def digit_val_def is_blank_def)
  moreover have "addr_string x \<noteq> []" by (simp add: addr_string_def)
  ultimately show ?thesis using hd_in_set unfolding plain_text_def by blast
qed

lemma length_addr_string: "is_addr x \<Longrightarrow> 64 < length (addr_string x)"
  by (simp add: addr_string_def is_addr_def)

lemma first_addr_unmarshal:
  assumes "addr_lib_ok L" and "is_addr x"
  shows "first_addr (from_base64 L (addr_base64 L x)) q = Ok x"
    and "first_addr (from_base64 L (addr_string x)) (from_string L (addr_string x)) = Ok x"
proof -
  show "first_addr (from_base64 L (addr_base64 L x)) q = Ok x"
    using from_base64_base64[OF assms] by (simp add: first_addr_def)
  obtain e where "from_base64 L (addr_string x) = Err e"
    using from_base64_long[OF assms(1), of "addr_string x"] length_addr_string[OF assms(2)] by auto
  then show "first_addr (from_base64 L (addr_string x)) (from_string L (addr_string x)) = Ok x"
    using from_string_string[OF assms] by (simp add: first_addr_def)
qed

lemma addr_unmarshal_marshal:
  assumes "addr_lib_ok L" and "is_addr x"
  shows "addr_unmarshal L (addr_marshal L x) = Ok x"
proof -
  have "CHR 0x22 \<notin> set (addr_string x @ addr_base64 L x)"
    using plain_string plain_base64[OF assms(2)] by (simp add: plain_text_def)
  then have "al_jsonBoth L (addr_marshal L x) = Ok (addr_string x, addr_base64 L x)"
    using assms(1) by (simp add: addr_lib_ok_def addr_marshal_def)
  moreover obtain t where "trim_space (drop_quotes 2 (addr_marshal L x)) = CHR ''{'' # t"
  proof -
    obtain r where "addr_marshal L x = CHR ''{'' # r" by (simp add: addr_marshal_def)
    then have "drop_quotes 2 (addr_marshal L x) = CHR ''{'' # drop_quotes 2 r"
      by (simp add: drop_quotes_keep)
    moreover obtain t' where "trim_space (CHR ''{'' # drop_quotes 2 r) = CHR ''{'' # t'"
      using trim_space_head[of "CHR ''{''" "drop_quotes 2 r"] by (auto simp: is_blank_def)
    ultimately show ?thesis using that by simp
  qed
  ultimately show ?thesis
    using first_addr_unmarshal(1)[OF assms] by (simp add: addr_unmarshal_def)
qed

text \<open>
  The JSON forms: decoding what \<open>MarshalJSON\<close> writes gives the address back, and so
  does decoding either of the two texts that the object holds, the base64 form and the raw form,
  with quotes (a JSON string) or without (a query parameter).
\<close>

theorem addr_json_roundtrip:
  assumes "addr_lib_ok L" and "is_addr x" and "s \<in> {addr_base64 L x, addr_string x}"
  shows "addr_unmarshal L (addr_marshal L x) = Ok x \<and> addr_unmarshal L s = Ok x \<and>
    addr_unmarshal_text L (CHR 0x22 # s @ [CHR 0x22]) = Ok x"
proof -
  have "plain_text s" using assms(3) plain_string plain_base64[OF assms(2)] by auto
  moreover have "first_addr (from_base64 L s) (from_string L s) = Ok x"
    using assms(3) first_addr_unmarshal[OF assms(1,2)] by auto
  ultimately show ?thesis
    using addr_unmarshal_marshal[OF assms(1,2)] by (simp add: addr_unmarshal_text_def addr_unmarshal_plain)
qed

theorem addr_json_roundtrip_witness:
  "addr_unmarshal addr_lib_impl (''-1:'' @ concat (replicate 32 ''33'')) = Ok elector_addr"
proof -
  have "addr_string elector_addr = ''-1:'' @ concat (replicate 32 ''33'')" by code_simp
  moreover have "addr_unmarshal addr_lib_impl (addr_string elector_addr) = Ok elector_addr"
    using addr_json_roundtrip[OF addr_lib_impl_ok is_addr_elector, of "addr_string elector_addr"]
    by blast
  ultimately show ?thesis by (simp only:)
qed

text \<open>
  The database column: an address that is not all zero is read back as it was written,
  whatever the receiver held before. The all-zero address (the masterchain burn address of
  workchain 0) is written as NULL and reading NULL leaves the receiver as it was, so it is read
  back as zero only into a fresh one. Text of another length than 33 is refused.
\<close>

theorem addr_column_roundtrip:
  assumes "is_addr x"
  shows "addr_scan y (addr_value (Some x)) = Ok (if x = replicate 33 0 then y else x)"
proof (cases "list_all (\<lambda>i. i = 0) x")
  case True
  then have "x = replicate 33 0"
    using assms by (simp add: is_addr_def list_all_iff flip: replicate_length_same)
      (metis in_set_conv_nth nth_equalityI length_replicate nth_replicate)
  with True show ?thesis by (simp add: addr_value_def addr_scan_def)
next
  case False
  then have "x \<noteq> replicate 33 0" by (auto simp: list_all_iff)
  with False assms show ?thesis by (simp add: addr_value_def addr_scan_def is_addr_def)
qed

theorem addr_column_roundtrip_witness:
  "addr_scan [] (addr_value (Some elector_addr)) = Ok elector_addr"
proof -
  have "elector_addr \<noteq> replicate 33 0" by code_simp
  with addr_column_roundtrip[OF is_addr_elector, of "[]"] show ?thesis by simp
qed

end
