(* ===== verification/Core.thy ===== *)
theory Core
  imports Addr
begin

section \<open>The domain types of internal/core and abi\<close>

text \<open>
  The records the services exchange, field by field. An optional pointer is an \<open>option\<close>, a
  byte slice is the list of its bytes (nil and the empty slice are the empty list), a big
  integer is an \<open>int\<close>, a map the code ranges over is an association list. Of the types of
  other modules only the data is modelled: a block identifier of tonutils, and a cell as its bits
  and references. What is done with a cell (its hash, its serialisation, reading its bits) is the
  record \<open>cell_lib\<close>, an argument of the functions that use it.
\<close>

subsection \<open>Blocks and cells of tonutils\<close>

record block_ext =
  be_workchain :: i32
  be_shard :: i64
  be_seqno :: u32
  be_root :: bytes
  be_file :: bytes

datatype cell = Cell (cell_bits: "bool list") (cell_refs: "cell list") (cell_library: bool)

text \<open>A slice is the rest of a cell that has not been read. A read returns the value and the rest.\<close>

type_synonym slice = cell

text \<open>A dictionary is its entries, key and value; its order is the library's.\<close>

type_synonym dict = "(slice \<times> slice) list"

record cell_lib =
  cl_hash :: "cell \<Rightarrow> bytes"
  cl_toBOC :: "cell \<Rightarrow> bytes"
  cl_fromBOC :: "bytes \<Rightarrow> cell res"
  cl_loadUInt :: "nat \<Rightarrow> slice \<Rightarrow> (nat \<times> slice) res"
  cl_loadSlice :: "nat \<Rightarrow> slice \<Rightarrow> (bytes \<times> slice) res"
  cl_loadSnake :: "slice \<Rightarrow> string res"
  cl_loadBinarySnake :: "slice \<Rightarrow> bytes res"
  cl_loadRef :: "slice \<Rightarrow> (cell \<times> slice) res"
  cl_toDict :: "nat \<Rightarrow> cell \<Rightarrow> dict res"
  cl_dictAll :: "dict \<Rightarrow> (slice \<times> slice) list res"
  cl_dictGet :: "dict \<Rightarrow> int \<Rightarrow> slice res"
  cl_toCell :: "slice \<Rightarrow> cell res"

subsection \<open>abi: descriptions\<close>

type_synonym contract_name = string
type_synonym tlb_type = string

datatype tlb_field = TLBField
  (tf_name: string) (tf_type: string) (tf_format: tlb_type) (tf_optional: bool) (tf_fields: "tlb_field list")

type_synonym tlb_fields = "tlb_field list"

record vm_value_desc =
  vd_name :: string
  vd_stack_type :: string
  vd_format :: tlb_type
  vd_fields :: tlb_fields

record get_method_desc =
  gm_name :: string
  gm_arguments :: "vm_value_desc list"
  gm_returns :: "vm_value_desc list"

record operation_desc =
  od_name :: string
  od_code :: string
  od_type :: string
  od_body :: tlb_fields

text \<open>
  A value of type \<open>any\<close> that get methods receive and return, with the dynamic types the code
  makes or tests for; \<open>PContent\<close> is NFT content (its URI and, on chain, its named
  attributes), \<open>PDedust\<close> an asset of DeDust, \<open>PParsed\<close> a struct made by reflection, as the text it marshals to.
\<close>

datatype nft_content_any =
    ContentOffchain string
  | ContentOnchain "(string \<times> bytes) list"
  | ContentSemichain string "(string \<times> bytes) list"

datatype dedust_asset = AssetNative | AssetJetton i8 bytes | AssetExtra i32

datatype payload =
    PNil
  | PBigInt int
  | PUInt8 u8 | PUInt16 u16 | PUInt32 u32 | PUInt64 u64
  | PInt8 i8 | PInt16 i16 | PInt32 i32 | PInt64 i64
  | PBool bool
  | PBytes bytes
  | PString string
  | PCell "cell option"
  | PSlice "slice option"
  | PAddr ton_addr
  | PContent "nft_content_any option"
  | PDedust "dedust_asset option"
  | PParsed string

record get_method_execution =
  ge_name :: string
  ge_address :: "addr option"
  ge_arguments :: "vm_value_desc list"
  ge_receives :: "payload list"
  ge_return_values :: "vm_value_desc list"
  ge_returns :: "payload list"
  ge_error :: string

subsection \<open>Accounts\<close>

datatype account_status = Uninit | Active | Frozen | NonExist | StatusOther string

record address_label =
  lb_address :: addr
  lb_name :: string
  lb_categories :: "string list"

record nft_content =
  nc_uri :: string
  nc_name :: string
  nc_description :: string
  nc_image :: string
  nc_image_data :: bytes

record account_state_id =
  ai_address :: addr
  ai_last_tx_lt :: u64

record block_id =
  bi_workchain :: i32
  bi_shard :: i64
  bi_seqno :: u32

record account_state =
  acc_address :: addr
  acc_label :: "address_label option"
  acc_workchain :: i32
  acc_shard :: i64
  acc_block_seqno :: u32
  acc_is_active :: bool
  acc_status :: account_status
  acc_balance :: "int option"
  acc_last_tx_lt :: u64
  acc_last_tx_hash :: bytes
  acc_state_hash :: bytes
  acc_code :: bytes
  acc_code_hash :: bytes
  acc_data :: bytes
  acc_data_hash :: bytes
  acc_libraries :: bytes
  acc_get_method_hashes :: "i32 list"
  acc_types :: "contract_name list"
  acc_owner :: "addr option"
  acc_minter :: "addr option"
  acc_fake :: bool
  acc_executed :: "(contract_name \<times> get_method_execution list) list option"
  acc_nft_content :: nft_content
  acc_jetton_balance :: "int option"
  acc_updated_at :: gotime

definition nft_content_zero :: nft_content where
  "nft_content_zero = \<lparr>nc_uri = [], nc_name = [], nc_description = [], nc_image = [], nc_image_data = []\<rparr>"

text \<open>\<open>new(core.AccountState)\<close>; the status of a Go string type is empty.\<close>

definition account_zero :: account_state where
  "account_zero = \<lparr>acc_address = replicate 33 0, acc_label = None, acc_workchain = 0, acc_shard = 0,
     acc_block_seqno = 0, acc_is_active = False, acc_status = StatusOther [], acc_balance = None,
     acc_last_tx_lt = 0, acc_last_tx_hash = [], acc_state_hash = [], acc_code = [], acc_code_hash = [],
     acc_data = [], acc_data_hash = [], acc_libraries = [], acc_get_method_hashes = [], acc_types = [],
     acc_owner = None, acc_minter = None, acc_fake = False, acc_executed = None,
     acc_nft_content = nft_content_zero, acc_jetton_balance = None, acc_updated_at = time_zero\<rparr>"

definition account_block_id :: "account_state \<Rightarrow> block_id" where
  "account_block_id a =
     \<lparr>bi_workchain = acc_workchain a, bi_shard = acc_shard a, bi_seqno = acc_block_seqno a\<rparr>"

definition get_block_id :: "block_ext \<Rightarrow> block_id" where
  "get_block_id b = \<lparr>bi_workchain = be_workchain b, bi_shard = be_shard b, bi_seqno = be_seqno b\<rparr>"

record latest_account_state =
  la_address :: addr
  la_last_tx_lt :: u64
  la_account :: "account_state option"

text \<open>The contracts the indexer never parses, by their user-friendly addresses.\<close>

definition skip_address :: "addr_lib \<Rightarrow> addr \<Rightarrow> bool" where
  "skip_address L a \<longleftrightarrow> List.member
     [''EQAAAAAAAAAAAAAAAAAAAAAAAAAAAAAAAAAAAAAAAAAAAM9c'',
      ''Ef8AAAAAAAAAAAAAAAAAAAAAAAAAAAAAAAAAAAAAAAAAADAU'',
      ''Ef8zMzMzMzMzMzMzMzMzMzMzMzMzMzMzMzMzMzMzMzMzM0vF'',
      ''Ef80UXx731GHxVr0-LYf3DIViMerdo3uJLAG3ykQZFjXz2kW'',
      ''Ef9VVVVVVVVVVVVVVVVVVVVVVVVVVVVVVVVVVVVVVVVVVbxn'',
      ''EQAHI1vGuw7d4WG-CtfDrWqEPNtmUuKjKFEFeJmZaqqfWTvW'',
      ''EQCuzvIOXLjH2tv35gY4tzhIvXCqZWDuK9kUhFGXKLImgxT5'',
      ''EQA2u5Z5Fn59EUvTI-TIrX8PIGKQzNj3qLixdCPPujfJleXC'',
      ''EQA2Pnxp0rMB9L6SU2z1VqfMIFIfutiTjQWFEXnwa_zPh0P3'',
      ''EQDhIloDu1FWY9WFAgQDgw0RjuT5bLkf15Rmd5LCG3-0hyoe'',
      ''EQAWBIxrfQDExJSfFmE5UL1r9drse0dQx_eaV8w9S77VK32F''] (addr_base64 L a)"

subsection \<open>Messages, transactions and blocks\<close>

datatype message_type = Internal | ExternalIn | ExternalOut | MsgTypeUnset

record message =
  ms_type :: message_type
  ms_hash :: bytes
  ms_src_address :: addr
  ms_src_tx_lt :: u64
  ms_src_tx_hash :: bytes
  ms_src_workchain :: i32
  ms_src_shard :: i64
  ms_src_block_seqno :: u32
  ms_src_state :: "account_state option"
  ms_dst_address :: addr
  ms_dst_tx_lt :: u64
  ms_dst_tx_hash :: bytes
  ms_dst_workchain :: i32
  ms_dst_shard :: i64
  ms_dst_block_seqno :: u32
  ms_dst_state :: "account_state option"
  ms_bounce :: bool
  ms_bounced :: bool
  ms_amount :: "int option"
  ms_ihr_disabled :: bool
  ms_ihr_fee :: "int option"
  ms_fwd_fee :: "int option"
  ms_body :: bytes
  ms_body_hash :: bytes
  ms_operation_id :: u32
  ms_comment :: string
  ms_init_code :: bytes
  ms_init_data :: bytes
  ms_src_contract :: contract_name
  ms_dst_contract :: contract_name
  ms_operation_name :: string
  ms_data_json :: string
  ms_error :: string
  ms_created_at :: gotime
  ms_created_lt :: u64

definition message_zero :: message where
  "message_zero = \<lparr>ms_type = MsgTypeUnset, ms_hash = [], ms_src_address = replicate 33 0, ms_src_tx_lt = 0,
     ms_src_tx_hash = [], ms_src_workchain = 0, ms_src_shard = 0, ms_src_block_seqno = 0,
     ms_src_state = None, ms_dst_address = replicate 33 0, ms_dst_tx_lt = 0, ms_dst_tx_hash = [],
     ms_dst_workchain = 0, ms_dst_shard = 0, ms_dst_block_seqno = 0, ms_dst_state = None,
     ms_bounce = False, ms_bounced = False, ms_amount = None, ms_ihr_disabled = False,
     ms_ihr_fee = None, ms_fwd_fee = None, ms_body = [], ms_body_hash = [], ms_operation_id = 0,
     ms_comment = [], ms_init_code = [], ms_init_data = [], ms_src_contract = [],
     ms_dst_contract = [], ms_operation_name = [], ms_data_json = [], ms_error = [],
     ms_created_at = time_zero, ms_created_lt = 0\<rparr>"

record transaction =
  tx_address :: addr
  tx_hash :: bytes
  tx_created_lt :: u64
  tx_account :: "account_state option"
  tx_workchain :: i32
  tx_shard :: i64
  tx_block_seqno :: u32
  tx_prev_hash :: bytes
  tx_prev_lt :: u64
  tx_in_msg_hash :: bytes
  tx_in_msg :: "message option"
  tx_in_amount :: "int option"
  tx_out_msg :: "message list"
  tx_out_msg_count :: u16
  tx_out_amount :: int
  tx_total_fees :: int
  tx_description :: bytes
  tx_compute_exit :: i32
  tx_action_result :: i32
  tx_orig_status :: account_status
  tx_end_status :: account_status
  tx_created_at :: gotime

datatype block = Block
  (bl_workchain: i32) (bl_shard: i64) (bl_seqno: u32) (bl_file_hash: bytes) (bl_root_hash: bytes)
  (bl_master: "block_id option") (bl_shards: "block list") (bl_transactions: "transaction list")
  (bl_accounts: "account_state list") (bl_scanned_at: gotime)

definition block_id_of :: "block \<Rightarrow> block_id" where
  "block_id_of b = \<lparr>bi_workchain = bl_workchain b, bi_shard = bl_shard b, bi_seqno = bl_seqno b\<rparr>"

subsection \<open>Contracts and rescan tasks\<close>

record contract_operation =
  co_operation_name :: string
  co_contract_name :: contract_name
  co_message_type :: message_type
  co_outgoing :: bool
  co_operation_id :: u32
  co_schema :: operation_desc

record contract_interface =
  ci_name :: contract_name
  ci_addresses :: "addr list"
  ci_code :: bytes
  ci_get_methods :: "get_method_desc list"
  ci_get_method_hashes :: "i32 list"
  ci_operations :: "contract_operation list"

datatype rescan_type =
  AddInterface | UpdInterface | DelInterface | AddGetMethod | DelGetMethod | UpdGetMethod
  | UpdOperation | DelOperation | RescanOther string

record rescan_task =
  rt_id :: int
  rt_finished :: bool
  rt_type :: rescan_type
  rt_contract_name :: contract_name
  rt_contract :: "contract_interface option"
  rt_changed_methods :: "string list"
  rt_message_type :: message_type
  rt_outgoing :: bool
  rt_operation_id :: u32
  rt_operation :: "contract_operation option"
  rt_last_address :: "addr option"
  rt_last_tx_lt :: u64

subsection \<open>Conversion to and from the protobuf messages of api/proto\<close>

text \<open>
  The generated structs of \<open>api/proto/api.proto\<close>; an enumeration of proto3 is an open
  32-bit integer. Converting a slice to an array panics when the slice is too short.
\<close>

record proto_label =
  pl_address :: "bytes option"
  pl_name :: string
  pl_categories :: "i32 list"

record proto_account =
  pa_address :: "bytes option"
  pa_label :: "proto_label option"
  pa_workchain :: i32
  pa_shard :: i64
  pa_block_seqno :: u32
  pa_is_active :: bool

definition to_array33 :: "bytes \<Rightarrow> addr res" where
  "to_array33 b =
     (if length b < 33 then Panic ''cannot convert slice to array'' else Ok (take 33 b))"

definition category_to_proto :: "string \<Rightarrow> i32 option" where
  "category_to_proto c =
     (if c = ''centralized_exchange'' then Some 0 else if c = ''scam'' then Some 1 else None)"

definition category_from_proto :: "i32 \<Rightarrow> string option" where
  "category_from_proto c =
     (if c = 0 then Some ''centralized_exchange'' else if c = 1 then Some ''scam'' else None)"

definition label_to_proto :: "address_label option \<Rightarrow> proto_label option res" where
  "label_to_proto l =
     (case l of
        None \<Rightarrow> Ok None
      | Some l \<Rightarrow>
          if \<exists>c \<in> set (lb_categories l). category_to_proto c = None
          then Err (ErrText ''failed to parse label category'')
          else Ok (Some \<lparr>pl_address = Some (lb_address l), pl_name = lb_name l,
                         pl_categories = map (the \<circ> category_to_proto) (lb_categories l)\<rparr>))"

definition label_from_proto :: "address_label \<Rightarrow> proto_label option \<Rightarrow> address_label res" where
  "label_from_proto l p =
     (case p of
        None \<Rightarrow> Ok l
      | Some p \<Rightarrow>
          if \<exists>c \<in> set (pl_categories p). category_from_proto c = None
          then Err (ErrText ''failed to parse label category'')
          else (case pl_address p of
                  None \<Rightarrow> Panic ''nil pointer dereference''
                | Some b \<Rightarrow> rbind (to_array33 b) (\<lambda>a.
                    Ok \<lparr>lb_address = a, lb_name = pl_name p,
                        lb_categories = map (the \<circ> category_from_proto) (pl_categories p)\<rparr>)))"

definition account_to_proto :: "account_state option \<Rightarrow> proto_account option res" where
  "account_to_proto p =
     (case p of
        None \<Rightarrow> Ok None
      | Some a \<Rightarrow> rbind (label_to_proto (acc_label a)) (\<lambda>l.
          Ok (Some \<lparr>pa_address = Some (acc_address a), pa_label = l, pa_workchain = acc_workchain a,
                    pa_shard = acc_shard a, pa_block_seqno = acc_block_seqno a,
                    pa_is_active = acc_is_active a\<rparr>)))"

text \<open>\<open>GetValue\<close> of a nil address is a nil slice.\<close>

definition label_zero :: address_label where
  "label_zero = \<lparr>lb_address = replicate 33 0, lb_name = [], lb_categories = []\<rparr>"

definition account_from_proto :: "proto_account option \<Rightarrow> account_state option res" where
  "account_from_proto p =
     (case p of
        None \<Rightarrow> Ok None
      | Some p \<Rightarrow> rbind (label_from_proto label_zero (pa_label p)) (\<lambda>l.
          rbind (to_array33 (case pa_address p of Some b \<Rightarrow> b | None \<Rightarrow> [])) (\<lambda>a.
          Ok (Some (account_zero\<lparr>acc_address := a, acc_label := Some l, acc_workchain := pa_workchain p,
                acc_shard := pa_shard p, acc_block_seqno := pa_block_seqno p,
                acc_is_active := pa_is_active p\<rparr>)))))"

subsection \<open>abi/known\<close>

definition wallet_interfaces :: "contract_name list" where
  "wallet_interfaces =
     [''wallet_v1r1'', ''wallet_v1r2'', ''wallet_v1r3'', ''wallet_v2r1'', ''wallet_v2r2'',
      ''wallet_v3r1'', ''wallet_v3r2'', ''wallet_v4r1'', ''wallet_v4r2'', ''wallet_lockup'',
      ''wallet_highload_v1r1'', ''wallet_highload_v1r2'', ''wallet_highload_v2r1'',
      ''wallet_highload_v2r2'']"

definition is_only_wallet_interfaces :: "contract_name list \<Rightarrow> bool" where
  "is_only_wallet_interfaces is \<longleftrightarrow> list_all (\<lambda>i. List.member wallet_interfaces i) is"

definition known_nft_collection :: contract_name where "known_nft_collection = ''nft_collection''"
definition known_nft_item :: contract_name where "known_nft_item = ''nft_item''"
definition known_nft_editable :: contract_name where "known_nft_editable = ''nft_editable''"
definition known_nft_royalty :: contract_name where "known_nft_royalty = ''nft_royalty''"
definition known_jetton_minter :: contract_name where "known_jetton_minter = ''jetton_minter''"
definition known_jetton_wallet :: contract_name where "known_jetton_wallet = ''jetton_wallet''"
definition known_dedust_pool :: contract_name where "known_dedust_pool = ''dedust_v2_pool''"
definition known_dedust_factory :: contract_name where "known_dedust_factory = ''dedust_v2_factory''"
definition known_stonfi_pool :: contract_name where "known_stonfi_pool = ''stonfi_pool''"
definition known_stonfi_router :: contract_name where "known_stonfi_router = ''stonfi_router''"

lemmas known_defs = known_nft_collection_def known_nft_item_def known_nft_editable_def
  known_nft_royalty_def known_jetton_minter_def known_jetton_wallet_def known_dedust_pool_def
  known_dedust_factory_def known_stonfi_pool_def known_stonfi_router_def

subsection \<open>Properties\<close>

lemma category_roundtrip:
  "category_to_proto c = Some n \<Longrightarrow> category_from_proto n = Some c"
  "category_from_proto n = Some c \<Longrightarrow> category_to_proto c = Some n"
  by (auto simp: category_to_proto_def category_from_proto_def split: if_splits)

lemma categories_roundtrip:
  "\<forall>c \<in> set cs. category_to_proto c \<noteq> None \<Longrightarrow>
   map (the \<circ> category_from_proto) (map (the \<circ> category_to_proto) cs) = cs \<and>
   (\<forall>n \<in> set (map (the \<circ> category_to_proto) cs). category_from_proto n \<noteq> None)"
  by (induction cs) (auto simp: category_roundtrip(1))

lemma label_proto_roundtrip:
  assumes "label_to_proto (Some l) = Ok p" and "is_addr (lb_address l)"
  shows "label_from_proto l0 p = Ok l"
proof -
  have c: "\<forall>c \<in> set (lb_categories l). category_to_proto c \<noteq> None"
    using assms(1) by (auto simp: label_to_proto_def split: if_splits)
  show ?thesis
    using assms categories_roundtrip[OF c] c
    by (auto simp: label_to_proto_def label_from_proto_def to_array33_def is_addr_def split: if_splits)
qed

text \<open>
  What a subscriber of the broadcast service can read back: converting an account state to its
  protobuf message and back keeps the address, the block it belongs to, the activity flag and the
  label with its categories (a state without label comes back with an empty label), and resets
  everything else; a label category that the enumeration does not have is an error.
\<close>

theorem account_proto_roundtrip:
  assumes "is_addr (acc_address a)" and "\<forall>l. acc_label a = Some l \<longrightarrow> is_addr (lb_address l)"
  shows "case account_to_proto (Some a) of
      Ok p \<Rightarrow> account_from_proto p = Ok (Some (account_zero\<lparr>
        acc_address := acc_address a,
        acc_label := Some (case acc_label a of None \<Rightarrow> label_zero | Some l \<Rightarrow> l),
        acc_workchain := acc_workchain a, acc_shard := acc_shard a,
        acc_block_seqno := acc_block_seqno a, acc_is_active := acc_is_active a\<rparr>))
    | Err e \<Rightarrow> \<exists>l c. acc_label a = Some l \<and> c \<in> set (lb_categories l) \<and>
        c \<notin> {''centralized_exchange'', ''scam''}
    | Panic m \<Rightarrow> False"
proof -
  have arr: "to_array33 (acc_address a) = Ok (acc_address a)"
    using assms(1) by (simp add: to_array33_def is_addr_def)
  show ?thesis
  proof (cases "label_to_proto (acc_label a)")
    case (Ok q)
    moreover have "label_from_proto label_zero q =
        Ok (case acc_label a of None \<Rightarrow> label_zero | Some l \<Rightarrow> l)"
    proof (cases "acc_label a")
      case None
      with Ok show ?thesis by (auto simp: label_to_proto_def label_from_proto_def)
    next
      case (Some l)
      with Ok assms(2) label_proto_roundtrip[of l q label_zero] show ?thesis by simp
    qed
    ultimately show ?thesis by (simp add: account_to_proto_def account_from_proto_def arr)
  next
    case (Err e)
    then show ?thesis
      by (auto simp: account_to_proto_def label_to_proto_def category_to_proto_def
          split: option.splits if_splits)
  next
    case (Panic m)
    then show ?thesis by (auto simp: label_to_proto_def split: option.splits if_splits)
  qed
qed

definition ex_block :: block_ext where
  "ex_block = \<lparr>be_workchain = 0, be_shard = 1, be_seqno = 5, be_root = [], be_file = []\<rparr>"

definition scam_label :: address_label where
  "scam_label = \<lparr>lb_address = elector_addr, lb_name = ''x'', lb_categories = [''scam'']\<rparr>"

theorem account_proto_roundtrip_witness:
  "\<exists>p. account_to_proto (Some (account_zero\<lparr>acc_address := elector_addr, acc_label := Some scam_label\<rparr>)) = Ok p
    \<and> account_from_proto p =
      Ok (Some (account_zero\<lparr>acc_address := elector_addr, acc_label := Some scam_label\<rparr>))"
proof -
  let ?a = "account_zero\<lparr>acc_address := elector_addr, acc_label := Some scam_label\<rparr>"
  have "\<exists>p. account_to_proto (Some ?a) = Ok p"
    by (simp add: account_to_proto_def label_to_proto_def scam_label_def category_to_proto_def)
  then show ?thesis
    using account_proto_roundtrip[of ?a] by (auto simp: scam_label_def account_zero_def)
qed

end
