(* ===== verification/Caches.thy ===== *)
theory Caches
  imports Core
begin

section \<open>The caches of the fetcher and of the contract repository\<close>

text \<open>
  \<open>internal/app/fetcher/cache.go\<close> and \<open>internal/core/repository/contract/cache.go\<close>.
  Every method runs under the mutex of its cache, so it is one atomic function. A call of
  \<open>clearCaches\<close> reads the clock once to compare and, when it clears, once more; the pair of
  readings is an argument. \<open>memo_cache\<close> is the contract the fetcher relies on: a cache may
  forget, but what it returns for a key was stored under that key.
\<close>

type_synonym clock2 = "gotime \<times> gotime"

subsection \<open>Blocks\<close>

record blocks_cache =
  bc_masters :: "u32 \<rightharpoonup> block_ext"
  bc_shards :: "u32 \<rightharpoonup> block_ext list"
  bc_cleared :: gotime

definition cache_invalidation :: int where
  "cache_invalidation = seconds 60"

definition newBlocksCache :: "gotime \<Rightarrow> blocks_cache" where
  "newBlocksCache now = \<lparr>bc_masters = Map.empty, bc_shards = Map.empty, bc_cleared = now\<rparr>"

definition blocks_clearCaches :: "clock2 \<Rightarrow> blocks_cache \<Rightarrow> blocks_cache" where
  "blocks_clearCaches t c =
     (if time_since (fst t) (bc_cleared c) < cache_invalidation then c
      else \<lparr>bc_masters = Map.empty, bc_shards = Map.empty, bc_cleared = snd t\<rparr>)"

definition getMaster :: "blocks_cache \<Rightarrow> u32 \<Rightarrow> block_ext option" where
  "getMaster c seqNo = bc_masters c seqNo"

definition setMaster :: "clock2 \<Rightarrow> block_ext \<Rightarrow> blocks_cache \<Rightarrow> blocks_cache" where
  "setMaster t master c =
     blocks_clearCaches t (c\<lparr>bc_masters := (bc_masters c)(be_seqno master \<mapsto> master)\<rparr>)"

definition getShards :: "blocks_cache \<Rightarrow> block_ext \<Rightarrow> block_ext list option" where
  "getShards c master = bc_shards c (be_seqno master)"

definition setShards :: "clock2 \<Rightarrow> block_ext \<Rightarrow> block_ext list \<Rightarrow> blocks_cache \<Rightarrow> blocks_cache" where
  "setShards t master shards c =
     blocks_clearCaches t (c\<lparr>bc_shards := (bc_shards c)(be_seqno master \<mapsto> shards)\<rparr>)"

subsection \<open>Accounts\<close>

record account_cache =
  ac_m :: "block_id \<rightharpoonup> (addr \<rightharpoonup> account_state)"
  ac_cleared :: gotime

definition newAccountCache :: account_cache where
  "newAccountCache = \<lparr>ac_m = Map.empty, ac_cleared = time_zero\<rparr>"

definition accounts_clearCaches :: "clock2 \<Rightarrow> account_cache \<Rightarrow> account_cache" where
  "accounts_clearCaches t c =
     (if time_since (fst t) (ac_cleared c) < cache_invalidation then c
      else \<lparr>ac_m = Map.empty, ac_cleared = snd t\<rparr>)"

definition accounts_get :: "account_cache \<Rightarrow> block_ext \<Rightarrow> addr \<Rightarrow> account_state option" where
  "accounts_get c b a =
     (case ac_m c (get_block_id b) of None \<Rightarrow> None | Some m \<Rightarrow> m a)"

definition accounts_set :: "clock2 \<Rightarrow> block_ext \<Rightarrow> account_state \<Rightarrow> account_cache \<Rightarrow> account_cache" where
  "accounts_set t b acc c =
     (let m = (case ac_m c (get_block_id b) of None \<Rightarrow> Map.empty | Some m \<Rightarrow> m)
      in accounts_clearCaches t
           (c\<lparr>ac_m := (ac_m c)(get_block_id b \<mapsto> m(acc_address acc \<mapsto> acc))\<rparr>))"

subsection \<open>Libraries\<close>

text \<open>The description of a library is its cell, which the node may not know.\<close>

type_synonym libraries_cache = "string \<rightharpoonup> cell option"

definition libraries_get :: "libraries_cache \<Rightarrow> bytes \<Rightarrow> cell option option" where
  "libraries_get c hash = c (hex_encode hash)"

definition libraries_set :: "bytes \<Rightarrow> cell option \<Rightarrow> libraries_cache \<Rightarrow> libraries_cache" where
  "libraries_set hash desc c =
     (case c (hex_encode hash) of Some _ \<Rightarrow> c | None \<Rightarrow> c(hex_encode hash \<mapsto> desc))"

subsection \<open>Contract descriptions\<close>

text \<open>
  A nil slice of interfaces or operations makes the repository read the database again; an empty
  slice is nil here, as the callers test its length.
\<close>

record contract_cache =
  cc_interfaces :: "contract_interface list"
  cc_get_methods :: "contract_name \<rightharpoonup> (string \<rightharpoonup> get_method_desc)"
  cc_operations :: "contract_operation list"
  cc_cleared :: gotime

definition contract_invalidation :: int where
  "contract_invalidation = seconds 10"

definition newContractCache :: "gotime \<Rightarrow> contract_cache" where
  "newContractCache now =
     \<lparr>cc_interfaces = [], cc_get_methods = Map.empty, cc_operations = [], cc_cleared = now\<rparr>"

definition contract_clearCaches :: "clock2 \<Rightarrow> contract_cache \<Rightarrow> contract_cache" where
  "contract_clearCaches t c =
     (if time_since (fst t) (cc_cleared c) < contract_invalidation then c
      else \<lparr>cc_interfaces = [], cc_get_methods = Map.empty, cc_operations = [], cc_cleared = snd t\<rparr>)"

fun add_methods :: "get_method_desc list \<Rightarrow> (string \<rightharpoonup> get_method_desc) \<Rightarrow> (string \<rightharpoonup> get_method_desc)" where
  "add_methods [] m = m"
| "add_methods (d # ds) m = add_methods ds (m(gm_name d \<mapsto> d))"

fun add_interfaces :: "contract_interface list \<Rightarrow>
    (contract_name \<rightharpoonup> (string \<rightharpoonup> get_method_desc)) \<Rightarrow> (contract_name \<rightharpoonup> (string \<rightharpoonup> get_method_desc))" where
  "add_interfaces [] g = g"
| "add_interfaces (i # is) g =
     (let m = (case g (ci_name i) of None \<Rightarrow> Map.empty | Some m \<Rightarrow> m)
      in add_interfaces is (g(ci_name i \<mapsto> add_methods (ci_get_methods i) m)))"

definition setInterfaces :: "contract_interface list \<Rightarrow> contract_cache \<Rightarrow> contract_cache" where
  "setInterfaces interfaces c =
     c\<lparr>cc_get_methods := add_interfaces interfaces (cc_get_methods c), cc_interfaces := interfaces\<rparr>"

definition cache_getInterfaces :: "clock2 \<Rightarrow> contract_cache \<Rightarrow> contract_interface list \<times> contract_cache" where
  "cache_getInterfaces t c = (let c = contract_clearCaches t c in (cc_interfaces c, c))"

definition cache_getMethodDesc :: "contract_cache \<Rightarrow> contract_name \<Rightarrow> string \<Rightarrow> get_method_desc option" where
  "cache_getMethodDesc c name method =
     (case cc_get_methods c name of None \<Rightarrow> None | Some m \<Rightarrow> m method)"

definition setOperations :: "contract_operation list \<Rightarrow> contract_cache \<Rightarrow> contract_cache" where
  "setOperations operations c = c\<lparr>cc_operations := operations\<rparr>"

definition cache_getOperations :: "clock2 \<Rightarrow> contract_cache \<Rightarrow> contract_operation list \<times> contract_cache" where
  "cache_getOperations t c = (let c = contract_clearCaches t c in (cc_operations c, c))"

text \<open>An operation is returned once for every equal name in \<open>types\<close>.\<close>

definition select_operations ::
  "contract_name list \<Rightarrow> bool \<Rightarrow> u32 \<Rightarrow> contract_operation list \<Rightarrow> contract_operation list" where
  "select_operations types outgoing i ops =
     concat (map (\<lambda>op.
       if co_outgoing op \<noteq> outgoing then []
       else if co_operation_id op \<noteq> i then []
       else map (\<lambda>_. op) (filter (\<lambda>t. co_contract_name op = t) types)) ops)"

definition cache_getOperationsByID :: "clock2 \<Rightarrow> contract_name list \<Rightarrow> bool \<Rightarrow> u32 \<Rightarrow> contract_cache \<Rightarrow>
    contract_operation list \<times> contract_cache" where
  "cache_getOperationsByID t types outgoing i c =
     (let c = contract_clearCaches t c in (select_operations types outgoing i (cc_operations c), c))"

subsection \<open>The contract of a memo cache\<close>

locale memo_cache =
  fixes get :: "'c \<Rightarrow> 'k \<Rightarrow> 'v option"
    and set :: "'t \<Rightarrow> 'e \<Rightarrow> 'c \<Rightarrow> 'c"
    and entry :: "'e \<Rightarrow> 'k \<times> 'v"
  assumes set_sound: "get (set t e c) k = Some w \<Longrightarrow> (k, w) = entry e \<or> get c k = Some w"
begin

text \<open>Every cached value is a right one for its key; a store of a right value keeps it so.\<close>

definition coherent :: "('k \<Rightarrow> 'v \<Rightarrow> bool) \<Rightarrow> 'c \<Rightarrow> bool" where
  "coherent P c \<longleftrightarrow> (\<forall>k v. get c k = Some v \<longrightarrow> P k v)"

lemma coherent_set:
  assumes "coherent P c" and "entry e = (k, v)" and "P k v"
  shows "coherent P (set t e c)"
  using assms set_sound unfolding coherent_def by (metis Pair_inject)

lemma coherent_get: "coherent P c \<Longrightarrow> get c k = Some v \<Longrightarrow> P k v"
  by (simp add: coherent_def)

text \<open>After any number of stores what a lookup returns was stored under its key.\<close>

lemma stored:
  assumes "get (fold (\<lambda>(t, e). set t e) es c) k = Some v" and "\<And>k. get c k = None"
  shows "\<exists>t e. (t, e) \<in> List.set es \<and> entry e = (k, v)"
proof -
  have "coherent (\<lambda>k v. \<exists>t e. (t, e) \<in> List.set es \<and> entry e = (k, v)) (fold (\<lambda>(t, e). set t e) fs c)"
    if "List.set fs \<subseteq> List.set es" "coherent (\<lambda>k v. \<exists>t e. (t, e) \<in> List.set es \<and> entry e = (k, v)) c" for fs c
    using that
  proof (induction fs arbitrary: c)
    case (Cons f fs)
    obtain t e where f: "f = (t, e)" by (cases f)
    have "coherent (\<lambda>k v. \<exists>t e. (t, e) \<in> List.set es \<and> entry e = (k, v)) (set t e c)"
      by (rule coherent_set[OF Cons.prems(2), of e "fst (entry e)" "snd (entry e)"])
        (use Cons.prems(1) f in auto)
    then show ?case using Cons.IH Cons.prems(1) f by simp
  qed simp
  from this[of es c] assms show ?thesis by (auto simp: coherent_def)
qed

end

interpretation masters: memo_cache getMaster setMaster "\<lambda>m. (be_seqno m, m)"
  by unfold_locales
    (auto simp: getMaster_def setMaster_def blocks_clearCaches_def split: if_splits)

interpretation shards: memo_cache
    bc_shards "\<lambda>t (master, shards). setShards t master shards" "\<lambda>(master, shards). (be_seqno master, shards)"
  by unfold_locales (auto simp: setShards_def blocks_clearCaches_def split: if_splits)

definition accounts_lookup :: "account_cache \<Rightarrow> block_id \<times> addr \<Rightarrow> account_state option" where
  "accounts_lookup c k = (case ac_m c (fst k) of None \<Rightarrow> None | Some m \<Rightarrow> m (snd k))"

lemma accounts_get_lookup: "accounts_get c b a = accounts_lookup c (get_block_id b, a)"
  by (simp add: accounts_get_def accounts_lookup_def split: option.split)

interpretation accounts: memo_cache
    accounts_lookup "\<lambda>t (b, acc). accounts_set t b acc" "\<lambda>(b, acc). ((get_block_id b, acc_address acc), acc)"
  by unfold_locales
    (auto simp: accounts_lookup_def accounts_set_def accounts_clearCaches_def Let_def
      split: if_splits option.splits)

lemma hex_encode_inj: "hex_encode a = hex_encode b \<longleftrightarrow> a = b"
  by (metis hex_decode_encode res.inject(1))

interpretation libraries: memo_cache libraries_get "\<lambda>t (hash, desc). libraries_set hash desc" "\<lambda>e. e"
  by unfold_locales
    (auto simp: libraries_get_def libraries_set_def hex_encode_inj split: option.splits if_splits)

text \<open>Storing a master does not touch the shards, nor the other way round, except by forgetting.\<close>

lemma setMaster_shards: "bc_shards (setMaster t m c) k = Some v \<Longrightarrow> bc_shards c k = Some v"
  by (auto simp: setMaster_def blocks_clearCaches_def split: if_splits)

lemma setShards_masters: "getMaster (setShards t m s c) k = Some v \<Longrightarrow> getMaster c k = Some v"
  by (auto simp: getMaster_def setShards_def blocks_clearCaches_def split: if_splits)

subsection \<open>Properties\<close>

text \<open>
  C28. When a cached account is served. After \<open>set\<close> a lookup of the same block and address
  returns the stored state if less than a minute has passed since the cache was last cleared, and
  nothing otherwise: the store itself triggers the clearing, after the entry was added. In
  particular the first state ever stored is always lost, because a new account cache starts with
  the zero time, while an unexpired cache keeps every other entry.
\<close>

theorem accounts_set_then_get:
  assumes "0 \<le> fst t"
  shows "accounts_get (accounts_set t b acc c) b (acc_address acc) =
      (if time_since (fst t) (ac_cleared c) < cache_invalidation then Some acc else None) \<and>
    accounts_get (accounts_set t b acc newAccountCache) b' a = None \<and>
    (time_since (fst t) (ac_cleared c) < cache_invalidation \<longrightarrow>
      (get_block_id b', a) \<noteq> (get_block_id b, acc_address acc) \<longrightarrow>
      accounts_get (accounts_set t b acc c) b' a = accounts_get c b' a)"
proof -
  have "\<not> max_duration < cache_invalidation"
    by (simp add: max_duration_def cache_invalidation_def seconds_def)
  then have "accounts_get (accounts_set t b acc newAccountCache) b' a = None"
    using time_since_zero[OF assms]
    by (simp add: accounts_get_def accounts_set_def accounts_clearCaches_def newAccountCache_def Let_def)
  then show ?thesis
    by (auto simp: accounts_get_def accounts_set_def accounts_clearCaches_def Let_def
        split: option.split)
qed

theorem accounts_set_then_get_witness:
  "accounts_get (accounts_set (10, 11) ex_block account_zero newAccountCache) ex_block (acc_address account_zero) = None \<and>
   accounts_get (accounts_set (20, 21) ex_block account_zero (accounts_set (10, 11) ex_block account_zero newAccountCache))
     ex_block (acc_address account_zero) = Some account_zero"
proof -
  let ?c = "accounts_set (10, 11) ex_block account_zero newAccountCache"
  have "time_since 10 time_zero = max_duration" by (rule time_since_zero) simp
  then have "ac_cleared ?c = 11"
    by (simp add: accounts_set_def accounts_clearCaches_def newAccountCache_def Let_def
        max_duration_def cache_invalidation_def seconds_def)
  moreover have "time_since 20 11 = 9" by (simp add: time_since_small max_duration_def)
  ultimately show ?thesis
    using accounts_set_then_get[of "(10, 11)" ex_block account_zero newAccountCache]
      accounts_set_then_get[of "(20, 21)" ex_block account_zero ?c]
    by (simp add: cache_invalidation_def seconds_def)
qed

end
