(* ===== verification/TxMap.thy ===== *)
theory TxMap
  imports Core
begin

section \<open>internal/app/fetcher/map.go: from the node's structures to the domain\<close>

text \<open>
  The structures of tonutils that the mapping reads, with the fields it reads, and the mapping of
  an account, a message and a transaction. \<open>tlb_lib\<close> serialises a message or a transaction
  description to a cell; it is code of tonutils and an argument.
\<close>

subsection \<open>Structures of tonutils\<close>

record tlb_account_state =
  rs_address :: "ton_addr option"
  rs_status :: account_status
  rs_balance :: int
  rs_state_hash :: bytes

record tlb_account =
  ra_is_active :: bool
  ra_state :: "tlb_account_state option"
  ra_data :: "cell option"
  ra_code :: "cell option"
  ra_last_tx_lt :: u64
  ra_last_tx_hash :: bytes

record state_init =
  si_code :: "cell option"
  si_data :: "cell option"

record internal_message =
  ri_src :: ton_addr
  ri_dst :: ton_addr
  ri_bounce :: bool
  ri_bounced :: bool
  ri_amount :: int
  ri_ihr_disabled :: bool
  ri_ihr_fee :: int
  ri_fwd_fee :: int
  ri_body :: cell
  ri_state_init :: "state_init option"
  ri_created_lt :: u64
  ri_created_at :: u32

record external_message =
  rx_dst :: ton_addr
  rx_state_init :: "state_init option"
  rx_body :: cell

record external_message_out =
  ro_src :: ton_addr
  ro_state_init :: "state_init option"
  ro_body :: cell
  ro_created_lt :: u64
  ro_created_at :: u32

datatype tlb_message =
    InternalMessage internal_message
  | ExternalMessage external_message
  | ExternalMessageOut external_message_out

datatype compute_phase = ComputeVM i32 | ComputeSkipped

text \<open>A description: its action phase result code, if it has an action phase, and its compute phase.\<close>

datatype tx_description =
    DescOrdinary "i32 option" compute_phase
  | DescTickTock "i32 option" compute_phase
  | DescSplitPrepare "i32 option" compute_phase
  | DescMergeInstall "i32 option" compute_phase
  | DescStorage
  | DescOther

text \<open>\<open>IO.Out.ToSlice\<close> may fail; a nil list of messages is \<open>None\<close>.\<close>

record tlb_transaction =
  rw_hash :: bytes
  rw_prev_hash :: bytes
  rw_prev_lt :: u64
  rw_out_count :: u16
  rw_total_fees :: int
  rw_orig_status :: account_status
  rw_end_status :: account_status
  rw_lt :: u64
  rw_now :: u32
  rw_account_addr :: bytes
  rw_in :: "tlb_message option"
  rw_out :: "tlb_message list res option"
  rw_description :: "tx_description option"

record tlb_lib =
  tl_message :: "tlb_message \<Rightarrow> cell res"
  tl_description :: "tx_description \<Rightarrow> cell res"

definition unix_time :: "u32 \<Rightarrow> gotime" where
  "unix_time s = seconds (uint s)"

subsection \<open>Accounts\<close>

definition map_account :: "cell_lib \<Rightarrow> block_ext \<Rightarrow> tlb_account \<Rightarrow> account_state res" where
  "map_account C b acc =
     rbind (case ra_state acc of
              None \<Rightarrow> Ok (account_zero\<lparr>acc_status := NonExist\<rparr>)
            | Some st \<Rightarrow>
                rbind (case rs_address st of
                         None \<Rightarrow> Ok (acc_address account_zero)
                       | Some a \<Rightarrow> deref_from_tonutils a)
                  (\<lambda>a. Ok (account_zero\<lparr>acc_address := a, acc_status := rs_status st,
                         acc_balance := Some (rs_balance st), acc_state_hash := rs_state_hash st\<rparr>)))
       (\<lambda>ret. Ok (ret\<lparr>
          acc_workchain := be_workchain b, acc_shard := be_shard b, acc_block_seqno := be_seqno b,
          acc_is_active := ra_is_active acc,
          acc_data := (case ra_data acc of Some c \<Rightarrow> cl_toBOC C c | None \<Rightarrow> []),
          acc_data_hash := (case ra_data acc of Some c \<Rightarrow> cl_hash C c | None \<Rightarrow> []),
          acc_code := (case ra_code acc of Some c \<Rightarrow> cl_toBOC C c | None \<Rightarrow> []),
          acc_code_hash := (case ra_code acc of Some c \<Rightarrow> cl_hash C c | None \<Rightarrow> []),
          acc_last_tx_lt := ra_last_tx_lt acc, acc_last_tx_hash := ra_last_tx_hash acc\<rparr>))"

subsection \<open>Messages\<close>

definition init_code :: "cell_lib \<Rightarrow> state_init option \<Rightarrow> bytes" where
  "init_code C si = (case si of Some s \<Rightarrow> (case si_code s of Some c \<Rightarrow> cl_toBOC C c | None \<Rightarrow> []) | None \<Rightarrow> [])"

definition init_data :: "cell_lib \<Rightarrow> state_init option \<Rightarrow> bytes" where
  "init_data C si = (case si of Some s \<Rightarrow> (case si_data s of Some c \<Rightarrow> cl_toBOC C c | None \<Rightarrow> []) | None \<Rightarrow> [])"

text \<open>\<open>int32(addr.Workchain())\<close>: the workchain byte, sign extended.\<close>

definition wc32 :: "addr \<Rightarrow> i32" where
  "wc32 a = scast (addr_workchain a)"

definition map_message_internal :: "cell_lib \<Rightarrow> message \<Rightarrow> internal_message \<Rightarrow> message res" where
  "map_message_internal C msg raw =
     rbind (deref_from_tonutils (ri_src raw)) (\<lambda>src.
     rbind (deref_from_tonutils (ri_dst raw)) (\<lambda>dst.
     Ok (msg\<lparr>ms_type := Internal,
             ms_src_address := src, ms_src_workchain := wc32 src,
             ms_dst_address := dst, ms_dst_workchain := wc32 dst,
             ms_bounce := ri_bounce raw, ms_bounced := ri_bounced raw,
             ms_amount := Some (ri_amount raw),
             ms_ihr_disabled := ri_ihr_disabled raw,
             ms_ihr_fee := Some (ri_ihr_fee raw), ms_fwd_fee := Some (ri_fwd_fee raw),
             ms_body := cl_toBOC C (ri_body raw), ms_body_hash := cl_hash C (ri_body raw),
             ms_init_code := init_code C (ri_state_init raw),
             ms_init_data := init_data C (ri_state_init raw),
             ms_created_lt := ri_created_lt raw, ms_created_at := unix_time (ri_created_at raw)\<rparr>)))"

definition map_message_external ::
  "cell_lib \<Rightarrow> message \<Rightarrow> tlb_transaction \<Rightarrow> tlb_message \<Rightarrow> message res" where
  "map_message_external C msg rawTx rawMsg =
     (case rawMsg of
        ExternalMessage raw \<Rightarrow>
          rbind (deref_from_tonutils (rx_dst raw)) (\<lambda>dst.
          Ok (msg\<lparr>ms_type := ExternalIn,
                  ms_dst_address := dst, ms_dst_workchain := wc32 dst,
                  ms_dst_tx_lt := rw_lt rawTx, ms_dst_tx_hash := rw_hash rawTx,
                  ms_init_code := init_code C (rx_state_init raw),
                  ms_init_data := init_data C (rx_state_init raw),
                  ms_body := cl_toBOC C (rx_body raw), ms_body_hash := cl_hash C (rx_body raw),
                  ms_created_lt := rw_lt rawTx, ms_created_at := unix_time (rw_now rawTx)\<rparr>))
      | ExternalMessageOut raw \<Rightarrow>
          rbind (deref_from_tonutils (ro_src raw)) (\<lambda>src.
          Ok (msg\<lparr>ms_type := ExternalOut,
                  ms_src_address := src, ms_src_workchain := wc32 src,
                  ms_src_tx_lt := rw_lt rawTx, ms_src_tx_hash := rw_hash rawTx,
                  ms_init_code := init_code C (ro_state_init raw),
                  ms_init_data := init_data C (ro_state_init raw),
                  ms_body := cl_toBOC C (ro_body raw), ms_body_hash := cl_hash C (ro_body raw),
                  ms_created_lt := ro_created_lt raw, ms_created_at := unix_time (ro_created_at raw)\<rparr>))
      | InternalMessage raw \<Rightarrow> Ok msg)"

text \<open>The operation id is the first 32 bits of the body; zero means a transfer with a comment.\<close>

definition parse_operation_id :: "cell_lib \<Rightarrow> bytes \<Rightarrow> (u32 \<times> string) res" where
  "parse_operation_id C body =
     rbind (rwrap ''msg body from boc'' (cl_fromBOC C body)) (\<lambda>payload.
     rbind (rwrap ''load uint'' (cl_loadUInt C 32 payload)) (\<lambda>(n, rest).
     (let opId = word_of_nat n :: u32
      in if opId \<noteq> 0 then Ok (opId, [])
         else rbind (rwrap ''load transfer comment'' (cl_loadSnake C rest)) (\<lambda>comment.
              Ok (opId, comment)))))"

text \<open>The error of \<open>parseOperationID\<close> is dropped; it returns zero and no comment with it.\<close>

definition map_message ::
  "cell_lib \<Rightarrow> tlb_lib \<Rightarrow> tlb_transaction \<Rightarrow> tlb_message \<Rightarrow> message res" where
  "map_message C T tx raw =
     rbind (rwrap ''cannot convert message to cell'' (tl_message T raw)) (\<lambda>msgCell.
     (let msg = message_zero\<lparr>ms_hash := cl_hash C msgCell\<rparr>
      in rbind (case raw of
                  InternalMessage r \<Rightarrow> map_message_internal C msg r
                | ExternalMessage r \<Rightarrow> map_message_external C msg tx raw
                | ExternalMessageOut r \<Rightarrow> map_message_external C msg tx raw)
           (\<lambda>msg. if ms_body msg = [] then Ok msg
                  else (case parse_operation_id C (ms_body msg) of
                          Ok (opId, comment) \<Rightarrow> Ok (msg\<lparr>ms_operation_id := opId, ms_comment := comment\<rparr>)
                        | Err e \<Rightarrow> Ok (msg\<lparr>ms_operation_id := 0, ms_comment := []\<rparr>)
                        | Panic p \<Rightarrow> Panic p))))"

subsection \<open>Transactions\<close>

definition map_compute_phase :: "compute_phase \<Rightarrow> transaction \<Rightarrow> transaction" where
  "map_compute_phase ph tx =
     (case ph of ComputeVM exit \<Rightarrow> tx\<lparr>tx_compute_exit := exit\<rparr> | ComputeSkipped \<Rightarrow> tx)"

definition map_phases :: "i32 option \<Rightarrow> compute_phase \<Rightarrow> transaction \<Rightarrow> transaction" where
  "map_phases act ph tx =
     map_compute_phase ph (case act of Some r \<Rightarrow> tx\<lparr>tx_action_result := r\<rparr> | None \<Rightarrow> tx)"

fun map_description :: "tx_description \<Rightarrow> transaction \<Rightarrow> transaction" where
  "map_description (DescOrdinary act ph) tx = map_phases act ph tx"
| "map_description (DescTickTock act ph) tx = map_phases act ph tx"
| "map_description (DescSplitPrepare act ph) tx = map_phases act ph tx"
| "map_description (DescMergeInstall act ph) tx = map_phases act ph tx"
| "map_description DescStorage tx = tx"
| "map_description DescOther tx = tx"

definition tx_base :: "tlb_transaction \<Rightarrow> transaction" where
  "tx_base raw = \<lparr>tx_address = replicate 33 0, tx_hash = rw_hash raw, tx_created_lt = rw_lt raw,
     tx_account = None, tx_workchain = 0, tx_shard = 0, tx_block_seqno = 0,
     tx_prev_hash = rw_prev_hash raw, tx_prev_lt = rw_prev_lt raw,
     tx_in_msg_hash = [], tx_in_msg = None, tx_in_amount = Some 0,
     tx_out_msg = [], tx_out_msg_count = rw_out_count raw, tx_out_amount = 0,
     tx_total_fees = rw_total_fees raw, tx_description = [], tx_compute_exit = 0,
     tx_action_result = 0, tx_orig_status = rw_orig_status raw, tx_end_status = rw_end_status raw,
     tx_created_at = unix_time (rw_now raw)\<rparr>"

text \<open>The pointer \<open>b\<close> is tested for nil once, and dereferenced without a test in the messages.\<close>

definition deref_block :: "block_ext option \<Rightarrow> block_ext res" where
  "deref_block b = (case b of None \<Rightarrow> Panic ''nil pointer dereference'' | Some b \<Rightarrow> Ok b)"

definition map_in_msg :: "cell_lib \<Rightarrow> tlb_lib \<Rightarrow> block_ext option \<Rightarrow> tlb_transaction \<Rightarrow> transaction \<Rightarrow> transaction res" where
  "map_in_msg C T b raw tx =
     (case rw_in raw of
        None \<Rightarrow> Ok tx
      | Some m \<Rightarrow>
          rbind (rwrap ''map incoming message'' (map_message C T raw m)) (\<lambda>in_msg.
          rbind (deref_block b) (\<lambda>b.
          (let in_msg = in_msg\<lparr>ms_dst_tx_lt := tx_created_lt tx, ms_dst_tx_hash := tx_hash tx,
                     ms_dst_workchain := be_workchain b, ms_dst_shard := be_shard b,
                     ms_dst_block_seqno := be_seqno b\<rparr>
           in Ok (tx\<lparr>tx_in_msg := Some in_msg, tx_in_msg_hash := ms_hash in_msg,
                     tx_in_amount := (if ms_type in_msg = Internal then ms_amount in_msg else tx_in_amount tx)\<rparr>)))))"

definition map_out_msg ::
  "cell_lib \<Rightarrow> tlb_lib \<Rightarrow> block_ext option \<Rightarrow> tlb_transaction \<Rightarrow> tlb_message \<Rightarrow> message res" where
  "map_out_msg C T b raw m =
     rbind (rwrap ''map outgoing message'' (map_message C T raw m)) (\<lambda>out.
     rbind (deref_block b) (\<lambda>b.
     Ok (out\<lparr>ms_src_tx_lt := rw_lt raw, ms_src_tx_hash := rw_hash raw,
             ms_src_workchain := be_workchain b, ms_src_shard := be_shard b,
             ms_src_block_seqno := be_seqno b\<rparr>)))"

text \<open>One outgoing message: it is appended, and its amount added when it is internal.\<close>

definition add_out :: "transaction \<Rightarrow> message \<Rightarrow> transaction" where
  "add_out tx out =
     tx\<lparr>tx_out_msg := tx_out_msg tx @ [out],
        tx_out_amount := (if ms_type out = Internal
          then tx_out_amount tx + (case ms_amount out of Some n \<Rightarrow> n | None \<Rightarrow> 0) else tx_out_amount tx)\<rparr>"

fun map_out_msgs :: "cell_lib \<Rightarrow> tlb_lib \<Rightarrow> block_ext option \<Rightarrow> tlb_transaction \<Rightarrow> tlb_message list \<Rightarrow>
    transaction \<Rightarrow> transaction res" where
  "map_out_msgs C T b raw [] tx = Ok tx"
| "map_out_msgs C T b raw (m # ms) tx =
     rbind (map_out_msg C T b raw m) (\<lambda>out. map_out_msgs C T b raw ms (add_out tx out))"

definition map_transaction ::
  "addr_lib \<Rightarrow> cell_lib \<Rightarrow> tlb_lib \<Rightarrow> block_ext option \<Rightarrow> tlb_transaction \<Rightarrow> transaction res" where
  "map_transaction L C T b raw =
     rbind (case b of
              None \<Rightarrow> Ok (tx_base raw)
            | Some blk \<Rightarrow>
                rbind (deref_from_tonutils (al_newAddress L 0 (ucast (be_workchain blk)) (rw_account_addr raw)))
                  (\<lambda>a. Ok ((tx_base raw)\<lparr>tx_address := a, tx_workchain := be_workchain blk,
                         tx_shard := be_shard blk, tx_block_seqno := be_seqno blk\<rparr>))) (\<lambda>tx.
     rbind (map_in_msg C T b raw tx) (\<lambda>tx.
     rbind (case rw_out raw of
              None \<Rightarrow> Ok tx
            | Some out \<Rightarrow>
                rbind (rwrap ''getting outgoing tx messages'' out) (\<lambda>messages.
                map_out_msgs C T b raw messages tx)) (\<lambda>tx.
     case rw_description raw of
       None \<Rightarrow> Ok tx
     | Some d \<Rightarrow>
         rbind (rwrap ''tx description to cell'' (tl_description T d)) (\<lambda>c.
         Ok (map_description d (tx\<lparr>tx_description := cl_toBOC C c\<rparr>))))))"

subsection \<open>Lemmas\<close>

definition out_value :: "message \<Rightarrow> int" where
  "out_value m = (if ms_type m = Internal then (case ms_amount m of Some n \<Rightarrow> n | None \<Rightarrow> 0) else 0)"

lemma foldl_add_out:
  "foldl add_out tx outs =
     tx\<lparr>tx_out_msg := tx_out_msg tx @ outs, tx_out_amount := tx_out_amount tx + sum_list (map out_value outs)\<rparr>"
  by (induction outs arbitrary: tx) (simp_all add: add_out_def out_value_def)

lemma map_out_msgs_Ok:
  "map_out_msgs C T b raw ms tx = Ok tx' \<Longrightarrow>
   \<exists>outs. rmap (map_out_msg C T b raw) ms = Ok outs \<and> tx' = foldl add_out tx outs"
proof (induction ms arbitrary: tx)
  case Nil
  then show ?case by simp
next
  case (Cons m ms)
  then obtain out where out: "map_out_msg C T b raw m = Ok out"
      "map_out_msgs C T b raw ms (add_out tx out) = Ok tx'"
    by auto
  with Cons.IH[OF out(2)] show ?case by auto
qed

lemma map_out_msg_src:
  assumes "map_out_msg C T (Some b) raw m = Ok out"
  shows "ms_src_tx_lt out = rw_lt raw \<and> ms_src_tx_hash out = rw_hash raw \<and>
    ms_src_workchain out = be_workchain b \<and> ms_src_shard out = be_shard b \<and>
    ms_src_block_seqno out = be_seqno b"
  using assms by (auto simp: map_out_msg_def deref_block_def)

lemma rmap_Ok_all:
  "rmap f xs = Ok ys \<Longrightarrow> (\<And>x y. f x = Ok y \<Longrightarrow> P y) \<Longrightarrow> \<forall>y \<in> set ys. P y"
  by (induction xs arbitrary: ys) auto

lemma rmap_out_src:
  assumes "rmap (map_out_msg C T (Some b) raw) ms = Ok outs" and "m \<in> set outs"
  shows "ms_src_tx_lt m = rw_lt raw \<and> ms_src_tx_hash m = rw_hash raw \<and>
    ms_src_workchain m = be_workchain b \<and> ms_src_shard m = be_shard b \<and>
    ms_src_block_seqno m = be_seqno b"
proof -
  have "\<forall>y \<in> set outs. ms_src_tx_lt y = rw_lt raw \<and> ms_src_tx_hash y = rw_hash raw \<and>
      ms_src_workchain y = be_workchain b \<and> ms_src_shard y = be_shard b \<and>
      ms_src_block_seqno y = be_seqno b"
    by (rule rmap_Ok_all[OF assms(1)]) (rule map_out_msg_src)
  with assms(2) show ?thesis by blast
qed

lemma map_description_same:
  "tx_hash (map_description d tx) = tx_hash tx" "tx_created_lt (map_description d tx) = tx_created_lt tx"
  "tx_out_msg (map_description d tx) = tx_out_msg tx" "tx_out_amount (map_description d tx) = tx_out_amount tx"
  "tx_in_msg (map_description d tx) = tx_in_msg tx" "tx_in_amount (map_description d tx) = tx_in_amount tx"
  "tx_in_msg_hash (map_description d tx) = tx_in_msg_hash tx"
  "tx_workchain (map_description d tx) = tx_workchain tx" "tx_shard (map_description d tx) = tx_shard tx"
  "tx_block_seqno (map_description d tx) = tx_block_seqno tx"
  by (cases d; simp add: map_phases_def map_compute_phase_def split: option.split compute_phase.split)+

text \<open>The four stages of the mapping of a transaction of a block.\<close>

lemma map_transaction_stages:
  assumes "map_transaction L C T (Some b) raw = Ok tx"
  obtains a tx1 outs d where
    "map_in_msg C T (Some b) raw ((tx_base raw)\<lparr>tx_address := a, tx_workchain := be_workchain b,
       tx_shard := be_shard b, tx_block_seqno := be_seqno b\<rparr>) = Ok tx1"
    "case rw_out raw of None \<Rightarrow> outs = [] | Some r \<Rightarrow>
       \<exists>ms. r = Ok ms \<and> rmap (map_out_msg C T (Some b) raw) ms = Ok outs"
    "tx = d (foldl add_out tx1 outs)"
    "d = id \<or> (\<exists>x c. d = (\<lambda>t. map_description x (t\<lparr>tx_description := c\<rparr>)))"
proof -
  obtain a tx1 tx2 where st:
    "map_in_msg C T (Some b) raw ((tx_base raw)\<lparr>tx_address := a, tx_workchain := be_workchain b,
       tx_shard := be_shard b, tx_block_seqno := be_seqno b\<rparr>) = Ok tx1"
    "(case rw_out raw of
        None \<Rightarrow> Ok tx1
      | Some out \<Rightarrow> rbind (rwrap ''getting outgoing tx messages'' out) (\<lambda>messages.
          map_out_msgs C T (Some b) raw messages tx1)) = Ok tx2"
    "(case rw_description raw of
        None \<Rightarrow> Ok tx2
      | Some d \<Rightarrow> rbind (rwrap ''tx description to cell'' (tl_description T d)) (\<lambda>c.
         Ok (map_description d (tx2\<lparr>tx_description := cl_toBOC C c\<rparr>)))) = Ok tx"
    using assms unfolding map_transaction_def by auto
  obtain outs where outs: "tx2 = foldl add_out tx1 outs"
      "case rw_out raw of None \<Rightarrow> outs = [] | Some r \<Rightarrow>
         \<exists>ms. r = Ok ms \<and> rmap (map_out_msg C T (Some b) raw) ms = Ok outs"
  proof (cases "rw_out raw")
    case None
    with st(2) that[of "[]"] show ?thesis by simp
  next
    case (Some r)
    with st(2) obtain ms where "r = Ok ms" "map_out_msgs C T (Some b) raw ms tx1 = Ok tx2"
      by auto
    with map_out_msgs_Ok[of C T "Some b" raw ms tx1 tx2] Some that show ?thesis by auto
  qed
  obtain d where d: "tx = d tx2"
      "d = id \<or> (\<exists>x c. d = (\<lambda>t. map_description x (t\<lparr>tx_description := c\<rparr>)))"
  proof (cases "rw_description raw")
    case None
    with st(3) that[of id] show ?thesis by simp
  next
    case (Some x)
    with st(3) obtain c where "tx = map_description x (tx2\<lparr>tx_description := cl_toBOC C c\<rparr>)" by auto
    with that[of "\<lambda>t. map_description x (t\<lparr>tx_description := cl_toBOC C c\<rparr>)"] show ?thesis by blast
  qed
  show ?thesis by (rule that[OF st(1) outs(2) d(1)[unfolded outs(1)] d(2)])
qed

subsection \<open>Properties\<close>


text \<open>A transaction with one internal message in each direction.\<close>

definition ex_cell_lib :: cell_lib where
  "ex_cell_lib = \<lparr>cl_hash = (\<lambda>c. [0x48]), cl_toBOC = (\<lambda>c. [0xb5]),
     cl_fromBOC = (\<lambda>b. Ok (Cell [] [] False)), cl_loadUInt = (\<lambda>n s. Ok (7, s)),
     cl_loadSlice = (\<lambda>n s. Ok ([], s)), cl_loadSnake = (\<lambda>s. Ok []),
     cl_loadBinarySnake = (\<lambda>s. Ok []), cl_loadRef = (\<lambda>s. Ok (s, s)), cl_toDict = (\<lambda>n c. Ok []),
     cl_dictAll = (\<lambda>d. Ok d), cl_dictGet = (\<lambda>d i. Err (ErrExt ''no such key'')), cl_toCell = (\<lambda>s. Ok s)\<rparr>"

definition ex_tlb_lib :: tlb_lib where
  "ex_tlb_lib = \<lparr>tl_message = (\<lambda>m. Ok (Cell [] [] False)), tl_description = (\<lambda>d. Ok (Cell [] [] False))\<rparr>"

definition ex_internal :: "int \<Rightarrow> tlb_message" where
  "ex_internal n = InternalMessage \<lparr>
     ri_src = \<lparr>ta_std = True, ta_workchain = 0, ta_data = replicate 32 1\<rparr>,
     ri_dst = \<lparr>ta_std = True, ta_workchain = 0, ta_data = replicate 32 2\<rparr>,
     ri_bounce = True, ri_bounced = False, ri_amount = n, ri_ihr_disabled = True, ri_ihr_fee = 0,
     ri_fwd_fee = 3, ri_body = Cell [] [] False, ri_state_init = None, ri_created_lt = 9, ri_created_at = 1\<rparr>"

definition ex_tlb_tx :: tlb_transaction where
  "ex_tlb_tx = \<lparr>rw_hash = [0x77], rw_prev_hash = [], rw_prev_lt = 8, rw_out_count = 1, rw_total_fees = 2,
     rw_orig_status = Active, rw_end_status = Active, rw_lt = 10, rw_now = 1,
     rw_account_addr = replicate 32 2, rw_in = Some (ex_internal 100),
     rw_out = Some (Ok [ex_internal 30, ex_internal 12]), rw_description = Some (DescOrdinary (Some 0) (ComputeVM 0))\<rparr>"

lemma ex_tx_ok: "is_ok (map_transaction addr_lib_impl ex_cell_lib ex_tlb_lib (Some ex_block) ex_tlb_tx)"
  by code_simp


end
