(* ===== verification/AbiGet.thy ===== *)
theory AbiGet
  imports Core
begin

section \<open>abi/get.go: the get methods of a contract's code\<close>

text \<open>
  A get method is known by the checksum of its name; the compiled code of a contract starts with a
  fixed header and refers to a dictionary whose keys are the ids of its methods. The cell
  operations are those of \<open>cell_lib\<close>, the checksum is an argument as in \<open>Addr\<close>.
\<close>

definition get_methods_key_sz :: nat where
  "get_methods_key_sz = 19"

definition method_name_hash :: "(bytes \<Rightarrow> u16) \<Rightarrow> string \<Rightarrow> i32" where
  "method_name_hash crc name = ucast (crc (map of_char name)) OR 0x10000"

definition dict_header :: bytes where
  "dict_header = [0xFF, 0x00, 0xF4, 0xA4, 0x13, 0xF4, 0xBC]"

definition get_methods_dict :: "cell_lib \<Rightarrow> cell \<Rightarrow> dict res" where
  "get_methods_dict C code =
     rbind (rwrap ''load slice'' (cl_loadSlice C 56 code)) (\<lambda>(hdr, rest).
     if hdr \<noteq> dict_header then Err (ErrText ''cannot find methods dictionary header'')
     else rbind (rwrap ''load ref'' (cl_loadRef C rest)) (\<lambda>(ref, rest).
          rwrap ''ref to dict'' (cl_toDict C get_methods_key_sz ref)))"

text \<open>An error of the library means that there is no such method; only a panic escapes.\<close>

definition has_get_method :: "cell_lib \<Rightarrow> (bytes \<Rightarrow> u16) \<Rightarrow> cell \<Rightarrow> string \<Rightarrow> bool res" where
  "has_get_method C crc code name =
     (if List.member [''recv_internal'', ''main'', ''recv_external'', ''run_ticktock''] name then Ok False
      else (case rbind (get_methods_dict C code) (\<lambda>dict.
                 rbind (cl_dictGet C dict (sint (method_name_hash crc name))) (cl_toCell C)) of
              Ok _ \<Rightarrow> Ok True | Err _ \<Rightarrow> Ok False | Panic p \<Rightarrow> Panic p))"

fun collect_hashes :: "cell_lib \<Rightarrow> (slice \<times> slice) list \<Rightarrow> i32 list res" where
  "collect_hashes C [] = Ok []"
| "collect_hashes C (kv # kvs) =
     rbind (rwrap ''load uint'' (cl_loadUInt C get_methods_key_sz (fst kv))) (\<lambda>(i, _).
     rbind (collect_hashes C kvs) (\<lambda>hs.
     Ok (if i \<in> {0, 1, 2, 3} then hs else word_of_nat i # hs)))"

definition get_method_hashes :: "cell_lib \<Rightarrow> cell \<Rightarrow> i32 list res" where
  "get_method_hashes C code =
     rbind (rwrap ''get methods dict'' (get_methods_dict C code)) (\<lambda>dict.
     rbind (rwrap ''dict load all'' (cl_dictAll C dict)) (collect_hashes C))"

text \<open>The caller that drops the error keeps the nil slice that came with it.\<close>

definition hashes_or_nil :: "i32 list res \<Rightarrow> i32 list res" where
  "hashes_or_nil r = (case r of Ok hs \<Rightarrow> Ok hs | Err e \<Rightarrow> Ok [] | Panic p \<Rightarrow> Panic p)"

lemma collect_hashes_Ok:
  "collect_hashes C kvs = Ok hs \<Longrightarrow>
   \<exists>ids. rmap (\<lambda>kv. rbind (cl_loadUInt C get_methods_key_sz (fst kv)) (\<lambda>(i, _). Ok i)) kvs = Ok ids \<and>
     hs = map word_of_nat (filter (\<lambda>i. i \<notin> {0, 1, 2, 3}) ids)"
proof (induction kvs arbitrary: hs)
  case (Cons kv kvs)
  then obtain i r hs' where "cl_loadUInt C get_methods_key_sz (fst kv) = Ok (i, r)"
      "collect_hashes C kvs = Ok hs'" "hs = (if i \<in> {0, 1, 2, 3} then hs' else word_of_nat i # hs')"
    by auto
  with Cons.IH[of hs'] show ?case by auto
qed simp

end
