(* ===== verification/Filters.thy ===== *)
theory Filters
  imports Core
begin

section \<open>internal/core/filter: what the repositories can be asked\<close>

text \<open>
  The requests and results of \<open>internal/core/filter\<close>. A result is the total number of rows
  that match and the rows of the requested page.
\<close>

record 'a rows =
  rs_total :: int
  rs_rows :: "'a list"

record labels_req =
  lr_name :: string
  lr_categories :: "string list"
  lr_offset :: int
  lr_limit :: int

record accounts_req =
  ar_with_code_data :: bool
  ar_addresses :: "addr list"
  ar_latest_state :: bool
  ar_state_ids :: "account_state_id list"
  ar_workchain :: "i32 option"
  ar_shard :: "i64 option"
  ar_seqno_leq :: "u32 option"
  ar_seqno_beq :: "u32 option"
  ar_contract_types :: "contract_name list"
  ar_owner :: "addr option"
  ar_minter :: "addr option"
  ar_exclude_column :: "string list"
  ar_order :: string
  ar_after_tx_lt :: "u64 option"
  ar_limit :: int

definition accounts_req_zero :: accounts_req where
  "accounts_req_zero = \<lparr>ar_with_code_data = False, ar_addresses = [], ar_latest_state = False,
     ar_state_ids = [], ar_workchain = None, ar_shard = None, ar_seqno_leq = None, ar_seqno_beq = None,
     ar_contract_types = [], ar_owner = None, ar_minter = None, ar_exclude_column = [],
     ar_order = [], ar_after_tx_lt = None, ar_limit = 0\<rparr>"

record blocks_req =
  br_workchain :: "i32 option"
  br_shard :: "i64 option"
  br_seqno :: "u32 option"
  br_file_hash :: bytes
  br_with_shards :: bool
  br_with_account_states :: bool
  br_with_tx_account_state :: bool
  br_with_transactions :: bool
  br_with_tx_messages :: bool
  br_exclude_column :: "string list"
  br_order :: string
  br_after_seqno :: "u32 option"
  br_limit :: int

definition blocks_req_zero :: blocks_req where
  "blocks_req_zero = \<lparr>br_workchain = None, br_shard = None, br_seqno = None, br_file_hash = [],
     br_with_shards = False, br_with_account_states = False, br_with_tx_account_state = False,
     br_with_transactions = False, br_with_tx_messages = False, br_exclude_column = [],
     br_order = [], br_after_seqno = None, br_limit = 0\<rparr>"

record messages_req =
  mr_hash :: bytes
  mr_src_addresses :: "addr list"
  mr_dst_addresses :: "addr list"
  mr_operation_id :: "u32 option"
  mr_src_workchain :: "i32 option"
  mr_dst_workchain :: "i32 option"
  mr_src_contracts :: "string list"
  mr_dst_contracts :: "string list"
  mr_operation_names :: "string list"
  mr_order :: string
  mr_after_tx_lt :: "u64 option"
  mr_limit :: int

definition messages_req_zero :: messages_req where
  "messages_req_zero = \<lparr>mr_hash = [], mr_src_addresses = [], mr_dst_addresses = [],
     mr_operation_id = None, mr_src_workchain = None, mr_dst_workchain = None, mr_src_contracts = [],
     mr_dst_contracts = [], mr_operation_names = [], mr_order = [], mr_after_tx_lt = None, mr_limit = 0\<rparr>"

record transactions_req =
  tr_hash :: bytes
  tr_in_msg_hash :: bytes
  tr_addresses :: "addr list"
  tr_workchain :: "i32 option"
  tr_block_id :: "block_id option"
  tr_with_account_state :: bool
  tr_with_messages :: bool
  tr_exclude_column :: "string list"
  tr_order :: string
  tr_created_lt :: "u64 option"
  tr_after_tx_lt :: "u64 option"
  tr_limit :: int

definition transactions_req_zero :: transactions_req where
  "transactions_req_zero = \<lparr>tr_hash = [], tr_in_msg_hash = [], tr_addresses = [], tr_workchain = None,
     tr_block_id = None, tr_with_account_state = False, tr_with_messages = False,
     tr_exclude_column = [], tr_order = [], tr_created_lt = None, tr_after_tx_lt = None, tr_limit = 0\<rparr>"

end
