(* ===== verification/Fetcher.thy ===== *)
theory Fetcher
  imports Caches TxMap AbiGet Filters
begin

section \<open>internal/app/fetcher: reading the chain through the node\<close>

text \<open>
  The service of \<open>block.go\<close>, \<open>account.go\<close>, \<open>libraries.go\<close> and \<open>tx.go\<close>.
  The node is the record \<open>node_api\<close>, a function of the request: blocks and the states in
  them never change. The three caches are the state. A clock reading is an argument. Goroutines
  that fetch in parallel deliver their results in an arbitrary order, which is an argument too; each
  of their cache accesses is atomic, and their order among each other does not matter for what is
  cached (\<open>Caches\<close>), so the model lets them run one after the other in the order of delivery.
  A timeout of a context is an error of the node.
\<close>

record tx_short =
  ts_account :: bytes
  ts_lt :: u64

record node_api =
  na_lookupBlock :: "i32 \<Rightarrow> i64 \<Rightarrow> u32 \<Rightarrow> block_ext res"
  na_shardsInfo :: "block_ext \<Rightarrow> block_ext list res"
  na_blockData :: "block_ext \<Rightarrow> bytes res"
  na_parents :: "bytes \<Rightarrow> block_ext list res"
  na_account :: "block_ext \<Rightarrow> ton_addr \<Rightarrow> tlb_account res"
  na_libraries :: "bytes list \<Rightarrow> cell option list res"
  na_blockTxs :: "block_ext \<Rightarrow> nat \<Rightarrow> tx_short option \<Rightarrow> (tx_short list \<times> bool) res"
  na_transaction :: "block_ext \<Rightarrow> ton_addr \<Rightarrow> u64 \<Rightarrow> tlb_transaction res"

text \<open>The dictionary of libraries that is stored with an account, built by tonutils.\<close>

record dict_lib =
  dl_desc :: "cell option \<Rightarrow> cell res"
  dl_key :: "bytes \<Rightarrow> cell res"
  dl_set :: "dict \<Rightarrow> cell \<Rightarrow> cell \<Rightarrow> dict res"
  dl_cell :: "dict \<Rightarrow> cell option"

record fetcher_env =
  fe_api :: node_api
  fe_addr :: addr_lib
  fe_cell :: cell_lib
  fe_tlb :: tlb_lib
  fe_dict :: dict_lib
  fe_filterAccounts :: "accounts_req \<Rightarrow> account_state rows res"

record fetcher =
  fs_accounts :: account_cache
  fs_blocks :: blocks_cache
  fs_libraries :: libraries_cache

definition master_workchain :: i32 where "master_workchain = -1"
definition master_shard :: i64 where "master_shard = 0x8000000000000000"

definition new_fetcher :: "gotime \<Rightarrow> fetcher" where
  "new_fetcher now = \<lparr>fs_accounts = newAccountCache, fs_blocks = newBlocksCache now, fs_libraries = Map.empty\<rparr>"

subsection \<open>Blocks\<close>

definition lookupMaster :: "node_api \<Rightarrow> clock2 \<Rightarrow> u32 \<Rightarrow> blocks_cache \<Rightarrow> block_ext res \<times> blocks_cache" where
  "lookupMaster api t seqNo c =
     (case getMaster c seqNo of
        Some master \<Rightarrow> (Ok master, c)
      | None \<Rightarrow>
          (case rwrap ''lookup masterchain block'' (na_lookupBlock api master_workchain master_shard seqNo) of
             Ok master \<Rightarrow> (Ok master, setMaster t master c)
           | r \<Rightarrow> (r, c)))"

text \<open>With no shards \<open>errors.Wrapf\<close> is given the nil error of the call before, so nil is returned.\<close>

definition getShardsInfo :: "node_api \<Rightarrow> clock2 \<Rightarrow> block_ext \<Rightarrow> blocks_cache \<Rightarrow> block_ext list res \<times> blocks_cache" where
  "getShardsInfo api t master c =
     (case getShards c master of
        Some shards \<Rightarrow> (Ok shards, c)
      | None \<Rightarrow>
          (case rwrap ''get masterchain shards info'' (na_shardsInfo api master) of
             Ok shards \<Rightarrow>
               if shards = []
               then (case wrap_err None ''masterchain block has no shards'' of
                       None \<Rightarrow> (Ok [], c) | Some e \<Rightarrow> (Err e, c))
               else (Ok shards, setShards t master shards c)
           | r \<Rightarrow> (r, c)))"

definition getShardID :: "block_ext \<Rightarrow> string" where
  "getShardID shard = show_int (sint (be_workchain shard)) @ ''|'' @ show_int (sint (be_shard shard))"

text \<open>The recursion over the parents: without fuel the stack is exhausted.\<close>

fun getNotSeenBlocks :: "nat \<Rightarrow> node_api \<Rightarrow> (string \<rightharpoonup> u32) \<Rightarrow> block_ext \<Rightarrow> block_ext list res" where
  "getNotSeenBlocks 0 api lastSeqNo block = Panic ''stack overflow''"
| "getNotSeenBlocks (Suc n) api lastSeqNo block =
     (if lastSeqNo (getShardID block) = Some (be_seqno block) then Ok []
      else rbind (rwrap ''get block data'' (na_blockData api block)) (\<lambda>b.
           rbind (rwrap ''get parent blocks'' (na_parents api b)) (\<lambda>parents.
           rbind (rmap (getNotSeenBlocks n api lastSeqNo) parents) (\<lambda>exts.
           Ok (concat exts @ [block])))))"

fun shardLastSeqNo :: "block_ext list \<Rightarrow> (string \<rightharpoonup> u32) \<Rightarrow> (string \<rightharpoonup> u32)" where
  "shardLastSeqNo [] m = m"
| "shardLastSeqNo (shard # shards) m = shardLastSeqNo shards (m(getShardID shard \<mapsto> be_seqno shard))"

text \<open>\<open>clk\<close> gives the clock readings of the four cache updates.\<close>

definition unseenShards :: "nat \<Rightarrow> node_api \<Rightarrow> (nat \<Rightarrow> clock2) \<Rightarrow> block_ext \<Rightarrow> blocks_cache \<Rightarrow>
    block_ext list res \<times> blocks_cache" where
  "unseenShards fuel api clk master c =
     (case getShardsInfo api (clk 0) master c of
        (Ok curShards, c) \<Rightarrow>
          (case lookupMaster api (clk 1) (be_seqno master - 1) c of
             (Ok prevMaster, c) \<Rightarrow>
               (case getShardsInfo api (clk 2) prevMaster c of
                  (Ok prevShards, c) \<Rightarrow>
                    (let last = shardLastSeqNo prevShards Map.empty
                     in (rbind (rmap (\<lambda>shard. rwrap ''get not seen shards''
                            (getNotSeenBlocks fuel api last shard)) curShards) (\<lambda>ls. Ok (concat ls)), c))
                | (Err e, c) \<Rightarrow> (Err (Wrap e ''get masterchain shards info''), c)
                | (Panic p, c) \<Rightarrow> (Panic p, c))
           | (Err e, c) \<Rightarrow> (Err (Wrap e ''lookup master''), c)
           | (Panic p, c) \<Rightarrow> (Panic p, c))
      | (Err e, c) \<Rightarrow> (Err (Wrap e ''get masterchain shards info''), c)
      | (Panic p, c) \<Rightarrow> (Panic p, c))"

definition unseenBlocks :: "nat \<Rightarrow> node_api \<Rightarrow> (nat \<Rightarrow> clock2) \<Rightarrow> u32 \<Rightarrow> blocks_cache \<Rightarrow>
    (block_ext \<times> block_ext list) res \<times> blocks_cache" where
  "unseenBlocks fuel api clk masterSeqNo c =
     (case lookupMaster api (clk 3) masterSeqNo c of
        (Ok curMaster, c) \<Rightarrow>
          (case unseenShards fuel api clk curMaster c of
             (r, c) \<Rightarrow> (rbind r (\<lambda>shards. Ok (curMaster, shards)), c))
      | (Err e, c) \<Rightarrow> (Err (Wrap e ''lookup master''), c)
      | (Panic p, c) \<Rightarrow> (Panic p, c))"

subsection \<open>Libraries\<close>

definition getLibraryHash :: "cell_lib \<Rightarrow> cell \<Rightarrow> bytes res" where
  "getLibraryHash C code =
     rbind (cl_loadBinarySnake C code) (\<lambda>hash.
     if hash = [] then Panic ''slice bounds out of range'' else Ok (drop 1 hash))"

text \<open>
  The loop over the references counts down from their number, which is at least one, while the
  counter is below one: its condition is false the first time it is tested.
\<close>

definition findLibraries :: "cell_lib \<Rightarrow> cell \<Rightarrow> bytes list res" where
  "findLibraries C code =
     (if cell_library code then rbind (getLibraryHash C code) (\<lambda>hash. Ok [hash])
      else if length (cell_refs code) = 0 then Ok []
      else if length (cell_refs code) < 1 then Panic ''index out of range''
      else Ok [])"

text \<open>The loop that fills the dictionary; \<open>i\<close> indexes the libraries the node returned.\<close>

fun add_libraries :: "dict_lib \<Rightarrow> cell option list \<Rightarrow> nat \<Rightarrow> bytes list \<Rightarrow> dict \<Rightarrow> libraries_cache \<Rightarrow>
    dict res \<times> libraries_cache" where
  "add_libraries D libs i [] m c = (Ok m, c)"
| "add_libraries D libs i (hash # hashes) m c =
     (if length libs \<le> i then (Panic ''index out of range'', c)
      else (case rbind (dl_desc D (libs ! i)) (\<lambda>t. rbind (dl_key D hash) (\<lambda>h. dl_set D m h t)) of
              Ok m \<Rightarrow> add_libraries D libs (Suc i) hashes m (libraries_set hash (libs ! i) c)
            | r \<Rightarrow> (r, c)))"

definition getAccountLibraries :: "fetcher_env \<Rightarrow> cell \<Rightarrow> libraries_cache \<Rightarrow> cell option res \<times> libraries_cache" where
  "getAccountLibraries E code c =
     (case rwrap ''find libraries'' (findLibraries (fe_cell E) code) of
        Ok hashes \<Rightarrow>
          (case rwrap ''get libraries'' (na_libraries (fe_api E) hashes) of
             Ok libs \<Rightarrow>
               (case add_libraries (fe_dict E) libs 0 hashes [] c of
                  (r, c) \<Rightarrow> (rbind r (\<lambda>m. Ok (dl_cell (fe_dict E) m)), c))
           | Err e \<Rightarrow> (Err e, c)
           | Panic p \<Rightarrow> (Panic p, c))
      | Err e \<Rightarrow> (Err e, c)
      | Panic p \<Rightarrow> (Panic p, c))"

subsection \<open>Accounts\<close>

definition getLastSeenAccountState :: "fetcher_env \<Rightarrow> addr \<Rightarrow> u64 \<Rightarrow> account_state res" where
  "getLastSeenAccountState E a lastLT =
     (let lastLT = lastLT + 1;
          req = accounts_req_zero\<lparr>ar_with_code_data := True, ar_addresses := [a], ar_order := ''DESC'',
                  ar_after_tx_lt := Some lastLT, ar_limit := 1\<rparr>
      in rbind (rwrap ''filter accounts'' (fe_filterAccounts E req)) (\<lambda>res.
         case rs_rows res of
           [] \<Rightarrow> Err (Wrap ErrNotFound ''could not find needed account state'')
         | acc # _ \<Rightarrow> Ok acc))"

definition getOtherAccount :: "fetcher_env \<Rightarrow> block_ext \<Rightarrow> block_ext \<Rightarrow> u64 \<Rightarrow> account_cache \<Rightarrow> addr \<Rightarrow> account_state res" where
  "getOtherAccount E master b lastLT c a =
     (case accounts_get c b a of
        Some acc \<Rightarrow> Ok acc
      | None \<Rightarrow>
          (case getLastSeenAccountState E a lastLT of
             Ok acc \<Rightarrow> Ok acc
           | Panic p \<Rightarrow> Panic p
           | Err e \<Rightarrow>
               rbind (must_to_tonutils (fe_addr E) a) (\<lambda>ta.
               rbind (rwrap ''cannot get account state'' (na_account (fe_api E) master ta)) (\<lambda>raw.
               map_account (fe_cell E) b raw))))"

text \<open>The hashes of the get methods, of the library when the code is a reference to one.\<close>

definition code_hashes :: "fetcher_env \<Rightarrow> cell \<Rightarrow> libraries_cache \<Rightarrow> i32 list res" where
  "code_hashes E code libs =
     (if cell_library code
      then rbind (rwrap ''get library hash'' (getLibraryHash (fe_cell E) code)) (\<lambda>hash.
           case libraries_get libs hash of
             Some (Some lib) \<Rightarrow> hashes_or_nil (get_method_hashes (fe_cell E) lib)
           | _ \<Rightarrow> Ok [])
      else hashes_or_nil (get_method_hashes (fe_cell E) code))"

text \<open>The account as the node has it, before it is cached; only the libraries are updated.\<close>

definition fetchAccount :: "fetcher_env \<Rightarrow> block_ext \<Rightarrow> addr \<Rightarrow> libraries_cache \<Rightarrow> account_state res \<times> libraries_cache" where
  "fetchAccount E b a libs =
     (if skip_address (fe_addr E) a then (Err (Wrap ErrNotFound ''skip account''), libs)
      else (case rbind (must_to_tonutils (fe_addr E) a) (\<lambda>ta.
                   rbind (rwrap ''get account'' (na_account (fe_api E) b ta)) (\<lambda>raw.
                   rbind (map_account (fe_cell E) b raw) (\<lambda>acc. Ok (raw, acc)))) of
              Err e \<Rightarrow> (Err e, libs)
            | Panic p \<Rightarrow> (Panic p, libs)
            | Ok (raw, acc) \<Rightarrow>
                (case (case ra_code raw of
                         None \<Rightarrow> (Ok acc, libs)
                       | Some code \<Rightarrow>
                           (case getAccountLibraries E code libs of
                              (r, libs) \<Rightarrow>
                                (rbind (rwrap ''get account libraries'' r) (\<lambda>l.
                                 rbind (code_hashes E code libs) (\<lambda>hs.
                                 Ok (acc\<lparr>acc_libraries := (case l of Some c \<Rightarrow> cl_toBOC (fe_cell E) c
                                                                    | None \<Rightarrow> acc_libraries acc),
                                         acc_get_method_hashes := hs\<rparr>))), libs))) of
                   (r, libs) \<Rightarrow>
                     (rbind r (\<lambda>acc.
                        if acc_status acc = NonExist then Err (Wrap ErrNotFound ''account does not exists'')
                        else Ok acc), libs))))"

definition getAccount :: "fetcher_env \<Rightarrow> clock2 \<Rightarrow> block_ext \<Rightarrow> addr \<Rightarrow> fetcher \<Rightarrow> account_state res \<times> fetcher" where
  "getAccount E t b a f =
     (case accounts_get (fs_accounts f) b a of
        Some acc \<Rightarrow> (Ok acc, f)
      | None \<Rightarrow>
          (case fetchAccount E b a (fs_libraries f) of
             (Ok acc, libs) \<Rightarrow>
               (Ok acc, f\<lparr>fs_libraries := libs, fs_accounts := accounts_set t b acc (fs_accounts f)\<rparr>)
           | (r, libs) \<Rightarrow> (r, f\<lparr>fs_libraries := libs\<rparr>)))"

subsection \<open>Transactions\<close>

text \<open>
  The state that a transaction refers to is the object in the cache: the time written into it
  through the transaction is seen there too.
\<close>

definition touch_account :: "block_ext \<Rightarrow> account_state \<Rightarrow> gotime \<Rightarrow> account_cache \<Rightarrow> account_cache" where
  "touch_account b acc now c =
     (case ac_m c (get_block_id b) of
        None \<Rightarrow> c
      | Some m \<Rightarrow>
          if m (acc_address acc) = Some acc
          then c\<lparr>ac_m := (ac_m c)(get_block_id b \<mapsto> m(acc_address acc \<mapsto> acc\<lparr>acc_updated_at := now\<rparr>))\<rparr>
          else c)"

definition attach_account :: "account_state option \<Rightarrow> transaction \<Rightarrow> transaction" where
  "attach_account acc tx =
     (case acc of
        None \<Rightarrow> tx\<lparr>tx_account := None\<rparr>
      | Some a \<Rightarrow>
          (let a = a\<lparr>acc_updated_at := tx_created_at tx\<rparr>
           in tx\<lparr>tx_account := Some a,
                 tx_in_msg := map_option (\<lambda>m. m\<lparr>ms_dst_state := Some a\<rparr>) (tx_in_msg tx),
                 tx_out_msg := map (\<lambda>m. m\<lparr>ms_src_state := Some a\<rparr>) (tx_out_msg tx)\<rparr>))"

text \<open>
  The two goroutines: \<open>acc_first\<close> says which result is received first. An account that is not
  found is no error; a panic of either ends the process.
\<close>

definition join_results :: "bool \<Rightarrow> account_state res \<Rightarrow> transaction res \<Rightarrow> (account_state option \<times> transaction) res" where
  "join_results acc_first accRet txRet =
     (case (accRet, txRet) of
        (Panic p, _) \<Rightarrow> Panic p
      | (_, Panic p) \<Rightarrow> Panic p
      | (Ok acc, Ok tx) \<Rightarrow> Ok (Some acc, tx)
      | (Ok acc, Err e) \<Rightarrow> Err e
      | (Err e, Ok tx) \<Rightarrow> if err_is e ErrNotFound then Ok (None, tx) else Err e
      | (Err e, Err e') \<Rightarrow> if acc_first \<and> \<not> err_is e ErrNotFound then Err e else Err e')"

text \<open>The goroutine that fetches and maps the transaction.\<close>

definition fetchTx :: "fetcher_env \<Rightarrow> block_ext \<Rightarrow> ton_addr \<Rightarrow> tx_short \<Rightarrow> transaction res" where
  "fetchTx E b a i =
     rbind (rwrap ''get transaction'' (na_transaction (fe_api E) b a (ts_lt i))) (\<lambda>rawTx.
     rwrap ''map transaction'' (map_transaction (fe_addr E) (fe_cell E) (fe_tlb E) (Some b) rawTx))"

definition getTransaction :: "fetcher_env \<Rightarrow> clock2 \<Rightarrow> bool \<Rightarrow> block_ext \<Rightarrow> tx_short \<Rightarrow> fetcher \<Rightarrow>
    transaction res \<times> fetcher" where
  "getTransaction E t acc_first b i f =
     (let a = al_newAddress (fe_addr E) 0 (ucast (be_workchain b)) (ts_account i);
          txRet = fetchTx E b a i
      in case deref_from_tonutils a of
           Ok x \<Rightarrow>
             (case getAccount E t b x f of
                (accRet, f) \<Rightarrow>
                  (case join_results acc_first (rwrap ''get account'' accRet) txRet of
                     Ok (acc, tx) \<Rightarrow>
                       (Ok (attach_account acc tx),
                        (case acc of
                           None \<Rightarrow> f
                         | Some a \<Rightarrow> f\<lparr>fs_accounts := touch_account b a (tx_created_at tx) (fs_accounts f)\<rparr>))
                   | Err e \<Rightarrow> (Err e, f)
                   | Panic p \<Rightarrow> (Panic p, f)))
         | Err e \<Rightarrow> (Err e, f)
         | Panic p \<Rightarrow> (Panic p, f))"

text \<open>
  One goroutine per id. \<open>ord\<close> is the order in which their results arrive; the first error
  that arrives is returned, the other goroutines still run. \<open>ts\<close> gives each its clock.
\<close>

fun run_getters :: "fetcher_env \<Rightarrow> (tx_short \<Rightarrow> clock2 \<times> bool) \<Rightarrow> block_ext \<Rightarrow> tx_short list \<Rightarrow> fetcher \<Rightarrow>
    transaction res list \<times> fetcher" where
  "run_getters E sched b [] f = ([], f)"
| "run_getters E sched b (i # ids) f =
     (case getTransaction E (fst (sched i)) (snd (sched i)) b i f of
        (r, f) \<Rightarrow> (case run_getters E sched b ids f of (rs, f) \<Rightarrow> (r # rs, f)))"

fun collect_txs :: "transaction res list \<Rightarrow> transaction list res" where
  "collect_txs [] = Ok []"
| "collect_txs (r # rs) =
     rbind (rwrap ''get transaction'' r) (\<lambda>tx. rbind (collect_txs rs) (\<lambda>txs. Ok (tx # txs)))"

definition getTransactions :: "fetcher_env \<Rightarrow> (tx_short \<Rightarrow> clock2 \<times> bool) \<Rightarrow> tx_short key_order \<Rightarrow> block_ext \<Rightarrow>
    tx_short list \<Rightarrow> fetcher \<Rightarrow> transaction list res \<times> fetcher" where
  "getTransactions E sched ord b ids f =
     (case run_getters E sched b (ord ids) f of (rs, f) \<Rightarrow> (collect_txs rs, f))"

definition fetchTxIDs :: "node_api \<Rightarrow> block_ext \<Rightarrow> tx_short option \<Rightarrow> (tx_short list \<times> bool) res" where
  "fetchTxIDs api b after = na_blockTxs api b 100 after"

text \<open>The loop over the pages of a block; a page that is not the last one must not be empty.\<close>

fun blockTxLoop :: "nat \<Rightarrow> fetcher_env \<Rightarrow> (tx_short \<Rightarrow> clock2 \<times> bool) \<Rightarrow> tx_short key_order \<Rightarrow> block_ext \<Rightarrow>
    tx_short option \<Rightarrow> transaction list \<Rightarrow> fetcher \<Rightarrow> transaction list res option \<times> fetcher" where
  "blockTxLoop 0 E sched ord b after transactions f = (None, f)"
| "blockTxLoop (Suc n) E sched ord b after transactions f =
     (case rwrap ''get block transactions'' (fetchTxIDs (fe_api E) b after) of
        Err e \<Rightarrow> (Some (Err e), f)
      | Panic p \<Rightarrow> (Some (Panic p), f)
      | Ok (ids, is_more) \<Rightarrow>
          if is_more \<and> ids = [] then (Some (Panic ''index out of range''), f)
          else (case getTransactions E sched ord b ids f of
                  (Ok rawTx, f) \<Rightarrow>
                    if is_more then blockTxLoop n E sched ord b (Some (last ids)) (transactions @ rawTx) f
                    else (Some (Ok (transactions @ rawTx)), f)
                | (r, f) \<Rightarrow> (Some r, f)))"

definition blockTransactions :: "nat \<Rightarrow> fetcher_env \<Rightarrow> (tx_short \<Rightarrow> clock2 \<times> bool) \<Rightarrow> tx_short key_order \<Rightarrow>
    block_ext \<Rightarrow> fetcher \<Rightarrow> transaction list res option \<times> fetcher" where
  "blockTransactions fuel E sched ord b f = blockTxLoop fuel E sched ord b None [] f"

subsection \<open>The blocks between two states of the masterchain\<close>

definition parents_of :: "node_api \<Rightarrow> block_ext \<Rightarrow> block_ext list option" where
  "parents_of api b =
     (case na_blockData api b of
        Ok d \<Rightarrow> (case na_parents api d of Ok ps \<Rightarrow> Some ps | _ \<Rightarrow> None)
      | _ \<Rightarrow> None)"

definition is_seen :: "(string \<rightharpoonup> u32) \<Rightarrow> block_ext \<Rightarrow> bool" where
  "is_seen seen b \<longleftrightarrow> seen (getShardID b) = Some (be_seqno b)"

text \<open>The blocks reached from \<open>b\<close> through unseen ancestors.\<close>

inductive unseen_from :: "node_api \<Rightarrow> (string \<rightharpoonup> u32) \<Rightarrow> block_ext \<Rightarrow> block_ext \<Rightarrow> bool"
  for api :: node_api and seen :: "string \<rightharpoonup> u32" where
  self: "\<not> is_seen seen b \<Longrightarrow> unseen_from api seen b b"
| ancestor: "\<not> is_seen seen b \<Longrightarrow> parents_of api b = Some ps \<Longrightarrow> p \<in> set ps \<Longrightarrow>
    unseen_from api seen p x \<Longrightarrow> unseen_from api seen b x"

inductive_cases unseen_fromE: "unseen_from api seen b x"

text \<open>A parent has a smaller sequence number than its child.\<close>

definition chain_ok :: "node_api \<Rightarrow> bool" where
  "chain_ok api \<longleftrightarrow> (\<forall>b ps p. parents_of api b = Some ps \<longrightarrow> p \<in> set ps \<longrightarrow> be_seqno p < be_seqno b)"

definition parents_first :: "node_api \<Rightarrow> (string \<rightharpoonup> u32) \<Rightarrow> block_ext list \<Rightarrow> bool" where
  "parents_first api seen bs \<longleftrightarrow>
     (\<forall>pre x post ps p. bs = pre @ x # post \<longrightarrow> parents_of api x = Some ps \<longrightarrow> p \<in> set ps \<longrightarrow>
        \<not> is_seen seen p \<longrightarrow> p \<in> set pre)"

lemma parents_first_Nil [simp]: "parents_first api seen []"
  by (simp add: parents_first_def)

lemma parents_first_append:
  assumes "parents_first api seen xs" and "parents_first api seen ys"
  shows "parents_first api seen (xs @ ys)"
  unfolding parents_first_def
proof (intro allI impI)
  fix pre x post ps p
  assume a: "xs @ ys = pre @ x # post" "parents_of api x = Some ps" "p \<in> set ps" "\<not> is_seen seen p"
  then consider us where "xs = pre @ us" "us @ ys = x # post" | us where "xs @ us = pre" "ys = us @ x # post"
    by (auto simp: append_eq_append_conv2)
  then show "p \<in> set pre"
  proof cases
    case 1
    then show ?thesis
    proof (cases us)
      case Nil
      with 1 assms(2) a show ?thesis unfolding parents_first_def
        by (metis append_Nil append_Nil2 in_set_conv_decomp_first empty_iff list.set(1))
    next
      case (Cons u us')
      with 1 assms(1) a show ?thesis unfolding parents_first_def by auto
    qed
  next
    case 2
    with assms(2) a show ?thesis unfolding parents_first_def by force
  qed
qed

lemma parents_first_concat:
  "\<forall>xs \<in> set xss. parents_first api seen xs \<Longrightarrow> parents_first api seen (concat xss)"
  by (induction xss) (auto intro: parents_first_append)

lemma parents_first_snoc:
  assumes "parents_first api seen xs"
    and "\<And>ps p. parents_of api b = Some ps \<Longrightarrow> p \<in> set ps \<Longrightarrow> \<not> is_seen seen p \<Longrightarrow> p \<in> set xs"
  shows "parents_first api seen (xs @ [b])"
  unfolding parents_first_def
proof (intro allI impI)
  fix pre x post ps p
  assume a: "xs @ [b] = pre @ x # post" "parents_of api x = Some ps" "p \<in> set ps" "\<not> is_seen seen p"
  show "p \<in> set pre"
  proof (cases post rule: rev_cases)
    case Nil
    with a assms(2) show ?thesis by auto
  next
    case (snoc post' y)
    with a assms(1) show ?thesis unfolding parents_first_def by auto
  qed
qed

lemma getNotSeenBlocks_step:
  assumes "parents_of api b = Some ps" and "\<not> is_seen seen b"
    and "list_all2 (\<lambda>p bs. getNotSeenBlocks n api seen p = Ok bs) ps bss"
  shows "getNotSeenBlocks (Suc n) api seen b = Ok (concat bss @ [b])"
proof -
  obtain d where d: "na_blockData api b = Ok d" "na_parents api d = Ok ps"
    using assms(1) by (auto simp: parents_of_def split: res.splits)
  moreover have "rmap (getNotSeenBlocks n api seen) ps = Ok bss" using assms(3) by (simp add: rmap_Ok_iff)
  ultimately show ?thesis using assms(2) by (simp add: is_seen_def)
qed

text \<open>
  With fuel above the sequence number and a node that answers, the recursion returns, and it returns
  the unseen ancestors with parents before children.
\<close>

lemma getNotSeenBlocks_correct:
  assumes "chain_ok api" and "unat (be_seqno b) < n"
    and "\<And>x. unseen_from api seen b x \<Longrightarrow> parents_of api x \<noteq> None"
  shows "\<exists>bs. getNotSeenBlocks n api seen b = Ok bs \<and> (\<forall>x. x \<in> set bs \<longleftrightarrow> unseen_from api seen b x) \<and>
    parents_first api seen bs"
  using assms(2,3)
proof (induction n arbitrary: b)
  case (Suc n)
  show ?case
  proof (cases "is_seen seen b")
    case True
    then show ?thesis by (auto simp: is_seen_def elim: unseen_fromE)
  next
    case False
    then obtain ps where ps: "parents_of api b = Some ps"
      using Suc.prems(2)[OF self] by auto
    have "\<exists>bs. getNotSeenBlocks n api seen p = Ok bs \<and> (\<forall>x. x \<in> set bs \<longleftrightarrow> unseen_from api seen p x) \<and>
        parents_first api seen bs" if p: "p \<in> set ps" for p
    proof (rule Suc.IH)
      have "be_seqno p < be_seqno b" using assms(1) ps p by (auto simp: chain_ok_def)
      then show "unat (be_seqno p) < n" using Suc.prems(1) by (simp add: word_less_nat_alt)
      show "parents_of api x \<noteq> None" if "unseen_from api seen p x" for x
        using Suc.prems(2) ancestor[OF False ps p that] by blast
    qed
    then obtain f where f: "\<And>p. p \<in> set ps \<Longrightarrow> getNotSeenBlocks n api seen p = Ok (f p) \<and>
        (\<forall>x. x \<in> set (f p) \<longleftrightarrow> unseen_from api seen p x) \<and> parents_first api seen (f p)"
      by metis
    then have "list_all2 (\<lambda>p bs. getNotSeenBlocks n api seen p = Ok bs) ps (map f ps)"
      by (simp add: list_all2_conv_all_nth)
    from getNotSeenBlocks_step[OF ps False this]
    have r: "getNotSeenBlocks (Suc n) api seen b = Ok (concat (map f ps) @ [b])" .
    have s: "x \<in> set (concat (map f ps) @ [b]) \<longleftrightarrow> unseen_from api seen b x" for x
      using f self[OF False] ancestor[OF False ps] ps by (auto elim: unseen_fromE)
    have "parents_first api seen (concat (map f ps))"
      using f by (intro parents_first_concat) simp
    then have "parents_first api seen (concat (map f ps) @ [b])"
    proof (rule parents_first_snoc)
      fix ps' p
      assume "parents_of api b = Some ps'" "p \<in> set ps'" "\<not> is_seen seen p"
      then show "p \<in> set (concat (map f ps))" using f ps self[of seen p api] by auto
    qed
    with r s show ?thesis by blast
  qed
qed simp

text \<open>A node whose lookup returns the block of the requested number.\<close>

definition lookup_ok :: "node_api \<Rightarrow> bool" where
  "lookup_ok api \<longleftrightarrow> (\<forall>w s n m. na_lookupBlock api w s n = Ok m \<longrightarrow> be_seqno m = n)"

definition master_of :: "node_api \<Rightarrow> u32 \<Rightarrow> block_ext res" where
  "master_of api n = na_lookupBlock api master_workchain master_shard n"

definition blocks_coherent :: "node_api \<Rightarrow> blocks_cache \<Rightarrow> bool" where
  "blocks_coherent api c \<longleftrightarrow>
     masters.coherent (\<lambda>n m. master_of api n = Ok m) c \<and>
     shards.coherent (\<lambda>n ss. \<exists>m. master_of api n = Ok m \<and> na_shardsInfo api m = Ok ss) c"

lemma blocks_coherent_new: "blocks_coherent api (newBlocksCache now)"
  by (simp add: blocks_coherent_def masters.coherent_def shards.coherent_def newBlocksCache_def getMaster_def)

lemma lookupMaster_transparent:
  assumes "lookup_ok api" and "blocks_coherent api c"
  shows "fst (lookupMaster api t n c) = rwrap ''lookup masterchain block'' (master_of api n)"
    and "blocks_coherent api (snd (lookupMaster api t n c))"
proof -
  show "fst (lookupMaster api t n c) = rwrap ''lookup masterchain block'' (master_of api n)"
  proof (cases "getMaster c n")
    case None
    then show ?thesis
      by (cases "master_of api n") (simp_all add: lookupMaster_def master_of_def)
  next
    case (Some m)
    then have "master_of api n = Ok m"
      using assms(2) masters.coherent_get[of "\<lambda>n m. master_of api n = Ok m" c n m]
      by (simp add: blocks_coherent_def)
    with Some show ?thesis by (simp add: lookupMaster_def)
  qed
  show "blocks_coherent api (snd (lookupMaster api t n c))"
  proof (cases "getMaster c n = None \<and> (\<exists>m. master_of api n = Ok m)")
    case True
    then obtain m where m: "getMaster c n = None" "master_of api n = Ok m" by blast
    then have "be_seqno m = n" using assms(1) by (auto simp: lookup_ok_def master_of_def)
    with m have "masters.coherent (\<lambda>n m. master_of api n = Ok m) (setMaster t m c)"
      using assms(2) by (auto simp: blocks_coherent_def intro: masters.coherent_set)
    moreover have "shards.coherent (\<lambda>n ss. \<exists>m. master_of api n = Ok m \<and> na_shardsInfo api m = Ok ss) (setMaster t m c)"
      using assms(2) setMaster_shards unfolding blocks_coherent_def shards.coherent_def by blast
    moreover have "snd (lookupMaster api t n c) = setMaster t m c"
      using m by (simp add: lookupMaster_def master_of_def)
    ultimately show ?thesis by (simp add: blocks_coherent_def)
  next
    case False
    then have "snd (lookupMaster api t n c) = c"
      by (cases "getMaster c n"; cases "master_of api n")
        (simp_all add: lookupMaster_def master_of_def)
    with assms(2) show ?thesis by simp
  qed
qed

lemma getShardsInfo_transparent:
  assumes "blocks_coherent api c" and "master_of api (be_seqno m) = Ok m"
  shows "fst (getShardsInfo api t m c) = rwrap ''get masterchain shards info'' (na_shardsInfo api m)"
    and "blocks_coherent api (snd (getShardsInfo api t m c))"
proof -
  show "fst (getShardsInfo api t m c) = rwrap ''get masterchain shards info'' (na_shardsInfo api m)"
  proof (cases "getShards c m")
    case None
    then show ?thesis
      by (cases "na_shardsInfo api m") (simp_all add: getShardsInfo_def)
  next
    case (Some ss)
    then have "\<exists>m'. master_of api (be_seqno m) = Ok m' \<and> na_shardsInfo api m' = Ok ss"
      using assms(1) shards.coherent_get[of "\<lambda>n ss. \<exists>m. master_of api n = Ok m \<and> na_shardsInfo api m = Ok ss"
          c "be_seqno m" ss]
      by (simp add: blocks_coherent_def getShards_def)
    with Some assms(2) show ?thesis by (simp add: getShardsInfo_def)
  qed
  show "blocks_coherent api (snd (getShardsInfo api t m c))"
  proof (cases "getShards c m = None \<and> (\<exists>ss. na_shardsInfo api m = Ok ss \<and> ss \<noteq> [])")
    case True
    then obtain ss where ss: "getShards c m = None" "na_shardsInfo api m = Ok ss" "ss \<noteq> []" by blast
    have "shards.coherent (\<lambda>n ss. \<exists>m. master_of api n = Ok m \<and> na_shardsInfo api m = Ok ss)
        ((\<lambda>t (master, shards). setShards t master shards) t (m, ss) c)"
      by (rule shards.coherent_set[where k = "be_seqno m" and v = ss])
        (use assms ss in \<open>auto simp: blocks_coherent_def\<close>)
    moreover have "masters.coherent (\<lambda>n m. master_of api n = Ok m) (setShards t m ss c)"
      using assms(1) setShards_masters unfolding blocks_coherent_def masters.coherent_def by blast
    moreover have "snd (getShardsInfo api t m c) = setShards t m ss c"
      using ss by (simp add: getShardsInfo_def)
    ultimately show ?thesis by (simp add: blocks_coherent_def)
  next
    case False
    then have "snd (getShardsInfo api t m c) = c"
      by (cases "na_shardsInfo api m") (auto simp: getShardsInfo_def split: option.split)
    with assms(1) show ?thesis by simp
  qed
qed

subsection \<open>Properties of the block walk\<close>

text \<open>
  C1. The difference between two states of the masterchain. Whatever the caches hold, as long as it
  came from the node, \<open>UnseenBlocks\<close> returns the master block of the requested number and
  exactly the blocks that are reached from its shards through ancestors which the previous master
  state has not as a last block, each after its own unseen parents; with the stack bounded by the
  largest sequence number of a shard the recursion ends, because a parent's number is smaller. The
  caches still hold only what the node answered.
\<close>

theorem unseen_blocks_correct:
  assumes node: "lookup_ok api" "chain_ok api" and coh: "blocks_coherent api c"
    and masters: "master_of api n = Ok cur" "master_of api (n - 1) = Ok prev"
    and shards: "na_shardsInfo api cur = Ok curShards" "na_shardsInfo api prev = Ok prevShards"
    and fuel: "\<forall>s \<in> set curShards. unat (be_seqno s) < fuel"
    and answers: "\<forall>s \<in> set curShards. \<forall>x. unseen_from api (shardLastSeqNo prevShards Map.empty) s x \<longrightarrow>
      parents_of api x \<noteq> None"
  shows "\<exists>bs. fst (unseenBlocks fuel api clk n c) = Ok (cur, bs) \<and>
    set bs = {x. \<exists>s \<in> set curShards. unseen_from api (shardLastSeqNo prevShards Map.empty) s x} \<and>
    parents_first api (shardLastSeqNo prevShards Map.empty) bs \<and>
    blocks_coherent api (snd (unseenBlocks fuel api clk n c))"
proof -
  let ?seen = "shardLastSeqNo prevShards Map.empty"
  have num: "be_seqno cur = n" "be_seqno prev = n - 1"
    using node(1) masters by (auto simp: lookup_ok_def master_of_def)
  obtain c1 where l1: "lookupMaster api (clk 3) n c = (Ok cur, c1)" "blocks_coherent api c1"
    using lookupMaster_transparent[OF node(1) coh, of "clk 3" n] masters(1)
    by (cases "lookupMaster api (clk 3) n c") simp
  obtain c2 where l2: "getShardsInfo api (clk 0) cur c1 = (Ok curShards, c2)" "blocks_coherent api c2"
    using getShardsInfo_transparent[OF l1(2), of cur "clk 0"] masters(1) num shards(1)
    by (cases "getShardsInfo api (clk 0) cur c1") simp
  obtain c3 where l3: "lookupMaster api (clk 1) (n - 1) c2 = (Ok prev, c3)" "blocks_coherent api c3"
    using lookupMaster_transparent[OF node(1) l2(2), of "clk 1" "n - 1"] masters(2)
    by (cases "lookupMaster api (clk 1) (n - 1) c2") simp
  obtain c4 where l4: "getShardsInfo api (clk 2) prev c3 = (Ok prevShards, c4)" "blocks_coherent api c4"
    using getShardsInfo_transparent[OF l3(2), of prev "clk 2"] masters(2) num shards(2)
    by (cases "getShardsInfo api (clk 2) prev c3") simp
  have "\<exists>bs. getNotSeenBlocks fuel api ?seen s = Ok bs \<and> (\<forall>x. x \<in> set bs \<longleftrightarrow> unseen_from api ?seen s x) \<and>
      parents_first api ?seen bs" if "s \<in> set curShards" for s
    using getNotSeenBlocks_correct[OF node(2)] fuel answers that by blast
  then obtain f where f: "\<And>s. s \<in> set curShards \<Longrightarrow> getNotSeenBlocks fuel api ?seen s = Ok (f s) \<and>
      (\<forall>x. x \<in> set (f s) \<longleftrightarrow> unseen_from api ?seen s x) \<and> parents_first api ?seen (f s)"
    by metis
  then have "rmap (\<lambda>s. rwrap ''get not seen shards'' (getNotSeenBlocks fuel api ?seen s)) curShards =
      Ok (map f curShards)"
    by (simp add: rmap_Ok_iff list_all2_conv_all_nth)
  then have "unseenBlocks fuel api clk n c = (Ok (cur, concat (map f curShards)), c4)"
    by (simp add: unseenBlocks_def unseenShards_def l1 l2 l3 l4 num Let_def del: One_nat_def)
  moreover have "set (concat (map f curShards)) = {x. \<exists>s \<in> set curShards. unseen_from api ?seen s x}"
    using f by auto
  moreover have "parents_first api ?seen (concat (map f curShards))"
    using f by (intro parents_first_concat) simp
  ultimately show ?thesis using l4(2) by simp
qed

text \<open>A node with one shard, whose last two blocks are new in master block 10.\<close>

definition ex_shard :: "u32 \<Rightarrow> block_ext" where
  "ex_shard n = \<lparr>be_workchain = 0, be_shard = 1, be_seqno = n, be_root = [], be_file = []\<rparr>"

definition ex_master :: "u32 \<Rightarrow> block_ext" where
  "ex_master n = \<lparr>be_workchain = -1, be_shard = 1, be_seqno = n, be_root = [], be_file = []\<rparr>"

definition ex_api :: node_api where
  "ex_api = \<lparr>na_lookupBlock = (\<lambda>w s n. Ok (ex_master n)),
     na_shardsInfo = (\<lambda>m. Ok [ex_shard (if be_seqno m = 10 then 3 else 1)]),
     na_blockData = (\<lambda>b. if be_seqno b = 3 then Ok [3] else if be_seqno b = 2 then Ok [2]
        else if be_seqno b = 1 then Ok [1] else Err (ErrExt ''not found'')),
     na_parents = (\<lambda>d. if d = [3] then Ok [ex_shard 2] else if d = [2] then Ok [ex_shard 1] else Ok []),
     na_account = (\<lambda>b a. Err (ErrExt ''no account'')),
     na_libraries = (\<lambda>hs. Ok (map (\<lambda>_. None) hs)),
     na_blockTxs = (\<lambda>b n after. Ok ([\<lparr>ts_account = replicate 32 2, ts_lt = 10\<rparr>], False)),
     na_transaction = (\<lambda>b a lt. Ok ex_tlb_tx)\<rparr>"

lemma ex_parents: "parents_of ex_api b =
  (if be_seqno b = 3 then Some [ex_shard 2] else if be_seqno b = 2 then Some [ex_shard 1]
   else if be_seqno b = 1 then Some [] else None)"
  by (simp add: parents_of_def ex_api_def)

theorem unseen_blocks_correct_witness:
  "\<exists>bs. fst (unseenBlocks 4 ex_api (\<lambda>_. (0, 0)) 10 (newBlocksCache 0)) = Ok (ex_master 10, bs) \<and>
    ex_shard 3 \<in> set bs \<and> ex_shard 2 \<in> set bs"
proof -
  let ?seen = "shardLastSeqNo [ex_shard 1] Map.empty"
  have seen: "is_seen ?seen b \<longleftrightarrow> getShardID b = getShardID (ex_shard 1) \<and> be_seqno b = 1" for b
    by (auto simp: is_seen_def ex_shard_def)
  have u2: "unseen_from ex_api ?seen (ex_shard 2) (ex_shard 2)"
    by (rule self) (subst seen, simp add: ex_shard_def)
  have "unseen_from ex_api ?seen (ex_shard 3) (ex_shard 3)"
    by (rule self) (subst seen, simp add: ex_shard_def)
  moreover have "unseen_from ex_api ?seen (ex_shard 3) (ex_shard 2)"
    by (rule ancestor[OF _ _ _ u2, of _ "[ex_shard 2]"])
      (subst seen, simp add: ex_shard_def, simp_all add: ex_parents, simp add: ex_shard_def)
  moreover have "parents_of ex_api x \<noteq> None" if "unseen_from ex_api ?seen (ex_shard 3) x" for x
  proof -
    have "be_seqno x \<in> {1, 2, 3}" if "unseen_from ex_api ?seen s x" "be_seqno s \<in> {1, 2, 3}" for s
      using that
    proof (induction rule: unseen_from.induct)
      case (ancestor b ps p x)
      then show ?case by (auto simp: ex_parents ex_shard_def)
    qed simp
    from this[OF that] show ?thesis by (auto simp: ex_parents ex_shard_def)
  qed
  moreover have "lookup_ok ex_api" by (simp add: lookup_ok_def ex_api_def ex_master_def)
  moreover have "chain_ok ex_api"
    by (auto simp: chain_ok_def ex_parents ex_shard_def split: if_splits)
  ultimately show ?thesis
    using unseen_blocks_correct[OF _ _ blocks_coherent_new, of ex_api 10 "ex_master 10" "ex_master 9"
        "[ex_shard 3]" "[ex_shard 1]" 4 "\<lambda>_. (0, 0)" 0]
    by (auto simp: master_of_def ex_api_def ex_master_def) (auto simp: ex_shard_def)
qed

subsection \<open>The caches do not change what is fetched\<close>

text \<open>
  Libraries are content addressed: \<open>lib_of\<close> is what the node answers for a hash. For a block
  id there is one block, \<open>blk\<close>. \<open>fetched\<close> is the account the node gives for it, whatever
  is cached.
\<close>

definition libraries_ok :: "fetcher_env \<Rightarrow> (bytes \<Rightarrow> cell option) \<Rightarrow> bool" where
  "libraries_ok E lib_of \<longleftrightarrow> (\<forall>hs ds. na_libraries (fe_api E) hs = Ok ds \<longrightarrow> ds = map lib_of hs)"

definition fetched :: "fetcher_env \<Rightarrow> block_ext \<Rightarrow> addr \<Rightarrow> account_state res" where
  "fetched E b a = fst (fetchAccount E b a Map.empty)"

definition fetcher_ok :: "fetcher_env \<Rightarrow> (bytes \<Rightarrow> cell option) \<Rightarrow> (block_id \<Rightarrow> block_ext) \<Rightarrow> fetcher \<Rightarrow> bool" where
  "fetcher_ok E lib_of blk f \<longleftrightarrow>
     libraries.coherent (\<lambda>h d. d = lib_of h) (fs_libraries f) \<and>
     accounts.coherent (\<lambda>(i, a) acc. \<exists>acc0 t. fetched E (blk i) a = Ok acc0 \<and> acc = acc0\<lparr>acc_updated_at := t\<rparr>)
       (fs_accounts f)"

text \<open>The node answers for the address it is asked for.\<close>

definition addresses_ok :: "fetcher_env \<Rightarrow> bool" where
  "addresses_ok E \<longleftrightarrow> (\<forall>b a acc. is_addr a \<longrightarrow> fetched E b a = Ok acc \<longrightarrow> acc_address acc = a)"

lemma fetcher_ok_new: "fetcher_ok E lib_of blk (new_fetcher now)"
  by (simp add: fetcher_ok_def new_fetcher_def libraries.coherent_def accounts.coherent_def
      libraries_get_def accounts_lookup_def newAccountCache_def)

lemma add_libraries_fst: "fst (add_libraries D ds i hs m c) = fst (add_libraries D ds i hs m c')"
proof (induction hs arbitrary: i m c c')
  case (Cons h hs)
  show ?case
  proof (cases "rbind (dl_desc D (ds ! i)) (\<lambda>t. rbind (dl_key D h) (\<lambda>h. dl_set D m h t))")
    case (Ok m1)
    with Cons.IH[of "Suc i" m1 "libraries_set h (ds ! i) c" "libraries_set h (ds ! i) c'"]
    show ?thesis by simp
  qed simp_all
qed simp

lemma add_libraries_coherent:
  assumes "libraries.coherent (\<lambda>h d. d = lib_of h) c"
    and "\<And>j. j < length hs \<Longrightarrow> i + j < length ds \<Longrightarrow> ds ! (i + j) = lib_of (hs ! j)"
  shows "libraries.coherent (\<lambda>h d. d = lib_of h) (snd (add_libraries D ds i hs m c)) \<and>
    (\<forall>h d. libraries_get c h = Some d \<longrightarrow> libraries_get (snd (add_libraries D ds i hs m c)) h = Some d)"
  using assms
proof (induction hs arbitrary: i m c)
  case (Cons h hs)
  have c: "libraries.coherent (\<lambda>h d. d = lib_of h) (libraries_set h (ds ! i) c)" if "i < length ds"
    using libraries.coherent_set[of "\<lambda>h d. d = lib_of h" c "(h, ds ! i)" h "ds ! i"] Cons.prems that
    by fastforce
  have m: "libraries_get c k = Some d \<Longrightarrow> libraries_get (libraries_set h (ds ! i) c) k = Some d" for k d
    by (auto simp: libraries_get_def libraries_set_def split: option.split)
  have "ds ! (Suc i + j) = lib_of (hs ! j)" if "j < length hs" "Suc i + j < length ds" for j
    using Cons.prems(2)[of "Suc j"] that by simp
  with Cons.IH[OF c, of "Suc i"] Cons.prems(1) m show ?case
    by (auto split: res.split)
qed simp

lemma add_libraries_present:
  "fst (add_libraries D ds i hs m c) = Ok m' \<Longrightarrow> h \<in> set hs \<or> libraries_get c h \<noteq> None \<Longrightarrow>
   libraries_get (snd (add_libraries D ds i hs m c)) h \<noteq> None"
proof (induction hs arbitrary: i m c)
  case (Cons h' hs)
  then obtain m1 where m1: "i < length ds"
      "rbind (dl_desc D (ds ! i)) (\<lambda>t. rbind (dl_key D h') (\<lambda>h. dl_set D m h t)) = Ok m1"
    by (auto split: if_splits res.splits)
  have "h \<in> set hs \<or> libraries_get (libraries_set h' (ds ! i) c) h \<noteq> None"
    using Cons.prems(2) by (auto simp: libraries_get_def libraries_set_def split: option.split)
  with Cons.IH[of "Suc i" m1 "libraries_set h' (ds ! i) c"] Cons.prems(1) m1 show ?case by simp
qed simp

lemma findLibraries_library:
  "cell_library code \<Longrightarrow> findLibraries C code = Ok hs \<Longrightarrow> getLibraryHash C code = Ok h \<Longrightarrow> hs = [h]"
  by (simp add: findLibraries_def)

lemma getAccountLibraries_det:
  assumes "libraries_ok E lib_of" and "libraries.coherent (\<lambda>h d. d = lib_of h) c"
    and "libraries.coherent (\<lambda>h d. d = lib_of h) c'"
  shows "fst (getAccountLibraries E code c) = fst (getAccountLibraries E code c')"
    and "libraries.coherent (\<lambda>h d. d = lib_of h) (snd (getAccountLibraries E code c))"
    and "fst (getAccountLibraries E code c) = Ok l \<Longrightarrow>
      code_hashes E code (snd (getAccountLibraries E code c)) =
      code_hashes E code (snd (getAccountLibraries E code c'))"
proof -
  let ?D = "fe_dict E"
  consider hs ds where "findLibraries (fe_cell E) code = Ok hs" "na_libraries (fe_api E) hs = Ok ds"
    | "\<exists>r. (\<forall>x. r \<noteq> Ok x) \<and> (\<forall>c. getAccountLibraries E code c = (r, c))"
  proof (cases "findLibraries (fe_cell E) code")
    case (Ok hs)
    show ?thesis
    proof (cases "na_libraries (fe_api E) hs")
      case (Ok ds)
      with \<open>findLibraries (fe_cell E) code = Ok hs\<close> that(1) show ?thesis by blast
    qed (use Ok that(2) in \<open>auto simp: getAccountLibraries_def\<close>)
  qed (use that(2) in \<open>auto simp: getAccountLibraries_def\<close>)
  then have "fst (getAccountLibraries E code c) = fst (getAccountLibraries E code c') \<and>
    libraries.coherent (\<lambda>h d. d = lib_of h) (snd (getAccountLibraries E code c)) \<and>
    (fst (getAccountLibraries E code c) = Ok l \<longrightarrow>
      code_hashes E code (snd (getAccountLibraries E code c)) =
      code_hashes E code (snd (getAccountLibraries E code c')))"
  proof cases
    case (1 hs ds)
    have ds: "ds ! (0 + j) = lib_of (hs ! j)" if "j < length hs" "0 + j < length ds" for j
    proof -
      have "ds = map lib_of hs" using assms(1) 1(2) by (simp add: libraries_ok_def)
      with that show ?thesis by simp
    qed
    have e: "getAccountLibraries E code x = (rbind (fst (add_libraries ?D ds 0 hs [] x)) (\<lambda>m. Ok (dl_cell ?D m)),
        snd (add_libraries ?D ds 0 hs [] x))" for x
      using 1 by (simp add: getAccountLibraries_def split: prod.split)
    have coh: "libraries.coherent (\<lambda>h d. d = lib_of h) (snd (add_libraries ?D ds 0 hs [] x))"
      if "libraries.coherent (\<lambda>h d. d = lib_of h) x" for x
      using add_libraries_coherent[OF that ds] by blast
    have hashes: "code_hashes E code (snd (add_libraries ?D ds 0 hs [] c)) =
        code_hashes E code (snd (add_libraries ?D ds 0 hs [] c'))"
      if r: "fst (add_libraries ?D ds 0 hs [] c) = Ok m" for m
    proof (cases "cell_library code")
      case True
      then obtain h where h: "getLibraryHash (fe_cell E) code = Ok h" "hs = [h]"
        using 1(1) by (auto simp: findLibraries_def)
      have "libraries_get (snd (add_libraries ?D ds 0 hs [] x)) h = Some (lib_of h)"
        if "libraries.coherent (\<lambda>h d. d = lib_of h) x" for x
      proof -
        have "fst (add_libraries ?D ds 0 hs [] x) = Ok m" using r add_libraries_fst by metis
        from add_libraries_present[OF this, of h] h(2)
        obtain d where d: "libraries_get (snd (add_libraries ?D ds 0 hs [] x)) h = Some d" by auto
        with libraries.coherent_get[OF coh[OF that] d] show ?thesis by simp
      qed
      with assms(2,3) h show ?thesis by (simp add: code_hashes_def)
    qed (simp add: code_hashes_def)
    show ?thesis
      using add_libraries_fst[of ?D ds 0 hs "[]" c c'] coh[OF assms(2)] hashes by (auto simp: e)
  next
    case 2
    with assms(2) show ?thesis by auto
  qed
  then show "fst (getAccountLibraries E code c) = fst (getAccountLibraries E code c')"
    and "libraries.coherent (\<lambda>h d. d = lib_of h) (snd (getAccountLibraries E code c))"
    and "fst (getAccountLibraries E code c) = Ok l \<Longrightarrow>
      code_hashes E code (snd (getAccountLibraries E code c)) =
      code_hashes E code (snd (getAccountLibraries E code c'))"
    by blast+
qed

lemma fetchAccount_det:
  assumes "libraries_ok E lib_of" and "libraries.coherent (\<lambda>h d. d = lib_of h) c"
  shows "fst (fetchAccount E b a c) = fetched E b a"
    and "libraries.coherent (\<lambda>h d. d = lib_of h) (snd (fetchAccount E b a c))"
proof -
  have empty: "libraries.coherent (\<lambda>h d. d = lib_of h) Map.empty"
    by (simp add: libraries.coherent_def libraries_get_def)
  note det = getAccountLibraries_det[OF assms empty]
  have coh: "libraries.coherent (\<lambda>h d. d = lib_of h) x" if "getAccountLibraries E code c = (r, x)" for code r x
    using det(2)[of code] that by simp
  show "libraries.coherent (\<lambda>h d. d = lib_of h) (snd (fetchAccount E b a c))"
    using assms(2) coh by (auto simp: fetchAccount_def split: res.split option.split prod.split)
  show "fst (fetchAccount E b a c) = fetched E b a"
  proof (cases "rbind (must_to_tonutils (fe_addr E) a) (\<lambda>ta.
                   rbind (rwrap ''get account'' (na_account (fe_api E) b ta)) (\<lambda>raw.
                   rbind (map_account (fe_cell E) b raw) (\<lambda>acc. Ok (raw, acc))))")
    case (Ok p)
    obtain raw acc where p: "p = (raw, acc)" by (cases p)
    show ?thesis
    proof (cases "ra_code raw")
      case None
      with Ok p show ?thesis by (simp add: fetched_def fetchAccount_def)
    next
      case (Some code)
      obtain r x y where g: "getAccountLibraries E code c = (r, x)" "getAccountLibraries E code Map.empty = (r, y)"
        using det(1)[of code] by (metis prod.collapse)
      then have "r = Ok l \<Longrightarrow> code_hashes E code x = code_hashes E code y" for l
        using det(3)[of code l] by simp
      with Ok p Some g show ?thesis
        by (cases r) (simp_all add: fetched_def fetchAccount_def)
    qed
  qed (simp_all add: fetched_def fetchAccount_def)
qed

lemma getAccount_ok:
  assumes "libraries_ok E lib_of" and "addresses_ok E" and "fetcher_ok E lib_of blk f"
    and "blk (get_block_id b) = b" and "is_addr a"
  shows "fetcher_ok E lib_of blk (snd (getAccount E t b a f))"
    and "\<exists>u. fst (getAccount E t b a f) = (case fetched E b a of Ok acc \<Rightarrow> Ok (acc\<lparr>acc_updated_at := u acc\<rparr>) | r \<Rightarrow> r)"
proof -
  let ?P = "\<lambda>(i, a) acc. \<exists>acc0 t. fetched E (blk i) a = Ok acc0 \<and> acc = acc0\<lparr>acc_updated_at := t\<rparr>"
  note libs = fetchAccount_det[OF assms(1), of "fs_libraries f" b a]
  have f: "libraries.coherent (\<lambda>h d. d = lib_of h) (fs_libraries f)" "accounts.coherent ?P (fs_accounts f)"
    using assms(3) by (simp_all add: fetcher_ok_def)
  have "fetcher_ok E lib_of blk (snd (getAccount E t b a f)) \<and>
    (\<exists>u. fst (getAccount E t b a f) = (case fetched E b a of Ok acc \<Rightarrow> Ok (acc\<lparr>acc_updated_at := u acc\<rparr>) | r \<Rightarrow> r))"
  proof (cases "accounts_get (fs_accounts f) b a")
    case (Some acc)
    then have "?P (get_block_id b, a) acc"
      using accounts.coherent_get[OF f(2)] by (simp only: accounts_get_lookup)
    then obtain acc0 t0 where "fetched E b a = Ok acc0" "acc = acc0\<lparr>acc_updated_at := t0\<rparr>"
      using assms(4) by auto
    with Some assms(3) show ?thesis by (auto simp: getAccount_def intro: exI[of _ "\<lambda>_. t0"])
  next
    case None
    obtain r l where r: "fetchAccount E b a (fs_libraries f) = (r, l)" by (cases "fetchAccount E b a (fs_libraries f)")
    with libs f(1) have l: "r = fetched E b a" "libraries.coherent (\<lambda>h d. d = lib_of h) l" by simp_all
    show ?thesis
    proof (cases r)
      case (Ok acc)
      have "acc_address acc = a" using assms(2,5) l(1) Ok by (auto simp: addresses_ok_def)
      moreover have "?P (get_block_id b, a) acc"
        using l(1) Ok assms(4) by (auto intro!: exI[of _ acc] exI[of _ "acc_updated_at acc"])
      ultimately have "accounts.coherent ?P ((\<lambda>t (b, acc). accounts_set t b acc) t (b, acc) (fs_accounts f))"
        by (intro accounts.coherent_set[OF f(2), of _ "(get_block_id b, a)" acc]) simp_all
      moreover have "fetched E b a = Ok acc" using l(1) Ok by simp
      ultimately show ?thesis using None r[unfolded Ok] l(2)
        by (auto simp: getAccount_def fetcher_ok_def intro!: exI[of _ acc_updated_at])
    qed (use None r l f(2) in \<open>auto simp: getAccount_def fetcher_ok_def\<close>)
  qed
  then show "fetcher_ok E lib_of blk (snd (getAccount E t b a f))"
    and "\<exists>u. fst (getAccount E t b a f) = (case fetched E b a of Ok acc \<Rightarrow> Ok (acc\<lparr>acc_updated_at := u acc\<rparr>) | r \<Rightarrow> r)"
    by blast+
qed

lemma touch_ok:
  assumes "fetcher_ok E lib_of blk f"
  shows "fetcher_ok E lib_of blk (f\<lparr>fs_accounts := touch_account b acc u (fs_accounts f)\<rparr>)"
proof -
  let ?P = "\<lambda>(i, a) acc. \<exists>acc0 t. fetched E (blk i) a = Ok acc0 \<and> acc = acc0\<lparr>acc_updated_at := t\<rparr>"
  have P: "accounts.coherent ?P (fs_accounts f)" using assms by (simp add: fetcher_ok_def)
  have "?P k v" if v: "accounts_lookup (touch_account b acc u (fs_accounts f)) k = Some v" for k v
  proof (cases "accounts_lookup (fs_accounts f) k = Some v")
    case True
    then show ?thesis by (rule accounts.coherent_get[OF P])
  next
    case False
    with v have "k = (get_block_id b, acc_address acc)" "v = acc\<lparr>acc_updated_at := u\<rparr>"
        "accounts_lookup (fs_accounts f) k = Some acc"
      by (auto simp: touch_account_def accounts_lookup_def prod_eq_iff split: option.splits if_splits)
    with accounts.coherent_get[OF P, of k acc] show ?thesis by auto
  qed
  then have "accounts.coherent ?P (touch_account b acc u (fs_accounts f))"
    unfolding accounts.coherent_def by blast
  with assms show ?thesis by (simp add: fetcher_ok_def)
qed

text \<open>The transaction that the node gives for an id, with the state of its account.\<close>

definition fetched_tx :: "fetcher_env \<Rightarrow> block_ext \<Rightarrow> tx_short \<Rightarrow> transaction res" where
  "fetched_tx E b i =
     (let a = al_newAddress (fe_addr E) 0 (ucast (be_workchain b)) (ts_account i)
      in rbind (deref_from_tonutils a) (\<lambda>x.
         rbind (join_results True (rwrap ''get account'' (fetched E b x)) (fetchTx E b a i))
         (\<lambda>(acc, tx). Ok (attach_account acc tx))))"

lemma join_results_Ok:
  "join_results af r s = Ok (acc, tx) \<longleftrightarrow>
     s = Ok tx \<and> ((\<exists>a. r = Ok a \<and> acc = Some a) \<or> (\<exists>e. r = Err e \<and> err_is e ErrNotFound \<and> acc = None))"
  by (cases r; cases s) (auto simp: join_results_def)

lemma attach_updated: "attach_account (Some (a\<lparr>acc_updated_at := u\<rparr>)) tx = attach_account (Some a) tx"
  by (simp add: attach_account_def Let_def)

lemma getTransaction_eq:
  assumes "deref_from_tonutils (al_newAddress (fe_addr E) 0 (ucast (be_workchain b)) (ts_account i)) = Ok x"
    and "getAccount E t b x f = (r, f1)"
  shows "getTransaction E t af b i f =
    (case join_results af (rwrap ''get account'' r)
        (fetchTx E b (al_newAddress (fe_addr E) 0 (ucast (be_workchain b)) (ts_account i)) i) of
       Ok (acc, tx) \<Rightarrow> (Ok (attach_account acc tx),
         case acc of None \<Rightarrow> f1
         | Some a \<Rightarrow> f1\<lparr>fs_accounts := touch_account b a (tx_created_at tx) (fs_accounts f1)\<rparr>)
     | Err e \<Rightarrow> (Err e, f1) | Panic p \<Rightarrow> (Panic p, f1))"
  by (simp add: getTransaction_def Let_def assms)

lemma deref_is_addr: "deref_from_tonutils a = Ok x \<Longrightarrow> is_addr x"
  by (auto simp: deref_from_tonutils_def must_from_tonutils_def from_tonutils_def is_addr_def
      split: option.splits if_splits res.splits)

lemma getTransaction_ok:
  assumes "libraries_ok E lib_of" and "addresses_ok E" and "fetcher_ok E lib_of blk f"
    and "blk (get_block_id b) = b"
  shows "fetcher_ok E lib_of blk (snd (getTransaction E t af b i f))"
    and "fetched_tx E b i = Ok tx \<Longrightarrow> fst (getTransaction E t af b i f) = Ok tx"
proof -
  let ?a = "al_newAddress (fe_addr E) 0 (ucast (be_workchain b)) (ts_account i)"
  let ?tx = "fetchTx E b ?a i"
  note acc = getAccount_ok[OF assms]
  have fst_acc: "\<exists>r'. getAccount E t b x f = (r', snd (getAccount E t b x f)) \<and>
      fetcher_ok E lib_of blk (snd (getAccount E t b x f)) \<and>
      (\<exists>u. r' = (case fetched E b x of Ok acc \<Rightarrow> Ok (acc\<lparr>acc_updated_at := u acc\<rparr>) | r \<Rightarrow> r))"
    if "is_addr x" for x
    using acc[OF that, of t] by (intro exI[of _ "fst (getAccount E t b x f)"]) simp
  show "fetcher_ok E lib_of blk (snd (getTransaction E t af b i f))"
  proof (cases "deref_from_tonutils ?a")
    case (Ok x)
    obtain r' where r': "getAccount E t b x f = (r', snd (getAccount E t b x f))"
        "fetcher_ok E lib_of blk (snd (getAccount E t b x f))"
      using fst_acc[OF deref_is_addr[OF Ok]] by blast
    show ?thesis
    proof (cases "join_results af (rwrap ''get account'' r') ?tx")
      case (Ok p)
      obtain acc tx where p: "p = (acc, tx)" by (cases p)
      show ?thesis
        using r'(2) touch_ok[OF r'(2)] Ok getTransaction_eq[OF \<open>deref_from_tonutils ?a = Ok x\<close> r'(1), of af]
        by (cases acc) (simp_all add: p)
    qed (use r' getTransaction_eq[OF \<open>deref_from_tonutils ?a = Ok x\<close> r'(1), of af] in simp_all)
  qed (use assms(3) in \<open>simp_all add: getTransaction_def Let_def\<close>)
  show "fst (getTransaction E t af b i f) = Ok tx" if ok: "fetched_tx E b i = Ok tx"
  proof -
    obtain x acc tx0 where x: "deref_from_tonutils ?a = Ok x" "?tx = Ok tx0" "tx = attach_account acc tx0"
        "(\<exists>a. fetched E b x = Ok a \<and> acc = Some a) \<or>
         (\<exists>e. fetched E b x = Err e \<and> err_is (Wrap e ''get account'') ErrNotFound \<and> acc = None)"
    proof -
      obtain x acc tx0 where "deref_from_tonutils ?a = Ok x"
          "join_results True (rwrap ''get account'' (fetched E b x)) ?tx = Ok (acc, tx0)"
          "tx = attach_account acc tx0"
        using ok by (auto simp: fetched_tx_def Let_def)
      then show ?thesis using that[of x tx0 acc]
        by (cases "fetched E b x") (auto simp: join_results_Ok)
    qed
    obtain r' u where r': "getAccount E t b x f = (r', snd (getAccount E t b x f))"
        "r' = (case fetched E b x of Ok acc \<Rightarrow> Ok (acc\<lparr>acc_updated_at := u acc\<rparr>) | r \<Rightarrow> r)"
      using fst_acc[OF deref_is_addr[OF x(1)]] by blast
    have "\<exists>acc'. join_results af (rwrap ''get account'' r') ?tx = Ok (acc', tx0) \<and>
        attach_account acc' tx0 = attach_account acc tx0"
      using x(2,4) r'(2) by (auto simp: join_results_def attach_updated)
    then show ?thesis
      using x(3) getTransaction_eq[OF x(1) r'(1), of af] by auto
  qed
qed

lemma run_getters_ok:
  assumes "libraries_ok E lib_of" and "addresses_ok E" and "blk (get_block_id b) = b"
  shows "fetcher_ok E lib_of blk f \<Longrightarrow> \<forall>i \<in> set ids. fetched_tx E b i = Ok (g i) \<Longrightarrow>
    \<exists>f'. run_getters E sched b ids f = (map (Ok \<circ> g) ids, f') \<and> fetcher_ok E lib_of blk f'"
proof (induction ids arbitrary: f)
  case (Cons i ids)
  note tx = getTransaction_ok[OF assms(1,2) Cons.prems(1) assms(3),
      where t = "fst (sched i)" and af = "snd (sched i)" and i = i]
  obtain f1 where f1: "getTransaction E (fst (sched i)) (snd (sched i)) b i f = (Ok (g i), f1)"
      "fetcher_ok E lib_of blk f1"
    using tx(1) tx(2)[of "g i"] Cons.prems(2)
    by (cases "getTransaction E (fst (sched i)) (snd (sched i)) b i f") simp
  obtain f2 where "run_getters E sched b ids f1 = (map (Ok \<circ> g) ids, f2)" "fetcher_ok E lib_of blk f2"
    using Cons.IH[OF f1(2)] Cons.prems(2) by auto
  with f1(1) show ?case by simp
qed simp

lemma collect_txs_map_Ok: "collect_txs (map (Ok \<circ> g) ids) = Ok (map g ids)"
  by (induction ids) simp_all

lemma getTransactions_ok:
  assumes "libraries_ok E lib_of" and "addresses_ok E" and "blk (get_block_id b) = b"
    and "fetcher_ok E lib_of blk f" and "\<forall>i \<in> set ids. fetched_tx E b i = Ok (g i)" and "range_order ord"
  shows "\<exists>f'. getTransactions E sched ord b ids f = (Ok (map g (ord ids)), f') \<and> fetcher_ok E lib_of blk f'"
proof -
  have "\<forall>i \<in> set (ord ids). fetched_tx E b i = Ok (g i)"
    using assms(5) range_order_set[OF assms(6)] by blast
  from run_getters_ok[OF assms(1-4) this, of sched] show ?thesis
    by (auto simp: getTransactions_def collect_txs_map_Ok)
qed

text \<open>
  The node serves the ids of a block in pages of at most the requested number, after the last id
  of the page before, and says whether there are more.
\<close>

definition pages_ok :: "node_api \<Rightarrow> block_ext \<Rightarrow> tx_short list \<Rightarrow> bool" where
  "pages_ok api b ids \<longleftrightarrow> (\<forall>pre post. ids = pre @ post \<longrightarrow>
     na_blockTxs api b 100 (if pre = [] then None else Some (last pre)) = Ok (take 100 post, 100 < length post))"

lemma blockTxLoop_ok:
  assumes "libraries_ok E lib_of" and "addresses_ok E" and "blk (get_block_id b) = b" and "range_order ord"
    and "pages_ok (fe_api E) b ids"
  shows "fetcher_ok E lib_of blk f \<Longrightarrow> ids = pre @ post \<Longrightarrow> length post < n \<Longrightarrow>
    \<forall>i \<in> set ids. fetched_tx E b i = Ok (g i) \<Longrightarrow>
    \<exists>txs f'. blockTxLoop n E sched ord b (if pre = [] then None else Some (last pre)) acc f = (Some (Ok (acc @ txs)), f')
      \<and> mset txs = image_mset g (mset post) \<and> fetcher_ok E lib_of blk f'"
proof (induction n arbitrary: pre post acc f)
  case (Suc n)
  let ?after = "if pre = [] then None else Some (last pre)"
  have page: "fetchTxIDs (fe_api E) b ?after = Ok (take 100 post, 100 < length post)"
    unfolding fetchTxIDs_def using assms(5) Suc.prems(2) unfolding pages_ok_def by blast
  have "\<forall>i \<in> set (take 100 post). fetched_tx E b i = Ok (g i)"
    using Suc.prems(2,4) by (auto dest: in_set_takeD)
  from getTransactions_ok[OF assms(1-3) Suc.prems(1) this assms(4), of sched]
  obtain f1 where f1: "getTransactions E sched ord b (take 100 post) f = (Ok (map g (ord (take 100 post))), f1)"
      "fetcher_ok E lib_of blk f1"
    by blast
  have m: "mset (map g (ord (take 100 post))) = image_mset g (mset (take 100 post))"
    using assms(4) by (simp add: range_order_def)
  show ?case
  proof (cases "100 < length post")
    case True
    then have ne: "take 100 post \<noteq> []" by auto
    have "ids = (pre @ take 100 post) @ drop 100 post" using Suc.prems(2) by simp
    moreover have "length (drop 100 post) < n" using Suc.prems(3) True by simp
    ultimately obtain txs f' where t: "blockTxLoop n E sched ord b (Some (last (take 100 post)))
          (acc @ map g (ord (take 100 post))) f1 = (Some (Ok ((acc @ map g (ord (take 100 post))) @ txs)), f')"
        "mset txs = image_mset g (mset (drop 100 post))" "fetcher_ok E lib_of blk f'"
      using Suc.IH[OF f1(2), of "pre @ take 100 post" "drop 100 post" "acc @ map g (ord (take 100 post))"]
        Suc.prems(4) ne by (auto simp del: append_assoc)
    have "mset (map g (ord (take 100 post)) @ txs) = image_mset g (mset (take 100 post @ drop 100 post))"
      using m t(2) by (simp only: mset_append image_mset_union)
    then show ?thesis
      using page f1(1) True ne t(1,3) by (intro exI[of _ "map g (ord (take 100 post)) @ txs"] exI[of _ f']) simp
  next
    case False
    then have "take 100 post = post" by simp
    with False page f1 m show ?thesis by simp
  qed
qed simp


text \<open>An environment whose node has one transaction in a block, and its account.\<close>

definition ex_id :: tx_short where
  "ex_id = \<lparr>ts_account = replicate 32 2, ts_lt = 10\<rparr>"

definition ex_account :: "ton_addr \<Rightarrow> tlb_account" where
  "ex_account a = \<lparr>ra_is_active = True,
     ra_state = Some \<lparr>rs_address = Some a, rs_status = Active, rs_balance = 5, rs_state_hash = []\<rparr>,
     ra_data = None, ra_code = None, ra_last_tx_lt = 10, ra_last_tx_hash = []\<rparr>"

definition ex_env :: fetcher_env where
  "ex_env = \<lparr>fe_api = ex_api\<lparr>na_account := (\<lambda>b a. Ok (ex_account a)),
        na_blockTxs := (\<lambda>b n after. Ok (if after = None then [ex_id] else [], False))\<rparr>,
     fe_addr = addr_lib_impl\<lparr>al_crc16 := (\<lambda>_. 0), al_parseAddr := (\<lambda>s. let bs = b64_decode4 s
        in Ok \<lparr>ta_std = True, ta_workchain = scast (bs ! 1), ta_data = take 32 (drop 2 bs)\<rparr>)\<rparr>,
     fe_cell = ex_cell_lib, fe_tlb = ex_tlb_lib,
     fe_dict = \<lparr>dl_desc = (\<lambda>l. Ok (Cell [] [] False)), dl_key = (\<lambda>h. Ok (Cell [] [] False)),
       dl_set = (\<lambda>d h t. Ok (d @ [(h, t)])), dl_cell = (\<lambda>d. None)\<rparr>,
     fe_filterAccounts = (\<lambda>req. Ok \<lparr>rs_total = 0, rs_rows = []\<rparr>)\<rparr>"

lemma ex_to_tonutils:
  assumes "length d = 32"
  shows "must_to_tonutils (fe_addr ex_env) (w # d) = Ok \<lparr>ta_std = True, ta_workchain = scast w, ta_data = d\<rparr>"
proof -
  have "length (0x11 # (w # d) @ be16 0) = 3 * 12" using assms by simp
  from b64_decode_encode[OF this] show ?thesis
    using assms by (simp add: must_to_tonutils_def to_tonutils_def addr_base64_def addr_checksum_def
        ex_env_def Let_def)
qed

lemma ex_addresses: "addresses_ok ex_env"
  unfolding addresses_ok_def
proof (intro allI impI)
  fix b a acc
  assume a: "is_addr a" and acc: "fetched ex_env b a = Ok acc"
  obtain w d where x: "a = w # d" "length d = 32" by (rule is_addrE[OF a])
  have "must_to_tonutils (fe_addr ex_env) a = Ok \<lparr>ta_std = True, ta_workchain = scast w, ta_data = d\<rparr>"
    using x ex_to_tonutils by simp
  with acc x show "acc_address acc = a"
    by (auto simp: fetched_def fetchAccount_def ex_env_def ex_account_def map_account_def
        deref_from_tonutils_def must_from_tonutils_def from_tonutils_def split: if_splits)
qed

lemma replicate_32: "replicate 32 x = [x, x, x, x, x, x, x, x, x, x, x, x, x, x, x, x, x, x, x, x, x, x, x, x, x, x, x, x, x, x, x, x]"
  by (simp add: numeral_eq_Suc)

lemma ex_base64: "addr_base64 (fe_addr ex_env) (0 # replicate 32 2) =
    ''EQACAgICAgICAgICAgICAgICAgICAgICAgICAgICAgICAgAA''"
  by (simp add: addr_base64_def addr_checksum_def ex_env_def be16_def replicate_32 b64_char_def char_of_def bit_0)

lemma ex_skip: "\<not> skip_address (fe_addr ex_env) (0 # replicate 32 2)"
  unfolding skip_address_def ex_base64 by simp

lemma ex_fetched: "is_ok (fetched ex_env ex_block (0 # replicate 32 2))"
  using ex_skip ex_to_tonutils[of "replicate 32 2" 0]
  by (simp add: fetched_def fetchAccount_def)
    (simp add: ex_env_def ex_account_def map_account_def deref_from_tonutils_def
      must_from_tonutils_def from_tonutils_def)

lemma ex_fetched_tx: "is_ok (fetched_tx ex_env ex_block ex_id)"
proof -
  obtain tx where tx: "map_transaction addr_lib_impl ex_cell_lib ex_tlb_lib (Some ex_block) ex_tlb_tx = Ok tx"
    using ex_tx_ok by (cases "map_transaction addr_lib_impl ex_cell_lib ex_tlb_lib (Some ex_block) ex_tlb_tx") auto
  have "map_transaction (fe_addr ex_env) (fe_cell ex_env) (fe_tlb ex_env) (Some ex_block) ex_tlb_tx = Ok tx"
    using tx by (simp add: map_transaction_def ex_env_def addr_lib_impl_def)
  moreover obtain acc where "fetched ex_env ex_block (0 # replicate 32 2) = Ok acc"
    using ex_fetched by (cases "fetched ex_env ex_block (0 # replicate 32 2)") auto
  moreover have "al_newAddress (fe_addr ex_env) 0 (ucast (be_workchain ex_block)) (ts_account ex_id) =
      \<lparr>ta_std = True, ta_workchain = 0, ta_data = replicate 32 2\<rparr>"
    by (simp add: ex_env_def addr_lib_impl_def ex_block_def ex_id_def)
  ultimately show ?thesis
    by (simp add: fetched_tx_def Let_def deref_from_tonutils_def must_from_tonutils_def
        from_tonutils_def join_results_def fetchTx_def)
      (simp add: ex_env_def ex_api_def)
qed


end
