(* ===== verification/Store.thy ===== *)
theory Store
  imports Filters "HOL-Library.List_Lexorder" "HOL-Library.Char_ord" "HOL-Library.Product_Lexorder"
begin

section \<open>internal/core/repository: the databases and the writes of the indexer\<close>

text \<open>
  The tables of PostgreSQL and ClickHouse that the repositories write: here those of
  \<open>repository/account\<close>, \<open>msg\<close>, \<open>tx\<close> and \<open>block\<close>, in \<open>ContractRepo\<close> those of
  \<open>contract\<close> and \<open>rescan\<close>. A PostgreSQL table is a map from its conflict key to the row (the accounts
  and blocks as a list of entries, since they are also read by other columns); a ClickHouse table is the list of inserted rows, except the two key-value tables of code and data
  (EmbeddedRocksDB), which are maps. Relations are not columns: \<open>account_row\<close>,
  \<open>message_row\<close>, \<open>transaction_row\<close> and \<open>block_row\<close> are what a row keeps. Every
  statement may fail: \<open>db_faults\<close> is the sequence of outcomes of the next statements
  (\<open>None\<close> for success, and success when it is used up); a failed statement changes nothing.
  A repository call is a sequence of statements and no transaction, so what ran before a failure stays.
  Wrapped messages are kept without their formatted arguments.
\<close>

record db =
  pg_accounts :: "((addr \<times> u64) \<times> account_state) list"
  pg_latest :: "addr \<rightharpoonup> u64"
  pg_labels :: "addr \<rightharpoonup> address_label"
  pg_messages :: "bytes \<rightharpoonup> message"
  pg_transactions :: "bytes \<rightharpoonup> transaction"
  pg_blocks :: "(bytes \<times> block) list"
  pg_definitions :: "(tlb_type \<times> tlb_fields) list"
  pg_interfaces :: "contract_interface list"
  pg_operations :: "contract_operation list"
  pg_tasks :: "rescan_task list"
  pg_task_seq :: int
  ch_code :: "bytes \<rightharpoonup> bytes"
  ch_data :: "bytes \<rightharpoonup> bytes"
  ch_accounts :: "account_state list"
  ch_labels :: "address_label list"
  ch_messages :: "message list"
  ch_transactions :: "transaction list"
  ch_blocks :: "block list"
  db_faults :: "goerr option list"

definition db_empty :: db where
  "db_empty = \<lparr>pg_accounts = [], pg_latest = Map.empty, pg_labels = Map.empty, pg_messages = Map.empty,
     pg_transactions = Map.empty, pg_blocks = [], pg_definitions = [], pg_interfaces = [],
     pg_operations = [], pg_tasks = [], pg_task_seq = 1, ch_code = Map.empty, ch_data = Map.empty,
     ch_accounts = [], ch_labels = [], ch_messages = [], ch_transactions = [], ch_blocks = [], db_faults = []\<rparr>"

text \<open>One statement that writes, and one that reads.\<close>

definition exec :: "(db \<Rightarrow> db) \<Rightarrow> db \<Rightarrow> goerr option \<times> db" where
  "exec f d =
     (case db_faults d of
        [] \<Rightarrow> (None, f d)
      | None # fs \<Rightarrow> (None, f (d\<lparr>db_faults := fs\<rparr>))
      | Some e # fs \<Rightarrow> (Some e, d\<lparr>db_faults := fs\<rparr>))"

definition query :: "(db \<Rightarrow> 'a) \<Rightarrow> db \<Rightarrow> 'a res \<times> db" where
  "query f d =
     (case db_faults d of
        [] \<Rightarrow> (Ok (f d), d)
      | None # fs \<Rightarrow> (Ok (f d), d\<lparr>db_faults := fs\<rparr>)
      | Some e # fs \<Rightarrow> (Err e, d\<lparr>db_faults := fs\<rparr>))"

text \<open>The sequel of a statement: an error ends the call.\<close>

definition then_exec :: "goerr option \<times> db \<Rightarrow> (db \<Rightarrow> goerr option \<times> db) \<Rightarrow> goerr option \<times> db" where
  "then_exec r k = (case r of (Some e, d) \<Rightarrow> (Some e, d) | (None, d) \<Rightarrow> k d)"

definition wrap_exec :: "string \<Rightarrow> goerr option \<times> db \<Rightarrow> goerr option \<times> db" where
  "wrap_exec m r = (wrap_err (fst r) m, snd r)"

subsection \<open>Rows\<close>

definition account_row :: "account_state \<Rightarrow> account_state" where
  "account_row a = a\<lparr>acc_label := None\<rparr>"

definition message_row :: "message \<Rightarrow> message" where
  "message_row m = m\<lparr>ms_src_state := None, ms_dst_state := None, ms_src_tx_hash := [], ms_dst_tx_hash := []\<rparr>"

definition transaction_row :: "transaction \<Rightarrow> transaction" where
  "transaction_row t = t\<lparr>tx_account := None, tx_in_msg := None, tx_out_msg := []\<rparr>"

definition block_row :: "block \<Rightarrow> block" where
  "block_row b = Block (bl_workchain b) (bl_shard b) (bl_seqno b) (bl_file_hash b) (bl_root_hash b)
     (bl_master b) [] [] [] (bl_scanned_at b)"

definition account_key :: "account_state \<Rightarrow> addr \<times> u64" where
  "account_key a = (acc_address a, acc_last_tx_lt a)"

text \<open>PostgreSQL refuses an upsert of several rows that meets the same key twice.\<close>

definition pg_dup_error :: goerr where
  "pg_dup_error =
     ErrExt ''ERROR: ON CONFLICT DO UPDATE command cannot affect row a second time (SQLSTATE=21000)''"

definition upsert_all :: "('a \<Rightarrow> 'k) \<Rightarrow> ('a \<Rightarrow> 'v) \<Rightarrow> 'a list \<Rightarrow> ('k \<rightharpoonup> 'v) \<Rightarrow> ('k \<rightharpoonup> 'v)" where
  "upsert_all key row xs t = fold (\<lambda>x t. t(key x \<mapsto> row x)) xs t"

definition upsert_accounts :: "account_state list \<Rightarrow> ((addr \<times> u64) \<times> account_state) list \<Rightarrow>
    ((addr \<times> u64) \<times> account_state) list" where
  "upsert_accounts as t = fold (\<lambda>a. AList.update (account_key a) (account_row a)) as t"

subsection \<open>repository/account\<close>

definition addAddressLabel :: "address_label \<Rightarrow> db \<Rightarrow> goerr option \<times> db" where
  "addAddressLabel label d =
     (let (r, d) = (if pg_labels d (lb_address label) \<noteq> None
                    then (Some (ErrExt ''ERROR: duplicate key value violates unique constraint''), d)
                    else exec (\<lambda>d. d\<lparr>pg_labels := (pg_labels d)(lb_address label \<mapsto> label)\<rparr>) d)
      in case r of
           Some e \<Rightarrow>
             if str_contains (err_text e) ''duplicate key value violates unique constraint''
             then (Some (Wrap ErrAlreadyExists ''address is already labeled''), d)
             else (Some (Wrap e ''pg insert label''), d)
         | None \<Rightarrow> wrap_exec ''ch insert label'' (exec (\<lambda>d. d\<lparr>ch_labels := ch_labels d @ [label]\<rparr>) d))"

definition getAddressLabel :: "addr \<Rightarrow> db \<Rightarrow> address_label res \<times> db" where
  "getAddressLabel a d =
     (case query (\<lambda>d. pg_labels d a) d of
        (Ok (Some label), d) \<Rightarrow> (Ok label, d)
      | (Ok None, d) \<Rightarrow> (Err ErrNotFound, d)
      | (Err e, d) \<Rightarrow> (if err_is e ErrNoRows then Err ErrNotFound else Err e, d)
      | (Panic p, d) \<Rightarrow> (Panic p, d))"

text \<open>\<open>sort.Slice\<close> by name; executions of one interface have different names.\<close>

definition sort_executions :: "account_state \<Rightarrow> account_state" where
  "sort_executions a =
     a\<lparr>acc_executed := map_option (map (\<lambda>(n, es). (n, sort_key ge_name es))) (acc_executed a)\<rparr>"

definition clear_code_data :: "account_state \<Rightarrow> account_state" where
  "clear_code_data a = a\<lparr>acc_code := [], acc_data := []\<rparr>"

text \<open>The greatest transaction time per address, in the order of the addresses' first use.\<close>

fun latest_lts :: "account_state list \<Rightarrow> (addr \<times> u64) list \<Rightarrow> (addr \<times> u64) list" where
  "latest_lts [] m = m"
| "latest_lts (a # as) m =
     (let old = (case map_of m (acc_address a) of Some lt \<Rightarrow> lt | None \<Rightarrow> 0)
      in latest_lts as (if old < acc_last_tx_lt a
           then AList.update (acc_address a) (acc_last_tx_lt a) m else m))"

definition upsert_latest :: "addr \<times> u64 \<Rightarrow> db \<Rightarrow> db" where
  "upsert_latest p d =
     (case pg_latest d (fst p) of
        None \<Rightarrow> d\<lparr>pg_latest := (pg_latest d)(fst p \<mapsto> snd p)\<rparr>
      | Some old \<Rightarrow> if old < snd p then d\<lparr>pg_latest := (pg_latest d)(fst p \<mapsto> snd p)\<rparr> else d)"

fun set_latest :: "(addr \<times> u64) list \<Rightarrow> db \<Rightarrow> goerr option \<times> db" where
  "set_latest [] d = (None, d)"
| "set_latest (p # ps) d =
     then_exec (wrap_exec ''cannot set latest state'' (exec (upsert_latest p) d)) (set_latest ps)"

text \<open>
  The statements of \<open>AddAccountStates\<close>: the two key-value tables, the rows, the latest
  states, the rows of ClickHouse. \<open>ord\<close> is the order of the range over the addresses.
\<close>

definition insert_states :: "addr key_order \<Rightarrow> (bytes \<times> bytes) list \<Rightarrow> (bytes \<times> bytes) list \<Rightarrow>
    account_state list \<Rightarrow> db \<Rightarrow> goerr option \<times> db" where
  "insert_states ord codeKV dataKV accounts d =
     then_exec (wrap_exec ''write code to key-value store''
       (exec (\<lambda>d. d\<lparr>ch_code := upsert_all fst snd codeKV (ch_code d)\<rparr>) d)) (\<lambda>d.
     then_exec (wrap_exec ''write data to key-value store''
       (exec (\<lambda>d. d\<lparr>ch_data := upsert_all fst snd dataKV (ch_data d)\<rparr>) d)) (\<lambda>d.
     then_exec (wrap_exec ''cannot insert new account states''
       (if distinct (map account_key accounts)
        then exec (\<lambda>d. d\<lparr>pg_accounts := upsert_accounts accounts (pg_accounts d)\<rparr>) d
        else (Some pg_dup_error, d))) (\<lambda>d.
     then_exec (set_latest (range_map ord (latest_lts accounts [])) d) (\<lambda>d.
     exec (\<lambda>d. d\<lparr>ch_accounts := ch_accounts d @ map account_row accounts\<rparr>) d))))"

text \<open>
  The accounts are pointers: the caller sees their executions sorted and their code and data
  removed, also when a statement fails.
\<close>

definition addAccountStates :: "addr key_order \<Rightarrow> account_state list \<Rightarrow> db \<Rightarrow>
    goerr option \<times> account_state list \<times> db" where
  "addAccountStates ord accounts d =
     (if accounts = [] then (None, [], d)
      else
        (let sorted = map sort_executions accounts;
             codeKV = map (\<lambda>a. (acc_code_hash a, acc_code a)) sorted;
             dataKV = map (\<lambda>a. (acc_data_hash a, acc_data a)) sorted;
             cleared = map clear_code_data sorted;
             (r, d) = insert_states ord codeKV dataKV cleared d
         in (r, cleared, d)))"

text \<open>The columns that \<open>UpdateAccountStates\<close> sets, of the row with the primary key.\<close>

definition update_parsed :: "account_state \<Rightarrow> account_state \<Rightarrow> account_state" where
  "update_parsed a row = row\<lparr>acc_types := acc_types a, acc_owner := acc_owner a, acc_minter := acc_minter a,
     acc_fake := acc_fake a, acc_executed := acc_executed a, acc_nft_content := acc_nft_content a,
     acc_jetton_balance := acc_jetton_balance a\<rparr>"

fun update_accounts :: "account_state list \<Rightarrow> db \<Rightarrow> goerr option \<times> db" where
  "update_accounts [] d = (None, d)"
| "update_accounts (a # as) d =
     then_exec (wrap_exec ''cannot update acc state data''
       (exec (\<lambda>d. d\<lparr>pg_accounts := map (\<lambda>(k, row).
            (k, if k = account_key a then update_parsed (sort_executions a) row else row)) (pg_accounts d)\<rparr>) d))
       (update_accounts as)"

definition updateAccountStates :: "account_state list \<Rightarrow> db \<Rightarrow> goerr option \<times> db" where
  "updateAccountStates accounts d =
     (if accounts = [] then (None, d)
      else then_exec (update_accounts accounts d)
        (exec (\<lambda>d. d\<lparr>ch_accounts := ch_accounts d @ map (account_row \<circ> sort_executions) accounts\<rparr>)))"

subsection \<open>Code and data of account states\<close>

text \<open>The hashes that are missing, each once, in the order of the rows.\<close>

definition missing_code :: "account_state list \<Rightarrow> bytes list" where
  "missing_code rows = remdups (map acc_code_hash
     (filter (\<lambda>a. acc_code a = [] \<and> length (acc_code_hash a) = 32) rows))"

definition missing_data :: "account_state list \<Rightarrow> bytes list" where
  "missing_data rows = remdups (map acc_data_hash
     (filter (\<lambda>a. acc_data a = [] \<and> length (acc_data_hash a) = 32) rows))"

text \<open>\<open>appendHash\<close>: the last batch takes the hash unless it is full.\<close>

definition append_hash :: "nat \<Rightarrow> bytes \<Rightarrow> bytes list list \<Rightarrow> bytes list list" where
  "append_hash n h batches =
     (if n \<le> length (last batches) then batches @ [[h]] else butlast batches @ [last batches @ [h]])"

definition hash_batches :: "nat \<Rightarrow> bytes list \<Rightarrow> bytes list list" where
  "hash_batches n hs = fold (append_hash n) hs [[]]"

definition kv_rows :: "(bytes \<rightharpoonup> bytes) \<Rightarrow> bytes list \<Rightarrow> (bytes \<times> bytes) list" where
  "kv_rows kv hs = map (\<lambda>h. (h, the (kv h))) (filter (\<lambda>h. kv h \<noteq> None) hs)"

fun read_batches :: "(db \<Rightarrow> bytes \<rightharpoonup> bytes) \<Rightarrow> string \<Rightarrow> bytes list list \<Rightarrow> (bytes \<rightharpoonup> bytes) \<Rightarrow> db \<Rightarrow>
    (bytes \<rightharpoonup> bytes) res \<times> db" where
  "read_batches kv m [] acc d = (Ok acc, d)"
| "read_batches kv m (b # bs) acc d =
     (case query (\<lambda>d. kv_rows (kv d) b) d of
        (Ok rows, d) \<Rightarrow> read_batches kv m bs (upsert_all fst snd rows acc) d
      | (Err e, d) \<Rightarrow> (Err (Wrap e m), d)
      | (Panic p, d) \<Rightarrow> (Panic p, d))"

fun fill_rows :: "bool \<Rightarrow> bool \<Rightarrow> (bytes \<rightharpoonup> bytes) \<Rightarrow> (bytes \<rightharpoonup> bytes) \<Rightarrow> account_state list \<Rightarrow> account_state list res" where
  "fill_rows exCode exData code data [] = Ok []"
| "fill_rows exCode exData code data (a # as) =
     rbind (if \<not> exCode \<and> acc_code a = [] \<and> length (acc_code_hash a) = 32
            then (case code (acc_code_hash a) of
                    None \<Rightarrow> Err (ErrText (''cannot find code with '' @ hex_encode (acc_code_hash a) @ '' hash''))
                  | Some c \<Rightarrow> Ok (a\<lparr>acc_code := c\<rparr>))
            else Ok a) (\<lambda>a.
     rbind (if \<not> exData \<and> acc_data a = [] \<and> length (acc_data_hash a) = 32
            then (case data (acc_data_hash a) of
                    None \<Rightarrow> Err (ErrText (''cannot find data with '' @ hex_encode (acc_data_hash a) @ '' hash''))
                  | Some x \<Rightarrow> Ok (a\<lparr>acc_data := x\<rparr>))
            else Ok a) (\<lambda>a.
     rbind (fill_rows exCode exData code data as) (\<lambda>as. Ok (a # as))))"

definition getCodeData :: "bytes key_order \<Rightarrow> bool \<Rightarrow> bool \<Rightarrow> account_state list \<Rightarrow> db \<Rightarrow> account_state list res \<times> db" where
  "getCodeData ord exCode exData rows d =
     (case read_batches ch_code ''get code''
             (hash_batches 1000 (ord (if exCode then [] else missing_code rows))) Map.empty d of
        (Ok code, d) \<Rightarrow>
          (case read_batches ch_data ''get data''
                  (hash_batches 1000 (ord (if exData then [] else missing_data rows))) Map.empty d of
             (Ok data, d) \<Rightarrow> (fill_rows exCode exData code data rows, d)
           | (Err e, d) \<Rightarrow> (Err e, d)
           | (Panic p, d) \<Rightarrow> (Panic p, d))
      | (Err e, d) \<Rightarrow> (Err e, d)
      | (Panic p, d) \<Rightarrow> (Panic p, d))"

subsection \<open>repository/msg, tx and block\<close>

text \<open>A message that is already there gets the destination and what was parsed of the new one.\<close>

definition merge_message :: "message \<Rightarrow> message \<Rightarrow> message" where
  "merge_message m old = old\<lparr>ms_dst_tx_lt := ms_dst_tx_lt m, ms_dst_workchain := ms_dst_workchain m,
     ms_dst_shard := ms_dst_shard m, ms_dst_block_seqno := ms_dst_block_seqno m,
     ms_src_contract := ms_src_contract m, ms_dst_contract := ms_dst_contract m,
     ms_operation_name := ms_operation_name m, ms_data_json := ms_data_json m, ms_error := ms_error m\<rparr>"

definition insert_message :: "message \<Rightarrow> db \<Rightarrow> db" where
  "insert_message m d =
     d\<lparr>pg_messages := (pg_messages d)(ms_hash m \<mapsto>
        (case pg_messages d (ms_hash m) of None \<Rightarrow> message_row m | Some old \<Rightarrow> merge_message m old))\<rparr>"

fun insert_messages :: "message list \<Rightarrow> db \<Rightarrow> goerr option \<times> db" where
  "insert_messages [] d = (None, d)"
| "insert_messages (m # ms) d = then_exec (exec (insert_message m) d) (insert_messages ms)"

definition addMessages :: "message list \<Rightarrow> db \<Rightarrow> goerr option \<times> db" where
  "addMessages messages d =
     (if messages = [] then (None, d)
      else then_exec (insert_messages messages d)
        (exec (\<lambda>d. d\<lparr>ch_messages := ch_messages d @ map message_row messages\<rparr>)))"

definition update_message :: "message \<Rightarrow> db \<Rightarrow> db" where
  "update_message m d =
     d\<lparr>pg_messages := (pg_messages d)(ms_hash m := map_option (\<lambda>old.
        old\<lparr>ms_src_contract := ms_src_contract m, ms_dst_contract := ms_dst_contract m,
            ms_operation_name := ms_operation_name m, ms_data_json := ms_data_json m,
            ms_error := ms_error m\<rparr>) (pg_messages d (ms_hash m)))\<rparr>"

fun update_messages :: "message list \<Rightarrow> db \<Rightarrow> goerr option \<times> db" where
  "update_messages [] d = (None, d)"
| "update_messages (m # ms) d = then_exec (exec (update_message m) d) (update_messages ms)"

definition updateMessages :: "message list \<Rightarrow> db \<Rightarrow> goerr option \<times> db" where
  "updateMessages messages d =
     (if messages = [] then (None, d)
      else then_exec (update_messages messages d)
        (exec (\<lambda>d. d\<lparr>ch_messages := ch_messages d @ map message_row messages\<rparr>)))"

text \<open>\<open>DISTINCT\<close> keeps the first row of each value.\<close>

definition nub :: "'a list \<Rightarrow> 'a list" where
  "nub xs = rev (remdups (rev xs))"

text \<open>
  The rows of \<open>GetMessages\<close> have no order: \<open>ord\<close> is the one the database picks. No row is
  no error, the error \<open>ErrNoRows\<close> is for single rows.
\<close>

definition getMessages :: "(message list \<Rightarrow> message list) \<Rightarrow> bytes list \<Rightarrow> db \<Rightarrow> message list res \<times> db" where
  "getMessages ord hashes d =
     (case query (\<lambda>d. ord (List.map_filter (pg_messages d) (nub hashes))) d of
        (Ok ms, d) \<Rightarrow> (Ok ms, d)
      | (Err e, d) \<Rightarrow> (if err_is e ErrNoRows then Err ErrNotFound else Err e, d)
      | (Panic p, d) \<Rightarrow> (Panic p, d))"

text \<open>
  The conditions of \<open>MatchStatesByInterfaceDesc\<close>: the ones that are set, any of them; none
  set, no condition.
\<close>

definition match_conditions :: "contract_name \<Rightarrow> addr list \<Rightarrow> bytes \<Rightarrow> i32 list \<Rightarrow> (account_state \<Rightarrow> bool) list" where
  "match_conditions contractName addresses codeHash getMethodHashes =
     (if contractName \<noteq> [] then [\<lambda>a. contractName \<in> set (acc_types a)] else []) @
     (if addresses \<noteq> [] then [\<lambda>a. acc_address a \<in> set addresses] else []) @
     (if codeHash \<noteq> [] then [\<lambda>a. acc_code_hash a = codeHash] else []) @
     (if addresses = [] \<and> codeHash = [] \<and> getMethodHashes \<noteq> []
      then [\<lambda>a. set getMethodHashes \<subseteq> set (acc_get_method_hashes a)] else [])"

definition matchStatesByInterfaceDesc :: "contract_name \<Rightarrow> addr list \<Rightarrow> bytes \<Rightarrow> i32 list \<Rightarrow>
    addr option \<Rightarrow> u64 \<Rightarrow> nat \<Rightarrow> db \<Rightarrow> account_state_id list res \<times> db" where
  "matchStatesByInterfaceDesc contractName addresses codeHash getMethodHashes afterAddress afterTxLt limit d =
     (let conds = match_conditions contractName addresses codeHash getMethodHashes;
          after = (\<lambda>k. case afterAddress of
             Some a \<Rightarrow> afterTxLt \<noteq> 0 \<longrightarrow> (a, afterTxLt) < k
           | None \<Rightarrow> True)
      in query (\<lambda>d. map (\<lambda>(a, lt). \<lparr>ai_address = a, ai_last_tx_lt = lt\<rparr>)
           (take limit (sort (nub (map account_key
              (filter (\<lambda>a. (conds = [] \<or> (\<exists>c \<in> set conds. c a)) \<and> after (account_key a)) (ch_accounts d))))))) d)"

text \<open>
  \<open>MatchMessagesByOperationDesc\<close> selects \<open>limit\<close> addresses of the contract first, then
  \<open>limit\<close> messages of these addresses.
\<close>

definition msg_key :: "bool \<Rightarrow> message \<Rightarrow> addr \<times> u64" where
  "msg_key outgoing m = (if outgoing then (ms_src_address m, ms_src_tx_lt m) else (ms_dst_address m, ms_dst_tx_lt m))"

definition contract_addresses :: "contract_name \<Rightarrow> addr option \<Rightarrow> nat \<Rightarrow> db \<Rightarrow> addr list" where
  "contract_addresses contractName afterAddress limit d =
     take limit (sort (nub (map acc_address (filter (\<lambda>a. contractName \<in> set (acc_types a) \<and>
        (case afterAddress of Some b \<Rightarrow> b \<le> acc_address a | None \<Rightarrow> True)) (ch_accounts d)))))"

definition operation_messages :: "addr list \<Rightarrow> message_type \<Rightarrow> bool \<Rightarrow> u32 \<Rightarrow> addr option \<Rightarrow> u64 \<Rightarrow> nat \<Rightarrow> db \<Rightarrow> bytes list" where
  "operation_messages addresses msgType outgoing operationId afterAddress afterTxLt limit d =
     take limit (nub (map ms_hash (sort_key (msg_key outgoing) (filter (\<lambda>m. ms_type m = msgType \<and>
        fst (msg_key outgoing m) \<in> set addresses \<and> ms_operation_id m = operationId \<and>
        (case afterAddress of Some a \<Rightarrow> afterTxLt \<noteq> 0 \<longrightarrow> (a, afterTxLt) < msg_key outgoing m | None \<Rightarrow> True))
        (ch_messages d)))))"

definition matchMessagesByOperationDesc :: "contract_name \<Rightarrow> message_type \<Rightarrow> bool \<Rightarrow> u32 \<Rightarrow> addr option \<Rightarrow> u64 \<Rightarrow>
    nat \<Rightarrow> db \<Rightarrow> bytes list res \<times> db" where
  "matchMessagesByOperationDesc contractName msgType outgoing operationId afterAddress afterTxLt limit d =
     (case query (contract_addresses contractName afterAddress limit) d of
        (Ok addresses, d) \<Rightarrow>
          (case query (operation_messages addresses msgType outgoing operationId afterAddress afterTxLt limit) d of
             (Ok hs, d) \<Rightarrow> (Ok hs, d)
           | (Err e, d) \<Rightarrow> (Err (Wrap e ''get message hashes''), d)
           | (Panic p, d) \<Rightarrow> (Panic p, d))
      | (Err e, d) \<Rightarrow> (Err (Wrap e ''get contract addresses''), d)
      | (Panic p, d) \<Rightarrow> (Panic p, d))"

text \<open>The states that a message is joined with are rows of the account table.\<close>

definition join_states :: "db \<Rightarrow> message \<Rightarrow> message" where
  "join_states d m =
     (let pick = (\<lambda>a w sh n. map_option snd (find (\<lambda>(k, s). acc_address s = a \<and> acc_workchain s = w \<and>
                     acc_shard s = sh \<and> acc_block_seqno s = n) (pg_accounts d)))
      in m\<lparr>ms_src_state := pick (ms_src_address m) (ms_src_workchain m) (ms_src_shard m) (ms_src_block_seqno m),
           ms_dst_state := pick (ms_dst_address m) (ms_dst_workchain m) (ms_dst_shard m) (ms_dst_block_seqno m)\<rparr>)"

definition getMessage :: "bytes \<Rightarrow> db \<Rightarrow> message res \<times> db" where
  "getMessage hash d =
     (case query (\<lambda>d. map_option (join_states d) (pg_messages d hash)) d of
        (Ok (Some m), d) \<Rightarrow> (Ok m, d)
      | (Ok None, d) \<Rightarrow> (Err ErrNotFound, d)
      | (Err e, d) \<Rightarrow> (if err_is e ErrNoRows then Err ErrNotFound else Err e, d)
      | (Panic p, d) \<Rightarrow> (Panic p, d))"

text \<open>One transaction at a time; only the error of the last statement is kept.\<close>

fun insert_txs :: "transaction list \<Rightarrow> goerr option \<times> db \<Rightarrow> goerr option \<times> db" where
  "insert_txs [] r = r"
| "insert_txs (t # ts) r =
     insert_txs ts (exec (\<lambda>d. d\<lparr>pg_transactions := (pg_transactions d)(tx_hash t \<mapsto> transaction_row t)\<rparr>) (snd r))"

text \<open>An error of the batch other than the duplicate key is overwritten by the next statement.\<close>

definition addTransactions :: "transaction list \<Rightarrow> db \<Rightarrow> goerr option \<times> db" where
  "addTransactions transactions d =
     (if transactions = [] then (None, d)
      else
        (let batch = (if distinct (map tx_hash transactions)
               then exec (\<lambda>d. d\<lparr>pg_transactions := upsert_all tx_hash transaction_row transactions (pg_transactions d)\<rparr>) d
               else (Some pg_dup_error, d));
             retry = (case batch of
                 (Some e, d) \<Rightarrow> err_text e =
                   ''ERROR: ON CONFLICT DO UPDATE command cannot affect row a second time (SQLSTATE=21000)''
               | (None, d) \<Rightarrow> False);
             r = (if retry then insert_txs transactions batch else batch)
         in if retry \<and> fst r \<noteq> None then r
            else exec (\<lambda>d. d\<lparr>ch_transactions := ch_transactions d @ map transaction_row transactions\<rparr>) (snd r)))"

fun insert_blocks :: "block list \<Rightarrow> db \<Rightarrow> goerr option \<times> db" where
  "insert_blocks [] d = (None, d)"
| "insert_blocks (b # bs) d =
     then_exec (exec (\<lambda>d. d\<lparr>pg_blocks := AList.update (bl_root_hash b) (block_row b) (pg_blocks d)\<rparr>) d) (insert_blocks bs)"

definition addBlocks :: "block list \<Rightarrow> db \<Rightarrow> goerr option \<times> db" where
  "addBlocks info d =
     (if info = [] then (None, d)
      else then_exec (insert_blocks info d)
        (exec (\<lambda>d. d\<lparr>ch_blocks := ch_blocks d @ map block_row info\<rparr>)))"

definition getLastMasterBlock :: "db \<Rightarrow> block res \<times> db" where
  "getLastMasterBlock d =
     (case query (\<lambda>d. rev (sort_key bl_seqno (filter (\<lambda>b. bl_workchain b = -1) (map snd (pg_blocks d))))) d of
        (Ok (b # bs), d) \<Rightarrow> (Ok b, d)
      | (Ok [], d) \<Rightarrow> (Err ErrNotFound, d)
      | (Err e, d) \<Rightarrow> (if err_is e ErrNoRows then Err ErrNotFound else Err e, d)
      | (Panic p, d) \<Rightarrow> (Panic p, d))"

definition countMasterBlocks :: "db \<Rightarrow> nat res \<times> db" where
  "countMasterBlocks d = query (\<lambda>d. length (filter (\<lambda>b. bl_workchain b = -1) (ch_blocks d))) d"

subsection \<open>Lemmas\<close>

lemma query_OkD: "query f d = (Ok x, d') \<Longrightarrow> x = f d \<and> (\<exists>fs. d' = d\<lparr>db_faults := fs\<rparr>)"
  by (auto simp: query_def split: list.splits option.splits) (metis db.surjective db.update_convs(19))

lemma upsert_all_Nil [simp]: "upsert_all key row [] t = t"
  by (simp add: upsert_all_def)

lemma upsert_all_Cons [simp]: "upsert_all key row (x # xs) t = upsert_all key row xs (t(key x \<mapsto> row x))"
  by (simp add: upsert_all_def)

lemma upsert_all_other: "k \<notin> key ` set xs \<Longrightarrow> upsert_all key row xs t k = t k"
  by (induction xs arbitrary: t) auto

text \<open>When the key decides the value, every inserted row is there afterwards.\<close>

lemma upsert_all_in:
  assumes "x \<in> set xs" and "\<And>y. y \<in> set xs \<Longrightarrow> key y = key x \<Longrightarrow> row y = row x"
  shows "upsert_all key row xs t (key x) = Some (row x)"
  using assms
proof (induction xs arbitrary: t rule: rev_induct)
  case (snoc y ys)
  show ?case
  proof (cases "key y = key x")
    case True
    with snoc.prems(2)[of y] show ?thesis by (simp add: upsert_all_def)
  next
    case False
    then have "x \<in> set ys" using snoc.prems(1) by auto
    then have "upsert_all key row ys t (key x) = Some (row x)"
      by (rule snoc.IH) (rule snoc.prems(2), simp)
    with False show ?thesis by (simp add: upsert_all_def)
  qed
qed simp

lemma upsert_accounts_in:
  assumes "distinct (map account_key as)" and "a \<in> set as"
  shows "map_of (upsert_accounts as t) (account_key a) = Some (account_row a)"
  using assms
proof (induction as arbitrary: t rule: rev_induct)
  case (snoc b bs)
  show ?case
  proof (cases "a = b")
    case True
    then show ?thesis by (simp add: upsert_accounts_def update_conv')
  next
    case False
    with snoc.prems have "a \<in> set bs" and "account_key b \<notin> account_key ` set bs" by auto
    then have "account_key a \<noteq> account_key b" by (metis imageI)
    with False snoc show ?thesis by (simp add: upsert_accounts_def update_conv')
  qed
qed simp

lemma exec_None: "exec f d = (None, d') \<Longrightarrow> \<exists>fs. d' = f (d\<lparr>db_faults := fs\<rparr>)"
proof (cases "db_faults d")
  case Nil
  assume "exec f d = (None, d')"
  moreover have same: "d\<lparr>db_faults := db_faults d\<rparr> = d" by simp
  ultimately have "d' = f (d\<lparr>db_faults := db_faults d\<rparr>)" using Nil by (simp only: same) (simp add: exec_def)
  then show ?thesis by blast
next
  case (Cons x xs)
  assume "exec f d = (None, d')"
  with Cons show ?thesis by (cases x) (auto simp: exec_def)
qed

lemma exec_Some: "exec f d = (Some e, d') \<Longrightarrow> \<exists>fs. d' = d\<lparr>db_faults := fs\<rparr>"
  by (auto simp: exec_def split: list.splits option.splits)

lemma then_exec_None:
  assumes "then_exec r k = (None, d')"
  obtains d where "r = (None, d)" and "k d = (None, d')"
  using assms by (cases r) (auto simp: then_exec_def split: option.splits)

lemma wrap_exec_None [simp]: "wrap_exec m r = (None, d) \<longleftrightarrow> r = (None, d)"
  by (cases r) (auto simp: wrap_exec_def)

text \<open>A statement changes only its table and the outcomes left, whether it succeeds or not.\<close>

lemma exec_keeps:
  assumes "\<And>d. g (f d) = g d" and "\<And>d fs. g (d\<lparr>db_faults := fs\<rparr>) = g d"
  shows "g (snd (exec f d)) = g d"
  using assms by (auto simp: exec_def split: list.split option.split)

lemma then_exec_keeps:
  assumes "g (snd r) = g d" and "\<And>d. g (snd (k d)) = g d"
  shows "g (snd (then_exec r k)) = g d"
  using assms by (cases r) (auto simp: then_exec_def split: option.split)

lemma snd_wrap_exec [simp]: "snd (wrap_exec m r) = snd r"
  by (simp add: wrap_exec_def)

lemma set_latest_keeps:
  assumes "\<And>d lt. g (d\<lparr>pg_latest := lt\<rparr>) = g d" and "\<And>d fs. g (d\<lparr>db_faults := fs\<rparr>) = g d"
  shows "g (snd (set_latest ps d)) = g d"
proof (induction ps arbitrary: d)
  case (Cons p ps)
  have "g (upsert_latest p d) = g d" for d
    using assms(1) by (simp add: upsert_latest_def split: option.split)
  then have "g (snd (exec (upsert_latest p) d)) = g d" for d
    by (intro exec_keeps assms(2))
  then show ?case using Cons.IH by (simp add: then_exec_keeps)
qed simp

lemma exec_Ok_field:
  assumes "exec f d = (None, d')" and "\<And>d fs. g (d\<lparr>db_faults := fs\<rparr>) = g d" and "\<And>d. g (f d) = h (g d)"
  shows "g d' = h (g d)"
  using exec_None[OF assms(1)] assms(2,3) by auto

lemma exec_Ok_keeps:
  assumes "exec f d = (None, d')" and "\<And>d fs. g (d\<lparr>db_faults := fs\<rparr>) = g d" and "\<And>d. g (f d) = g d"
  shows "g d' = g d"
  using exec_Ok_field[OF assms(1,2), of "\<lambda>x. x"] assms(3) by blast

text \<open>What a successful \<open>AddAccountStates\<close> leaves behind, and what its caller sees.\<close>

abbreviation stored_accounts :: "account_state list \<Rightarrow> account_state list" where
  "stored_accounts accounts \<equiv> map (clear_code_data \<circ> sort_executions) accounts"

lemma addAccountStates_cleared:
  "addAccountStates ord accounts d = (r, accounts', d') \<Longrightarrow> accounts' = stored_accounts accounts"
  by (auto simp: addAccountStates_def Let_def split: if_splits prod.splits)

lemma insert_states_Ok:
  assumes "insert_states ord codeKV dataKV accounts d = (None, d')"
  shows "ch_code d' = upsert_all fst snd codeKV (ch_code d)"
    and "ch_data d' = upsert_all fst snd dataKV (ch_data d)"
    and "pg_accounts d' = upsert_accounts accounts (pg_accounts d)"
    and "distinct (map account_key accounts)"
proof -
  obtain d1 d2 d3 d4 where st:
    "exec (\<lambda>d. d\<lparr>ch_code := upsert_all fst snd codeKV (ch_code d)\<rparr>) d = (None, d1)"
    "exec (\<lambda>d. d\<lparr>ch_data := upsert_all fst snd dataKV (ch_data d)\<rparr>) d1 = (None, d2)"
    "(if distinct (map account_key accounts)
      then exec (\<lambda>d. d\<lparr>pg_accounts := upsert_accounts accounts (pg_accounts d)\<rparr>) d2
      else (Some pg_dup_error, d2)) = (None, d3)"
    "set_latest (range_map ord (latest_lts accounts [])) d3 = (None, d4)"
    "exec (\<lambda>d. d\<lparr>ch_accounts := ch_accounts d @ map account_row accounts\<rparr>) d4 = (None, d')"
    using assms unfolding insert_states_def by (elim then_exec_None) (simp only: wrap_exec_None)
  show dist: "distinct (map account_key accounts)" using st(3) by (simp split: if_splits)
  with st(3) have st3: "exec (\<lambda>d. d\<lparr>pg_accounts := upsert_accounts accounts (pg_accounts d)\<rparr>) d2 = (None, d3)" by simp
  show "ch_code d' = upsert_all fst snd codeKV (ch_code d)"
    using exec_Ok_field[OF st(1), of ch_code "upsert_all fst snd codeKV"]
      exec_Ok_keeps[OF st(2), of ch_code] exec_Ok_keeps[OF st3, of ch_code]
      exec_Ok_keeps[OF st(5), of ch_code] set_latest_keeps[of ch_code "range_map ord (latest_lts accounts [])" d3] st(4)
    by simp
  show "ch_data d' = upsert_all fst snd dataKV (ch_data d)"
    using exec_Ok_field[OF st(2), of ch_data "upsert_all fst snd dataKV"]
      exec_Ok_keeps[OF st(1), of ch_data] exec_Ok_keeps[OF st3, of ch_data]
      exec_Ok_keeps[OF st(5), of ch_data] set_latest_keeps[of ch_data "range_map ord (latest_lts accounts [])" d3] st(4)
    by simp
  show "pg_accounts d' = upsert_accounts accounts (pg_accounts d)"
    using exec_Ok_field[OF st3, of pg_accounts "upsert_accounts accounts"]
      exec_Ok_keeps[OF st(1), of pg_accounts] exec_Ok_keeps[OF st(2), of pg_accounts]
      exec_Ok_keeps[OF st(5), of pg_accounts] set_latest_keeps[of pg_accounts "range_map ord (latest_lts accounts [])" d3] st(4)
    by simp
qed

lemma account_key_cleared [simp]: "account_key (clear_code_data (sort_executions a)) = account_key a"
  by (simp add: account_key_def clear_code_data_def sort_executions_def)

lemma sort_executions_sel [simp]:
  "acc_code_hash (sort_executions a) = acc_code_hash a" "acc_code (sort_executions a) = acc_code a"
  "acc_data_hash (sort_executions a) = acc_data_hash a" "acc_data (sort_executions a) = acc_data a"
  by (simp_all add: sort_executions_def)

lemma upsert_all_map: "upsert_all fst snd (map (\<lambda>a. (k a, v a)) xs) t = upsert_all k v xs t"
  by (simp add: upsert_all_def fold_map comp_def)

lemma addAccountStates_Ok:
  assumes "addAccountStates ord accounts d = (None, accounts', d')"
  shows "ch_code d' = upsert_all acc_code_hash acc_code accounts (ch_code d)"
    and "ch_data d' = upsert_all acc_data_hash acc_data accounts (ch_data d)"
    and "pg_accounts d' = upsert_accounts (stored_accounts accounts) (pg_accounts d)"
    and "distinct (map account_key accounts)"
proof -
  have *: "ch_code d' = upsert_all acc_code_hash acc_code accounts (ch_code d) \<and>
    ch_data d' = upsert_all acc_data_hash acc_data accounts (ch_data d) \<and>
    pg_accounts d' = upsert_accounts (stored_accounts accounts) (pg_accounts d) \<and>
    distinct (map account_key accounts)"
  proof (cases "accounts = []")
    case True
    with assms show ?thesis by (simp add: addAccountStates_def upsert_accounts_def)
  next
    case False
    let ?kv = "\<lambda>k v. map (\<lambda>a. (k a, v a)) (map sort_executions accounts)"
    have "insert_states ord (?kv acc_code_hash acc_code) (?kv acc_data_hash acc_data)
        (map clear_code_data (map sort_executions accounts)) d = (None, d')"
      using assms False by (simp add: addAccountStates_def Let_def split: prod.splits)
    from insert_states_Ok[OF this] show ?thesis
      by (simp add: comp_def upsert_all_map)
  qed
  then show "ch_code d' = upsert_all acc_code_hash acc_code accounts (ch_code d)"
    and "ch_data d' = upsert_all acc_data_hash acc_data accounts (ch_data d)"
    and "pg_accounts d' = upsert_accounts (stored_accounts accounts) (pg_accounts d)"
    and "distinct (map account_key accounts)" by blast+
qed

text \<open>The batches partition the hashes, and none is over the limit.\<close>

lemma append_hash_ne: "append_hash n h bs \<noteq> []"
  by (simp add: append_hash_def)

lemma concat_append_hash: "bs \<noteq> [] \<Longrightarrow> concat (append_hash n h bs) = concat bs @ [h]"
  by (cases bs rule: rev_cases) (auto simp: append_hash_def)

lemma hash_batches_snoc: "hash_batches n (hs @ [h]) = append_hash n h (hash_batches n hs)"
  by (simp add: hash_batches_def)

lemma hash_batches_ne: "hash_batches n hs \<noteq> []"
  by (cases hs rule: rev_cases) (simp_all add: hash_batches_snoc append_hash_ne, simp add: hash_batches_def)

lemma concat_hash_batches [simp]: "concat (hash_batches n hs) = hs"
proof (induction hs rule: rev_induct)
  case Nil
  show ?case by (simp add: hash_batches_def)
qed (simp add: hash_batches_snoc concat_append_hash hash_batches_ne)

lemma append_hash_le:
  assumes "0 < n" and "\<forall>b \<in> set bs. length b \<le> n" and "bs \<noteq> []"
  shows "\<forall>b \<in> set (append_hash n h bs). length b \<le> n"
  using assms by (cases bs rule: rev_cases) (auto simp: append_hash_def)

lemma hash_batches_le: "0 < n \<Longrightarrow> \<forall>b \<in> set (hash_batches n hs). length b \<le> n"
proof (induction hs rule: rev_induct)
  case Nil
  then show ?case by (simp add: hash_batches_def)
qed (simp add: hash_batches_snoc append_hash_le hash_batches_ne)

text \<open>What the batches read, when no statement fails.\<close>

lemma upsert_all_append: "upsert_all k v (xs @ ys) t = upsert_all k v ys (upsert_all k v xs t)"
  by (simp add: upsert_all_def)

lemma kv_rows_append: "kv_rows kv (xs @ ys) = kv_rows kv xs @ kv_rows kv ys"
  by (simp add: kv_rows_def)

lemma read_batches_ok:
  "db_faults d = [] \<Longrightarrow>
   read_batches kv m bs acc d = (Ok (upsert_all fst snd (kv_rows (kv d) (concat bs)) acc), d)"
  by (induction bs arbitrary: acc) (auto simp: query_def kv_rows_append upsert_all_append kv_rows_def upsert_all_def)

lemma kv_rows_lookup:
  assumes "h \<in> set hs" and "kv h = Some c"
  shows "upsert_all fst snd (kv_rows kv hs) t h = Some c"
proof -
  have "(h, c) \<in> set (kv_rows kv hs)" using assms by (auto simp: kv_rows_def)
  moreover have "snd y = snd (h, c)" if "y \<in> set (kv_rows kv hs)" "fst y = fst (h, c)" for y
    using that assms by (auto simp: kv_rows_def)
  ultimately have "upsert_all fst snd (kv_rows kv hs) t (fst (h, c)) = Some (snd (h, c))" by (rule upsert_all_in)
  then show ?thesis by simp
qed

lemma fill_rows_ok:
  assumes "\<And>a. a \<in> set as \<Longrightarrow> acc_code a = [] \<Longrightarrow> length (acc_code_hash a) = 32 \<Longrightarrow> code (acc_code_hash a) = Some (c a)"
    and "\<And>a. a \<in> set as \<Longrightarrow> acc_data a = [] \<Longrightarrow> length (acc_data_hash a) = 32 \<Longrightarrow> data (acc_data_hash a) = Some (x a)"
  shows "fill_rows False False code data as = Ok (map (\<lambda>a.
     a\<lparr>acc_code := if acc_code a = [] \<and> length (acc_code_hash a) = 32 then c a else acc_code a,
       acc_data := if acc_data a = [] \<and> length (acc_data_hash a) = 32 then x a else acc_data a\<rparr>) as)"
  using assms
proof (induction as)
  case (Cons a as)
  have "fill_rows False False code data as = Ok (map (\<lambda>a.
     a\<lparr>acc_code := if acc_code a = [] \<and> length (acc_code_hash a) = 32 then c a else acc_code a,
       acc_data := if acc_data a = [] \<and> length (acc_data_hash a) = 32 then x a else acc_data a\<rparr>) as)"
    by (rule Cons.IH) (simp_all add: Cons.prems)
  with Cons.prems[of a] show ?case by (cases a) auto
qed simp

text \<open>
  The contents of the accounts of one batch agree with their hashes: equal hashes have equal
  contents, and an account without a 32 byte hash has no content.
\<close>

definition content_hashed :: "account_state list \<Rightarrow> bool" where
  "content_hashed as \<longleftrightarrow>
     (\<forall>a \<in> set as. \<forall>b \<in> set as. (acc_code_hash a = acc_code_hash b \<longrightarrow> acc_code a = acc_code b) \<and>
        (acc_data_hash a = acc_data_hash b \<longrightarrow> acc_data a = acc_data b)) \<and>
     (\<forall>a \<in> set as. (length (acc_code_hash a) \<noteq> 32 \<longrightarrow> acc_code a = []) \<and>
        (length (acc_data_hash a) \<noteq> 32 \<longrightarrow> acc_data a = []))"

text \<open>What \<open>getCodeData\<close> fills in when everything that is missing is stored.\<close>

definition code_stored :: "db \<Rightarrow> account_state \<Rightarrow> bool" where
  "code_stored d r \<longleftrightarrow>
     (acc_code r = [] \<and> length (acc_code_hash r) = 32 \<longrightarrow> ch_code d (acc_code_hash r) \<noteq> None) \<and>
     (acc_data r = [] \<and> length (acc_data_hash r) = 32 \<longrightarrow> ch_data d (acc_data_hash r) \<noteq> None)"

definition filled :: "db \<Rightarrow> account_state \<Rightarrow> account_state" where
  "filled d r = r\<lparr>acc_code := if acc_code r = [] \<and> length (acc_code_hash r) = 32 then the (ch_code d (acc_code_hash r)) else acc_code r,
     acc_data := if acc_data r = [] \<and> length (acc_data_hash r) = 32 then the (ch_data d (acc_data_hash r)) else acc_data r\<rparr>"

lemma getCodeData_ok:
  assumes "db_faults d = []" and "range_order ord" and "\<And>r. r \<in> set rows \<Longrightarrow> code_stored d r"
  shows "getCodeData ord False False rows d = (Ok (map (filled d) rows), d)"
proof -
  let ?C = "upsert_all fst snd (kv_rows (ch_code d) (ord (missing_code rows))) Map.empty"
  let ?D = "upsert_all fst snd (kv_rows (ch_data d) (ord (missing_data rows))) Map.empty"
  have mem: "set (ord hs) = set hs" for hs using assms(2) by (rule range_order_set)
  have C: "?C (acc_code_hash r) = Some (the (ch_code d (acc_code_hash r)))"
    if "r \<in> set rows" "acc_code r = []" "length (acc_code_hash r) = 32" for r
  proof (rule kv_rows_lookup)
    show "acc_code_hash r \<in> set (ord (missing_code rows))" using that by (auto simp: mem missing_code_def)
    show "ch_code d (acc_code_hash r) = Some (the (ch_code d (acc_code_hash r)))"
      using assms(3)[OF that(1)] that(2,3) by (auto simp: code_stored_def)
  qed
  have D: "?D (acc_data_hash r) = Some (the (ch_data d (acc_data_hash r)))"
    if "r \<in> set rows" "acc_data r = []" "length (acc_data_hash r) = 32" for r
  proof (rule kv_rows_lookup)
    show "acc_data_hash r \<in> set (ord (missing_data rows))" using that by (auto simp: mem missing_data_def)
    show "ch_data d (acc_data_hash r) = Some (the (ch_data d (acc_data_hash r)))"
      using assms(3)[OF that(1)] that(2,3) by (auto simp: code_stored_def)
  qed
  have "getCodeData ord False False rows d = (fill_rows False False ?C ?D rows, d)"
    unfolding getCodeData_def by (simp only: read_batches_ok[OF assms(1)] prod.case res.case concat_hash_batches if_False)
  also have "fill_rows False False ?C ?D rows = Ok (map (filled d) rows)"
    unfolding filled_def by (rule fill_rows_ok) (rule C D; assumption)+
  finally show ?thesis .
qed

text \<open>
  C6. Account states that \<open>AddAccountStates\<close> has stored lose nothing: when the statements of
  \<open>getCodeData\<close> succeed, the rows it is given back have the code and the data of the accounts
  that were stored, whatever the order in which the hashes are read and however many batches of
  1000 hashes that takes (the rows themselves hold neither).
\<close>

theorem stored_states_restored:
  assumes "addAccountStates ord accounts d = (None, accounts', d')"
    and "content_hashed accounts" and "range_order ord'" and "db_faults d' = []"
  shows "getCodeData ord' False False (map account_row accounts') d'
    = (Ok (map (account_row \<circ> sort_executions) accounts), d') \<and>
    (\<forall>r \<in> set (map account_row accounts'). acc_code r = [] \<and> acc_data r = [])"
proof -
  let ?rows = "map account_row accounts'"
  have rows: "?rows = map (\<lambda>a. account_row (clear_code_data (sort_executions a))) accounts"
    using addAccountStates_cleared[OF assms(1)] by simp
  note ok = addAccountStates_Ok[OF assms(1)]
  have code: "ch_code d' (acc_code_hash a) = Some (acc_code a)" if "a \<in> set accounts" for a
    unfolding ok(1) using that
  proof (rule upsert_all_in)
    show "acc_code y = acc_code a" if "y \<in> set accounts" "acc_code_hash y = acc_code_hash a" for y
      using assms(2) that \<open>a \<in> set accounts\<close> unfolding content_hashed_def by blast
  qed
  have data: "ch_data d' (acc_data_hash a) = Some (acc_data a)" if "a \<in> set accounts" for a
    unfolding ok(2) using that
  proof (rule upsert_all_in)
    show "acc_data y = acc_data a" if "y \<in> set accounts" "acc_data_hash y = acc_data_hash a" for y
      using assms(2) that \<open>a \<in> set accounts\<close> unfolding content_hashed_def by blast
  qed
  have "code_stored d' r" if "r \<in> set ?rows" for r
    using that code data unfolding rows by (auto simp: code_stored_def account_row_def clear_code_data_def)
  then have "getCodeData ord' False False ?rows d' = (Ok (map (filled d') ?rows), d')"
    by (rule getCodeData_ok[OF assms(4,3)])
  also have "\<dots> = (Ok (map (account_row \<circ> sort_executions) accounts), d')"
    unfolding rows map_map prod.inject res.inject
  proof (intro conjI refl map_cong)
    fix a assume a: "a \<in> set accounts"
    then have "length (acc_code_hash a) \<noteq> 32 \<longrightarrow> acc_code a = []" "length (acc_data_hash a) \<noteq> 32 \<longrightarrow> acc_data a = []"
      using assms(2) unfolding content_hashed_def by blast+
    then show "(filled d' \<circ> (\<lambda>a. account_row (clear_code_data (sort_executions a)))) a = (account_row \<circ> sort_executions) a"
      using code[OF a] data[OF a]
      by (intro account_state.equality) (simp_all add: account_row_def clear_code_data_def filled_def)
  qed
  finally show ?thesis unfolding rows by (auto simp: account_row_def clear_code_data_def)
qed

definition ex_state :: account_state where
  "ex_state = account_zero\<lparr>acc_last_tx_lt := 7, acc_code_hash := replicate 32 1, acc_code := [3, 4],
     acc_data_hash := replicate 32 2, acc_data := [5]\<rparr>"

lemmas store_eval = addAccountStates_def insert_states_def then_exec_def wrap_exec_def exec_def
  db_empty_def range_map_def upsert_latest_def sort_executions_def clear_code_data_def Let_def

lemma ex_state_sel [simp]:
  "acc_last_tx_lt ex_state = 7" "acc_executed ex_state = None" "acc_code_hash ex_state = replicate 32 1"
  "acc_code ex_state = [3, 4]" "acc_data_hash ex_state = replicate 32 2" "acc_data ex_state = [5]"
  by (simp_all add: ex_state_def account_zero_def)

lemma ex_add_ok:
  "fst (addAccountStates rev [ex_state] db_empty) = None"
  "db_faults (snd (snd (addAccountStates rev [ex_state] db_empty))) = []"
  by (simp_all add: store_eval)

theorem stored_states_restored_witness:
  "getCodeData rev False False (map account_row (fst (snd (addAccountStates rev [ex_state] db_empty))))
     (snd (snd (addAccountStates rev [ex_state] db_empty)))
   = (Ok [account_row (sort_executions ex_state)], snd (snd (addAccountStates rev [ex_state] db_empty)))"
proof -
  let ?r = "addAccountStates rev [ex_state] db_empty"
  have "?r = (None, fst (snd ?r), snd (snd ?r))" by (intro prod_eqI) (simp_all add: ex_add_ok)
  from stored_states_restored[OF this _ range_order_rev ex_add_ok(2)] show ?thesis
    by (simp add: content_hashed_def)
qed

text \<open>
  A retried insert destroys code and data. \<open>AddAccountStates\<close> empties the accounts of its
  caller before the statements that can still fail; when the caller then passes the same accounts
  again, as the indexer does after any error, a successful call leaves an empty code and an empty
  data under every hash of the batch.
\<close>

theorem retried_states_lose_code:
  assumes "addAccountStates ord accounts d = (Some e, accounts', d1)"
    and "addAccountStates ord accounts' d2 = (None, accounts'', d3)"
    and "a \<in> set accounts"
  shows "ch_code d3 (acc_code_hash a) = Some [] \<and> ch_data d3 (acc_data_hash a) = Some []"
proof -
  let ?b = "clear_code_data (sort_executions a)"
  note ok = addAccountStates_Ok[OF assms(2), unfolded addAccountStates_cleared[OF assms(1)]]
  have b: "?b \<in> set (stored_accounts accounts)" using assms(3) by auto
  have "upsert_all acc_code_hash acc_code (stored_accounts accounts) (ch_code d2) (acc_code_hash ?b) = Some (acc_code ?b)"
    using b by (rule upsert_all_in) (auto simp: clear_code_data_def)
  moreover have "upsert_all acc_data_hash acc_data (stored_accounts accounts) (ch_data d2) (acc_data_hash ?b) = Some (acc_data ?b)"
    using b by (rule upsert_all_in) (auto simp: clear_code_data_def)
  ultimately show ?thesis unfolding ok by (simp add: clear_code_data_def)
qed

definition ex_db_failing :: db where
  "ex_db_failing = db_empty\<lparr>db_faults := [None, None, Some (ErrText ''timeout'')]\<rparr>"

lemma ex_retry:
  "fst (addAccountStates rev [ex_state] ex_db_failing) =
     Some (Wrap (ErrText ''timeout'') ''cannot insert new account states'')"
  "fst (snd (addAccountStates rev [ex_state] ex_db_failing)) = [clear_code_data ex_state]"
  "fst (addAccountStates rev [clear_code_data ex_state] db_empty) = None"
  by (simp_all add: store_eval ex_db_failing_def)

theorem retried_states_lose_code_witness:
  "fst (addAccountStates rev [ex_state] ex_db_failing) \<noteq> None \<and>
   ch_code (snd (snd (addAccountStates rev (fst (snd (addAccountStates rev [ex_state] ex_db_failing))) db_empty)))
     (acc_code_hash ex_state) = Some []"
proof -
  let ?r = "addAccountStates rev [ex_state] ex_db_failing"
  let ?q = "addAccountStates rev [clear_code_data ex_state] db_empty"
  have r: "?r = (Some (Wrap (ErrText ''timeout'') ''cannot insert new account states''),
      [clear_code_data ex_state], snd (snd ?r))" by (intro prod_eqI) (simp_all add: ex_retry)
  have q: "?q = (None, fst (snd ?q), snd (snd ?q))" by (intro prod_eqI) (simp_all add: ex_retry)
  from retried_states_lose_code[OF r q, of ex_state] show ?thesis by (simp add: ex_retry)
qed

text \<open>
  \<open>AddTransactions\<close> hides a failure of PostgreSQL: when the insert of the batch fails with
  anything but the error about a repeated key, and the statement after it succeeds, the call
  reports success, the transactions are in ClickHouse, and the table of PostgreSQL is as it was.
\<close>

theorem addTransactions_hides_failure:
  assumes "db_faults d = Some e # None # fs" and "ts \<noteq> []" and "distinct (map tx_hash ts)"
    and "err_text e \<noteq> err_text pg_dup_error"
  shows "addTransactions ts d =
    (None, d\<lparr>ch_transactions := ch_transactions d @ map transaction_row ts, db_faults := fs\<rparr>)"
  using assms by (simp add: addTransactions_def exec_def pg_dup_error_def)

definition transaction_zero :: transaction where
  "transaction_zero = \<lparr>tx_address = replicate 33 0, tx_hash = [], tx_created_lt = 0, tx_account = None,
     tx_workchain = 0, tx_shard = 0, tx_block_seqno = 0, tx_prev_hash = [], tx_prev_lt = 0,
     tx_in_msg_hash = [], tx_in_msg = None, tx_in_amount = None, tx_out_msg = [], tx_out_msg_count = 0,
     tx_out_amount = 0, tx_total_fees = 0, tx_description = [], tx_compute_exit = 0, tx_action_result = 0,
     tx_orig_status = StatusOther [], tx_end_status = StatusOther [], tx_created_at = time_zero\<rparr>"

theorem addTransactions_hides_failure_witness:
  "addTransactions [transaction_zero\<lparr>tx_hash := [1]\<rparr>]
     (db_empty\<lparr>db_faults := [Some (ErrText ''connection reset''), None]\<rparr>) =
   (None, db_empty\<lparr>ch_transactions := [transaction_row (transaction_zero\<lparr>tx_hash := [1]\<rparr>)]\<rparr>)"
  using addTransactions_hides_failure[of "db_empty\<lparr>db_faults := [Some (ErrText ''connection reset''), None]\<rparr>"
      "ErrText ''connection reset''" "[]" "[transaction_zero\<lparr>tx_hash := [1]\<rparr>]"]
  by (simp add: pg_dup_error_def db_empty_def)

text \<open>The table of latest states.\<close>

definition max_lt :: "u64 list \<Rightarrow> u64 option \<Rightarrow> u64 option" where
  "max_lt lts old = (if lts = [] then old else Some (fold max lts (case old of None \<Rightarrow> 0 | Some l \<Rightarrow> l)))"

definition new_lts :: "addr \<Rightarrow> account_state list \<Rightarrow> u64 list" where
  "new_lts x as = map acc_last_tx_lt (filter (\<lambda>a. acc_address a = x \<and> 0 < acc_last_tx_lt a) as)"

lemma latest_lts_lookup: "map_of (latest_lts as m) x = max_lt (new_lts x as) (map_of m x)"
proof (induction as arbitrary: m)
  case (Cons a as)
  let ?old = "case map_of m (acc_address a) of Some lt \<Rightarrow> lt | None \<Rightarrow> 0"
  have step: "latest_lts (a # as) m =
      latest_lts as (if ?old < acc_last_tx_lt a then AList.update (acc_address a) (acc_last_tx_lt a) m else m)"
    by simp
  show ?case
    unfolding step Cons.IH
    by (auto simp: max_lt_def new_lts_def update_conv' max_def not_less split: option.splits)
qed (simp add: max_lt_def new_lts_def)

lemma latest_lts_distinct: "distinct (map fst m) \<Longrightarrow> distinct (map fst (latest_lts as m))"
  by (induction as arbitrary: m) (auto simp: Let_def distinct_update)

lemma upsert_latest_lookup:
  "pg_latest (upsert_latest p d) x = (if x = fst p then max_lt [snd p] (pg_latest d x) else pg_latest d x)"
  by (auto simp: upsert_latest_def max_lt_def max_def not_less split: option.split)

lemma set_latest_lookup:
  "set_latest ps d = (None, d') \<Longrightarrow> distinct (map fst ps) \<Longrightarrow>
   pg_latest d' x = (case map_of ps x of None \<Rightarrow> pg_latest d x | Some lt \<Rightarrow> max_lt [lt] (pg_latest d x))"
proof (induction ps arbitrary: d)
  case (Cons p ps)
  obtain d1 where d1: "exec (upsert_latest p) d = (None, d1)" "set_latest ps d1 = (None, d')"
    using Cons.prems(1) by (auto elim!: then_exec_None)
  obtain fs where "d1 = upsert_latest p (d\<lparr>db_faults := fs\<rparr>)" using exec_None[OF d1(1)] by blast
  then have "pg_latest d1 y = (if y = fst p then max_lt [snd p] (pg_latest d y) else pg_latest d y)" for y
    by (simp add: upsert_latest_lookup)
  moreover have "map_of ps (fst p) = None" using Cons.prems(2) by (simp add: map_of_eq_None_iff)
  ultimately show ?case using Cons.IH[OF d1(2)] Cons.prems(2) by (cases p) (auto split: option.split)
qed simp

lemma fold_max_word: "fold max (lts :: u64 list) l = max l (fold max lts 0)"
proof (induction lts arbitrary: l)
  case (Cons x xs)
  show ?case by (simp only: fold_simps comp_def Cons.IH[of "max x l"] Cons.IH[of "max x 0"]) (auto simp: max_def)
qed (simp add: max_def)

lemma fold_max_word': "fold max (lts :: u64 list) l = max (fold max lts 0) l"
  using fold_max_word[of lts l] by (simp add: max.commute)

lemma insert_states_latest:
  assumes "insert_states ord codeKV dataKV accounts d = (None, d')" and "range_order ord"
  shows "pg_latest d' x = max_lt (new_lts x accounts) (pg_latest d x)"
proof -
  let ?L = "latest_lts accounts []"
  obtain d1 d2 d3 d4 where st:
    "exec (\<lambda>d. d\<lparr>ch_code := upsert_all fst snd codeKV (ch_code d)\<rparr>) d = (None, d1)"
    "exec (\<lambda>d. d\<lparr>ch_data := upsert_all fst snd dataKV (ch_data d)\<rparr>) d1 = (None, d2)"
    "(if distinct (map account_key accounts)
      then exec (\<lambda>d. d\<lparr>pg_accounts := upsert_accounts accounts (pg_accounts d)\<rparr>) d2
      else (Some pg_dup_error, d2)) = (None, d3)"
    "set_latest (range_map ord ?L) d3 = (None, d4)"
    "exec (\<lambda>d. d\<lparr>ch_accounts := ch_accounts d @ map account_row accounts\<rparr>) d4 = (None, d')"
    using assms(1) unfolding insert_states_def by (elim then_exec_None) (simp only: wrap_exec_None)
  then have st3: "exec (\<lambda>d. d\<lparr>pg_accounts := upsert_accounts accounts (pg_accounts d)\<rparr>) d2 = (None, d3)"
    by (simp split: if_splits)
  have dist: "distinct (map fst ?L)" by (simp add: latest_lts_distinct)
  then have perm: "mset (range_map ord ?L) = mset ?L" using assms(2) by (intro mset_range_map)
  then have distr: "distinct (map fst (range_map ord ?L))"
    using dist by (metis mset_eq_imp_distinct_iff mset_map)
  have "map_of (range_map ord ?L) = map_of ?L"
    using dist distr mset_eq_setD[OF perm] by (simp add: map_of_inject_set)
  moreover have "pg_latest d3 = pg_latest d" "pg_latest d' = pg_latest d4"
    using exec_Ok_keeps[OF st(1), of pg_latest] exec_Ok_keeps[OF st(2), of pg_latest]
      exec_Ok_keeps[OF st3, of pg_latest] exec_Ok_keeps[OF st(5), of pg_latest] by simp_all
  ultimately show ?thesis
    using set_latest_lookup[OF st(4) distr, of x]
    by (cases "pg_latest d x")
      (auto simp: latest_lts_lookup max_lt_def fold_max_word'[symmetric] fold_max_word[symmetric] split: if_splits)
qed

lemma latest_is_max_eq:
  assumes "addAccountStates ord accounts d = (None, accounts', d')" and "range_order ord"
  shows "pg_latest d' x = max_lt (new_lts x accounts) (pg_latest d x)"
proof (cases "accounts = []")
  case True
  with assms(1) show ?thesis by (simp add: addAccountStates_def max_lt_def new_lts_def)
next
  case False
  then have "\<exists>kc kd. insert_states ord kc kd (map clear_code_data (map sort_executions accounts)) d = (None, d')"
    using assms(1) by (force simp: addAccountStates_def Let_def split: prod.splits)
  moreover have "new_lts x (map clear_code_data (map sort_executions accounts)) = new_lts x accounts"
    by (simp add: new_lts_def filter_map comp_def clear_code_data_def sort_executions_def)
  ultimately show ?thesis using insert_states_latest[OF _ assms(2)] by metis
qed

text \<open>
  C7. The table of latest states holds the greatest transaction time of every address: after a
  successful \<open>AddAccountStates\<close> the entry of an address is the maximum of the old entry and of
  the times of its states in the batch (a state without a transaction counts for nothing), and
  the other entries are unchanged, in whatever order the addresses are visited.
\<close>

theorem latest_is_max:
  assumes "addAccountStates ord accounts d = (None, accounts', d')" and "range_order ord"
  shows "pg_latest d' x = max_lt (new_lts x accounts) (pg_latest d x)"
  using assms by (rule latest_is_max_eq)

theorem latest_is_max_witness:
  "pg_latest (snd (snd (addAccountStates rev [ex_state] db_empty))) (replicate 33 0) = Some 7"
proof -
  let ?r = "addAccountStates rev [ex_state] db_empty"
  have "?r = (None, fst (snd ?r), snd (snd ?r))" by (intro prod_eqI) (simp_all add: ex_add_ok)
  from latest_is_max[OF this range_order_rev, of "replicate 33 0"] show ?thesis
    by (simp add: max_lt_def new_lts_def ex_state_def account_zero_def db_empty_def)
qed

end
