(* ===== verification/History.thy ===== *)
theory History
  imports Store
begin

section \<open>internal/core/repository/account: the history of an account\<close>

text \<open>
  \<open>GetAllAccountInterfaces\<close> and \<open>GetAllAccountStates\<close>: the query over the states of an
  address in ClickHouse, the loops over its rows, and the page of transaction times. The
  window function \<open>leadInFrame\<close> gives the value of the next row, and the default of the
  column's type in the last one.
\<close>

fun lead_rows :: "'a \<Rightarrow> 'a list \<Rightarrow> ('a \<times> 'a) list" where
  "lead_rows dflt [] = []"
| "lead_rows dflt (x # xs) = (x, case xs of [] \<Rightarrow> dflt | y # ys \<Rightarrow> y) # lead_rows dflt xs"

definition min_rows :: "(u64 \<times> 'v) list \<Rightarrow> (u64 \<times> 'v) list" where
  "min_rows rows = filter (\<lambda>r. \<forall>s \<in> set rows. fst r \<le> fst s) rows"

text \<open>
  The rows of the first state, and one row for every change to the next state and for the last
  state, in the order of their times.
\<close>

definition changes :: "('v \<Rightarrow> 'v \<Rightarrow> bool) \<Rightarrow> 'v \<Rightarrow> (u64 \<times> 'v) list \<Rightarrow> (u64 \<times> 'v) list" where
  "changes differ dflt rows = sort_key fst (min_rows rows @
     map (\<lambda>(r, n). if fst n = 0 then r else n)
       (filter (\<lambda>(r, n). differ (snd r) (snd n) \<or> fst n = 0) (lead_rows (0, dflt) rows)))"

fun skip_repeated :: "'v option \<Rightarrow> (u64 \<times> 'v) list \<Rightarrow> (u64 \<times> 'v) list" where
  "skip_repeated prev [] = []"
| "skip_repeated prev ((lt, v) # rows) =
     (if prev = Some v then skip_repeated prev rows else (lt, v) # skip_repeated (Some v) rows)"

definition types_rows :: "addr \<Rightarrow> db \<Rightarrow> (u64 \<times> contract_name list) list" where
  "types_rows a d = map (\<lambda>s. (acc_last_tx_lt s, acc_types s))
     (sort_key acc_last_tx_lt (filter (\<lambda>s. acc_address s = a) (ch_accounts d)))"

text \<open>The condition of the query has the same \<open>hasAll(types, next_types)\<close> twice.\<close>

definition types_differ :: "contract_name list \<Rightarrow> contract_name list \<Rightarrow> bool" where
  "types_differ ts ns \<longleftrightarrow> \<not> (set ns \<subseteq> set ts \<and> set ns \<subseteq> set ts) \<or> (ts = [] \<and> ns \<noteq> []) \<or> (ts \<noteq> [] \<and> ns = [])"

definition getAllAccountInterfaces :: "addr \<Rightarrow> db \<Rightarrow> (u64 \<rightharpoonup> contract_name list) res \<times> db" where
  "getAllAccountInterfaces a d =
     (case query (\<lambda>d. changes types_differ [] (types_rows a d)) d of
        (Ok ret, d) \<Rightarrow> (Ok (upsert_all fst snd (skip_repeated None ret) Map.empty), d)
      | (Err e, d) \<Rightarrow> (Err e, d)
      | (Panic p, d) \<Rightarrow> (Panic p, d))"

definition state_rows :: "addr \<Rightarrow> db \<Rightarrow> (u64 \<times> bytes \<times> bytes) list" where
  "state_rows a d = map (\<lambda>s. (acc_last_tx_lt s, acc_code_hash s, acc_data_hash s))
     (sort_key acc_last_tx_lt (filter (\<lambda>s. acc_address s = a \<and> acc_code_hash s \<noteq> [] \<and> acc_data_hash s \<noteq> []) (ch_accounts d)))"

definition state_lts :: "(u64 \<times> bytes \<times> bytes) list \<Rightarrow> u64 list" where
  "state_lts ret = map fst (skip_repeated None ret)"

text \<open>
  The page: the loop looks for the first time that is not before \<open>beforeTxLT\<close> and cuts at the
  index after it. \<open>limit\<close> is not negative, the caller passes a constant.
\<close>

fun page_end :: "u64 \<Rightarrow> nat \<Rightarrow> bool \<Rightarrow> u64 list \<Rightarrow> bool \<times> nat option" where
  "page_end before i found [] = (found, None)"
| "page_end before i found (lt # lts) =
     (if \<not> found then page_end before (i + 1) (before \<le> lt) lts else (found, Some i))"

definition page_lts :: "u64 \<Rightarrow> nat \<Rightarrow> u64 list \<Rightarrow> u64 list" where
  "page_lts before limit lts =
     (if limit < length lts
      then (case page_end before 0 False lts of
              (_, Some i) \<Rightarrow> if limit < i then take limit (drop (i - limit) lts) else take limit lts
            | (True, None) \<Rightarrow> lts
            | (False, None) \<Rightarrow> drop (length lts - limit) lts)
      else lts)"

definition getAllAccountStates :: "bytes key_order \<Rightarrow> addr \<Rightarrow> u64 \<Rightarrow> nat \<Rightarrow> db \<Rightarrow> account_state list res \<times> db" where
  "getAllAccountStates ord a beforeTxLT limit d =
     (case query (\<lambda>d. changes (\<noteq>) ([], []) (state_rows a d)) d of
        (Ok [], d) \<Rightarrow> (Err (Wrap ErrNotFound ''no account states for address''), d)
      | (Ok ret, d) \<Rightarrow>
          (let lts = page_lts beforeTxLT limit (state_lts ret)
           in case query (\<lambda>d. sort_key acc_last_tx_lt (filter (\<lambda>s. acc_address s = a \<and> acc_last_tx_lt s \<in> set lts)
                     (map snd (pg_accounts d)))) d of
                (Ok states, d) \<Rightarrow>
                  (case getCodeData ord False False states d of (r, d) \<Rightarrow> (rwrap ''get code and data'' r, d))
              | (Err e, d) \<Rightarrow> (Err (Wrap e ''select states by lts''), d)
              | (Panic p, d) \<Rightarrow> (Panic p, d))
      | (Err e, d) \<Rightarrow> (Err e, d)
      | (Panic p, d) \<Rightarrow> (Panic p, d))"

subsection \<open>The reference: a row counts when its value differs from the one before\<close>

fun change_points :: "'v option \<Rightarrow> (u64 \<times> 'v) list \<Rightarrow> (u64 \<times> 'v) list" where
  "change_points prev [] = []"
| "change_points prev ((lt, v) # rows) =
     (if prev = Some v then change_points (Some v) rows else (lt, v) # change_points (Some v) rows)"

fun change_rows :: "('v \<Rightarrow> 'v \<Rightarrow> bool) \<Rightarrow> (u64 \<times> 'v) list \<Rightarrow> (u64 \<times> 'v) list" where
  "change_rows differ [] = []"
| "change_rows differ [x] = [x]"
| "change_rows differ (x # y # zs) =
     (if fst y = 0 then [x] else if differ (snd x) (snd y) then [y] else []) @ change_rows differ (y # zs)"

lemma change_rows_eq:
  "map (\<lambda>(r, n). if fst n = 0 then r else n)
     (filter (\<lambda>(r, n). differ (snd r) (snd n) \<or> fst n = 0) (lead_rows (0, dflt) rows)) = change_rows differ rows"
  by (induction differ rows rule: change_rows.induct) auto

lemma change_rows_ge: "sorted (map fst (x # xs)) \<Longrightarrow> \<forall>r \<in> set (change_rows differ (x # xs)). fst x \<le> fst r"
proof (induction xs arbitrary: x)
  case (Cons y ys)
  then have "\<forall>r \<in> set (change_rows differ (y # ys)). fst y \<le> fst r" and "fst x \<le> fst y" by simp_all
  then show ?case by (auto split: if_splits intro: order_trans)
qed simp

lemma change_rows_sorted: "sorted (map fst rows) \<Longrightarrow> sorted (map fst (change_rows differ rows))"
proof (induction differ rows rule: change_rows.induct)
  case (3 differ x y zs)
  then have "\<forall>r \<in> set (change_rows differ (y # zs)). fst y \<le> fst r" by (intro change_rows_ge) simp
  with 3 show ?case by (auto intro: order_trans)
qed simp_all

lemma min_rows_strict: "sorted_wrt (<) (map fst (x # xs)) \<Longrightarrow> min_rows (x # xs) = [x]"
  by (auto simp: min_rows_def filter_empty_conv less_le_not_le)

lemma changes_strict:
  assumes "sorted_wrt (<) (map fst (x # xs))"
  shows "changes differ dflt (x # xs) = x # change_rows differ (x # xs)"
proof -
  have "sorted (map fst (x # xs))" using assms by (rule strict_sorted_imp_sorted)
  then have "sorted (map fst (x # change_rows differ (x # xs)))"
    using change_rows_ge[of x xs differ] change_rows_sorted[of "x # xs" differ] by simp
  then show ?thesis
    unfolding changes_def min_rows_strict[OF assms] change_rows_eq append_Cons append_Nil by (rule sort_key_id_if_sorted)
qed

lemma skip_repeated_changes:
  "0 \<notin> fst ` set xs \<Longrightarrow>
   skip_repeated (Some (snd x)) (change_rows (\<noteq>) (x # xs)) = change_points (Some (snd x)) xs"
proof (induction xs arbitrary: x)
  case Nil
  then show ?case by (cases x) simp
next
  case (Cons y ys)
  then show ?case by (cases x; cases y) auto
qed

lemma page_end_found: "page_end before i True lts = (True, if lts = [] then None else Some i)"
  by (cases lts) auto

lemma page_end_eq:
  "page_end before i False lts =
     (let k = length (takeWhile (\<lambda>lt. lt < before) lts)
      in if k = length lts then (False, None) else (True, if k + 1 = length lts then None else Some (i + k + 1)))"
proof (induction lts arbitrary: i)
  case (Cons lt lts)
  have "(before \<le> lt) = (\<not> lt < before)" by auto
  with Cons.IH[of "i + 1"] show ?case by (auto simp: page_end_found Let_def)
qed simp

lemma page_lts_eq:
  assumes "limit < length lts" and "k = length (takeWhile (\<lambda>lt. lt < before) lts)"
  shows "page_lts before limit lts =
    (if k = length lts then drop (length lts - limit) lts
     else if k + 1 = length lts then lts
     else take limit (drop (k + 1 - limit) lts))"
  using assms by (auto simp: page_lts_def page_end_eq Let_def)

text \<open>
  C8. \<open>GetAllAccountStates\<close> when no statement fails and the transaction times of the address'
  states are different and not 0: the query and the loop together find exactly the states whose
  code or data differs from the state before, and the result is the rows of the page of these
  times, with code and data. The page is all times when there are at most \<open>limit\<close>; else the
  \<open>limit\<close> times up to the first one not before \<open>beforeTxLT\<close>, or the last \<open>limit\<close> times when
  all are before it. When that first one is the very last time, the limit is not applied.
\<close>

theorem account_states_history:
  assumes "db_faults d = []" and "state_rows a d \<noteq> []"
    and "sorted_wrt (<) (map fst (state_rows a d))" and "0 \<notin> fst ` set (state_rows a d)"
    and "lts = map fst (change_points None (state_rows a d))"
    and "k = length (takeWhile (\<lambda>lt. lt < before) lts)"
    and "page = (if length lts \<le> limit \<or> k + 1 = length lts then lts
      else if k = length lts then drop (length lts - limit) lts
      else take limit (drop (k + 1 - limit) lts))"
  shows "getAllAccountStates ord a before limit d =
    (rwrap ''get code and data'' (fst (getCodeData ord False False
       (sort_key acc_last_tx_lt (filter (\<lambda>s. acc_address s = a \<and> acc_last_tx_lt s \<in> set page)
          (map snd (pg_accounts d)))) d)),
     snd (getCodeData ord False False
       (sort_key acc_last_tx_lt (filter (\<lambda>s. acc_address s = a \<and> acc_last_tx_lt s \<in> set page)
          (map snd (pg_accounts d)))) d))"
proof -
  obtain x xs where rows: "state_rows a d = x # xs" using assms(2) by (meson neq_Nil_conv)
  let ?ret = "changes (\<noteq>) ([], []) (state_rows a d)"
  have ret: "?ret = x # change_rows (\<noteq>) (x # xs)"
    using assms(3) unfolding rows by (rule changes_strict)
  have "state_lts ?ret = lts"
    using skip_repeated_changes[of xs x] assms(4) unfolding state_lts_def assms(5) rows ret[unfolded rows] by (cases x) simp
  moreover have "page_lts before limit lts = page"
    using page_lts_eq[of limit lts k before] assms(6) unfolding assms(7) by (auto simp: page_lts_def)
  moreover obtain y ys where "?ret = y # ys" using ret by simp
  ultimately show ?thesis
    using assms(1) by (simp add: getAllAccountStates_def query_def Let_def split: prod.split)
qed

definition ex_history_db :: db where
  "ex_history_db = db_empty\<lparr>
     ch_accounts := map (\<lambda>(lt, c). ex_state\<lparr>acc_last_tx_lt := lt, acc_code_hash := [c]\<rparr>) [(9, 2), (5, 1), (7, 1), (8, 2)]\<rparr>"

theorem account_states_history_witness:
  "getAllAccountStates rev (replicate 33 0) 6 1 ex_history_db = (Ok [], ex_history_db) \<and>
   page_lts 6 1 [5, 8] = [5, 8]"
proof -
  have rows: "state_rows (replicate 33 0) ex_history_db =
      [(5, [1], replicate 32 2), (7, [1], replicate 32 2), (8, [2], replicate 32 2), (9, [2], replicate 32 2)]"
    by (simp add: state_rows_def ex_history_db_def ex_state_def account_zero_def db_empty_def)
  have "getAllAccountStates rev (replicate 33 0) 6 1 ex_history_db =
    (rwrap ''get code and data'' (fst (getCodeData rev False False [] ex_history_db)),
     snd (getCodeData rev False False [] ex_history_db))"
    using account_states_history[of ex_history_db "replicate 33 0" "[5, 8]" 1 6 "[5, 8]" 1 rev]
    unfolding rows by (simp add: ex_history_db_def db_empty_def)
  then show ?thesis
    by (simp add: getCodeData_def missing_code_def missing_data_def hash_batches_def query_def kv_rows_def
        ex_history_db_def db_empty_def page_lts_def)
qed

text \<open>
  A removed interface is dated wrong. \<open>GetAllAccountInterfaces\<close> is meant to see downgrades,
  but its condition asks only for types that are added: when the second state of an account
  loses some of its types (not all) and the third state has the same, the result has the loss at
  the third time, and no entry at the second.
\<close>

theorem interface_removal_misdated:
  assumes "db_faults d = []" and "types_rows a d = [(t1, A), (t2, B), (t3, B)]"
    and "0 < t1" and "t1 < t2" and "t2 < t3" and "set B \<subseteq> set A" and "B \<noteq> []" and "A \<noteq> B"
  shows "getAllAccountInterfaces a d = (Ok [t1 \<mapsto> A, t3 \<mapsto> B], d)"
proof -
  have "t2 \<noteq> 0" "t3 \<noteq> 0" using assms(3-5) by (auto simp: word_gt_0 dest: less_trans)
  moreover have "A \<noteq> []" using assms(6,7) by auto
  moreover have "sorted_wrt (<) (map fst [(t1, A), (t2, B), (t3, B)])" using assms(4,5) less_trans by auto
  ultimately have "changes types_differ [] [(t1, A), (t2, B), (t3, B)] = [(t1, A), (t3, B)]"
    using assms(6,7) by (subst changes_strict) (simp_all add: types_differ_def)
  then show ?thesis using assms(1,2,8) by (simp add: getAllAccountInterfaces_def query_def)
qed

definition ex_downgrade_db :: db where
  "ex_downgrade_db = db_empty\<lparr>
     ch_accounts := map (\<lambda>(lt, ts). ex_state\<lparr>acc_last_tx_lt := lt, acc_types := ts\<rparr>)
       [(5, [''wallet'', ''nft_item'']), (6, [''wallet'']), (9, [''wallet''])]\<rparr>"

theorem interface_removal_misdated_witness:
  "getAllAccountInterfaces (replicate 33 0) ex_downgrade_db
     = (Ok [5 \<mapsto> [''wallet'', ''nft_item''], 9 \<mapsto> [''wallet'']], ex_downgrade_db)"
  by (rule interface_removal_misdated[where ?t2.0 = 6])
    (simp_all add: types_rows_def ex_downgrade_db_def ex_state_def account_zero_def db_empty_def)

end
