(* ===== verification/ContractRepo.thy ===== *)
theory ContractRepo
  imports Store Caches
begin

section \<open>internal/core/repository: contract and rescan\<close>

text \<open>
  The tables of definitions, interfaces, operations and rescan tasks. An insert or update that
  breaks a primary key or unique constraint fails with the error of PostgreSQL. The empty list
  stands for a NULL array. The transaction of a rescan task is one statement of its table at the
  commit; its row lock is not modelled.
\<close>

definition duplicate_key :: string where
  "duplicate_key = ''duplicate key value violates unique constraint''"

definition pg_unique_error :: goerr where
  "pg_unique_error = ErrExt (''ERROR: '' @ duplicate_key)"

definition exec_unless :: "(db \<Rightarrow> bool) \<Rightarrow> (db \<Rightarrow> db) \<Rightarrow> db \<Rightarrow> goerr option \<times> db" where
  "exec_unless conflict f d = (if conflict d then (Some pg_unique_error, d) else exec f d)"

text \<open>The errors of an insert, and the check of the rows affected by an update or a delete.\<close>

definition already_exists :: "goerr option \<times> db \<Rightarrow> goerr option \<times> db" where
  "already_exists r =
     (case fst r of
        Some e \<Rightarrow> (if str_contains (err_text e) duplicate_key then Some ErrAlreadyExists else Some e, snd r)
      | None \<Rightarrow> r)"

definition affected :: "goerr \<Rightarrow> (db \<Rightarrow> bool) \<Rightarrow> db \<Rightarrow> goerr option \<times> db \<Rightarrow> goerr option \<times> db" where
  "affected none rows d r = (case fst r of Some e \<Rightarrow> r | None \<Rightarrow> (if rows d then None else Some none, snd r))"

subsection \<open>Definitions\<close>

definition addDefinition :: "tlb_type \<Rightarrow> tlb_fields \<Rightarrow> db \<Rightarrow> goerr option \<times> db" where
  "addDefinition dn schema d = already_exists
     (exec_unless (\<lambda>d. map_of (pg_definitions d) dn \<noteq> None)
        (\<lambda>d. d\<lparr>pg_definitions := pg_definitions d @ [(dn, schema)]\<rparr>) d)"

definition updateDefinition :: "tlb_type \<Rightarrow> tlb_fields \<Rightarrow> db \<Rightarrow> goerr option \<times> db" where
  "updateDefinition dn schema d = affected ErrNotFound (\<lambda>d. map_of (pg_definitions d) dn \<noteq> None) d
     (exec (\<lambda>d. d\<lparr>pg_definitions := map (\<lambda>(n, f). (n, if n = dn then schema else f)) (pg_definitions d)\<rparr>) d)"

definition deleteDefinition :: "tlb_type \<Rightarrow> db \<Rightarrow> goerr option \<times> db" where
  "deleteDefinition dn d = affected ErrNotFound (\<lambda>d. map_of (pg_definitions d) dn \<noteq> None) d
     (exec (\<lambda>d. d\<lparr>pg_definitions := filter (\<lambda>p. fst p \<noteq> dn) (pg_definitions d)\<rparr>) d)"

definition getDefinitions :: "db \<Rightarrow> (tlb_type \<rightharpoonup> tlb_fields) res \<times> db" where
  "getDefinitions d = query (\<lambda>d. upsert_all fst snd (pg_definitions d) Map.empty) d"

subsection \<open>Interfaces\<close>

definition interface_row :: "contract_interface \<Rightarrow> contract_interface" where
  "interface_row i = i\<lparr>ci_operations := []\<rparr>"

definition interface_clash :: "contract_interface \<Rightarrow> contract_interface \<Rightarrow> bool" where
  "interface_clash i r \<longleftrightarrow>
     (ci_addresses i \<noteq> [] \<and> ci_addresses r = ci_addresses i) \<or>
     (ci_code i \<noteq> [] \<and> ci_code r = ci_code i) \<or>
     (ci_addresses i = [] \<and> ci_code i = [] \<and> ci_addresses r = [] \<and> ci_code r = [] \<and>
      ci_get_method_hashes i \<noteq> [] \<and> ci_get_method_hashes r = ci_get_method_hashes i)"

definition addInterface :: "contract_interface \<Rightarrow> db \<Rightarrow> goerr option \<times> db" where
  "addInterface i d = already_exists
     (exec_unless (\<lambda>d. \<exists>r \<in> set (pg_interfaces d). ci_name r = ci_name i \<or> interface_clash i r)
        (\<lambda>d. d\<lparr>pg_interfaces := pg_interfaces d @ [interface_row i]\<rparr>) d)"

text \<open>No check of the rows affected: an unknown name is no error.\<close>

definition updateInterface :: "contract_interface \<Rightarrow> db \<Rightarrow> goerr option \<times> db" where
  "updateInterface i d =
     exec_unless (\<lambda>d. (\<exists>r \<in> set (pg_interfaces d). ci_name r = ci_name i) \<and>
         (\<exists>r \<in> set (pg_interfaces d). ci_name r \<noteq> ci_name i \<and> interface_clash i r))
       (\<lambda>d. d\<lparr>pg_interfaces := map (\<lambda>r. if ci_name r = ci_name i then interface_row i else r) (pg_interfaces d)\<rparr>) d"

definition deleteInterface :: "contract_name \<Rightarrow> db \<Rightarrow> goerr option \<times> db" where
  "deleteInterface name d =
     then_exec (exec (\<lambda>d. d\<lparr>pg_operations := filter (\<lambda>r. co_contract_name r \<noteq> name) (pg_operations d)\<rparr>) d)
       (\<lambda>d. affected (Wrap ErrNotFound ''no such interface'') (\<lambda>d. name \<in> ci_name ` set (pg_interfaces d)) d
          (exec (\<lambda>d. d\<lparr>pg_interfaces := filter (\<lambda>r. ci_name r \<noteq> name) (pg_interfaces d)\<rparr>) d))"

definition getInterface :: "contract_name \<Rightarrow> db \<Rightarrow> contract_interface res \<times> db" where
  "getInterface name d =
     (case query (\<lambda>d. map_option (\<lambda>i. i\<lparr>ci_operations := filter (\<lambda>r. co_contract_name r = name) (pg_operations d)\<rparr>)
             (find (\<lambda>r. ci_name r = name) (pg_interfaces d))) d of
        (Ok (Some i), d) \<Rightarrow> (Ok i, d)
      | (Ok None, d) \<Rightarrow> (Err ErrNotFound, d)
      | (Err e, d) \<Rightarrow> (if err_is e ErrNoRows then Err ErrNotFound else Err e, d)
      | (Panic p, d) \<Rightarrow> (Panic p, d))"

text \<open>The cache is of the repository: a nil list is one that is not cached.\<close>

definition getInterfaces :: "clock2 \<Rightarrow> db \<Rightarrow> contract_cache \<Rightarrow> contract_interface list res \<times> db \<times> contract_cache" where
  "getInterfaces t d c =
     (case cache_getInterfaces t c of (i, c) \<Rightarrow>
        if i \<noteq> [] then (Ok i, d, c)
        else (case query pg_interfaces d of
                (Ok ret, d) \<Rightarrow> (Ok ret, d, setInterfaces ret c)
              | (Err e, d) \<Rightarrow> (Err e, d, c)
              | (Panic p, d) \<Rightarrow> (Panic p, d, c)))"

definition getMethodDescription :: "contract_name \<Rightarrow> string \<Rightarrow> contract_cache \<Rightarrow> db \<Rightarrow> get_method_desc res \<times> db" where
  "getMethodDescription name method c d =
     (case cache_getMethodDesc c name method of
        Some desc \<Rightarrow> (Ok desc, d)
      | None \<Rightarrow>
          (case query (\<lambda>d. find (\<lambda>r. ci_name r = name) (pg_interfaces d)) d of
             (Ok (Some i), d) \<Rightarrow>
               (case find (\<lambda>g. gm_name g = method) (ci_get_methods i) of
                  Some desc \<Rightarrow> (Ok desc, d)
                | None \<Rightarrow> (Err ErrNotFound, d))
           | (Ok None, d) \<Rightarrow> (Err ErrNoRows, d)
           | (Err e, d) \<Rightarrow> (Err e, d)
           | (Panic p, d) \<Rightarrow> (Panic p, d)))"

subsection \<open>Operations\<close>

definition operation_key :: "contract_operation \<Rightarrow> contract_name \<times> bool \<times> u32" where
  "operation_key r = (co_contract_name r, co_outgoing r, co_operation_id r)"

definition operation_names_key :: "contract_operation \<Rightarrow> string \<times> contract_name" where
  "operation_names_key r = (co_operation_name r, co_contract_name r)"

definition addOperation :: "contract_operation \<Rightarrow> db \<Rightarrow> goerr option \<times> db" where
  "addOperation op d = already_exists
     (exec_unless (\<lambda>d. \<exists>r \<in> set (pg_operations d). operation_key r = operation_key op \<or>
         operation_names_key r = operation_names_key op)
        (\<lambda>d. d\<lparr>pg_operations := pg_operations d @ [op]\<rparr>) d)"

definition updateOperation :: "contract_operation \<Rightarrow> db \<Rightarrow> goerr option \<times> db" where
  "updateOperation op d =
     affected (Wrap ErrNotFound ''no operation'') (\<lambda>d. operation_key op \<in> operation_key ` set (pg_operations d)) d
       (exec_unless (\<lambda>d. operation_key op \<in> operation_key ` set (pg_operations d) \<and>
           (\<exists>r \<in> set (pg_operations d). operation_key r \<noteq> operation_key op \<and> operation_names_key r = operation_names_key op))
         (\<lambda>d. d\<lparr>pg_operations := map (\<lambda>r. if operation_key r = operation_key op then op else r) (pg_operations d)\<rparr>) d)"

text \<open>All operations of the name, of every contract.\<close>

definition deleteOperation :: "string \<Rightarrow> db \<Rightarrow> goerr option \<times> db" where
  "deleteOperation opName d =
     affected (Wrap ErrNotFound ''no operation'') (\<lambda>d. opName \<in> co_operation_name ` set (pg_operations d)) d
       (exec (\<lambda>d. d\<lparr>pg_operations := filter (\<lambda>r. co_operation_name r \<noteq> opName) (pg_operations d)\<rparr>) d)"

definition getOperations :: "clock2 \<Rightarrow> db \<Rightarrow> contract_cache \<Rightarrow> contract_operation list res \<times> db \<times> contract_cache" where
  "getOperations t d c =
     (case cache_getOperations t c of (ops, c) \<Rightarrow>
        if ops \<noteq> [] then (Ok ops, d, c)
        else (case query pg_operations d of
                (Ok ret, d) \<Rightarrow> (Ok ret, d, setOperations ret c)
              | (Err e, d) \<Rightarrow> (Err e, d, c)
              | (Panic p, d) \<Rightarrow> (Panic p, d, c)))"

definition getOperationsByID :: "clock2 \<Rightarrow> message_type \<Rightarrow> contract_name list \<Rightarrow> bool \<Rightarrow> u32 \<Rightarrow> db \<Rightarrow> contract_cache \<Rightarrow>
    contract_operation list res \<times> db \<times> contract_cache" where
  "getOperationsByID t mt interfaces outgoing i d c =
     (if interfaces = [] then (Err (Wrap ErrNotFound ''no contract interfaces''), d, c)
      else case cache_getOperationsByID t interfaces outgoing i c of (ops, c) \<Rightarrow>
        if ops \<noteq> [] then (Ok ops, d, c)
        else (case query (\<lambda>d. filter (\<lambda>r. co_contract_name r \<in> set interfaces \<and> co_outgoing r = outgoing \<and>
                     co_message_type r = mt \<and> co_operation_id r = i) (pg_operations d)) d of
                (ret, d) \<Rightarrow> (ret, d, c)))"

subsection \<open>Rescan tasks\<close>

definition task_row :: "rescan_task \<Rightarrow> rescan_task" where
  "task_row k = k\<lparr>rt_contract := None, rt_operation := None\<rparr>"

definition addRescanTask :: "rescan_task \<Rightarrow> db \<Rightarrow> goerr option \<times> db" where
  "addRescanTask task d =
     exec (\<lambda>d. d\<lparr>pg_tasks := pg_tasks d @ [(task_row task)\<lparr>rt_id := pg_task_seq d\<rparr>],
                pg_task_seq := pg_task_seq d + 1\<rparr>) d"

definition no_rows :: "string \<Rightarrow> goerr \<Rightarrow> goerr" where
  "no_rows m e = Wrap (if err_is e ErrNoRows then ErrNotFound else e) m"

definition query_one :: "string \<Rightarrow> (db \<Rightarrow> 'a option) \<Rightarrow> db \<Rightarrow> 'a res \<times> db" where
  "query_one m f d =
     (case query f d of
        (Ok (Some x), d) \<Rightarrow> (Ok x, d)
      | (Ok None, d) \<Rightarrow> (Err (no_rows m ErrNoRows), d)
      | (Err e, d) \<Rightarrow> (Err (no_rows m e), d)
      | (Panic p, d) \<Rightarrow> (Panic p, d))"

definition task_contract :: "rescan_task \<Rightarrow> db \<Rightarrow> rescan_task res \<times> db" where
  "task_contract task d =
     (if rt_type task \<noteq> DelInterface \<and> rt_type task \<noteq> DelOperation
      then (case query_one ''no contract interface for task''
                   (\<lambda>d. find (\<lambda>r. ci_name r = rt_contract_name task) (pg_interfaces d)) d of
              (Ok i, d) \<Rightarrow> (Ok (task\<lparr>rt_contract := Some i\<rparr>), d)
            | (Err e, d) \<Rightarrow> (Err e, d)
            | (Panic p, d) \<Rightarrow> (Panic p, d))
      else (Ok task, d))"

definition task_operation :: "rescan_task \<Rightarrow> db \<Rightarrow> rescan_task res \<times> db" where
  "task_operation task d =
     (if rt_type task = UpdOperation
      then (case query_one ''get operation of contract for task''
                   (\<lambda>d. find (\<lambda>r. co_contract_name r = rt_contract_name task \<and> co_outgoing r = rt_outgoing task \<and>
                      co_message_type r = rt_message_type task \<and> co_operation_id r = rt_operation_id task) (pg_operations d)) d of
              (Ok op, d) \<Rightarrow> (Ok (task\<lparr>rt_operation := Some op\<rparr>), d)
            | (Err e, d) \<Rightarrow> (Err e, d)
            | (Panic p, d) \<Rightarrow> (Panic p, d))
      else (Ok task, d))"

definition unfinished_tasks :: "db \<Rightarrow> rescan_task list" where
  "unfinished_tasks d = sort_key rt_id (filter (\<lambda>k. \<not> rt_finished k) (pg_tasks d))"

definition getUnfinishedRescanTask :: "db \<Rightarrow> rescan_task res \<times> db" where
  "getUnfinishedRescanTask d =
     (case exec (\<lambda>d. d) d of
        (Some e, d) \<Rightarrow> (Err e, d)
      | (None, d) \<Rightarrow>
          (case query unfinished_tasks d of
             (Ok (task # _), d) \<Rightarrow>
               (case task_contract task d of
                  (Ok task, d) \<Rightarrow> task_operation task d
                | r \<Rightarrow> r)
           | (Ok [], d) \<Rightarrow> (Err (Wrap ErrNotFound ''no unfinished tasks''), d)
           | (Err e, d) \<Rightarrow> (if err_is e ErrNoRows then Err (Wrap ErrNotFound ''no unfinished tasks'') else Err e, d)
           | (Panic p, d) \<Rightarrow> (Panic p, d)))"

text \<open>The update is seen at the commit, the second statement.\<close>

definition setRescanTask :: "rescan_task \<Rightarrow> db \<Rightarrow> goerr option \<times> db" where
  "setRescanTask task d =
     then_exec (exec (\<lambda>d. d) d)
       (exec (\<lambda>d. d\<lparr>pg_tasks := map (\<lambda>k. if rt_id k = rt_id task
          then k\<lparr>rt_finished := rt_finished task, rt_last_address := rt_last_address task, rt_last_tx_lt := rt_last_tx_lt task\<rparr>
          else k) (pg_tasks d)\<rparr>))"

subsection \<open>Properties\<close>

text \<open>
  Calls of \<open>GetInterfaces\<close> one after another, each with the clock it reads and the table the
  database has at that moment.
\<close>

fun interface_calls :: "(clock2 \<times> contract_interface list) list \<Rightarrow> contract_cache \<Rightarrow> contract_interface list list" where
  "interface_calls [] c = []"
| "interface_calls ((t, table) # calls) c =
     (case getInterfaces t (db_empty\<lparr>pg_interfaces := table\<rparr>) c of
        (r, _, c) \<Rightarrow> the_res r # interface_calls calls c)"

text \<open>The clock does not run backwards.\<close>

fun clock_from :: "gotime \<Rightarrow> clock2 list \<Rightarrow> bool" where
  "clock_from t0 [] \<longleftrightarrow> True"
| "clock_from t0 (t # ts) \<longleftrightarrow> t0 \<le> fst t \<and> fst t \<le> snd t \<and> clock_from (snd t) ts"

text \<open>What is cached was read from the database after the cache was last cleared.\<close>

definition cached_from :: "(gotime \<times> contract_interface list) list \<Rightarrow> contract_cache \<Rightarrow> bool" where
  "cached_from past c \<longleftrightarrow>
     (cc_interfaces c \<noteq> [] \<longrightarrow> (\<exists>t. (t, cc_interfaces c) \<in> set past \<and> cc_cleared c \<le> t))"

lemma time_since_less: "time_since now t < contract_invalidation \<Longrightarrow> now - t < contract_invalidation"
  by (auto simp: time_since_def contract_invalidation_def seconds_def max_duration_def split: if_splits)

lemma getInterfaces_step:
  assumes "getInterfaces t (db_empty\<lparr>pg_interfaces := table\<rparr>) c = (r, d', c')"
    and "cached_from past c" and "cc_cleared c \<le> fst t" and "fst t \<le> snd t"
  shows "cached_from ((snd t, table) # past) c' \<and> cc_cleared c' \<le> snd t \<and>
    (the_res r = table \<or> (\<exists>t'. (t', the_res r) \<in> set past \<and> fst t - t' < contract_invalidation))"
proof (cases "time_since (fst t) (cc_cleared c) < contract_invalidation \<and> cc_interfaces c \<noteq> []")
  case True
  then have eq: "r = Ok (cc_interfaces c)" "c' = c"
    using assms(1) by (auto simp: getInterfaces_def cache_getInterfaces_def contract_clearCaches_def)
  obtain t' where t': "(t', cc_interfaces c) \<in> set past" "cc_cleared c \<le> t'"
    using assms(2) True by (auto simp: cached_from_def)
  have "fst t - cc_cleared c < contract_invalidation" using True time_since_less by blast
  then have "fst t - t' < contract_invalidation" using t'(2) by simp
  with t' eq assms(3,4) show ?thesis by (auto simp: cached_from_def)
next
  case False
  then have "r = Ok table" "cc_interfaces c' = table" "cc_cleared c' \<le> snd t"
    using assms(1,3,4)
    by (auto simp: getInterfaces_def cache_getInterfaces_def contract_clearCaches_def query_def db_empty_def
        setInterfaces_def Let_def split: if_splits)
  then show ?thesis by (auto simp: cached_from_def)
qed

lemma interface_calls_fresh:
  assumes "cached_from past c" and "clock_from (cc_cleared c) (map fst calls)" and "i < length calls"
  shows "interface_calls calls c ! i = snd (calls ! i) \<or>
    (\<exists>t' table. (t', table) \<in> set past \<union> (\<lambda>(t, table). (snd t, table)) ` set (take i calls) \<and>
       interface_calls calls c ! i = table \<and> fst (fst (calls ! i)) - t' < contract_invalidation)"
  using assms
proof (induction calls arbitrary: past c i)
  case (Cons e calls)
  obtain t table where e: "e = (t, table)" by (cases e)
  obtain r d' c' where step: "getInterfaces t (db_empty\<lparr>pg_interfaces := table\<rparr>) c = (r, d', c')"
    by (metis prod_cases3)
  have clk: "cc_cleared c \<le> fst t" "fst t \<le> snd t" "clock_from (snd t) (map fst calls)"
    using Cons.prems(2) e by simp_all
  note next_c = getInterfaces_step[OF step Cons.prems(1) clk(1,2)]
  have clk': "clock_from (cc_cleared c') (map fst calls)"
    using clk(3) next_c by (cases calls) auto
  show ?case
  proof (cases i)
    case 0
    then show ?thesis using next_c e step by auto
  next
    case (Suc j)
    with Cons.prems(3) have "j < length calls" by simp
    from Cons.IH[OF conjunct1[OF next_c] clk' this] show ?thesis
      using e step Suc by auto
  qed
qed simp


definition ex_interface :: contract_interface where
  "ex_interface = \<lparr>ci_name = ''wallet'', ci_addresses = [], ci_code = [1], ci_get_methods = [],
     ci_get_method_hashes = [], ci_operations = []\<rparr>"


text \<open>
  While the cache holds the operations, the answer to a request does not depend on the message type, which the query has as a
  condition.
\<close>

lemma cached_operations_any_type:
  assumes "interfaces \<noteq> []" and "contract_clearCaches t c = c" and "select_operations interfaces outgoing i (cc_operations c) \<noteq> []"
  shows "getOperationsByID t mt interfaces outgoing i d c = (Ok (select_operations interfaces outgoing i (cc_operations c)), d, c)"
  using assms by (simp add: getOperationsByID_def cache_getOperationsByID_def)

text \<open>
  \<open>DeleteOperation\<close> takes only the name of the operation, while names are unique per
  contract only: when it succeeds, the operation is gone from every contract that has one of this
  name, and the operations of all other names are kept in their order. It fails with "not found"
  and changes nothing exactly when no contract has one.
\<close>

theorem deleteOperation_every_contract:
  assumes "db_faults d = []"
  shows "deleteOperation name d =
    (if \<exists>r \<in> set (pg_operations d). co_operation_name r = name then None else Some (Wrap ErrNotFound ''no operation''),
     d\<lparr>pg_operations := filter (\<lambda>r. co_operation_name r \<noteq> name) (pg_operations d)\<rparr>)"
  using assms by (auto simp: deleteOperation_def affected_def exec_def)

definition ex_operation :: "contract_name \<Rightarrow> contract_operation" where
  "ex_operation cn = \<lparr>co_operation_name = ''transfer'', co_contract_name = cn, co_message_type = Internal,
     co_outgoing = False, co_operation_id = 7, co_schema = \<lparr>od_name = [], od_code = [], od_type = [], od_body = []\<rparr>\<rparr>"

theorem deleteOperation_every_contract_witness:
  "let d = db_empty\<lparr>pg_operations := [ex_operation ''nft_item'', ex_operation ''jetton_wallet'']\<rparr>
   in deleteOperation ''transfer'' d = (None, db_empty)"
  using deleteOperation_every_contract[of "db_empty\<lparr>pg_operations := [ex_operation ''nft_item'', ex_operation ''jetton_wallet'']\<rparr>" "''transfer''"]
  by (simp add: db_empty_def ex_operation_def)

end
