(* ===== verification/Kafka.thy ===== *)
theory Kafka
  imports Core
begin

section \<open>internal/kafka: the topics of unseen blocks and of broadcast accounts\<close>

text \<open>
  \<open>unseen_block_info\<close> (the blocks a leader found, for the group of workers) and
  \<open>broadcast\<close> (account states, for every pod). A topic is the list of its records. The
  encoding of protobuf messages is an argument; franz-go is modelled by what the code relies on:
  a synchronous produce appends the record or reports an error, a poll returns the next records
  and moves the position of the client whatever becomes of them, and a commit of records moves
  the committed offset behind them.
\<close>

record proto_block =
  pb_workchain :: i32
  pb_shard :: i64
  pb_seqno :: u32
  pb_root :: bytes
  pb_file :: bytes

record proto_unseen =
  pu_master :: "proto_block option"
  pu_shards :: "proto_block list"

record unseen_info =
  ui_master :: "block_ext option"
  ui_shards :: "block_ext list"

definition block_to_proto :: "block_ext \<Rightarrow> proto_block" where
  "block_to_proto b = \<lparr>pb_workchain = be_workchain b, pb_shard = be_shard b, pb_seqno = be_seqno b,
     pb_root = be_root b, pb_file = be_file b\<rparr>"

definition block_of_proto :: "proto_block \<Rightarrow> block_ext" where
  "block_of_proto p = \<lparr>be_workchain = pb_workchain p, be_shard = pb_shard p, be_seqno = pb_seqno p,
     be_root = pb_root p, be_file = pb_file p\<rparr>"

definition mapToProto :: "unseen_info \<Rightarrow> proto_unseen res" where
  "mapToProto i =
     (case ui_master i of
        None \<Rightarrow> Panic ''nil pointer dereference''
      | Some m \<Rightarrow> Ok \<lparr>pu_master = Some (block_to_proto m), pu_shards = map block_to_proto (ui_shards i)\<rparr>)"

definition mapFromProto :: "proto_unseen \<Rightarrow> unseen_info res" where
  "mapFromProto p =
     (case pu_master p of
        None \<Rightarrow> Panic ''nil pointer dereference''
      | Some m \<Rightarrow> Ok \<lparr>ui_master = Some (block_of_proto m), ui_shards = map block_of_proto (pu_shards p)\<rparr>)"

subsection \<open>Producing\<close>

record 'v codec =
  cd_encode :: "'v \<Rightarrow> bytes res"
  cd_decode :: "bytes \<Rightarrow> 'v res"

definition codec_ok :: "'v codec \<Rightarrow> bool" where
  "codec_ok K \<longleftrightarrow> (\<forall>v b. cd_encode K v = Ok b \<longrightarrow> cd_decode K b = Ok v)"

record krecord =
  kr_key :: string
  kr_value :: bytes

text \<open>\<open>produce\<close> is the answer of the brokers; the last argument of the code is not used.\<close>

definition produceUnseen :: "proto_unseen codec \<Rightarrow> goerr option \<Rightarrow> u32 \<Rightarrow> block_ext option \<Rightarrow> block_ext list \<Rightarrow>
    krecord list \<Rightarrow> unit res \<times> krecord list" where
  "produceUnseen K produce blockId master shards topic =
     (case rbind (mapToProto \<lparr>ui_master = master, ui_shards = shards\<rparr>) (cd_encode K) of
        Ok v \<Rightarrow>
          (case produce of
             None \<Rightarrow> (Ok (), topic @ [\<lparr>kr_key = show_nat (unat blockId), kr_value = v\<rparr>])
           | Some e \<Rightarrow> (Err e, topic))
      | Err e \<Rightarrow> (Err e, topic)
      | Panic p \<Rightarrow> (Panic p, topic))"

definition encode_account :: "proto_account option codec \<Rightarrow> account_state \<Rightarrow> bytes res" where
  "encode_account K a =
     (case account_to_proto (Some a) of
        Ok p \<Rightarrow> cd_encode K p
      | Err e \<Rightarrow> Err (Wrap e ''failed to convert account to proto'')
      | Panic p \<Rightarrow> Panic p)"

text \<open>All accounts are encoded before the first record is sent.\<close>

definition produceAccounts :: "proto_account option codec \<Rightarrow> goerr option \<Rightarrow> account_state list \<Rightarrow> bytes list \<Rightarrow>
    unit res \<times> bytes list" where
  "produceAccounts K produce accounts topic =
     (case rmap (encode_account K) accounts of
        Ok vs \<Rightarrow>
          (case produce of
             None \<Rightarrow> (Ok (), topic @ vs)
           | Some e \<Rightarrow> (Err e, topic))
      | Err e \<Rightarrow> (Err e, topic)
      | Panic p \<Rightarrow> (Panic p, topic))"

subsection \<open>Consuming broadcast accounts\<close>

text \<open>
  What \<open>Consume\<close> sends into its channel for the records of one poll: a record that cannot be
  decoded ends the iteration, so the rest of the poll is dropped.
\<close>

fun consumed :: "'v codec \<Rightarrow> bytes list \<Rightarrow> 'v list" where
  "consumed K [] = []"
| "consumed K (r # rs) = (case cd_decode K r of Ok v \<Rightarrow> v # consumed K rs | _ \<Rightarrow> [])"

subsection \<open>Consuming unseen blocks\<close>

text \<open>
  The consumer: the log of its partition, the position of the client, the committed offset, the
  number of processed blocks, the state that processing a block changes, and, for the theorems,
  what became of every record handed to a worker.
\<close>

record 'w consumer =
  cs_log :: "krecord list"
  cs_pos :: nat
  cs_committed :: nat
  cs_total :: u32
  cs_world :: 'w
  cs_done :: "(nat \<times> goerr option) list"

type_synonym 'w processor = "block_ext \<Rightarrow> block_ext list \<Rightarrow> 'w \<Rightarrow> unit res \<times> 'w"

text \<open>One worker: decode, map, process, and count.\<close>

definition work :: "proto_unseen codec \<Rightarrow> 'w processor \<Rightarrow> krecord \<Rightarrow> 'w \<Rightarrow> unit res \<times> 'w" where
  "work K process r w =
     (case rbind (rwrap ''failed to decode block info'' (cd_decode K (kr_value r))) mapFromProto of
        Ok i \<Rightarrow> process (the (ui_master i)) (ui_shards i) w
      | Err e \<Rightarrow> (Err e, w)
      | Panic m \<Rightarrow> (Panic m, w))"

definition finish_work :: "nat \<Rightarrow> goerr option \<Rightarrow> 'w \<Rightarrow> 'w consumer \<Rightarrow> 'w consumer" where
  "finish_work i e w c = c\<lparr>cs_world := w, cs_total := cs_total c + 1, cs_done := cs_done c @ [(i, e)]\<rparr>"

text \<open>The workers of one poll, in the order in which they finish; the group keeps the first error.\<close>

fun work_all :: "proto_unseen codec \<Rightarrow> 'w processor \<Rightarrow> nat list \<Rightarrow> goerr option \<Rightarrow> 'w consumer \<Rightarrow>
    goerr option res \<times> 'w consumer" where
  "work_all K process [] e c = (Ok e, c)"
| "work_all K process (i # is) e c =
     (case work K process (cs_log c ! i) (cs_world c) of
        (Ok _, w) \<Rightarrow> work_all K process is e (finish_work i None w c)
      | (Err x, w) \<Rightarrow> work_all K process is (case e of None \<Rightarrow> Some x | Some y \<Rightarrow> Some y) (finish_work i (Some x) w c)
      | (Panic m, w) \<Rightarrow> (Panic m, c\<lparr>cs_world := w\<rparr>))"

text \<open>
  One round of \<open>ConsumeLoop\<close>. The environment decides the answer of the poll (an error or the
  number of records), the order in which the workers finish, how many of them have finished when
  the counter is read after a record is handed out, and the answer of the commit. \<open>target\<close> is
  the variable \<open>BENCHMARK_TARGET_BLOCKS_NUMBER\<close>: its getter panics when it is not set, and the
  loop reads it in every round, benchmark or not. The signals of a benchmark to Redis (\<open>WaitForStart\<close> before the
  loop, \<open>IncrementFinishedWorkersCount\<close> at its end) are in \<open>Benchmark\<close> and left out here.
\<close>

record consume_env =
  ce_poll :: "goerr option"
  ce_count :: nat
  ce_order :: "nat key_order"
  ce_finished :: "nat \<Rightarrow> nat"
  ce_commit :: "goerr option"

datatype 'w round = Again "'w consumer" | Returned "'w consumer" | Crashed string "'w consumer"

definition handed_out :: "u32 \<Rightarrow> u32 \<Rightarrow> consume_env \<Rightarrow> nat \<Rightarrow> nat option" where
  "handed_out target processed E n = find (\<lambda>k. target \<le> processed + of_nat (ce_finished E k)) [1 ..< n + 1]"

definition consume_round :: "proto_unseen codec \<Rightarrow> 'w processor \<Rightarrow> u32 \<Rightarrow> bool \<Rightarrow> consume_env \<Rightarrow> 'w consumer \<Rightarrow> 'w round" where
  "consume_round K process target benchmark E c =
     (if target = 0 then Crashed ''no value for target block ID'' c
      else if target \<le> cs_total c then Returned c
      else if ce_poll E \<noteq> None then Again c
      else
        (let n = min (ce_count E) (length (cs_log c) - cs_pos c);
             batch = [cs_pos c ..< cs_pos c + n];
             polled = c\<lparr>cs_pos := cs_pos c + n\<rparr>
         in case handed_out target (cs_total c) E n of
              Some k \<Rightarrow>
                (case work_all K process (ce_order E (take k batch)) None polled of
                   (Panic m, c') \<Rightarrow> Crashed m c'
                 | (_, c') \<Rightarrow> Returned c')
            | None \<Rightarrow>
                (case work_all K process (ce_order E batch) None polled of
                   (Panic m, c') \<Rightarrow> Crashed m c'
                 | (Ok None, c') \<Rightarrow>
                     if benchmark \<or> ce_commit E \<noteq> None \<or> n = 0 then Again c'
                     else Again (c'\<lparr>cs_committed := cs_pos c'\<rparr>)
                 | (_, c') \<Rightarrow> Again c')))"

fun consume_rounds :: "proto_unseen codec \<Rightarrow> 'w processor \<Rightarrow> u32 \<Rightarrow> bool \<Rightarrow> consume_env list \<Rightarrow> 'w consumer \<Rightarrow> 'w round" where
  "consume_rounds K process target benchmark [] c = Again c"
| "consume_rounds K process target benchmark (E # Es) c =
     (case consume_round K process target benchmark E c of
        Again c' \<Rightarrow> consume_rounds K process target benchmark Es c'
      | r \<Rightarrow> r)"

subsection \<open>Lemmas\<close>

fun the_panic :: "'a res \<Rightarrow> string" where
  "the_panic (Panic m) = m"
| "the_panic _ = []"

lemma block_of_to_proto [simp]: "block_of_proto (block_to_proto b) = b"
  by (simp add: block_of_proto_def block_to_proto_def)

lemma mapFromTo: "mapToProto i = Ok p \<Longrightarrow> mapFromProto p = Ok i"
  by (cases i) (auto simp: mapToProto_def mapFromProto_def comp_def split: option.splits)

text \<open>The workers change neither the log nor the offsets; each leaves one entry.\<close>

lemma work_all_frame:
  "work_all K process is e c = (r, c') \<Longrightarrow> r \<noteq> Panic (the_panic r) \<Longrightarrow>
   cs_log c' = cs_log c \<and> cs_pos c' = cs_pos c \<and> cs_committed c' = cs_committed c \<and>
   map fst (cs_done c') = map fst (cs_done c) @ is \<and> (\<exists>new. cs_done c' = cs_done c @ new)"
proof (induction "is" arbitrary: c e)
  case (Cons i "is")
  obtain q w where q: "work K process (cs_log c ! i) (cs_world c) = (q, w)" by fastforce
  have "\<exists>e' x. work_all K process is e' (finish_work i x w c) = (r, c')"
    using Cons.prems q by (cases q) auto
  then obtain e' x where "work_all K process is e' (finish_work i x w c) = (r, c')" by blast
  from Cons.IH[OF this Cons.prems(2)] show ?case by (auto simp: finish_work_def)
qed auto

text \<open>The consumer's invariant: what lies before the position was handed to a worker once.\<close>

definition consumer_ok :: "'w consumer \<Rightarrow> bool" where
  "consumer_ok c \<longleftrightarrow> cs_committed c \<le> cs_pos c \<and> cs_pos c \<le> length (cs_log c) \<and>
     distinct (map fst (cs_done c)) \<and> fst ` set (cs_done c) = {..< cs_pos c}"

lemma consume_round_Again:
  assumes "consume_round K process target benchmark E c = Again c'" and "range_order (ce_order E)" and "consumer_ok c"
  shows "consumer_ok c' \<and> cs_pos c \<le> cs_pos c' \<and> cs_log c' = cs_log c \<and>
    (\<exists>new. cs_done c' = cs_done c @ new) \<and> (cs_committed c' = cs_committed c \<or> cs_committed c' = cs_pos c')"
proof (cases "ce_poll E = None")
  case False
  then have "c' = c" using assms(1) by (auto simp: consume_round_def split: if_splits)
  with assms(3) show ?thesis by simp
next
  case True
  define n where "n = min (ce_count E) (length (cs_log c) - cs_pos c)"
  define batch where "batch = [cs_pos c ..< cs_pos c + n]"
  have "\<exists>r c1. work_all K process (ce_order E batch) None (c\<lparr>cs_pos := cs_pos c + n\<rparr>) = (r, c1) \<and> r \<noteq> Panic (the_panic r) \<and>
      (c' = c1 \<or> c' = c1\<lparr>cs_committed := cs_pos c1\<rparr>)"
    using assms(1) True
    by (auto simp: consume_round_def Let_def n_def[symmetric] batch_def[symmetric]
        split: if_splits option.splits prod.splits res.splits)
  then obtain r c1 where c1: "work_all K process (ce_order E batch) None (c\<lparr>cs_pos := cs_pos c + n\<rparr>) = (r, c1)"
    "r \<noteq> Panic (the_panic r)" "c' = c1 \<or> c' = c1\<lparr>cs_committed := cs_pos c1\<rparr>" by blast
  from work_all_frame[OF c1(1,2)] have es:
    "map fst (cs_done c1) = map fst (cs_done c) @ ce_order E batch" "cs_pos c1 = cs_pos c + n"
    "cs_log c1 = cs_log c" "cs_committed c1 = cs_committed c" "\<exists>new. cs_done c1 = cs_done c @ new" by auto
  have "distinct (ce_order E batch)" "set (ce_order E batch) = {cs_pos c ..< cs_pos c + n}"
      using assms(2) by (simp_all add: range_order_distinct range_order_set batch_def)
  then have "distinct (map fst (cs_done c1)) \<and> fst ` set (cs_done c1) = {..< cs_pos c + n}"
    using assms(3) es(1) by (auto simp: consumer_ok_def ivl_disj_un_one simp flip: set_map)
  moreover have "cs_pos c + n \<le> length (cs_log c)" using assms(3) by (auto simp: consumer_ok_def n_def)
  moreover have "cs_committed c \<le> cs_pos c" using assms(3) by (simp add: consumer_ok_def)
  ultimately have "consumer_ok c1" "consumer_ok (c1\<lparr>cs_committed := cs_pos c1\<rparr>)"
    unfolding consumer_ok_def using es(2-4) by simp_all
  with c1(3) es(2-5) show ?thesis by (elim disjE exE) simp_all
qed

subsection \<open>Properties\<close>

text \<open>The record of a block that was produced decodes to what was produced.\<close>

lemma produced_decodes:
  assumes "codec_ok K" and "produceUnseen K answer blockId master shards topic = (Ok (), topic')"
  obtains m r where "master = Some m" "topic' = topic @ [r]"
    "rbind (rwrap ''failed to decode block info'' (cd_decode K (kr_value r))) mapFromProto = Ok \<lparr>ui_master = Some m, ui_shards = shards\<rparr>"
proof -
  obtain m where m: "master = Some m"
    using assms(2) by (cases master) (auto simp: produceUnseen_def mapToProto_def)
  obtain p v where p: "mapToProto \<lparr>ui_master = master, ui_shards = shards\<rparr> = Ok p" "cd_encode K p = Ok v"
    using assms(2) by (auto simp: produceUnseen_def split: res.splits)
  then have "topic' = topic @ [\<lparr>kr_key = show_nat (unat blockId), kr_value = v\<rparr>]"
    using assms(2) by (auto simp: produceUnseen_def split: option.splits)
  moreover have "cd_decode K v = Ok p" using assms(1) p(2) by (simp add: codec_ok_def)
  ultimately show ?thesis using that m mapFromTo[OF p(1)] by simp
qed

text \<open>
  A block that is handed over arrives unchanged: when the leader's \<open>ProduceSync\<close> succeeds,
  the record it appended makes the worker that reads it process exactly the same master block
  and shards, in the same order.
\<close>

theorem unseen_handover:
  assumes "codec_ok K" and "produceUnseen K answer blockId master shards topic = (Ok (), topic')"
  shows "\<exists>m r. master = Some m \<and> topic' = topic @ [r] \<and> work K process r w = process m shards w"
proof -
  obtain m r where "master = Some m" "topic' = topic @ [r]"
      "rbind (rwrap ''failed to decode block info'' (cd_decode K (kr_value r))) mapFromProto = Ok \<lparr>ui_master = Some m, ui_shards = shards\<rparr>"
    using produced_decodes[OF assms] by blast
  then show ?thesis by (simp add: work_def)
qed

definition ex_unseen :: "u32 \<Rightarrow> proto_unseen" where
  "ex_unseen n = \<lparr>pu_master = Some (block_to_proto (ex_block\<lparr>be_seqno := n\<rparr>)), pu_shards = []\<rparr>"

definition ex_codec :: "proto_unseen codec" where
  "ex_codec = \<lparr>cd_encode = (\<lambda>v. if v = ex_unseen 1 then Ok [1] else if v = ex_unseen 2 then Ok [2] else Err (ErrText ''invalid'')),
     cd_decode = (\<lambda>b. if b = [1] then Ok (ex_unseen 1) else if b = [2] then Ok (ex_unseen 2) else Err (ErrText ''invalid''))\<rparr>"

theorem unseen_handover_witness:
  "\<exists>r. snd (produceUnseen ex_codec None 1 (Some (ex_block\<lparr>be_seqno := 1\<rparr>)) [] []) = [r] \<and>
     work ex_codec (\<lambda>m shards w. (Ok (), be_seqno m # w)) r [] = (Ok (), [1])"
proof -
  have "codec_ok ex_codec" by (simp add: codec_ok_def ex_codec_def)
  moreover have "produceUnseen ex_codec None 1 (Some (ex_block\<lparr>be_seqno := 1\<rparr>)) [] [] =
      (Ok (), [\<lparr>kr_key = show_nat (unat (1 :: u32)), kr_value = [1]\<rparr>])"
    by (simp add: produceUnseen_def mapToProto_def ex_codec_def ex_unseen_def)
  ultimately show ?thesis
    using unseen_handover[of ex_codec None 1 "Some (ex_block\<lparr>be_seqno := 1\<rparr>)" "[]" "[]" _
        "\<lambda>m shards w. (Ok (), be_seqno m # w)" "[]"] by fastforce
qed

text \<open>
  \<open>ConsumeLoop\<close> commits no record it has not worked on, in any number of rounds and for any
  answers of the brokers: starting at the beginning of the log, every committed record was
  handed to a worker exactly once.
\<close>

theorem committed_was_handed_out:
  assumes "consume_rounds K process target benchmark Es c = Again c'"
    and "\<forall>E \<in> set Es. range_order (ce_order E)"
    and "cs_pos c = 0" and "cs_committed c = 0" and "cs_done c = []"
  shows "cs_committed c' \<le> length (cs_log c) \<and>
    (\<forall>i < cs_committed c'. i \<in> fst ` set (cs_done c')) \<and> distinct (map fst (cs_done c'))"
proof -
  have "consumer_ok c' \<and> cs_log c' = cs_log c"
    if "consume_rounds K process target benchmark Es c = Again c'" "consumer_ok c"
      "\<forall>E \<in> set Es. range_order (ce_order E)" for c
    using that
  proof (induction Es arbitrary: c)
    case (Cons E Es)
    obtain c1 where c1: "consume_round K process target benchmark E c = Again c1"
      using Cons.prems(1) by (auto split: round.splits)
    from consume_round_Again[OF c1] Cons.prems have "consumer_ok c1" "cs_log c1 = cs_log c" by auto
    with Cons.IH[of c1] Cons.prems c1 show ?case by simp
  qed simp
  from this[OF assms(1) _ assms(2)] assms(3-5) have inv: "consumer_ok c'" "cs_log c' = cs_log c"
    by (auto simp: consumer_ok_def)
  then show ?thesis unfolding consumer_ok_def inv(2)[symmetric] by force
qed

text \<open>
  C38. A block whose processing failed can be lost. The loop does not commit after a failure, but
  the next poll goes on behind the failed records: as soon as a later round commits, the failed
  record lies before the committed offset, no worker has succeeded on it, and none will be given
  it again, not even after a restart.
\<close>

theorem failed_block_lost:
  assumes "consumer_ok c"
    and "consume_round K process target benchmark E1 c = Again c1" and "range_order (ce_order E1)"
    and "(i, Some e) \<in> set (cs_done c1)" and "cs_pos c \<le> i"
    and "consume_round K process target benchmark E2 c1 = Again c2" and "range_order (ce_order E2)"
    and "cs_committed c2 \<noteq> cs_committed c1"
  shows "i < cs_committed c2 \<and> (i, None) \<notin> set (cs_done c2)"
proof -
  note r1 = consume_round_Again[OF assms(2,3,1)]
  note r2 = consume_round_Again[OF assms(6,7) conjunct1[OF r1]]
  have "i \<in> set (map fst (cs_done c1))" using assms(4) by force
  then have i: "i < cs_pos c1" using r1 by (auto simp: consumer_ok_def dest: mset_eq_setD)
  have "cs_committed c2 = cs_pos c2" using r2 assms(8) by auto
  with i r2 have "i < cs_committed c2" by auto
  moreover have "distinct (map fst (cs_done c2))"
    using r2 by (metis consumer_ok_def distinct_upt mset_eq_imp_distinct_iff)
  moreover have "(i, Some e) \<in> set (cs_done c2)" using r2 assms(4) by auto
  ultimately show ?thesis by (metis eq_key_imp_eq_value option.distinct(1))
qed

definition ex_process :: "unit processor" where
  "ex_process m shards w = (if be_seqno m = 1 then Err (ErrText ''timeout'') else Ok (), w)"

definition ex_consumer :: "unit consumer" where
  "ex_consumer = \<lparr>cs_log = [\<lparr>kr_key = ''1'', kr_value = [1]\<rparr>, \<lparr>kr_key = ''2'', kr_value = [2]\<rparr>],
     cs_pos = 0, cs_committed = 0, cs_total = 0, cs_world = (), cs_done = []\<rparr>"

definition ex_round_env :: consume_env where
  "ex_round_env = \<lparr>ce_poll = None, ce_count = 1, ce_order = (\<lambda>is. is), ce_finished = (\<lambda>k. 0), ce_commit = None\<rparr>"

lemmas consume_eval = consume_round_def Let_def handed_out_def ex_consumer_def ex_round_env_def work_def
  ex_codec_def mapFromProto_def ex_unseen_def ex_process_def finish_work_def block_of_to_proto word_le_nat_alt

theorem committed_was_handed_out_witness:
  "\<exists>c'. consume_rounds ex_codec ex_process 9 False [ex_round_env, ex_round_env] ex_consumer = Again c' \<and>
     cs_committed c' = 2 \<and> 0 \<in> fst ` set (cs_done c')"
proof -
  let ?done = "[(0, Some (ErrText ''timeout'')), (1, None)]"
  have "consume_rounds ex_codec ex_process 9 False [ex_round_env, ex_round_env] ex_consumer =
      Again (ex_consumer\<lparr>cs_pos := 2, cs_committed := 2, cs_total := 2, cs_done := ?done\<rparr>)"
    by (simp add: consume_eval)
  with committed_was_handed_out[OF this] show ?thesis
    by (intro exI conjI) (assumption, simp_all add: ex_round_env_def ex_consumer_def range_order_def)
qed

theorem failed_block_lost_witness:
  "\<exists>c2. consume_rounds ex_codec ex_process 9 False [ex_round_env, ex_round_env] ex_consumer = Again c2 \<and>
     0 < cs_committed c2 \<and> (0, None) \<notin> set (cs_done c2)"
proof -
  let ?c1 = "ex_consumer\<lparr>cs_pos := 1, cs_total := 1, cs_done := [(0, Some (ErrText ''timeout''))]\<rparr>"
  let ?c2 = "?c1\<lparr>cs_pos := 2, cs_committed := 2, cs_total := 2, cs_done := [(0, Some (ErrText ''timeout'')), (1, None)]\<rparr>"
  have r1: "consume_round ex_codec ex_process 9 False ex_round_env ex_consumer = Again ?c1"
    and r2: "consume_round ex_codec ex_process 9 False ex_round_env ?c1 = Again ?c2"
    by (simp_all add: consume_eval)
  have "0 < cs_committed ?c2 \<and> (0, None) \<notin> set (cs_done ?c2)"
    by (rule failed_block_lost[OF _ r1 _ _ _ r2]) (simp_all add: consumer_ok_def ex_consumer_def ex_round_env_def range_order_def)
  with r1 r2 show ?thesis by (intro exI[of _ ?c2]) simp
qed

text \<open>What was produced into the topic is what a consumer gets.\<close>

lemma produced_consumed:
  assumes "codec_ok K" and "produceAccounts K answer accounts topic = (Ok (), topic')"
  shows "\<exists>vs. topic' = topic @ vs \<and> length vs = length accounts \<and>
    map Ok (consumed K vs) = map (account_to_proto \<circ> Some) accounts"
proof -
  obtain vs where vs: "rmap (encode_account K) accounts = Ok vs" "topic' = topic @ vs"
    using assms(2) by (auto simp: produceAccounts_def split: res.splits option.splits)
  from vs(1) have all: "list_all2 (\<lambda>a v. encode_account K a = Ok v) accounts vs" by (simp add: rmap_Ok_iff)
  then have "map Ok (consumed K vs) = map (account_to_proto \<circ> Some) accounts"
  proof (induction rule: list_all2_induct)
    case (Cons a as v vs)
    from Cons.hyps(1) obtain p where "account_to_proto (Some a) = Ok p" "cd_encode K p = Ok v"
      by (auto simp: encode_account_def split: res.splits)
    with Cons assms(1) show ?case by (simp add: codec_ok_def)
  qed simp
  with vs(2) list_all2_lengthD[OF all] show ?thesis by auto
qed

text \<open>
  Broadcast accounts arrive: when \<open>Produce\<close> succeeds it has appended one record per
  account, in their order, and a consumer that polls these records sends the conversion of every
  account into its channel. When it fails, the topic is unchanged: no part of the batch is sent.
\<close>

theorem broadcast_delivers:
  assumes "codec_ok K" and "produceAccounts K answer accounts topic = (r, topic')"
  shows "(case r of
     Ok _ \<Rightarrow> \<exists>vs. topic' = topic @ vs \<and> length vs = length accounts \<and>
       map Ok (consumed K vs) = map (account_to_proto \<circ> Some) accounts
   | _ \<Rightarrow> topic' = topic)"
proof (cases r)
  case (Ok u)
  then show ?thesis using produced_consumed[OF assms(1), of answer accounts topic topic'] assms(2) by simp
qed (use assms(2) in \<open>auto simp: produceAccounts_def split: res.splits option.splits\<close>)

definition ex_account_codec :: "proto_account option codec" where
  "ex_account_codec = \<lparr>
     cd_encode = (\<lambda>p. if Ok p = account_to_proto (Some account_zero) then Ok [7] else Err (ErrText ''invalid'')),
     cd_decode = (\<lambda>b. if b = [7] then account_to_proto (Some account_zero) else Err (ErrText ''invalid''))\<rparr>"

theorem broadcast_delivers_witness:
  "length (consumed ex_account_codec (snd (produceAccounts ex_account_codec None [account_zero] []))) = 1"
proof -
  obtain p where p: "account_to_proto (Some account_zero) = Ok p"
    by (simp add: account_to_proto_def label_to_proto_def account_zero_def)
  have ok: "codec_ok ex_account_codec" by (simp add: codec_ok_def ex_account_codec_def)
  obtain r t where rt: "produceAccounts ex_account_codec None [account_zero] [] = (r, t)" by fastforce
  have "r = Ok ()" using rt p by (simp add: produceAccounts_def encode_account_def ex_account_codec_def)
  with broadcast_delivers[OF ok rt] obtain vs where
    "t = vs" "map Ok (consumed ex_account_codec vs) = map (account_to_proto \<circ> Some) [account_zero]" by auto
  then have "length (consumed ex_account_codec t) = 1" by (metis length_map length_Cons list.size(3) One_nat_def)
  with rt show ?thesis by simp
qed

end
