(* ===== verification/Indexer.thy ===== *)
theory Indexer
  imports Fetcher Store Kafka "HOL-Library.Sublist"
begin

section \<open>internal/app/indexer: from the blocks of a master to the databases\<close>

text \<open>
  A worker is given a master block and its new shard blocks, fetches their transactions in
  parallel, merges the messages, and stores and broadcasts the result, with retries. The order
  in which parallel requests end and the order of ranges over maps are arguments.
\<close>

record indexer_config =
  ix_from_block :: u32
  ix_workers :: int

definition newIndexer :: "indexer_config \<Rightarrow> indexer_config" where
  "newIndexer cfg = cfg\<lparr>ix_workers := (if ix_workers cfg < 1 then 1 else ix_workers cfg),
     ix_from_block := (if ix_from_block cfg < 2 then 2 else ix_from_block cfg)\<rparr>"

subsection \<open>fetch.go\<close>

text \<open>\<open>waiting\<close> is the node API that waits for the block; a timeout is one of its errors.\<close>

definition getUnseenBlocks :: "nat \<Rightarrow> node_api \<Rightarrow> node_api \<Rightarrow> (nat \<Rightarrow> clock2) \<Rightarrow> (nat \<Rightarrow> clock2) \<Rightarrow> u32 \<Rightarrow> blocks_cache \<Rightarrow>
    (block_ext \<times> block_ext list) res \<times> blocks_cache" where
  "getUnseenBlocks fuel api waiting clk clk' seq c =
     (case unseenBlocks fuel api clk seq c of
        (Err e, c) \<Rightarrow>
          if \<not> err_is e ErrBlockNotFound \<and> \<not> str_contains (err_text e) ''block is not applied''
          then (Err (Wrap e ''cannot fetch unseen blocks''), c)
          else (case lookupMaster waiting (clk' 3) seq c of
                  (Ok master, c) \<Rightarrow>
                    (case unseenShards fuel api clk' master c of
                       (r, c) \<Rightarrow> (rbind (rwrap ''get unseen shards'' r) (\<lambda>shards. Ok (master, shards)), c))
                | (Err e, c) \<Rightarrow> (Err (Wrap e ''wait for master block''), c)
                | (Panic p, c) \<Rightarrow> (Panic p, c))
      | r \<Rightarrow> r)"

text \<open>\<open>fetch\<close> is \<open>BlockTransactions\<close> with this master, \<open>now\<close> the clock when it returned.\<close>

definition fetched_block :: "(block_ext \<Rightarrow> transaction list res) \<Rightarrow> (block_ext \<Rightarrow> gotime) \<Rightarrow> block_ext \<Rightarrow> bool \<Rightarrow> block_ext \<Rightarrow>
    block \<times> goerr option" where
  "fetched_block fetch now master is_shard b =
     (let (txs, err) = (case fetch b of Ok txs \<Rightarrow> (txs, None) | Err e \<Rightarrow> ([], Some e) | Panic p \<Rightarrow> ([], None))
      in (Block (be_workchain b) (be_shard b) (be_seqno b) (be_file b) (be_root b)
            (if is_shard then Some (get_block_id master) else None) [] txs [] (now b), err))"

text \<open>The loop over the results: the last error, the master, and the shards.\<close>

fun collect_blocks :: "i32 \<Rightarrow> (block \<times> goerr option) list \<Rightarrow> goerr option \<times> block option \<times> block list \<Rightarrow>
    goerr option \<times> block option \<times> block list" where
  "collect_blocks wc [] acc = acc"
| "collect_blocks wc ((b, err) # rs) (e, m, ss) =
     collect_blocks wc rs
       (if err \<noteq> None then err else e,
        if bl_workchain b = wc then Some b else m,
        if bl_workchain b = wc then ss else ss @ [b])"

definition with_shards :: "block \<Rightarrow> block list \<Rightarrow> block" where
  "with_shards b ss = Block (bl_workchain b) (bl_shard b) (bl_seqno b) (bl_file_hash b) (bl_root_hash b)
     (bl_master b) ss (bl_transactions b) (bl_accounts b) (bl_scanned_at b)"

fun is_panic :: "'a res \<Rightarrow> bool" where
  "is_panic (Panic p) = True"
| "is_panic _ = False"

definition getBlockTxs :: "(block_ext \<Rightarrow> transaction list res) \<Rightarrow> (block_ext \<Rightarrow> gotime) \<Rightarrow> nat key_order \<Rightarrow>
    block_ext \<Rightarrow> block_ext list \<Rightarrow> block res" where
  "getBlockTxs fetch now ord master shards =
     (let tasks = (False, master) # map (\<lambda>s. (True, s)) shards
      in case find is_panic (map (fetch \<circ> snd) tasks) of
           Some _ \<Rightarrow> Panic ''panic in BlockTransactions''
         | None \<Rightarrow>
             (case collect_blocks (be_workchain master)
                     (map (\<lambda>i. fetched_block fetch now master (fst (tasks ! i)) (snd (tasks ! i))) (ord [0 ..< length tasks]))
                     (None, None, []) of
                (Some e, _, _) \<Rightarrow> Err e
              | (None, None, _) \<Rightarrow> Panic ''nil pointer dereference''
              | (None, Some m, ss) \<Rightarrow> Ok (with_shards m ss)))"

subsection \<open>save.go\<close>

text \<open>The maps are ranged over: the addresses in one order, the times of an address in another.\<close>

fun uniq_accounts :: "transaction list \<Rightarrow> (addr \<times> (u64 \<times> account_state) list) list \<Rightarrow> (addr \<times> (u64 \<times> account_state) list) list" where
  "uniq_accounts [] u = u"
| "uniq_accounts (t # ts) u =
     uniq_accounts ts
       (case tx_account t of
          None \<Rightarrow> u
        | Some a \<Rightarrow> AList.update (acc_address a)
            (AList.update (acc_last_tx_lt a) a (case map_of u (acc_address a) of Some m \<Rightarrow> m | None \<Rightarrow> [])) u)"

definition uniqAccounts :: "addr key_order \<Rightarrow> u64 key_order \<Rightarrow> transaction list \<Rightarrow> account_state list" where
  "uniqAccounts ordA ordL txs =
     concat (map (\<lambda>(_, accounts). map snd (range_map ordL accounts)) (range_map ordA (uniq_accounts txs [])))"

definition set_source :: "message \<Rightarrow> message \<Rightarrow> message" where
  "set_source m old = old\<lparr>ms_src_tx_lt := ms_src_tx_lt m, ms_src_tx_hash := ms_src_tx_hash m,
     ms_src_workchain := ms_src_workchain m, ms_src_shard := ms_src_shard m,
     ms_src_block_seqno := ms_src_block_seqno m, ms_src_state := ms_src_state m\<rparr>"

definition set_destination :: "message \<Rightarrow> message \<Rightarrow> message" where
  "set_destination m old = old\<lparr>ms_dst_tx_lt := ms_dst_tx_lt m, ms_dst_tx_hash := ms_dst_tx_hash m,
     ms_dst_workchain := ms_dst_workchain m, ms_dst_shard := ms_dst_shard m,
     ms_dst_block_seqno := ms_dst_block_seqno m, ms_dst_state := ms_dst_state m\<rparr>"

definition addMessage :: "message \<Rightarrow> (bytes \<times> message) list \<Rightarrow> (bytes \<times> message) list" where
  "addMessage m u =
     (case map_of u (ms_hash m) of
        None \<Rightarrow> AList.update (ms_hash m) m u
      | Some old \<Rightarrow>
          if ms_src_tx_lt m \<noteq> 0 then AList.update (ms_hash m) (set_source m old) u
          else if ms_dst_tx_lt m \<noteq> 0 then AList.update (ms_hash m) (set_destination m old) u
          else u)"

text \<open>
  The source of a message is looked up in the database. The result is whether to skip the
  message, and the message; an unexpected error of the database is a panic. The workchain and
  the hash of the source transaction are not copied. The number of master blocks only decides
  how the skipped message is logged.
\<close>

definition getMessageSource :: "message \<Rightarrow> db \<Rightarrow> (bool \<times> message) res \<times> db" where
  "getMessageSource m d =
     (case getMessage (ms_hash m) d of
        (Ok source, d) \<Rightarrow>
          (Ok (False, m\<lparr>ms_src_tx_lt := ms_src_tx_lt source, ms_src_shard := ms_src_shard source,
             ms_src_block_seqno := ms_src_block_seqno source, ms_src_state := ms_src_state source\<rparr>), d)
      | (Err e, d) \<Rightarrow>
          if \<not> err_is e ErrNotFound then (Panic ''get message with hash'', d)
          else if addr_workchain (ms_src_address m) = -1 \<or> addr_workchain (ms_dst_address m) = -1 then (Ok (False, m), d)
          else (case countMasterBlocks d of
                  (Ok blocks, d) \<Rightarrow> (Ok (True, m), d)
                | (_, d) \<Rightarrow> (Panic ''count masterchain blocks'', d))
      | (Panic p, d) \<Rightarrow> (Panic p, d))"

definition tx_messages :: "transaction \<Rightarrow> message list" where
  "tx_messages t = (case tx_in_msg t of Some m \<Rightarrow> [m] | None \<Rightarrow> []) @ tx_out_msg t"

fun with_sources :: "message list \<Rightarrow> db \<Rightarrow> message list res \<times> db" where
  "with_sources [] d = (Ok [], d)"
| "with_sources (m # ms) d =
     (case (if ms_type m = Internal \<and> ms_src_tx_lt m = 0 \<and> ms_dst_tx_lt m \<noteq> 0
            then getMessageSource m d else (Ok (False, m), d)) of
        (Ok (skip, m), d) \<Rightarrow>
          (case with_sources ms d of (r, d) \<Rightarrow> (rbind r (\<lambda>ms. Ok (if skip then ms else m # ms)), d))
      | (Err e, d) \<Rightarrow> (Err e, d)
      | (Panic p, d) \<Rightarrow> (Panic p, d))"

definition uniqMessages :: "bytes key_order \<Rightarrow> transaction list \<Rightarrow> db \<Rightarrow> message list res \<times> db" where
  "uniqMessages ord txs d =
     with_sources (map snd (range_map ord (fold addMessage (concat (map tx_messages txs)) []))) d"

definition insertData :: "addr key_order \<Rightarrow> account_state list \<Rightarrow> message list \<Rightarrow> transaction list \<Rightarrow> block list \<Rightarrow> db \<Rightarrow>
    goerr option \<times> account_state list \<times> db" where
  "insertData ord accs msgs txs bs d =
     (case addAccountStates ord accs d of
        (Some e, accs', d) \<Rightarrow> (Some (Wrap e ''add account states''), accs', d)
      | (None, accs', d) \<Rightarrow>
          (let (r, d) =
             then_exec (wrap_exec ''add messages'' (addMessages (sort_key ms_created_lt msgs) d)) (\<lambda>d.
             then_exec (wrap_exec ''add transactions'' (addTransactions txs d)) (\<lambda>d.
             wrap_exec ''add blocks'' (addBlocks bs d)))
           in (r, accs', d)))"

text \<open>
  \<open>saveBlock\<close>: the insert and the broadcast run at the same time and both to their end; the
  group returns the error that came first. Accounts and messages are pointers into the block:
  what the calls change in them is seen by the next attempt, so the block is returned with the
  accounts and messages as they were left (accounts of one address and time, and messages of one
  hash, are taken to be one object: the attempts see only the last, respectively the first of them).
  The conversion to protobuf reads neither code nor data, so the race on them is not observed.
\<close>

definition broadcastNewData :: "proto_account option codec \<Rightarrow> goerr option \<Rightarrow> account_state list \<Rightarrow> bytes list \<Rightarrow>
    unit res \<times> bytes list" where
  "broadcastNewData K answer accs topic =
     (case produceAccounts K answer accs topic of
        (r, topic) \<Rightarrow> (rwrap ''failed to push info about new account states to Kafka'' r, topic))"

record save_env =
  se_codec :: "proto_account option codec"
  se_produce :: "goerr option"
  se_broadcast_accounts :: "addr key_order"
  se_broadcast_lts :: "u64 key_order"
  se_insert_accounts :: "addr key_order"
  se_insert_lts :: "u64 key_order"
  se_messages :: "bytes key_order"
  se_latest :: "addr key_order"
  se_insert_first :: bool

definition left_transaction :: "account_state list \<Rightarrow> message list \<Rightarrow> transaction \<Rightarrow> transaction" where
  "left_transaction accs msgs t =
     (let msg = (\<lambda>m. case find (\<lambda>x. ms_hash x = ms_hash m) msgs of Some x \<Rightarrow> x | None \<Rightarrow> m)
      in t\<lparr>tx_account := map_option (\<lambda>a. case find (\<lambda>x. account_key x = account_key a) accs of Some x \<Rightarrow> x | None \<Rightarrow> a) (tx_account t),
           tx_in_msg := map_option msg (tx_in_msg t), tx_out_msg := map msg (tx_out_msg t)\<rparr>)"

definition left_block :: "account_state list \<Rightarrow> message list \<Rightarrow> block \<Rightarrow> block" where
  "left_block accs msgs b =
     (let left = (\<lambda>b ss. Block (bl_workchain b) (bl_shard b) (bl_seqno b) (bl_file_hash b) (bl_root_hash b) (bl_master b)
           ss (map (left_transaction accs msgs) (bl_transactions b)) (bl_accounts b) (bl_scanned_at b))
      in left b (map (\<lambda>s. left s (bl_shards s)) (bl_shards b)))"

definition block_transactions :: "block \<Rightarrow> transaction list" where
  "block_transactions master = concat (map bl_transactions (master # bl_shards master))"

definition saveBlock :: "save_env \<Rightarrow> block \<Rightarrow> db \<times> bytes list \<Rightarrow> unit res \<times> block \<times> db \<times> bytes list" where
  "saveBlock E master w =
     (let newBlocks = master # bl_shards master;
          newTransactions = block_transactions master
      in case uniqMessages (se_messages E) newTransactions (fst w) of
           (Ok uniqMsgs, d) \<Rightarrow>
             (let (bc, topic) = broadcastNewData (se_codec E) (se_produce E)
                    (uniqAccounts (se_broadcast_accounts E) (se_broadcast_lts E) newTransactions) (snd w);
                  (ins, accs', d) = insertData (se_latest E)
                    (uniqAccounts (se_insert_accounts E) (se_insert_lts E) newTransactions) uniqMsgs newTransactions newBlocks d;
                  ins_res = (case ins of None \<Rightarrow> Ok () | Some e \<Rightarrow> Err e);
                  r = (case (bc, ins_res) of
                         (Panic p, _) \<Rightarrow> Panic p
                       | (Ok _, r) \<Rightarrow> r
                       | (Err e, Err x) \<Rightarrow> Err (if se_insert_first E then x else e)
                       | (Err e, _) \<Rightarrow> Err e)
              in (r, left_block accs' uniqMsgs master, d, topic))
         | (Err e, d) \<Rightarrow> (Err e, master, d, snd w)
         | (Panic p, d) \<Rightarrow> (Panic p, master, d, snd w))"

subsection \<open>indexer.go\<close>

text \<open>\<open>backoff.Retry\<close>: further attempts, one per environment, until one succeeds.\<close>

fun save_tries :: "save_env \<Rightarrow> save_env list \<Rightarrow> block \<Rightarrow> db \<times> bytes list \<Rightarrow> unit res \<times> db \<times> bytes list" where
  "save_tries E Es master w =
     (case saveBlock E master w of
        (Err e, master', w') \<Rightarrow> (case Es of [] \<Rightarrow> (Err e, w') | E' # Es' \<Rightarrow> save_tries E' Es' master' w')
      | (r, master', w') \<Rightarrow> (r, w'))"

definition processBlock :: "(block_ext \<Rightarrow> block_ext \<Rightarrow> transaction list res) \<Rightarrow> (block_ext \<Rightarrow> gotime) \<Rightarrow> nat key_order \<Rightarrow>
    save_env \<Rightarrow> save_env list \<Rightarrow> (db \<times> bytes list) processor" where
  "processBlock fetch now ord E Es master shards w =
     (case getBlockTxs (fetch master) now ord master shards of
        Ok b \<Rightarrow> save_tries E Es b w
      | Err e \<Rightarrow> (Err e, w)
      | Panic p \<Rightarrow> (Panic p, w))"

subsection \<open>The blocks of a master\<close>

lemma collect_blocks_shards:
  "snd (snd (collect_blocks wc rs acc)) = snd (snd acc) @ filter (\<lambda>b. bl_workchain b \<noteq> wc) (map fst rs)"
  by (induction wc rs acc rule: collect_blocks.induct) auto

lemma collect_blocks_error:
  "fst (collect_blocks wc rs acc) = None \<longleftrightarrow> fst acc = None \<and> (\<forall>r \<in> set rs. snd r = None)"
  "fst (collect_blocks wc rs acc) = Some e \<Longrightarrow> fst acc = Some e \<or> (\<exists>r \<in> set rs. snd r = Some e)"
  by (induction wc rs acc rule: collect_blocks.induct) (auto split: if_splits)

lemma collect_blocks_master:
  "\<forall>r \<in> set rs. bl_workchain (fst r) = wc \<longrightarrow> fst r = b \<Longrightarrow> m = None \<or> m = Some b \<Longrightarrow>
   fst (snd (collect_blocks wc rs (e, m, ss))) =
     (if \<exists>r \<in> set rs. bl_workchain (fst r) = wc then Some b else m)"
  by (induction wc rs "(e, m, ss)" arbitrary: e m ss rule: collect_blocks.induct) auto

lemma getBlockTxs_built:
  assumes "range_order ord" and "\<forall>s \<in> set shards. be_workchain s \<noteq> be_workchain master"
    and "\<forall>b \<in> set (master # shards). \<not> is_panic (fetch b)"
  shows "if \<forall>b \<in> set (master # shards). is_ok (fetch b)
    then \<exists>ss. getBlockTxs fetch now ord master shards =
        Ok (with_shards (fst (fetched_block fetch now master False master)) ss) \<and>
      mset ss = image_mset (\<lambda>s. fst (fetched_block fetch now master True s)) (mset shards)
    else \<exists>b \<in> set (master # shards). \<exists>e. fetch b = Err e \<and> getBlockTxs fetch now ord master shards = Err e"
proof -
  define tasks where "tasks = (False, master) # map (\<lambda>s. (True, s)) shards"
  define g where "g i = fetched_block fetch now master (fst (tasks ! i)) (snd (tasks ! i))" for i
  define rs where "rs = map g (ord [0 ..< length tasks])"
  have "mset rs = image_mset g (mset [0 ..< length tasks])"
    using assms(1) by (simp add: rs_def range_order_def del: mset_upt)
  also have "\<dots> = mset (map g [0 ..< length tasks])" by (simp only: mset_map)
  also have "map g [0 ..< length tasks] = map (\<lambda>(f, b). fetched_block fetch now master f b) tasks"
    unfolding g_def by (intro nth_equalityI) (simp_all add: case_prod_beta)
  finally have rs: "mset rs = mset (fetched_block fetch now master False master # map (fetched_block fetch now master True) shards)"
    by (simp add: tasks_def comp_def)
  then have set_rs: "set rs = set (fetched_block fetch now master False master # map (fetched_block fetch now master True) shards)"
    by (rule mset_eq_setD)
  have wc: "bl_workchain (fst (fetched_block fetch now master f b)) = be_workchain b" for f b
    by (simp add: fetched_block_def split: res.split)
  have err: "snd (fetched_block fetch now master f b) = None \<longleftrightarrow> is_ok (fetch b)" if "b \<in> set (master # shards)" for f b
    using assms(3) that by (cases "fetch b") (auto simp: fetched_block_def)
  let ?m = "fst (fetched_block fetch now master False master)"
  let ?c = "collect_blocks (be_workchain master) rs (None, None, [])"
  have "find is_panic (map (fetch \<circ> snd) tasks) = None"
    using assms(3) by (auto simp: find_None_iff tasks_def)
  then have eq: "getBlockTxs fetch now ord master shards =
     (case ?c of (Some e, _, _) \<Rightarrow> Err e | (None, None, _) \<Rightarrow> Panic ''nil pointer dereference'' | (None, Some m, ss) \<Rightarrow> Ok (with_shards m ss))"
    by (simp add: getBlockTxs_def Let_def rs_def g_def[abs_def] tasks_def)
  have "fst (snd ?c) = (if \<exists>r \<in> set rs. bl_workchain (fst r) = be_workchain master then Some ?m else None)"
    by (rule collect_blocks_master) (use assms(2) set_rs wc in auto)
  then have master: "fst (snd ?c) = Some ?m" using set_rs wc by auto
  have "mset (snd (snd ?c)) = filter_mset (\<lambda>b. bl_workchain b \<noteq> be_workchain master) (image_mset fst (mset rs))"
    unfolding collect_blocks_shards by simp
  also have "\<dots> = image_mset (\<lambda>s. fst (fetched_block fetch now master True s)) (mset shards)"
    using assms(2) unfolding rs by (induction shards) (simp_all add: wc)
  finally have shards: "mset (snd (snd ?c)) = image_mset (\<lambda>s. fst (fetched_block fetch now master True s)) (mset shards)" .
  show ?thesis
  proof (cases "\<forall>b \<in> set (master # shards). is_ok (fetch b)")
    case True
    then have "fst ?c = None" unfolding collect_blocks_error(1) using set_rs err by auto
    with True eq master shards show ?thesis by (cases ?c) auto
  next
    case False
    then have "fst ?c \<noteq> None" unfolding collect_blocks_error(1) using set_rs err by auto
    then obtain e where e: "fst ?c = Some e" by auto
    then obtain r where "r \<in> set rs" "snd r = Some e" using collect_blocks_error(2)[OF e] by auto
    then obtain f b where "b \<in> set (master # shards)" "snd (fetched_block fetch now master f b) = Some e"
      using set_rs by auto
    then have "b \<in> set (master # shards)" "fetch b = Err e"
      by (auto simp: fetched_block_def split: res.splits)
    with False eq e show ?thesis by (cases ?c) auto
  qed
qed

text \<open>
  C3. The block that \<open>getBlockTxs\<close> builds is complete, in whatever order the requests end: if all
  of them succeed it is the master block with its transactions, and its shards are exactly the
  requested shard blocks, each once, with their own transactions and the id of the master; if
  some fail, the result is one of their errors and no block.
\<close>

theorem getBlockTxs_complete:
  assumes "range_order ord" and "\<forall>s \<in> set shards. be_workchain s \<noteq> be_workchain master"
    and "\<forall>b \<in> set (master # shards). \<not> is_panic (fetch b)"
  shows "if \<forall>b \<in> set (master # shards). is_ok (fetch b)
    then \<exists>ss. getBlockTxs fetch now ord master shards =
        Ok (with_shards (fst (fetched_block fetch now master False master)) ss) \<and>
      mset ss = image_mset (\<lambda>s. fst (fetched_block fetch now master True s)) (mset shards)
    else \<exists>b \<in> set (master # shards). \<exists>e. fetch b = Err e \<and> getBlockTxs fetch now ord master shards = Err e"
  by (rule getBlockTxs_built[OF assms])

theorem getBlockTxs_complete_witness:
  "let sh = ex_block\<lparr>be_seqno := 9\<rparr>; ms = ex_block\<lparr>be_workchain := -1\<rparr>
   in \<exists>b. getBlockTxs (\<lambda>_. Ok [transaction_zero]) (\<lambda>_. 0) rev ms [sh] = Ok b \<and> length (bl_shards b) = 1"
proof -
  let ?sh = "ex_block\<lparr>be_seqno := 9\<rparr>" and ?ms = "ex_block\<lparr>be_workchain := -1\<rparr>"
  have "\<exists>ss. getBlockTxs (\<lambda>_. Ok [transaction_zero]) (\<lambda>_. 0) rev ?ms [?sh] =
        Ok (with_shards (fst (fetched_block (\<lambda>_. Ok [transaction_zero]) (\<lambda>_. 0) ?ms False ?ms)) ss) \<and>
      mset ss = image_mset (\<lambda>s. fst (fetched_block (\<lambda>_. Ok [transaction_zero]) (\<lambda>_. 0) ?ms True s)) (mset [?sh])"
    using getBlockTxs_complete[of rev "[?sh]" ?ms "\<lambda>_. Ok [transaction_zero]" "\<lambda>_. 0", OF range_order_rev]
    by (simp add: ex_block_def)
  then show ?thesis by (auto simp: with_shards_def dest!: arg_cong[of _ _ size])
qed

subsection \<open>Messages\<close>

text \<open>The merge of one more occurrence of a message.\<close>

definition merge_occurrence :: "message \<Rightarrow> message option \<Rightarrow> message option" where
  "merge_occurrence m old =
     (case old of
        None \<Rightarrow> Some m
      | Some r \<Rightarrow> Some (if ms_src_tx_lt m \<noteq> 0 then set_source m r
                      else if ms_dst_tx_lt m \<noteq> 0 then set_destination m r else r))"

lemma addMessage_lookup:
  "map_of (addMessage m u) h = (if h = ms_hash m then merge_occurrence m (map_of u h) else map_of u h)"
  by (auto simp: addMessage_def merge_occurrence_def update_conv' split: option.split)

lemma addMessage_lookups:
  "map_of (fold addMessage ms u) h = fold merge_occurrence (filter (\<lambda>m. ms_hash m = h) ms) (map_of u h)"
  by (induction ms arbitrary: u) (auto simp: addMessage_lookup)

lemma addMessage_distinct: "distinct (map fst u) \<Longrightarrow> distinct (map fst (fold addMessage ms u))"
  by (induction ms arbitrary: u) (auto simp: addMessage_def distinct_update split: option.split)

lemma addMessage_hash:
  "\<forall>h m. map_of u h = Some m \<longrightarrow> ms_hash m = h \<Longrightarrow> map_of (fold addMessage ms u) h = Some r \<Longrightarrow> ms_hash r = h"
proof (induction ms arbitrary: u)
  case (Cons m ms)
  have "\<forall>h r. map_of (addMessage m u) h = Some r \<longrightarrow> ms_hash r = h"
    using Cons.prems(1)
    by (auto simp: addMessage_lookup merge_occurrence_def set_source_def set_destination_def split: option.splits if_splits)
  from Cons.IH[OF this] Cons.prems(2) show ?case by simp
qed simp

abbreviation source_of :: "message \<Rightarrow> message" where
  "source_of m \<equiv> set_source m message_zero"

abbreviation destination_of :: "message \<Rightarrow> message" where
  "destination_of m \<equiv> set_destination m message_zero"

lemma merge_views [simp]:
  "source_of (set_source m r) = source_of m" "source_of (set_destination m r) = source_of r"
  "destination_of (set_source m r) = destination_of r" "destination_of (set_destination m r) = destination_of m"
  by (simp_all add: set_source_def set_destination_def)

text \<open>An occurrence knows either its source or its destination.\<close>

definition occurrences_ok :: "message \<Rightarrow> message \<Rightarrow> message list \<Rightarrow> bool" where
  "occurrences_ok S D ms \<longleftrightarrow>
     (\<forall>m \<in> set ms. (ms_src_tx_lt m \<noteq> 0 \<longrightarrow> source_of m = S) \<and>
        (ms_src_tx_lt m = 0 \<longrightarrow> ms_dst_tx_lt m \<noteq> 0 \<and> destination_of m = D))"

lemma merge_occurrences:
  "occurrences_ok S D ms \<Longrightarrow>
   \<exists>r'. fold merge_occurrence ms (Some r) = Some r' \<and>
     ((\<exists>m \<in> set ms. ms_src_tx_lt m \<noteq> 0) \<or> source_of r = S \<longrightarrow> source_of r' = S) \<and>
     ((\<exists>m \<in> set ms. ms_src_tx_lt m = 0) \<or> destination_of r = D \<longrightarrow> destination_of r' = D)"
proof (induction ms arbitrary: r)
  case (Cons m ms)
  have ok: "occurrences_ok S D ms" using Cons.prems by (simp add: occurrences_ok_def)
  have m: "ms_src_tx_lt m \<noteq> 0 \<Longrightarrow> source_of m = S" "ms_src_tx_lt m = 0 \<Longrightarrow> ms_dst_tx_lt m \<noteq> 0 \<and> destination_of m = D"
    using Cons.prems by (simp_all add: occurrences_ok_def)
  show ?case
  proof (cases "ms_src_tx_lt m = 0")
    case True
    with Cons.IH[OF ok, of "set_destination m r"] m(2) show ?thesis by (simp add: merge_occurrence_def)
  next
    case False
    with Cons.IH[OF ok, of "set_source m r"] m(1) show ?thesis by (simp add: merge_occurrence_def)
  qed
qed simp

lemma merged_message:
  assumes "occurrences_ok S D (filter (\<lambda>m. ms_hash m = h) ms)"
    and "m1 \<in> set ms" "ms_hash m1 = h" "ms_src_tx_lt m1 \<noteq> 0"
    and "m2 \<in> set ms" "ms_hash m2 = h" "ms_src_tx_lt m2 = 0"
  shows "\<exists>r. map_of (fold addMessage ms []) h = Some r \<and> source_of r = S \<and> destination_of r = D"
proof -
  obtain x xs where f: "filter (\<lambda>m. ms_hash m = h) ms = x # xs"
    using assms(2,3) by (metis (mono_tags, lifting) filter_empty_conv neq_Nil_conv)
  have mem: "m1 \<in> set (x # xs)" "m2 \<in> set (x # xs)" unfolding f[symmetric] using assms(2-7) by auto
  have ok: "occurrences_ok S D xs" "ms_src_tx_lt x \<noteq> 0 \<longrightarrow> source_of x = S" "ms_src_tx_lt x = 0 \<longrightarrow> destination_of x = D"
    using assms(1) unfolding f by (simp_all add: occurrences_ok_def)
  from merge_occurrences[OF ok(1), of x] ok(2,3) mem assms(4,7) show ?thesis
    unfolding addMessage_lookups f by (auto simp: merge_occurrence_def)
qed

lemma with_sources_keeps:
  "with_sources ms d = (Ok rs, d') \<Longrightarrow> m \<in> set ms \<Longrightarrow> ms_src_tx_lt m \<noteq> 0 \<Longrightarrow> m \<in> set rs"
  by (induction ms arbitrary: d rs d') (auto split: prod.splits res.splits if_splits)

lemma getMessageSource_hash: "getMessageSource m d = (Ok (skip, m'), d') \<Longrightarrow> ms_hash m' = ms_hash m"
  by (auto simp: getMessageSource_def split: prod.splits res.splits if_splits)

lemma with_sources_hashes:
  "with_sources ms d = (Ok rs, d') \<Longrightarrow> subseq (map ms_hash rs) (map ms_hash ms)"
proof (induction ms arbitrary: d rs d')
  case (Cons m ms)
  obtain skip m' d1 where head: "(if ms_type m = Internal \<and> ms_src_tx_lt m = 0 \<and> ms_dst_tx_lt m \<noteq> 0
      then getMessageSource m d else (Ok (False, m), d)) = (Ok (skip, m'), d1)"
    using Cons.prems by (auto split: prod.splits res.splits)
  then have hash: "ms_hash m' = ms_hash m" by (auto split: if_splits dest: getMessageSource_hash)
  obtain rs1 where "with_sources ms d1 = (Ok rs1, d')" "rs = (if skip then rs1 else m' # rs1)"
    using Cons.prems head by (auto split: prod.splits)
  with Cons.IH[of d1 rs1 d'] hash show ?case by (auto intro: list_emb_Cons)
qed simp

text \<open>
  \<open>uniqMessages\<close> returns every message once and puts its two halves together: when a
  message leaves one transaction of the block and enters another, the merged message has the
  source of the first and the destination of the second, in whichever order the transactions
  come and the map is ranged over.
\<close>

theorem uniqMessages_merges:
  assumes "uniqMessages ord txs d = (Ok rs, d')" and "range_order ord"
    and "occurrences_ok S D (filter (\<lambda>m. ms_hash m = h) (concat (map tx_messages txs)))"
    and "m1 \<in> set (concat (map tx_messages txs))" and "ms_hash m1 = h" and "ms_src_tx_lt m1 \<noteq> 0"
    and "m2 \<in> set (concat (map tx_messages txs))" and "ms_hash m2 = h" and "ms_src_tx_lt m2 = 0"
  shows "distinct (map ms_hash rs) \<and>
    (\<exists>r \<in> set rs. ms_hash r = h \<and> source_of r = source_of m1 \<and> destination_of r = destination_of m2)"
proof -
  let ?u = "fold addMessage (concat (map tx_messages txs)) []"
  have dist: "distinct (map fst ?u)" by (simp add: addMessage_distinct)
  have ran: "set (range_map ord ?u) = set ?u" using assms(2) dist by (rule set_range_map)
  have hash: "\<forall>(h, m) \<in> set ?u. ms_hash m = h"
  proof clarify
    fix k m assume "(k, m) \<in> set ?u"
    then have "map_of ?u k = Some m" using dist by simp
    then show "ms_hash m = k" by (rule addMessage_hash[rotated]) simp
  qed
  have SD: "S = source_of m1" "D = destination_of m2"
    using assms(3-9) by (auto simp: occurrences_ok_def)
  obtain r where r: "map_of ?u h = Some r" "source_of r = S" "destination_of r = D"
    using merged_message[OF assms(3-9)] by blast
  then have "r \<in> set (map snd (range_map ord ?u))" using ran by (force dest: map_of_SomeD)
  moreover have "ms_src_tx_lt r \<noteq> 0"
    using arg_cong[OF r(2)[unfolded SD(1)], of ms_src_tx_lt] assms(6) by (simp add: set_source_def)
  ultimately have "r \<in> set rs" using assms(1) with_sources_keeps unfolding uniqMessages_def by blast
  moreover have "ms_hash r = h" using r(1) by (rule addMessage_hash[rotated]) simp
  moreover have "distinct (map ms_hash rs)"
  proof -
    have "map ms_hash (map snd (range_map ord ?u)) = map fst (range_map ord ?u)"
      using hash ran by (auto intro!: map_cong)
    moreover have "distinct (map fst (range_map ord ?u))"
      using mset_range_map[OF assms(2) dist] dist by (metis mset_eq_imp_distinct_iff mset_map)
    ultimately show ?thesis
      using with_sources_hashes[of "map snd (range_map ord ?u)" d rs d'] assms(1)
      unfolding uniqMessages_def
      by (metis distinct_nthsI subseq_conv_nths)
  qed
  ultimately show ?thesis using r SD by blast
qed

definition ex_out :: message where
  "ex_out = message_zero\<lparr>ms_hash := [7], ms_src_tx_lt := 5\<rparr>"

definition ex_in :: message where
  "ex_in = message_zero\<lparr>ms_hash := [7], ms_dst_tx_lt := 9\<rparr>"

theorem uniqMessages_merges_witness:
  "\<exists>rs. uniqMessages rev [transaction_zero\<lparr>tx_in_msg := Some ex_in\<rparr>, transaction_zero\<lparr>tx_out_msg := [ex_out]\<rparr>] db_empty = (Ok rs, db_empty) \<and>
     (\<exists>r \<in> set rs. ms_src_tx_lt r = 5 \<and> ms_dst_tx_lt r = 9)"
proof -
  let ?txs = "[transaction_zero\<lparr>tx_in_msg := Some ex_in\<rparr>, transaction_zero\<lparr>tx_out_msg := [ex_out]\<rparr>]"
  have msgs: "concat (map tx_messages ?txs) = [ex_in, ex_out]"
    by (simp add: tx_messages_def transaction_zero_def)
  have "uniqMessages rev ?txs db_empty = (Ok [set_source ex_out ex_in], db_empty)"
    unfolding uniqMessages_def msgs
    by (simp add: addMessage_def ex_in_def ex_out_def range_map_def set_source_def message_zero_def)
  moreover from this uniqMessages_merges[OF this range_order_rev, of "source_of ex_out" "destination_of ex_in" "[7]" ex_out ex_in]
  have "\<exists>r \<in> set [set_source ex_out ex_in]. source_of r = source_of ex_out \<and> destination_of r = destination_of ex_in"
    unfolding msgs by (simp add: occurrences_ok_def ex_in_def ex_out_def message_zero_def)
  then have "\<exists>r \<in> set [set_source ex_out ex_in]. ms_src_tx_lt r = 5 \<and> ms_dst_tx_lt r = 9"
    by (auto simp: set_source_def set_destination_def ex_in_def ex_out_def)
  ultimately show ?thesis by blast
qed

end
