(* ===== verification/Saving.thy ===== *)
theory Saving
  imports Indexer
begin

section \<open>What the indexer leaves in the databases\<close>

text \<open>
  Properties of \<open>insertData\<close> and \<open>saveBlock\<close> of \<open>internal/app/indexer\<close> over the statements of
  the repositories: the order of the tables, processing a block again, and the attempts after a
  failure.
\<close>

subsection \<open>What the statements do not touch\<close>

lemma insert_messages_keeps:
  assumes "\<And>d m. g (insert_message m d) = g d" and "\<And>d fs. g (d\<lparr>db_faults := fs\<rparr>) = g d"
  shows "g (snd (insert_messages ms d)) = g d"
proof (induction ms arbitrary: d)
  case (Cons m ms)
  have "g (snd (exec (insert_message m) d)) = g d" for d using assms by (rule exec_keeps)
  with Cons.IH show ?case by (simp add: then_exec_keeps)
qed simp

lemma addMessages_keeps:
  assumes "\<And>d m. g (insert_message m d) = g d" and "\<And>d fs. g (d\<lparr>db_faults := fs\<rparr>) = g d"
    and "\<And>d x. g (d\<lparr>ch_messages := x\<rparr>) = g d"
  shows "g (snd (addMessages ms d)) = g d"
  unfolding addMessages_def
  by (auto intro!: then_exec_keeps exec_keeps insert_messages_keeps assms)

lemma insert_txs_keeps:
  assumes "\<And>d x. g (d\<lparr>pg_transactions := x\<rparr>) = g d" and "\<And>d fs. g (d\<lparr>db_faults := fs\<rparr>) = g d"
  shows "g (snd (insert_txs ts r)) = g (snd r)"
proof (induction ts arbitrary: r)
  case (Cons t ts)
  have "g (snd (exec (\<lambda>d. d\<lparr>pg_transactions := (pg_transactions d)(tx_hash t \<mapsto> transaction_row t)\<rparr>) d)) = g d" for d
    using assms by (intro exec_keeps)
  with Cons.IH show ?case by simp
qed simp

lemma addTransactions_keeps:
  assumes "\<And>d x. g (d\<lparr>pg_transactions := x\<rparr>) = g d" and "\<And>d fs. g (d\<lparr>db_faults := fs\<rparr>) = g d"
    and "\<And>d x. g (d\<lparr>ch_transactions := x\<rparr>) = g d"
  shows "g (snd (addTransactions ts d)) = g d"
proof -
  have 1: "g (snd (exec (\<lambda>d. d\<lparr>pg_transactions := upsert_all tx_hash transaction_row ts (pg_transactions d)\<rparr>) d)) = g d" for d
    using assms by (intro exec_keeps)
  have 2: "g (snd (exec (\<lambda>d. d\<lparr>ch_transactions := ch_transactions d @ map transaction_row ts\<rparr>) d)) = g d" for d
    using assms by (intro exec_keeps)
  show ?thesis
    by (auto simp: addTransactions_def Let_def 1 2 insert_txs_keeps[OF assms(1,2)])
qed

lemma insert_blocks_keeps:
  assumes "\<And>d x. g (d\<lparr>pg_blocks := x\<rparr>) = g d" and "\<And>d fs. g (d\<lparr>db_faults := fs\<rparr>) = g d"
  shows "g (snd (insert_blocks bs d)) = g d"
proof (induction bs arbitrary: d)
  case (Cons b bs)
  have "g (snd (exec (\<lambda>d. d\<lparr>pg_blocks := AList.update (bl_root_hash b) (block_row b) (pg_blocks d)\<rparr>) d)) = g d" for d
    using assms by (intro exec_keeps)
  with Cons.IH show ?case by (simp add: then_exec_keeps)
qed simp

lemma addBlocks_keeps:
  assumes "\<And>d x. g (d\<lparr>pg_blocks := x\<rparr>) = g d" and "\<And>d fs. g (d\<lparr>db_faults := fs\<rparr>) = g d"
    and "\<And>d x. g (d\<lparr>ch_blocks := x\<rparr>) = g d"
  shows "g (snd (addBlocks bs d)) = g d"
  unfolding addBlocks_def
  by (auto intro!: then_exec_keeps exec_keeps insert_blocks_keeps assms)

lemma addAccountStates_keeps:
  assumes "\<And>d x. g (d\<lparr>ch_code := x\<rparr>) = g d" "\<And>d x. g (d\<lparr>ch_data := x\<rparr>) = g d"
    "\<And>d x. g (d\<lparr>pg_accounts := x\<rparr>) = g d" "\<And>d x. g (d\<lparr>pg_latest := x\<rparr>) = g d"
    "\<And>d x. g (d\<lparr>ch_accounts := x\<rparr>) = g d" "\<And>d fs. g (d\<lparr>db_faults := fs\<rparr>) = g d"
  shows "g (snd (snd (addAccountStates ord accs d))) = g d"
proof -
  have "g (snd (insert_states ord kc kd as d)) = g d" for kc kd as d
    unfolding insert_states_def
    by (auto intro!: then_exec_keeps exec_keeps set_latest_keeps simp: assms)
  then have "insert_states ord kc kd as d = (r, d') \<Longrightarrow> g d' = g d" for kc kd as d r d' by (metis snd_conv)
  then show ?thesis by (auto simp: addAccountStates_def Let_def split: prod.split)
qed

subsection \<open>What successful statements leave\<close>

lemma addMessages_Ok:
  assumes "addMessages ms d = (None, d')" and "distinct (map ms_hash ms)"
  shows "pg_messages d' h = (case find (\<lambda>m. ms_hash m = h) ms of
     None \<Rightarrow> pg_messages d h
   | Some m \<Rightarrow> Some (case pg_messages d h of None \<Rightarrow> message_row m | Some old \<Rightarrow> merge_message m old))"
proof -
  have ins: "insert_messages ms d = (None, d1) \<Longrightarrow> distinct (map ms_hash ms) \<Longrightarrow>
      pg_messages d1 h = (case find (\<lambda>m. ms_hash m = h) ms of
        None \<Rightarrow> pg_messages d h
      | Some m \<Rightarrow> Some (case pg_messages d h of None \<Rightarrow> message_row m | Some old \<Rightarrow> merge_message m old))" for d d1
  proof (induction ms arbitrary: d)
    case (Cons m ms)
    obtain d2 where d2: "exec (insert_message m) d = (None, d2)" "insert_messages ms d2 = (None, d1)"
      using Cons.prems(1) by (auto elim!: then_exec_None)
    obtain fs where d2eq: "d2 = insert_message m (d\<lparr>db_faults := fs\<rparr>)" using exec_None[OF d2(1)] by blast
    have none: "find (\<lambda>x. ms_hash x = ms_hash m) ms = None"
      unfolding find_None_iff using Cons.prems(2) by (metis distinct.simps(2) imageI list.simps(9) set_map)
    from Cons.IH[OF d2(2)] Cons.prems(2) show ?case
      by (auto simp: d2eq insert_message_def none split: option.split)
  qed simp
  show ?thesis
  proof (cases "ms = []")
    case False
    then obtain d1 where d1: "insert_messages ms d = (None, d1)"
      "exec (\<lambda>d. d\<lparr>ch_messages := ch_messages d @ map message_row ms\<rparr>) d1 = (None, d')"
      using assms(1) by (auto simp: addMessages_def elim!: then_exec_None)
    with ins[OF d1(1) assms(2)] exec_Ok_keeps[OF d1(2), of pg_messages] show ?thesis by simp
  qed (use assms(1) in \<open>simp add: addMessages_def\<close>)
qed

lemma addTransactions_Ok:
  assumes "addTransactions ts d = (None, d')"
  shows "ch_transactions d' = ch_transactions d @ map transaction_row ts"
proof (cases "ts = []")
  case False
  then obtain r :: "goerr option \<times> db" where r: "ch_transactions (snd r) = ch_transactions d"
    "exec (\<lambda>d. d\<lparr>ch_transactions := ch_transactions d @ map transaction_row ts\<rparr>) (snd r) = (None, d')"
  proof -
    let ?batch = "if distinct (map tx_hash ts)
      then exec (\<lambda>d. d\<lparr>pg_transactions := upsert_all tx_hash transaction_row ts (pg_transactions d)\<rparr>) d else (Some pg_dup_error, d)"
    have "ch_transactions (snd ?batch) = ch_transactions d" by (auto intro: exec_keeps)
    moreover have "ch_transactions (snd (insert_txs ts ?batch)) = ch_transactions (snd ?batch)"
      by (rule insert_txs_keeps) simp_all
    ultimately show ?thesis
      using assms False that[of ?batch] that[of "insert_txs ts ?batch"]
      by (auto simp: addTransactions_def Let_def split: if_splits)
  qed
  from exec_Ok_field[OF r(2), of ch_transactions "\<lambda>x. x @ map transaction_row ts"] r(1) show ?thesis by simp
qed (use assms in \<open>simp add: addTransactions_def\<close>)

lemma find_append: "find P (xs @ ys) = (case find P xs of None \<Rightarrow> find P ys | Some x \<Rightarrow> Some x)"
  by (induction xs) auto

lemma addBlocks_Ok:
  assumes "addBlocks bs d = (None, d')"
  shows "map_of (pg_blocks d') h = (case find (\<lambda>b. bl_root_hash b = h) (rev bs) of
     None \<Rightarrow> map_of (pg_blocks d) h | Some b \<Rightarrow> Some (block_row b))"
proof -
  have ins: "insert_blocks bs d = (None, d1) \<Longrightarrow>
      map_of (pg_blocks d1) h = (case find (\<lambda>b. bl_root_hash b = h) (rev bs) of
        None \<Rightarrow> map_of (pg_blocks d) h | Some b \<Rightarrow> Some (block_row b))" for d d1
  proof (induction bs arbitrary: d)
    case (Cons b bs)
    obtain d2 where d2: "exec (\<lambda>d. d\<lparr>pg_blocks := AList.update (bl_root_hash b) (block_row b) (pg_blocks d)\<rparr>) d = (None, d2)"
      "insert_blocks bs d2 = (None, d1)"
      using Cons.prems(1) by (auto elim!: then_exec_None)
    have "pg_blocks d2 = AList.update (bl_root_hash b) (block_row b) (pg_blocks d)"
      using exec_Ok_field[OF d2(1), of pg_blocks "AList.update (bl_root_hash b) (block_row b)"] by simp
    with Cons.IH[OF d2(2)] show ?case
      by (auto simp: update_conv' find_append split: option.split)
  qed simp
  show ?thesis
  proof (cases "bs = []")
    case False
    then obtain d1 where d1: "insert_blocks bs d = (None, d1)"
      "exec (\<lambda>d. d\<lparr>ch_blocks := ch_blocks d @ map block_row bs\<rparr>) d1 = (None, d')"
      using assms by (auto simp: addBlocks_def elim!: then_exec_None)
    with ins[OF d1(1)] exec_Ok_keeps[OF d1(2), of pg_blocks] show ?thesis by simp
  qed (use assms in \<open>simp add: addBlocks_def\<close>)
qed

subsection \<open>The order of the tables\<close>

lemma insertData_blocks:
  assumes "insertData ord accs msgs txs bs d = (r, accs', d')" and "pg_blocks d' \<noteq> pg_blocks d \<or> ch_blocks d' \<noteq> ch_blocks d \<or> r = None"
  obtains d1 d2 d3 where "addAccountStates ord accs d = (None, accs', d1)"
    "addMessages (sort_key ms_created_lt msgs) d1 = (None, d2)" "addTransactions txs d2 = (None, d3)"
    "snd (addBlocks bs d3) = d'" "r = None \<Longrightarrow> fst (addBlocks bs d3) = None"
proof -
  obtain e1 d1 where a: "addAccountStates ord accs d = (e1, accs', d1)" and a': "e1 \<noteq> None \<Longrightarrow> d' = d1 \<and> r \<noteq> None"
    using assms(1) by (auto simp: insertData_def split: prod.splits option.splits)
  have k1: "pg_blocks d1 = pg_blocks d" "ch_blocks d1 = ch_blocks d"
    using addAccountStates_keeps[of pg_blocks ord accs d] addAccountStates_keeps[of ch_blocks ord accs d] a by simp_all
  with a' assms(2) have e1: "e1 = None" by (cases e1) auto
  obtain e2 d2 where m: "addMessages (sort_key ms_created_lt msgs) d1 = (e2, d2)" by fastforce
  have k2: "pg_blocks d2 = pg_blocks d" "ch_blocks d2 = ch_blocks d"
    using addMessages_keeps[of pg_blocks "sort_key ms_created_lt msgs" d1] addMessages_keeps[of ch_blocks "sort_key ms_created_lt msgs" d1] m k1
    by (simp_all add: insert_message_def)
  have rest: "(r, d') = then_exec (wrap_exec ''add messages'' (e2, d2)) (\<lambda>d.
      then_exec (wrap_exec ''add transactions'' (addTransactions txs d)) (\<lambda>d. wrap_exec ''add blocks'' (addBlocks bs d)))"
    using assms(1) a e1 m by (simp add: insertData_def split: prod.splits)
  have e2: "e2 = None" using rest k2 assms(2) by (auto simp: then_exec_def wrap_exec_def split: option.splits)
  obtain e3 d3 where t: "addTransactions txs d2 = (e3, d3)" by fastforce
  have k3: "pg_blocks d3 = pg_blocks d" "ch_blocks d3 = ch_blocks d"
    using addTransactions_keeps[of pg_blocks txs d2] addTransactions_keeps[of ch_blocks txs d2] t k2 by simp_all
  have e3: "e3 = None" using rest e2 t k3 assms(2) by (auto simp: then_exec_def wrap_exec_def split: option.splits)
  have "snd (addBlocks bs d3) = d'" "r = wrap_err (fst (addBlocks bs d3)) ''add blocks''"
    using rest e2 t e3 by (simp_all add: then_exec_def wrap_exec_def)
  then show ?thesis using that a e1 m e2 t e3 by simp
qed


definition ex_saved_block :: block where
  "ex_saved_block = Block 0 0 1 [1] [2] None [] [transaction_zero\<lparr>tx_account := Some ex_state\<rparr>] [] 0"

lemma ex_insert_Ok: "fst (insertData rev [ex_state] [ex_in] [transaction_zero] [ex_saved_block] db_empty) = None"
  by (simp add: insertData_def store_eval addMessages_def insert_message_def addTransactions_def addBlocks_def)


subsection \<open>Processing a block again\<close>

lemma upsert_all_lookup:
  "upsert_all k v xs t h = (case find (\<lambda>x. k x = h) (rev xs) of None \<Rightarrow> t h | Some x \<Rightarrow> Some (v x))"
  by (induction xs arbitrary: t) (auto simp: find_append split: option.split)

lemma upsert_all_again: "upsert_all k v xs (upsert_all k v xs t) = upsert_all k v xs t"
  by (rule ext) (simp add: upsert_all_lookup split: option.split)

lemma upsert_accounts_lookup:
  "map_of (upsert_accounts as t) = upsert_all account_key account_row as (map_of t)"
  by (induction as arbitrary: t) (simp_all add: upsert_accounts_def upsert_all_def update_conv')

lemma merge_message_again [simp]:
  "merge_message m (message_row m) = message_row m" "merge_message m (merge_message m old) = merge_message m old"
  by (simp_all add: merge_message_def message_row_def)

lemma max_lt_again: "max_lt lts (max_lt lts old) = max_lt lts old"
proof (cases "lts = []")
  case False
  have "fold max lts (fold max lts l) = fold max lts l" for l :: u64
    unfolding fold_max_word[of lts "fold max lts l"] unfolding fold_max_word[of lts l] by (simp add: max.assoc)
  with False show ?thesis by (simp add: max_lt_def)
qed (simp add: max_lt_def)


lemma ex_insert_again:
  "fst (insertData rev [ex_state] [ex_in] [transaction_zero] [ex_saved_block]
     (snd (snd (insertData rev [ex_state] [ex_in] [transaction_zero] [ex_saved_block] db_empty)))) = None"
  by (simp add: insertData_def store_eval addMessages_def insert_message_def addTransactions_def addBlocks_def)


subsection \<open>Attempts after a failure\<close>

text \<open>The accounts of a list of transactions, and what \<open>uniqAccounts\<close> selects.\<close>

definition accounts_in :: "transaction list \<Rightarrow> account_state set" where
  "accounts_in txs = {a. \<exists>t \<in> set txs. tx_account t = Some a}"

lemma accounts_in_Cons: "accounts_in (t # txs) = set_option (tx_account t) \<union> accounts_in txs"
  by (auto simp: accounts_in_def)

lemma accounts_in_Nil [simp]: "accounts_in [] = {}"
  by (simp add: accounts_in_def)

text \<open>The map of maps as one map from addresses and times.\<close>

definition uniq_lookup :: "(addr \<times> (u64 \<times> account_state) list) list \<Rightarrow> addr \<times> u64 \<Rightarrow> account_state option" where
  "uniq_lookup u k = (case map_of u (fst k) of None \<Rightarrow> None | Some m \<Rightarrow> map_of m (snd k))"

definition record_account :: "transaction \<Rightarrow> (addr \<times> u64 \<rightharpoonup> account_state) \<Rightarrow> (addr \<times> u64 \<rightharpoonup> account_state)" where
  "record_account t g k = (case tx_account t of None \<Rightarrow> g k | Some a \<Rightarrow> if account_key a = k then Some a else g k)"

fun last_accounts :: "transaction list \<Rightarrow> (addr \<times> u64 \<rightharpoonup> account_state) \<Rightarrow> (addr \<times> u64 \<rightharpoonup> account_state)" where
  "last_accounts [] g = g"
| "last_accounts (t # txs) g = last_accounts txs (record_account t g)"

lemma uniq_accounts_lookup: "uniq_lookup (uniq_accounts txs u) = last_accounts txs (uniq_lookup u)"
proof (induction txs arbitrary: u)
  case (Cons t txs)
  show ?case
  proof (cases "tx_account t")
    case None
    then have "record_account t (uniq_lookup u) = uniq_lookup u" by (intro ext) (simp add: record_account_def)
    with Cons.IH None show ?thesis by simp
  next
    case (Some a)
    have "uniq_lookup (AList.update (acc_address a)
       (AList.update (acc_last_tx_lt a) a (case map_of u (acc_address a) of Some m \<Rightarrow> m | None \<Rightarrow> [])) u) = record_account t (uniq_lookup u)"
      by (rule ext) (auto simp: Some record_account_def uniq_lookup_def account_key_def update_conv' split: option.splits)
    with Cons.IH Some show ?thesis by simp
  qed
qed simp

lemma last_accounts_range:
  "(\<forall>k a. last_accounts txs g k = Some a \<longrightarrow> (a \<in> accounts_in txs \<and> account_key a = k) \<or> g k = Some a) \<and>
    (\<forall>a \<in> accounts_in txs. last_accounts txs g (account_key a) \<noteq> None) \<and> (\<forall>k. g k \<noteq> None \<longrightarrow> last_accounts txs g k \<noteq> None)"
proof (induction txs arbitrary: g)
  case (Cons t txs)
  note IH = Cons.IH[of "record_account t g"]
  have rec: "record_account t g k = Some a \<Longrightarrow> (tx_account t = Some a \<and> account_key a = k) \<or> g k = Some a" for k a
    by (auto simp: record_account_def split: option.splits if_splits)
  have rec2: "g k \<noteq> None \<Longrightarrow> record_account t g k \<noteq> None" "tx_account t = Some a \<Longrightarrow> record_account t g (account_key a) \<noteq> None" for k a
    by (auto simp: record_account_def split: option.split)
  show ?case unfolding last_accounts.simps accounts_in_Cons
  proof (intro conjI allI ballI impI)
    fix k a assume "last_accounts txs (record_account t g) k = Some a"
    then have "(a \<in> accounts_in txs \<and> account_key a = k) \<or> record_account t g k = Some a" using IH by blast
    then show "(a \<in> set_option (tx_account t) \<union> accounts_in txs \<and> account_key a = k) \<or> g k = Some a"
      using rec[of k a] by auto
  next
    fix a assume "a \<in> set_option (tx_account t) \<union> accounts_in txs"
    then consider "tx_account t = Some a" | "a \<in> accounts_in txs" by auto
    then show "last_accounts txs (record_account t g) (account_key a) \<noteq> None"
      using IH rec2(2)[of a] by cases blast+
  next
    fix k assume "g k \<noteq> None"
    with IH rec2(1) show "last_accounts txs (record_account t g) k \<noteq> None" by blast
  qed
qed simp

definition uniq_wf :: "(addr \<times> (u64 \<times> account_state) list) list \<Rightarrow> bool" where
  "uniq_wf u \<longleftrightarrow> distinct (map fst u) \<and> (\<forall>(x, m) \<in> set u. distinct (map fst m))"

lemma uniq_accounts_wf: "uniq_wf u \<Longrightarrow> uniq_wf (uniq_accounts txs u)"
proof (induction txs arbitrary: u)
  case (Cons t txs)
  show ?case
  proof (cases "tx_account t")
    case (Some a)
    let ?m = "AList.update (acc_last_tx_lt a) a (case map_of u (acc_address a) of Some m \<Rightarrow> m | None \<Rightarrow> [])"
    have inner: "distinct (map fst (case map_of u (acc_address a) of Some m \<Rightarrow> m | None \<Rightarrow> []))"
      using Cons.prems by (auto simp: uniq_wf_def split: option.split dest: map_of_SomeD)
    have "distinct (map fst u)" using Cons.prems by (simp add: uniq_wf_def)
    then have "distinct (map fst (AList.update (acc_address a) ?m u))" by (rule distinct_update)
    moreover have "set (AList.update (acc_address a) ?m u) \<subseteq> insert (acc_address a, ?m) (set u)"
      by (rule set_update_subset)
    ultimately have "uniq_wf (AList.update (acc_address a) ?m u)"
      using Cons.prems distinct_update[OF inner] by (auto simp: uniq_wf_def)
    with Cons.IH Some show ?thesis by simp
  qed (use Cons in simp)
qed simp

lemma uniqAccounts_range:
  assumes "uniq_wf u" and "range_order ordA" and "range_order ordL" and "\<And>k a. uniq_lookup u k = Some a \<Longrightarrow> account_key a = k"
  shows "set (concat (map (\<lambda>(_, m). map snd (range_map ordL m)) (range_map ordA u))) = ran (uniq_lookup u) \<and>
    distinct (map account_key (concat (map (\<lambda>(_, m). map snd (range_map ordL m)) (range_map ordA u))))"
proof -
  define f where "f = (\<lambda>p :: addr \<times> (u64 \<times> account_state) list. map snd (range_map ordL (snd p)))"
  have dist: "distinct (map fst u)" "\<And>x m. (x, m) \<in> set u \<Longrightarrow> distinct (map fst m)"
    using assms(1) by (auto simp: uniq_wf_def)
  have look: "uniq_lookup u (x, lt) = Some a \<longleftrightarrow> (\<exists>m. (x, m) \<in> set u \<and> (lt, a) \<in> set m)" for x lt a
  proof -
    have "uniq_lookup u (x, lt) = Some a \<longleftrightarrow> (\<exists>m. map_of u x = Some m \<and> map_of m lt = Some a)"
      by (simp add: uniq_lookup_def split: option.split)
    also have "\<dots> \<longleftrightarrow> (\<exists>m. (x, m) \<in> set u \<and> map_of m lt = Some a)" using dist(1) by simp
    also have "\<dots> \<longleftrightarrow> (\<exists>m. (x, m) \<in> set u \<and> (lt, a) \<in> set m)" using dist(2) by (metis map_of_eq_Some_iff)
    finally show ?thesis .
  qed
  have ranA: "set (range_map ordA u) = set u" using assms(2) dist(1) by (rule set_range_map)
  have setf: "set (f (x, m)) = snd ` set m" if "(x, m) \<in> set u" for x m
    using set_range_map[OF assms(3) dist(2)[OF that]] by (simp add: f_def)
  have "set (concat (map f (range_map ordA u))) = ran (uniq_lookup u)"
  proof (intro set_eqI iffI)
    fix a assume "a \<in> set (concat (map f (range_map ordA u)))"
    then obtain x m where xm: "(x, m) \<in> set u" "a \<in> set (f (x, m))" using ranA by auto
    then obtain lt where "(lt, a) \<in> set m" using setf by auto
    with xm(1) look have "uniq_lookup u (x, lt) = Some a" by blast
    then show "a \<in> ran (uniq_lookup u)" by (rule ranI)
  next
    fix a assume "a \<in> ran (uniq_lookup u)"
    then obtain x lt where "uniq_lookup u (x, lt) = Some a" by (auto simp: ran_def)
    then obtain m where xm: "(x, m) \<in> set u" "(lt, a) \<in> set m" using look by blast
    have "a \<in> set (f (x, m))" unfolding setf[OF xm(1)] using xm(2) by force
    then show "a \<in> set (concat (map f (range_map ordA u)))" using xm(1) ranA by auto
  qed
  moreover have "distinct (map account_key (concat (map f qs)))"
    if "set qs \<subseteq> set u" "distinct (map fst qs)" for qs
    using that
  proof (induction qs)
    case (Cons q qs)
    obtain x m where q: "q = (x, m)" by (cases q)
    have xm: "(x, m) \<in> set u" using Cons.prems(1) q by simp
    have key: "account_key a = (x, lt)" if "(x, m) \<in> set u" "(lt, a) \<in> set m" for x m lt a
      using assms(4) look that by blast
    have perm: "mset (range_map ordL m) = mset m" using assms(3) dist(2)[OF xm] by (rule mset_range_map)
    have "map account_key (f q) = map (\<lambda>p. (x, fst p)) (range_map ordL m)"
      using key[OF xm] mset_eq_setD[OF perm] unfolding f_def q by auto
    moreover have "distinct (map fst (range_map ordL m))"
      using dist(2)[OF xm] perm by (metis mset_eq_imp_distinct_iff mset_map)
    ultimately have "distinct (map account_key (f q))"
      by (simp add: distinct_map inj_on_def)
    moreover have "fst ` set (map account_key (f q)) \<subseteq> {x}"
      using setf[OF xm] key[OF xm] q by force
    moreover have "x \<notin> fst ` set (map account_key (concat (map f qs)))"
    proof
      assume "x \<in> fst ` set (map account_key (concat (map f qs)))"
      then obtain r a where r: "r \<in> set qs" "a \<in> set (f r)" "fst (account_key a) = x" by auto
      obtain y m' where ym: "r = (y, m')" by (cases r)
      have "(y, m') \<in> set u" using r(1) ym Cons.prems(1) by auto
      with r(2) ym setf key have "fst (account_key a) = y" by force
      with r ym Cons.prems(2) q show False by force
    qed
    ultimately show ?case using Cons.IH Cons.prems by (auto simp: disjoint_iff)
  qed simp
  moreover have "distinct (map fst (range_map ordA u))"
    using mset_range_map[OF assms(2) dist(1)] dist(1) by (metis mset_eq_imp_distinct_iff mset_map)
  ultimately show ?thesis using ranA by (simp add: f_def case_prod_beta')
qed

lemma uniqAccounts_once_eq:
  assumes "range_order ordA" and "range_order ordL"
  shows "set (uniqAccounts ordA ordL txs) \<subseteq> accounts_in txs \<and>
    account_key ` set (uniqAccounts ordA ordL txs) = account_key ` accounts_in txs \<and>
    distinct (map account_key (uniqAccounts ordA ordL txs))"
proof -
  let ?u = "uniq_accounts txs []"
  have look: "uniq_lookup ?u = last_accounts txs (\<lambda>_. None)"
    unfolding uniq_accounts_lookup by (simp add: uniq_lookup_def[abs_def])
  note range = last_accounts_range[of txs "\<lambda>_. None"]
  have key: "account_key a = k \<and> a \<in> accounts_in txs" if "uniq_lookup ?u k = Some a" for k a
    using range that unfolding look by blast
  have wf: "uniq_wf ?u" by (rule uniq_accounts_wf) (simp add: uniq_wf_def)
  have uniq: "set (uniqAccounts ordA ordL txs) = ran (uniq_lookup ?u) \<and> distinct (map account_key (uniqAccounts ordA ordL txs))"
    unfolding uniqAccounts_def by (rule uniqAccounts_range[OF wf assms]) (simp add: key)
  have "account_key a \<in> account_key ` ran (uniq_lookup ?u)" if "a \<in> accounts_in txs" for a
  proof -
    have "uniq_lookup ?u (account_key a) \<noteq> None" using range that unfolding look by blast
    then obtain b where b: "uniq_lookup ?u (account_key a) = Some b" by blast
    then have "b \<in> ran (uniq_lookup ?u)" by (rule ranI)
    with key[OF b] show ?thesis by (metis imageI)
  qed
  then have "account_key ` accounts_in txs \<subseteq> account_key ` ran (uniq_lookup ?u)" by blast
  moreover have "ran (uniq_lookup ?u) \<subseteq> accounts_in txs" using key by (auto simp: ran_def)
  ultimately show ?thesis using uniq by (metis image_mono subset_antisym)
qed

text \<open>
  \<open>uniqAccounts\<close> returns the account states of the transactions, exactly one for every
  address and transaction time that occurs, for any order of the two ranges. So the insert of the
  accounts of a block never meets a key twice.
\<close>

theorem uniqAccounts_once:
  assumes "range_order ordA" and "range_order ordL"
  shows "set (uniqAccounts ordA ordL txs) \<subseteq> accounts_in txs \<and>
    account_key ` set (uniqAccounts ordA ordL txs) = account_key ` accounts_in txs \<and>
    distinct (map account_key (uniqAccounts ordA ordL txs))"
  using assms by (rule uniqAccounts_once_eq)

theorem uniqAccounts_once_witness:
  "account_key ` set (uniqAccounts rev rev [transaction_zero\<lparr>tx_account := Some ex_state\<rparr>]) = {account_key ex_state}"
  using uniqAccounts_once[OF range_order_rev range_order_rev, of "[transaction_zero\<lparr>tx_account := Some ex_state\<rparr>]"]
  by (simp add: accounts_in_Cons)

text \<open>The environments of the attempts range over maps in permutations of their keys.\<close>

definition save_env_ok :: "save_env \<Rightarrow> bool" where
  "save_env_ok E \<longleftrightarrow> range_order (se_insert_accounts E) \<and> range_order (se_insert_lts E)"

lemma block_transactions_left:
  "block_transactions (left_block accs msgs b) = map (left_transaction accs msgs) (block_transactions b)"
  by (simp add: block_transactions_def left_block_def Let_def map_concat comp_def)

lemma saveBlock_accounts:
  assumes "saveBlock E master w = (r, master', d', topic')" and "r \<noteq> Panic (the_panic r)"
  obtains msgs ins d0 accs' bs txs where "master' = left_block accs' msgs master"
    "insertData (se_latest E) (uniqAccounts (se_insert_accounts E) (se_insert_lts E) (block_transactions master)) msgs txs bs d0 = (ins, accs', d')"
    "accs' = stored_accounts (uniqAccounts (se_insert_accounts E) (se_insert_lts E) (block_transactions master))"
    "r = Ok () \<Longrightarrow> ins = None"
proof -
  have noErr: "q \<noteq> Err e" if "with_sources ms d = (q, d2)" for ms d q d2 e
    using that
  proof (induction ms arbitrary: d q d2)
    case (Cons m ms)
    then show ?case
      by (auto simp: getMessageSource_def split: prod.splits res.splits if_splits) (metis rbind.simps res.distinct res.exhaust)+
  qed auto
  obtain q d0 where q: "uniqMessages (se_messages E) (block_transactions master) (fst w) = (q, d0)" by fastforce
  then have "q \<noteq> Err e" for e using noErr unfolding uniqMessages_def by blast
  moreover have "q \<noteq> Panic p" for p using assms q by (auto simp: saveBlock_def Let_def split: res.splits)
  ultimately obtain msgs where msgs: "q = Ok msgs" by (cases q) auto
  let ?accs = "uniqAccounts (se_insert_accounts E) (se_insert_lts E) (block_transactions master)"
  obtain ins accs' d1 where ins: "insertData (se_latest E) ?accs msgs (block_transactions master) (master # bl_shards master) d0 = (ins, accs', d1)"
    by (metis prod_cases3)
  have "accs' = stored_accounts ?accs"
    using ins addAccountStates_cleared by (fastforce simp: insertData_def split: prod.splits option.splits)
  moreover have "master' = left_block accs' msgs master" "d1 = d'" "r = Ok () \<Longrightarrow> ins = None"
    using assms q msgs ins by (auto simp: saveBlock_def Let_def split: prod.splits res.splits option.splits)
  ultimately show ?thesis using that ins by blast
qed

text \<open>
  C37. A failed attempt to save a block destroys code and data. When the first attempt of
  \<open>saveBlock\<close> ends with any error (a broken connection, a failed broadcast) and the next attempt
  on the same block succeeds, the key-value tables hold an empty code and an empty data for
  every account state of the block.
\<close>

theorem second_attempt_loses_code:
  assumes "saveBlock E1 master w = (Err e, master', w1)" and "saveBlock E2 master' w2 = (Ok (), master'', d2, topic2)"
    and "save_env_ok E1" and "save_env_ok E2"
    and "\<forall>a \<in> accounts_in (block_transactions master). \<forall>b \<in> accounts_in (block_transactions master). account_key a = account_key b \<longrightarrow>
      acc_code_hash a = acc_code_hash b \<and> acc_data_hash a = acc_data_hash b"
    and "a \<in> accounts_in (block_transactions master)"
  shows "ch_code d2 (acc_code_hash a) = Some [] \<and> ch_data d2 (acc_data_hash a) = Some []"
proof -
  let ?txs = "block_transactions master"
  let ?U1 = "uniqAccounts (se_insert_accounts E1) (se_insert_lts E1) ?txs"
  obtain d1 t1 where w1: "w1 = (d1, t1)" by (cases w1)
  obtain msgs accs1 where left: "master' = left_block accs1 msgs master" "accs1 = stored_accounts ?U1"
    by (rule saveBlock_accounts[OF assms(1)[unfolded w1]]) (simp, blast)
  let ?txs2 = "block_transactions master'"
  let ?U2 = "uniqAccounts (se_insert_accounts E2) (se_insert_lts E2) ?txs2"
  obtain msgs2 d0 accs2 bs txs2 where ins: "insertData (se_latest E2) ?U2 msgs2 txs2 bs d0 = (None, accs2, d2)"
    by (rule saveBlock_accounts[OF assms(2)]) (simp, blast)
  note U1 = uniqAccounts_once_eq[of "se_insert_accounts E1" "se_insert_lts E1" ?txs]
  note U2 = uniqAccounts_once_eq[of "se_insert_accounts E2" "se_insert_lts E2" ?txs2]
  have ok: "range_order (se_insert_accounts E1)" "range_order (se_insert_lts E1)" "range_order (se_insert_accounts E2)" "range_order (se_insert_lts E2)"
    using assms(3,4) by (simp_all add: save_env_ok_def)
  define left_of where "left_of b = (case find (\<lambda>x. account_key x = account_key b) accs1 of Some x \<Rightarrow> x | None \<Rightarrow> b)" for b
  have accs: "accounts_in ?txs2 = left_of ` accounts_in ?txs"
    unfolding left(1) block_transactions_left
    by (force simp: accounts_in_def left_transaction_def Let_def left_of_def)
  have cleared: "acc_code (left_of b) = [] \<and> acc_data (left_of b) = [] \<and> account_key (left_of b) = account_key b \<and>
      acc_code_hash (left_of b) = acc_code_hash b \<and> acc_data_hash (left_of b) = acc_data_hash b"
    if b: "b \<in> accounts_in ?txs" for b
  proof -
    have "account_key b \<in> account_key ` set ?U1" using U1[OF ok(1,2)] b by blast
    then have "\<exists>x \<in> set accs1. account_key x = account_key b" unfolding left(2) by auto
    then obtain x where x: "find (\<lambda>x. account_key x = account_key b) accs1 = Some x"
      by (metis (mono_tags, lifting) find_None_iff not_None_eq)
    then have "x \<in> set accs1" "account_key x = account_key b" by (auto simp: find_Some_iff)
    then obtain u where u: "u \<in> set ?U1" "x = clear_code_data (sort_executions u)" unfolding left(2) by auto
    then have "u \<in> accounts_in ?txs" "account_key u = account_key b"
      using U1[OF ok(1,2)] \<open>account_key x = account_key b\<close> by auto
    with assms(5) b have "acc_code_hash u = acc_code_hash b \<and> acc_data_hash u = acc_data_hash b" by blast
    with x u(2) \<open>account_key x = account_key b\<close> show ?thesis by (simp add: left_of_def clear_code_data_def)
  qed
  have empty: "acc_code y = [] \<and> acc_data y = []" if "y \<in> set ?U2" for y
  proof -
    have "y \<in> left_of ` accounts_in ?txs" using U2[OF ok(3,4)] that unfolding accs by blast
    then show ?thesis using cleared by auto
  qed
  have "account_key (left_of a) \<in> account_key ` set ?U2"
    using U2[OF ok(3,4)] assms(6) unfolding accs by blast
  then obtain y where y: "y \<in> set ?U2" "account_key y = account_key a" using cleared[OF assms(6)] by force
  then have "y \<in> left_of ` accounts_in ?txs" using U2[OF ok(3,4)] unfolding accs by blast
  then obtain b where "b \<in> accounts_in ?txs" "y = left_of b" by blast
  with y(2) cleared[of b] have hash: "acc_code_hash y = acc_code_hash a" "acc_data_hash y = acc_data_hash a"
    using assms(5)[rule_format, of b a] assms(6) by simp_all
  obtain e1 e2 e3 where st: "addAccountStates (se_latest E2) ?U2 d0 = (None, accs2, e1)"
    "addMessages (sort_key ms_created_lt msgs2) e1 = (None, e2)" "addTransactions txs2 e2 = (None, e3)" "snd (addBlocks bs e3) = d2"
    using insertData_blocks[OF ins] by blast
  have "ch_code d2 = ch_code e1" "ch_data d2 = ch_data e1"
    using addBlocks_keeps[of ch_code bs e3] addTransactions_keeps[of ch_code txs2 e2] addMessages_keeps[of ch_code "sort_key ms_created_lt msgs2" e1]
      addBlocks_keeps[of ch_data bs e3] addTransactions_keeps[of ch_data txs2 e2] addMessages_keeps[of ch_data "sort_key ms_created_lt msgs2" e1] st
    by (simp_all add: insert_message_def)
  moreover have "upsert_all acc_code_hash acc_code ?U2 (ch_code d0) (acc_code_hash y) = Some (acc_code y)"
    "upsert_all acc_data_hash acc_data ?U2 (ch_data d0) (acc_data_hash y) = Some (acc_data y)"
    using y(1) empty by (intro upsert_all_in; simp)+
  ultimately show ?thesis
    using addAccountStates_Ok(1,2)[OF st(1)] hash empty[OF y(1)] by simp
qed

definition ex_save_env :: "goerr option \<Rightarrow> save_env" where
  "ex_save_env answer = \<lparr>se_codec = \<lparr>cd_encode = (\<lambda>_. Ok []), cd_decode = (\<lambda>_. Err (ErrText ''invalid''))\<rparr>,
     se_produce = answer, se_broadcast_accounts = rev, se_broadcast_lts = rev, se_insert_accounts = rev,
     se_insert_lts = rev, se_messages = rev, se_latest = rev, se_insert_first = False\<rparr>"

definition ex_cleared :: account_state where
  "ex_cleared = clear_code_data ex_state"

lemma ex_cleared_simps [simp]:
  "clear_code_data (sort_executions ex_state) = ex_cleared" "clear_code_data (sort_executions ex_cleared) = ex_cleared"
  "account_key ex_cleared = account_key ex_state" "acc_label ex_state = None" "acc_label ex_cleared = None"
  "acc_address ex_cleared = acc_address ex_state" "acc_last_tx_lt ex_cleared = 7"
  by (simp_all add: ex_cleared_def clear_code_data_def sort_executions_def account_key_def ex_state_def account_zero_def)

abbreviation ex_left_block :: block where
  "ex_left_block \<equiv> left_block [ex_cleared] [] ex_saved_block"

lemma ex_txs: "block_transactions ex_saved_block = [transaction_zero\<lparr>tx_account := Some ex_state\<rparr>]"
  "block_transactions ex_left_block = [transaction_zero\<lparr>tx_account := Some ex_cleared\<rparr>]"
  "bl_shards ex_left_block = []" "bl_shards ex_saved_block = []"
  by (simp_all add: block_transactions_def left_block_def left_transaction_def Let_def ex_saved_block_def transaction_zero_def)

lemma ex_uniqs:
  "uniqAccounts rev rev [transaction_zero\<lparr>tx_account := Some a\<rparr>] = [a]"
  "uniqMessages rev [transaction_zero\<lparr>tx_account := Some a\<rparr>] d = (Ok [], d)"
  by (simp_all add: uniqAccounts_def uniqMessages_def tx_messages_def range_map_def transaction_zero_def)

lemma ex_insert: "a = ex_state \<or> a = ex_cleared \<Longrightarrow>
  \<exists>d. insertData rev [a] [] [t] [b] db_empty = (None, [ex_cleared], d)"
  by (auto simp: insertData_def addAccountStates_def insert_states_def then_exec_def wrap_exec_def exec_def db_empty_def
      range_map_def upsert_latest_def Let_def addMessages_def addTransactions_def addBlocks_def)

lemma ex_broadcast: "a = ex_state \<or> a = ex_cleared \<Longrightarrow>
  broadcastNewData (se_codec (ex_save_env answer)) answer [a] [] = (case answer of None \<Rightarrow> (Ok (), [[]])
     | Some e \<Rightarrow> (Err (Wrap e ''failed to push info about new account states to Kafka''), []))"
  by (auto simp: broadcastNewData_def produceAccounts_def encode_account_def account_to_proto_def label_to_proto_def
      ex_save_env_def split: option.split)

lemma ex_envs: "se_messages (ex_save_env x) = rev" "se_broadcast_accounts (ex_save_env x) = rev" "se_broadcast_lts (ex_save_env x) = rev"
  "se_insert_accounts (ex_save_env x) = rev" "se_insert_lts (ex_save_env x) = rev" "se_latest (ex_save_env x) = rev" "se_produce (ex_save_env x) = x"
  by (simp_all add: ex_save_env_def)

lemma ex_first: "\<exists>w. saveBlock (ex_save_env (Some (ErrText ''timeout''))) ex_saved_block (db_empty, []) =
    (Err (Wrap (ErrText ''timeout'') ''failed to push info about new account states to Kafka''), ex_left_block, w)"
  using ex_insert[of ex_state "transaction_zero\<lparr>tx_account := Some ex_state\<rparr>" ex_saved_block]
  by (auto simp: saveBlock_def Let_def ex_envs ex_txs ex_uniqs ex_broadcast)

lemma ex_second: "\<exists>m d t. saveBlock (ex_save_env None) ex_left_block (db_empty, []) = (Ok (), m, d, t)"
  using ex_insert[of ex_cleared "transaction_zero\<lparr>tx_account := Some ex_cleared\<rparr>" ex_left_block]
  by (auto simp: saveBlock_def Let_def ex_envs ex_txs ex_uniqs ex_broadcast)

theorem second_attempt_loses_code_witness:
  "\<exists>e w d t. saveBlock (ex_save_env (Some (ErrText ''timeout''))) ex_saved_block (db_empty, []) = (Err e, ex_left_block, w) \<and>
     (\<exists>m. saveBlock (ex_save_env None) ex_left_block (db_empty, []) = (Ok (), m, d, t)) \<and>
     ch_code d (acc_code_hash ex_state) = Some []"
proof -
  obtain e w where r: "saveBlock (ex_save_env (Some (ErrText ''timeout''))) ex_saved_block (db_empty, []) = (Err e, ex_left_block, w)"
    using ex_first by blast
  obtain m d t where q: "saveBlock (ex_save_env None) ex_left_block (db_empty, []) = (Ok (), m, d, t)"
    using ex_second by blast
  have "accounts_in (block_transactions ex_saved_block) = {ex_state}" by (simp add: ex_txs accounts_in_Cons)
  with second_attempt_loses_code[OF r q, of ex_state] have "ch_code d (acc_code_hash ex_state) = Some []"
    by (simp add: save_env_ok_def ex_envs range_order_rev)
  with r q show ?thesis by blast
qed

end
