(* ===== verification/Tlb.thy ===== *)
theory Tlb
  imports Core
begin

section \<open>abi/tlb.go, abi/tlb_types.go, abi/abi.go: schemas of cells and the types made from them\<close>

text \<open>
  A schema (\<open>TLBFieldsDesc\<close>) is turned by reflection into a struct type the TL-B loader of
  tonutils fills from a cell, and a struct type is turned back into a schema. Go's types are the
  datatype \<open>go_type\<close> (those the code names, structs with the names and tags of their fields,
  pointers and maps with string keys); \<open>TyOther\<close> is any type the code does not know. The
  conversions of \<open>strcase\<close> are the argument \<open>case_lib\<close>. The definitions registered by
  name are an association list, threaded through \<open>registerDefinitions\<close>. A definition may
  refer to itself through the registry, so expanding definitions takes a bound \<open>n\<close> on the
  depth of expansion, and \<open>None\<close> means that the bound was reached. The code also writes the
  format it assumes for a field with subfields back into the schema; every reader of the schema
  assumes it again, so the model leaves the schema alone.
\<close>

datatype go_type =
    TyBool | TyInt nat | TyUInt nat | TyBytes | TyBigInt | TyCell | TyDict | TyMagic | TyCoins
  | TyAddr | TySnake | TyTelemint | TyDedust | TyAny | TyMap go_type | TyPtr go_type
  | TyStruct "go_field list" | TyOther string
and go_field = GoField (gf_name: string) (gf_tlb: string) (gf_json: string) (gf_type: go_type)

record case_lib =
  cs_snake :: "string \<Rightarrow> string"
  cs_camel :: "string \<Rightarrow> string"

type_synonym registry = "(tlb_type \<times> tlb_fields) list"

subsection \<open>The table of type names\<close>

definition type_names :: "(tlb_type \<times> go_type) list" where
  "type_names =
     [(''bool'', TyBool), (''int8'', TyInt 8), (''int16'', TyInt 16), (''int32'', TyInt 32),
      (''int64'', TyInt 64), (''uint8'', TyUInt 8), (''uint16'', TyUInt 16), (''uint32'', TyUInt 32),
      (''uint64'', TyUInt 64), (''bytes'', TyBytes), (''bigInt'', TyBigInt), (''cell'', TyCell),
      (''dict'', TyDict), (''tag'', TyMagic), (''coins'', TyCoins), (''addr'', TyAddr),
      (''string'', TySnake), (''telemintText'', TyTelemint), (''dedustAsset'', TyDedust)]"

definition format_type :: "tlb_type \<Rightarrow> go_type option" where
  "format_type f = map_of type_names f"

definition type_format :: "go_type \<Rightarrow> tlb_type option" where
  "type_format t = map_of (map prod.swap type_names) t"

subsection \<open>From a type to its schema\<close>

definition has_suffix :: "string \<Rightarrow> string \<Rightarrow> bool" where
  "has_suffix s t \<longleftrightarrow> has_prefix (rev s) (rev t)"

definition is_union_tag :: "string \<Rightarrow> bool" where
  "is_union_tag s \<longleftrightarrow> has_prefix s ''['' \<and> has_suffix s '']''"

fun make_fields :: "case_lib \<Rightarrow> bool \<Rightarrow> go_field list \<Rightarrow> tlb_fields res"
and make_field :: "case_lib \<Rightarrow> go_field \<Rightarrow> tlb_field res" where
  "make_fields C skip [] = Ok []"
| "make_fields C skip (f # fs) =
     (if skip \<and> gf_type f = TyMagic then make_fields C False fs
      else rbind (make_field C f) (\<lambda>d. rbind (make_fields C False fs) (\<lambda>ds. Ok (d # ds))))"
| "make_field C (GoField n tag js t) =
     (case type_format t of
        Some ft \<Rightarrow> Ok (TLBField (cs_snake C n) tag ft False [])
      | None \<Rightarrow>
         (case t of
            TyPtr (TyStruct gs) \<Rightarrow> rbind (rwrap n (make_fields C False gs))
              (\<lambda>ds. Ok (TLBField (cs_snake C n) tag ''struct'' False ds))
          | TyStruct gs \<Rightarrow> rbind (rwrap n (make_fields C False gs))
              (\<lambda>ds. Ok (TLBField (cs_snake C n) tag ''struct'' False ds))
          | _ \<Rightarrow> if is_union_tag tag then Ok (TLBField (cs_snake C n) tag [] False [])
                 else Err (ErrText ''unknown structField type'')))"

definition tlbMakeDesc :: "case_lib \<Rightarrow> bool \<Rightarrow> go_type \<Rightarrow> tlb_fields res" where
  "tlbMakeDesc C skip t =
     (case t of TyStruct fs \<Rightarrow> make_fields C skip fs
      | _ \<Rightarrow> Panic ''reflect: NumField of non-struct type'')"

subsection \<open>From the tag of a field to its default type\<close>

fun str_join :: "char \<Rightarrow> string list \<Rightarrow> string" where
  "str_join sep [] = []"
| "str_join sep [s] = s"
| "str_join sep (s # t # ts) = s @ sep # str_join sep (t # ts)"

definition tlbParseSettingsInt :: "string list \<Rightarrow> go_type res" where
  "tlbParseSettingsInt settings =
     (if settings = [] then Panic ''index out of range''
      else if settings ! 0 \<noteq> ''##'' then Err (ErrText ''wrong int settings'')
      else if length settings < 2 then Panic ''index out of range''
      else (case parse_uint 10 64 (settings ! 1) of
              Ok k \<Rightarrow>
                if k \<le> 8 then Ok (TyUInt 8) else if k \<le> 16 then Ok (TyUInt 16)
                else if k \<le> 32 then Ok (TyUInt 32) else if k \<le> 64 then Ok (TyUInt 64)
                else if k \<le> 256 then Ok TyBigInt
                else Err (ErrText ''too much bits for ## tag'')
            | _ \<Rightarrow> Err (ErrText ''corrupted num bits in ## tag'')))"

definition some_res :: "'a res \<Rightarrow> 'a option res" where
  "some_res r = rbind r (\<lambda>x. Ok (Some x))"

text \<open>\<open>settings\<close> after the optional \<open>inline\<close> of a dictionary tag was dropped.\<close>

definition dict_args :: "string list \<Rightarrow> string list" where
  "dict_args settings = (if settings ! 1 = ''inline'' then tl settings else settings)"

lemma length_str_split: "sum_list (map (\<lambda>s. Suc (length s)) (str_split sep s)) = Suc (length s)"
  by (induction s) (auto split: list.split)

lemma str_split_ne [simp]: "str_split sep s \<noteq> []"
  by (induction s) (auto split: list.split)

lemma length_str_join: "xs \<noteq> [] \<Longrightarrow> Suc (length (str_join sep xs)) = sum_list (map (\<lambda>s. Suc (length s)) xs)"
  by (induction sep xs rule: str_join.induct) auto

lemma str_join_split: "str_join sep (str_split sep s) = s"
proof (induction s)
  case (Cons c s)
  then show ?case by (cases "str_split sep s"; cases "tl (str_split sep s)") auto
qed simp

lemma length_str_join_drop:
  assumes "k < length xs" and "0 < k"
  shows "length (str_join sep (drop k xs)) < length (str_join sep xs)"
proof -
  have "sum_list (map (\<lambda>s. Suc (length s)) xs) =
      sum_list (map (\<lambda>s. Suc (length s)) (take k xs)) + sum_list (map (\<lambda>s. Suc (length s)) (drop k xs))"
    by (metis append_take_drop_id map_append sum_list_append)
  moreover have "0 < sum_list (map (\<lambda>s. Suc (length s)) (take k xs))"
    using assms by (cases xs; cases k) auto
  ultimately show ?thesis
    using length_str_join[of xs sep] length_str_join[of "drop k xs" sep] assms by fastforce
qed

lemma length_trim_space: "length (trim_space s) \<le> length s"
  unfolding trim_space_def length_rev
  by (rule order_trans[OF length_dropWhile_le]) (simp add: length_dropWhile_le)

function tlbParseSettings :: "registry \<Rightarrow> string \<Rightarrow> go_type option res"
and tlbParseSettingsDict :: "registry \<Rightarrow> string list \<Rightarrow> go_type option res" where
  "tlbParseSettings R tag0 =
     (let tag = trim_space tag0; settings = str_split CHR '' '' tag; s0 = hd settings in
      if tag = ''-'' then Ok None
      else if is_union_tag s0 then
        (if \<exists>dn \<in> set (str_split CHR '','' (butlast (tl tag))). map_of R dn = None
         then Err (ErrText ''cannot find definition for type inside union'') else Ok (Some TyAny))
      else if s0 = ''maybe'' then Ok (Some TyCell)
      else if s0 = ''either'' then
        (if length settings < 3 then Err (ErrText ''either tag should have 2 args'') else Ok (Some TyCell))
      else if s0 = ''##'' then some_res (tlbParseSettingsInt settings)
      else if s0 = ''addr'' then Ok (Some TyAddr)
      else if s0 = ''bool'' then Ok (Some TyBool)
      else if s0 = ''bits'' then Ok (Some TyBytes)
      else if s0 = ''^'' \<or> s0 = ''.'' then
        (if length settings = 1 then Ok (Some TyCell)
         else tlbParseSettings R (str_join CHR '' '' (drop 1 settings)))
      else if s0 = ''dict'' then tlbParseSettingsDict R settings
      else Err (ErrText ''cannot deserialize field as tag''))"
| "tlbParseSettingsDict R settings =
     (if settings = [] then Panic ''index out of range''
      else if settings ! 0 \<noteq> ''dict'' then Err (ErrText ''wrong dict settings'')
      else if length settings < 2 then Panic ''index out of range''
      else let args = dict_args settings in
        if length args < 2 then Panic ''index out of range''
        else if \<not> is_ok (parse_uint 10 64 (args ! 1))
        then Err (ErrText ''cannot deserialize field as dict, bad size'')
        else if length args < 4 then Ok (Some TyDict)
        else rbind (tlbParseSettings R (str_join CHR '' '' (drop 3 args))) (\<lambda>t.
             case t of None \<Rightarrow> Panic ''nil pointer dereference'' | Some t \<Rightarrow> Ok (Some (TyMap t))))"
  by pat_completeness auto
termination
proof (relation "measure (case_sum (\<lambda>(R, tag). 2 * length tag + 1) (\<lambda>(R, ss). 2 * length (str_join CHR '' '' ss)))",
    goal_cases)
  case (2 R tag0 tag settings s0)
  have "length settings \<noteq> 0" using 2 by simp
  then have "length (str_join CHR '' '' (drop 1 settings)) < length (str_join CHR '' '' settings)"
    using 2 by (intro length_str_join_drop) (auto simp: Suc_lessI)
  also have "\<dots> \<le> length tag0"
    using length_trim_space[of tag0] by (simp add: 2 str_join_split)
  finally show ?case by simp
next
  case (3 R tag0 tag settings s0)
  then show ?case using length_trim_space[of tag0] by (simp add: str_join_split)
next
  case (4 R settings args)
  have "length (str_join CHR '' '' (drop 3 args)) < length (str_join CHR '' '' args)"
    using 4 by (intro length_str_join_drop) auto
  also have "\<dots> \<le> length (str_join CHR '' '' settings)"
    using 4 length_str_join_drop[of 1 settings "CHR '' ''"]
    by (auto simp: dict_args_def drop_Suc split: if_splits)
  finally show ?case by simp
qed auto


subsection \<open>From a schema to a struct type\<close>

text \<open>
  \<open>reflect.StructOf\<close> panics on a field without a name, on a name that is no exported
  identifier and on two fields of one name. A byte from 128 on belongs to a letter outside ASCII
  and is taken for one.
\<close>

definition ident_char :: "char \<Rightarrow> bool" where
  "ident_char c \<longleftrightarrow>
     (let n = of_char c :: nat in
      65 \<le> n \<and> n \<le> 90 \<or> 97 \<le> n \<and> n \<le> 122 \<or> n = 95 \<or> 128 \<le> n)"

definition exported_name :: "string \<Rightarrow> bool" where
  "exported_name s \<longleftrightarrow>
     s \<noteq> [] \<and> ident_char (hd s) \<and> hd s \<noteq> CHR ''_'' \<and> \<not> (97 \<le> (of_char (hd s) :: nat) \<and> (of_char (hd s) :: nat) \<le> 122) \<and>
     list_all (\<lambda>c. ident_char c \<or> (48 \<le> (of_char c :: nat) \<and> (of_char c :: nat) \<le> 57)) s"

definition struct_of :: "go_field list \<Rightarrow> go_type res" where
  "struct_of fs =
     (if list_all (\<lambda>f. exported_name (gf_name f)) fs \<and> distinct (map gf_name fs)
      then Ok (TyStruct fs) else Panic ''reflect.StructOf'')"

text \<open>A computation that may also run out of the bound.\<close>

fun obind :: "'a res option \<Rightarrow> ('a \<Rightarrow> 'b res option) \<Rightarrow> 'b res option" where
  "obind None f = None"
| "obind (Some (Ok x)) f = f x"
| "obind (Some (Err e)) f = Some (Err e)"
| "obind (Some (Panic p)) f = Some (Panic p)"

definition owrap :: "string \<Rightarrow> 'a res option \<Rightarrow> 'a res option" where
  "owrap m r = map_option (rwrap m) r"

text \<open>The format the code assumes for a field.\<close>

definition field_format :: "tlb_field \<Rightarrow> tlb_type" where
  "field_format f = (if tf_fields f \<noteq> [] \<and> tf_format f = [] then ''struct'' else tf_format f)"

definition settings_type :: "registry \<Rightarrow> string \<Rightarrow> go_type res" where
  "settings_type R tag =
     (case rwrap ''parse tlb settings with tag'' (tlbParseSettings R tag) of
        Ok (Some t) \<Rightarrow> Ok t
      | Ok None \<Rightarrow> Err (ErrText ''parse tlb settings with tag'')
      | Err e \<Rightarrow> Err e | Panic p \<Rightarrow> Panic p)"

function (sequential) parse_fields :: "case_lib \<Rightarrow> registry \<Rightarrow> nat \<Rightarrow> bool \<Rightarrow> tlb_fields \<Rightarrow> go_field list res option"
and parse_field :: "case_lib \<Rightarrow> registry \<Rightarrow> nat \<Rightarrow> bool \<Rightarrow> tlb_field \<Rightarrow> go_field res option"
and tlbMapFormat :: "case_lib \<Rightarrow> registry \<Rightarrow> nat \<Rightarrow> tlb_type \<Rightarrow> string \<Rightarrow> go_type res option" where
  "parse_fields C R n skip [] = Some (Ok [])"
| "parse_fields C R n skip (f # fs) =
     (if skip \<and> tf_optional f then parse_fields C R n skip fs
      else obind (parse_field C R n skip f) (\<lambda>g.
           obind (parse_fields C R n skip fs) (\<lambda>gs. Some (Ok (g # gs)))))"
| "parse_field C R n skip (TLBField nm tag fmt opt sub) =
     (let mk = (\<lambda>t. Some (Ok (GoField (cs_camel C nm) tag (cs_snake C nm) t))) in
      if field_format (TLBField nm tag fmt opt sub) = ''struct''
      then obind (owrap ''field with struct'' (obind (parse_fields C R n skip sub) (\<lambda>gs. Some (struct_of gs))))
             (\<lambda>t. mk (TyPtr t))
      else obind (owrap ''field'' (tlbMapFormat C R n (field_format (TLBField nm tag fmt opt sub)) tag)) mk)"
| "tlbMapFormat C R n fmt tag =
     (case format_type fmt of
        Some t \<Rightarrow> Some (Ok t)
      | None \<Rightarrow>
         if fmt = [] then Some (settings_type R tag)
         else (case map_of R fmt of
                 None \<Rightarrow> Some (Err (ErrText ''cannot find definition for format''))
               | Some d \<Rightarrow>
                  (case n of
                     0 \<Rightarrow> None
                   | Suc m \<Rightarrow>
                      obind (owrap ''creating new type from definition''
                               (obind (parse_fields C R m False d) (\<lambda>gs. Some (struct_of gs))))
                        (\<lambda>t. Some (Ok (if has_prefix tag ''dict'' then TyMap (TyPtr t) else TyPtr t))))))"
  by pat_completeness auto
termination
  by (relation "measures
        [case_sum (\<lambda>(C, R, n, s, fs). n) (case_sum (\<lambda>(C, R, n, s, f). n) (\<lambda>(C, R, n, fmt, tag). n)),
         case_sum (\<lambda>(C, R, n, s, fs). 2 * size_list size fs)
           (case_sum (\<lambda>(C, R, n, s, f). 2 * size f) (\<lambda>(C, R, n, fmt, tag). 0))]") auto

text \<open>\<open>tlbParseDesc\<close>; its first argument holds the fields the caller puts before.\<close>

definition tlbParseDesc :: "case_lib \<Rightarrow> registry \<Rightarrow> nat \<Rightarrow> bool \<Rightarrow> go_field list \<Rightarrow> tlb_fields \<Rightarrow> go_type res option" where
  "tlbParseDesc C R n skip pre schema =
     obind (parse_fields C R n skip schema) (\<lambda>gs. Some (struct_of (pre @ gs)))"


subsection \<open>Reading a cell by its schema\<close>

text \<open>
  \<open>tl_load\<close> is \<open>tlb.LoadFromCell\<close> of tonutils into a new value of the type,
  \<open>tl_marshal\<close> the JSON of such a value.
\<close>

record schema_lib =
  tl_load :: "go_type \<Rightarrow> cell \<Rightarrow> payload res"
  tl_marshal :: "payload \<Rightarrow> string res"

definition not_enough :: "goerr \<Rightarrow> bool" where
  "not_enough e \<longleftrightarrow> str_contains (err_text e) ''not enough data in reader'' \<or>
     str_contains (err_text e) ''no more refs exists''"

definition load_or_skip :: "schema_lib \<Rightarrow> (bool \<Rightarrow> go_type res option) \<Rightarrow> cell \<Rightarrow> payload res option" where
  "load_or_skip T new c =
     obind (owrap ''creating struct'' (new False)) (\<lambda>t.
       case tl_load T t c of
         Ok p \<Rightarrow> Some (Ok p)
       | Panic m \<Rightarrow> Some (Panic m)
       | Err e \<Rightarrow>
           if \<not> not_enough e then Some (Err (Wrap e ''load from cell''))
           else obind (owrap ''creating struct (skip optional)'' (new True)) (\<lambda>t.
                Some (rwrap ''load from cell (skip optional)'' (tl_load T t c))))"

definition fields_FromCell :: "case_lib \<Rightarrow> schema_lib \<Rightarrow> registry \<Rightarrow> nat \<Rightarrow> tlb_fields \<Rightarrow> cell \<Rightarrow> payload res option" where
  "fields_FromCell C T R n desc c = load_or_skip T (\<lambda>skip. tlbParseDesc C R n skip [] desc) c"

subsection \<open>Operations\<close>

text \<open>\<open>strings.ReplaceAll(s, "0x", "")\<close> and the padding of \<open>%08s\<close>.\<close>

fun drop_0x :: "string \<Rightarrow> string" where
  "drop_0x (a # b # s) = (if a = CHR ''0'' \<and> b = CHR ''x'' then drop_0x s else a # drop_0x (b # s))"
| "drop_0x s = s"

definition pad8 :: "string \<Rightarrow> string" where
  "pad8 s = replicate (8 - length s) (CHR ''0'') @ s"

fun show_hex :: "nat \<Rightarrow> string" where
  "show_hex n = (if n < 16 then [digit_char n] else show_hex (n div 16) @ [digit_char (n mod 16)])"

declare show_hex.simps [simp del]

definition op_field :: "string \<Rightarrow> go_field" where
  "op_field code = GoField ''Op'' (CHR ''#'' # pad8 (drop_0x code)) ''-'' TyMagic"

definition operation_New :: "case_lib \<Rightarrow> registry \<Rightarrow> nat \<Rightarrow> operation_desc \<Rightarrow> bool \<Rightarrow> go_type res option" where
  "operation_New C R n desc skip = tlbParseDesc C R n skip [op_field (od_code desc)] (od_body desc)"

definition operation_FromCell :: "case_lib \<Rightarrow> schema_lib \<Rightarrow> registry \<Rightarrow> nat \<Rightarrow> operation_desc \<Rightarrow> cell \<Rightarrow> payload res option" where
  "operation_FromCell C T R n desc c = load_or_skip T (operation_New C R n desc) c"

definition operationID :: "go_type \<Rightarrow> u32 res" where
  "operationID t =
     (case t of
        TyStruct (f # _) \<Rightarrow>
          if gf_type f \<noteq> TyMagic then Err (ErrText ''no magic type in first struct field'')
          else if length (gf_tlb f) \<noteq> 9 \<or> hd (gf_tlb f) \<noteq> CHR ''#''
          then Err (ErrText ''wrong tlb tag format'')
          else rbind (rwrap ''parse hex uint32'' (parse_uint 16 32 (tl (gf_tlb f)))) (\<lambda>k. Ok (word_of_nat k))
      | TyStruct [] \<Rightarrow> Panic ''reflect: Field index out of bounds''
      | _ \<Rightarrow> Panic ''reflect: Field of non-struct type'')"

text \<open>\<open>NewTLBDesc\<close> and \<open>NewOperationDesc\<close> of a value whose type has the given name.\<close>

definition newTLBDesc :: "case_lib \<Rightarrow> go_type \<Rightarrow> tlb_fields res" where
  "newTLBDesc C x =
     (case x of TyPtr t \<Rightarrow> tlbMakeDesc C False t | _ \<Rightarrow> Err (ErrText ''x should be a pointer''))"

definition newOperationDesc :: "case_lib \<Rightarrow> string \<Rightarrow> go_type \<Rightarrow> operation_desc res" where
  "newOperationDesc C tname x =
     (case x of
        TyPtr t \<Rightarrow>
          rbind (rwrap ''lookup operation id'' (operationID t)) (\<lambda>code.
          rbind (rwrap ''make tlb schema'' (tlbMakeDesc C True t)) (\<lambda>body.
          Ok \<lparr>od_name = cs_snake C tname, od_code = ''0x'' @ show_hex (unat code), od_type = [],
              od_body = body\<rparr>))
      | _ \<Rightarrow> Err (ErrText ''x should be a pointer''))"

subsection \<open>Registering definitions\<close>

text \<open>
  The registered definitions, and what \<open>tlb.RegisterWithName\<close> of tonutils has been given: the
  definitions whose first field is a constructor tag. A pass over the map of definitions goes in
  an arbitrary order and leaves those for the next pass that refer to an unknown definition.
\<close>

record tlb_state =
  ts_defs :: registry
  ts_unions :: "(tlb_type \<times> go_type) list"

definition register_definition :: "tlb_type \<Rightarrow> tlb_fields \<Rightarrow> go_type \<Rightarrow> tlb_state \<Rightarrow> tlb_state res" where
  "register_definition dn d dt S =
     (case dt of
        TyStruct (f # fs) \<Rightarrow>
          Ok (S\<lparr>ts_unions := (if gf_type f = TyMagic then AList.update dn dt (ts_unions S) else ts_unions S),
               ts_defs := AList.update dn d (ts_defs S)\<rparr>)
      | TyStruct [] \<Rightarrow> Panic ''reflect: Field index out of bounds''
      | _ \<Rightarrow> Panic ''reflect: Field of non-struct type'')"

fun register_pass :: "case_lib \<Rightarrow> nat \<Rightarrow> registry \<Rightarrow> tlb_state \<Rightarrow> (registry res \<times> tlb_state) option" where
  "register_pass C n [] S = Some (Ok [], S)"
| "register_pass C n ((dn, d) # defs) S =
     (case tlbParseDesc C (ts_defs S) n False [] d of
        None \<Rightarrow> None
      | Some (Panic p) \<Rightarrow> Some (Panic p, S)
      | Some (Err e) \<Rightarrow>
          if str_contains (err_text e) ''cannot find definition''
          then (case register_pass C n defs S of
                  Some (Ok nd, S') \<Rightarrow> Some (Ok ((dn, d) # nd), S')
                | r \<Rightarrow> r)
          else Some (Err (Wrap e ''parse definition''), S)
      | Some (Ok dt) \<Rightarrow>
          (case register_definition dn d dt S of
             Ok S' \<Rightarrow> register_pass C n defs S'
           | Err e \<Rightarrow> Some (Err e, S) | Panic p \<Rightarrow> Some (Panic p, S)))"

function register_from :: "case_lib \<Rightarrow> nat \<Rightarrow> (nat \<Rightarrow> tlb_type key_order) \<Rightarrow> nat \<Rightarrow> nat \<Rightarrow> registry \<Rightarrow> tlb_state \<Rightarrow>
    (unit res \<times> tlb_state) option" where
  "register_from C n ord depth maxDepth defs S =
     (case register_pass C n (range_map (ord depth) defs) S of
        None \<Rightarrow> None
      | Some (Err e, S') \<Rightarrow> Some (Err e, S')
      | Some (Panic p, S') \<Rightarrow> Some (Panic p, S')
      | Some (Ok nd, S') \<Rightarrow>
          if nd = [] then Some (Ok (), S')
          else if maxDepth < depth then Some (Err (ErrText ''cannot register definitions''), S')
          else register_from C n ord (Suc depth) maxDepth nd S')"
  by pat_completeness auto
termination
  by (relation "measure (\<lambda>(C, n, ord, depth, maxDepth, defs, S). Suc maxDepth - depth)") auto

declare register_from.simps [simp del]

definition registerDefinitions :: "case_lib \<Rightarrow> nat \<Rightarrow> (nat \<Rightarrow> tlb_type key_order) \<Rightarrow> registry \<Rightarrow> tlb_state \<Rightarrow>
    (unit res \<times> tlb_state) option" where
  "registerDefinitions C n ord defs S = register_from C n ord 0 16 defs S"

subsection \<open>Types that read themselves\<close>

definition telemint_LoadFromCell :: "cell_lib \<Rightarrow> slice \<Rightarrow> ((u8 \<times> string) \<times> slice) res" where
  "telemint_LoadFromCell L s =
     rbind (rwrap ''load len uint8'' (cl_loadUInt L 8 s)) (\<lambda>(l, s).
     rbind (rwrap ''load text slice'' (cl_loadSlice L (8 * l) s)) (\<lambda>(t, s).
     Ok ((word_of_nat l, map (\<lambda>b. char_of (unat b)) t), s)))"

definition snake_LoadFromCell :: "cell_lib \<Rightarrow> slice \<Rightarrow> string res" where
  "snake_LoadFromCell L s = cl_loadSnake L s"

text \<open>
  The assets of DeDust: a prefix of four bits, then for a jetton the workchain and the address, for
  an extra currency its id (\<open>tlb.LoadFromCell\<close> of the two structs, without their tag).
\<close>

definition dedust_LoadFromCell :: "cell_lib \<Rightarrow> slice \<Rightarrow> (dedust_asset \<times> slice) res" where
  "dedust_LoadFromCell L s =
     rbind (cl_loadUInt L 4 s) (\<lambda>(pfx, s).
     if pfx = 0 then Ok (AssetNative, s)
     else if pfx = 1 then rwrap ''failed to parse DedustAssetJetton''
       (rbind (cl_loadUInt L 8 s) (\<lambda>(w, s). rbind (cl_loadSlice L 256 s) (\<lambda>(a, s).
        Ok (AssetJetton (word_of_nat w) a, s))))
     else if pfx = 2 then rwrap ''failed to parse DedustAssetExtraCurrency''
       (rbind (cl_loadUInt L 32 s) (\<lambda>(i, s). Ok (AssetExtra (word_of_nat i), s)))
     else Err (ErrText ''unknown dedust asset type''))"

text \<open>
  The JSON of an asset; a nil asset is null. A zero currency id is left out. Byte slices are
  written in the standard base64 alphabet with padding.
\<close>

definition b64_std :: "bytes \<Rightarrow> string" where
  "b64_std bs = map (\<lambda>c. if c = CHR ''-'' then CHR ''+'' else if c = CHR ''_'' then CHR ''/'' else c) (b64_encode bs)
     @ replicate ((3 - length bs mod 3) mod 3) (CHR ''='')"

definition json_str :: "string \<Rightarrow> string" where
  "json_str s = CHR 0x22 # s @ [CHR 0x22]"

definition json_obj :: "(string \<times> string) list \<Rightarrow> string" where
  "json_obj kvs = ''{'' @ str_join CHR '','' (map (\<lambda>(k, v). json_str k @ '':'' @ v) kvs) @ ''}''"

definition dedust_MarshalJSON :: "dedust_asset option \<Rightarrow> string" where
  "dedust_MarshalJSON x =
     (case x of
        None \<Rightarrow> ''null''
      | Some AssetNative \<Rightarrow> json_obj [(''type'', json_str ''native'')]
      | Some (AssetJetton w a) \<Rightarrow> json_obj ([(''type'', json_str ''jetton''), (''workchain'', show_int (sint w))]
          @ (if a = [] then [] else [(''address'', json_str (b64_std a))]))
      | Some (AssetExtra i) \<Rightarrow> json_obj ([(''type'', json_str ''extra_currency'')]
          @ (if i = 0 then [] else [(''currency_id'', show_int (sint i))])))"

end
