(* ===== verification/Schema.thy ===== *)
theory Schema
  imports Tlb
begin

section \<open>Schemas: registering, expanding and describing them\<close>

text \<open>
  What \<open>Tlb\<close> models is shown to be sound here: a schema read against a larger registry
  gives the same type (\<open>parse_le\<close>), definitions registered once can always be expanded
  (\<open>parse_terminates\<close> by a rank, which the order of registration gives), passes in any order
  register every definition, and a type made from a schema is described by that schema again
  (\<open>parse_make\<close>).
\<close>

subsection \<open>The registry only matters where a definition is missing\<close>

definition missing :: "goerr \<Rightarrow> bool" where
  "missing e \<longleftrightarrow> str_contains (err_text e) ''cannot find definition''"

lemma str_contains_app: "str_contains t sub \<Longrightarrow> str_contains (s @ t) sub"
  by (induction s) auto

lemma str_contains_prefix: "has_prefix s sub \<Longrightarrow> str_contains s sub"
  by (cases s; cases sub) auto

lemma missing_Wrap [simp]: "missing e \<Longrightarrow> missing (Wrap e m)"
  unfolding missing_def err_text.simps by (intro str_contains_app) simp

text \<open>
  \<open>r\<close> is what a smaller registry gives where a larger one gives \<open>r'\<close>: the same value, or a
  complaint about a missing definition.
\<close>

definition res_le :: "'a res \<Rightarrow> 'a res \<Rightarrow> bool" where
  "res_le r r' \<longleftrightarrow> r = r' \<or> (\<exists>e. r = Err e \<and> missing e) \<or> \<not> is_ok r \<and> \<not> is_ok r'"

fun opt_ok :: "'a res option \<Rightarrow> bool" where
  "opt_ok (Some r) = is_ok r"
| "opt_ok None = False"

definition opt_le :: "'a res option \<Rightarrow> 'a res option \<Rightarrow> bool" where
  "opt_le r r' \<longleftrightarrow> r = r' \<or> (\<exists>e. r = Some (Err e) \<and> missing e) \<or> \<not> opt_ok r \<and> \<not> opt_ok r'"

lemma res_le_refl [simp]: "res_le r r" and opt_le_refl [simp]: "opt_le q q"
  by (simp_all add: res_le_def opt_le_def)

lemma res_le_missing [simp]: "missing e \<Longrightarrow> res_le (Err e) r"
  by (simp add: res_le_def)

lemma opt_le_missing [simp]: "missing e \<Longrightarrow> opt_le (Some (Err e)) r"
  by (simp add: opt_le_def)

lemma opt_le_Some: "opt_le (Some r) (Some r') \<longleftrightarrow> res_le r r'"
  by (simp add: opt_le_def res_le_def)

lemma not_ok_rbind: "\<not> is_ok r \<Longrightarrow> \<not> is_ok (rbind r f)" and not_ok_rwrap: "\<not> is_ok r \<Longrightarrow> \<not> is_ok (rwrap m r)"
  by (cases r; simp)+

lemma not_ok_obind: "\<not> opt_ok x \<Longrightarrow> \<not> opt_ok (obind x f)"
  by (cases x; cases "the x") auto

lemma not_ok_owrap: "\<not> opt_ok x \<Longrightarrow> \<not> opt_ok (owrap m x)"
  by (cases x) (auto simp: owrap_def not_ok_rwrap)

lemma is_ok_iff: "is_ok r \<longleftrightarrow> (\<exists>t. r = Ok t)"
  by (cases r) auto

lemma opt_ok_iff: "opt_ok x \<longleftrightarrow> (\<exists>t. x = Some (Ok t))"
  by (cases x) (auto simp: is_ok_iff)

lemma res_le_rbind:
  assumes "res_le r r'" and "\<And>t. res_le (f t) (g t)"
  shows "res_le (rbind r f) (rbind r' g)"
proof -
  consider t where "r = Ok t" "r' = Ok t" | e where "r = Err e" "missing e" | "\<not> is_ok r" "\<not> is_ok r'"
    using assms(1) unfolding res_le_def is_ok_iff by blast
  then show ?thesis
  proof cases
    case 3
    then show ?thesis unfolding res_le_def using not_ok_rbind by blast
  qed (use assms(2) in auto)
qed

lemma res_le_rwrap: "res_le r r' \<Longrightarrow> res_le (rwrap m r) (rwrap m r')"
  unfolding res_le_def using not_ok_rwrap missing_Wrap by fastforce

lemma opt_le_obind:
  assumes "opt_le x y" and "\<And>t. opt_le (f t) (g t)"
  shows "opt_le (obind x f) (obind y g)"
proof -
  consider t where "x = Some (Ok t)" "y = Some (Ok t)" | e where "x = Some (Err e)" "missing e"
    | "\<not> opt_ok x" "\<not> opt_ok y"
    using assms(1) unfolding opt_le_def opt_ok_iff by blast
  then show ?thesis
  proof cases
    case 3
    then show ?thesis unfolding opt_le_def using not_ok_obind by blast
  qed (use assms(2) in auto)
qed

lemma opt_le_owrap: "opt_le x y \<Longrightarrow> opt_le (owrap m x) (owrap m y)"
  unfolding opt_le_def using not_ok_owrap missing_Wrap by (fastforce simp: owrap_def)

lemma if_res_le: "(b \<Longrightarrow> res_le r r') \<Longrightarrow> (\<not> b \<Longrightarrow> res_le q q') \<Longrightarrow>
    res_le (if b then r else q) (if b then r' else q')"
  by simp

lemma missing_union: "missing (ErrText ''cannot find definition for type inside union'')"
  and missing_format: "missing (ErrText ''cannot find definition for format'')"
  by (simp_all add: missing_def)

declare tlbParseSettings.simps [simp del] tlbParseSettingsDict.simps [simp del]

lemma settings_le:
  assumes "map_of R \<subseteq>\<^sub>m map_of R'"
  shows "res_le (tlbParseSettings R tag) (tlbParseSettings R' tag)"
    and "res_le (tlbParseSettingsDict R ss) (tlbParseSettingsDict R' ss)"
  using assms
proof (induction R tag and R ss arbitrary: R' and R' rule: tlbParseSettings_tlbParseSettingsDict.induct)
  case (1 R tag0)
  have sub: "map_of R dn = None" if "map_of R' dn = None" for dn
    using that 1(3) by (auto simp: map_le_def dom_def)
  let ?t = "trim_space tag0"
  show ?case
  proof (cases "is_union_tag (hd (str_split CHR '' '' ?t))")
    case True
    then show ?thesis
      unfolding tlbParseSettings.simps[of R tag0] tlbParseSettings.simps[of R' tag0] Let_def
      using sub by (auto intro: res_le_missing missing_union)
  next
    case False
    note IH = 1(1)[OF refl refl refl _ False] 1(2)[OF refl refl refl _ False]
    show ?thesis
      unfolding tlbParseSettings.simps[of R tag0] tlbParseSettings.simps[of R' tag0] Let_def
        if_not_P[OF False]
      by (intro if_res_le IH 1(3) res_le_refl)
  qed
next
  case (2 R ss)
  note IH = 2(1)[OF _ _ _ refl _ _ _ 2(2)]
  let ?a = "dict_args ss"
  have "res_le (tlbParseSettings R (str_join CHR '' '' (drop 3 ?a))) (tlbParseSettings R' (str_join CHR '' '' (drop 3 ?a)))"
    if "ss \<noteq> []" "ss ! 0 = ''dict''" "\<not> length ss < 2" "\<not> length ?a < 2" "is_ok (parse_uint 10 64 (?a ! 1))" "\<not> length ?a < 4"
    using IH that by simp
  then show ?case
    unfolding tlbParseSettingsDict.simps[of R ss] tlbParseSettingsDict.simps[of R' ss] Let_def
    by (auto intro: res_le_rbind)
qed

lemma settings_type_le:
  assumes "map_of R \<subseteq>\<^sub>m map_of R'"
  shows "res_le (settings_type R tag) (settings_type R' tag)"
proof -
  have "settings_type Q tag = rbind (rwrap ''parse tlb settings with tag'' (tlbParseSettings Q tag))
      (\<lambda>t. case t of Some t \<Rightarrow> Ok t | None \<Rightarrow> Err (ErrText ''parse tlb settings with tag''))" for Q
    unfolding settings_type_def
    by (cases "rwrap ''parse tlb settings with tag'' (tlbParseSettings Q tag)") (simp_all split: option.split)
  then show ?thesis
    using settings_le(1)[OF assms, of tag] by (auto intro!: res_le_rbind res_le_rwrap)
qed

lemma parse_le:
  shows "map_of R \<subseteq>\<^sub>m map_of R' \<Longrightarrow> opt_le (parse_fields C R n skip fs) (parse_fields C R' n skip fs)"
    and "map_of R \<subseteq>\<^sub>m map_of R' \<Longrightarrow> opt_le (parse_field C R n skip f) (parse_field C R' n skip f)"
    and "map_of R \<subseteq>\<^sub>m map_of R' \<Longrightarrow> opt_le (tlbMapFormat C R n fmt tag) (tlbMapFormat C R' n fmt tag)"
proof (induction C R n skip fs and C R n skip f and C R n fmt tag
    rule: parse_fields_parse_field_tlbMapFormat.induct)
  case (4 C R n fmt tag)
  show ?case
  proof (cases "format_type fmt = None \<and> fmt \<noteq> []")
    case True
    show ?thesis
    proof (cases "map_of R fmt")
      case None
      with True show ?thesis using missing_format by simp
    next
      case (Some d)
      with 4(2) have "map_of R' fmt = Some d" by (metis domI map_le_def)
      with Some True 4 show ?thesis
        by (cases n) (auto intro!: opt_le_obind opt_le_owrap)
    qed
  qed (use settings_type_le[OF 4(2)] in \<open>auto simp: opt_le_Some split: option.splits\<close>)
qed (auto simp: Let_def intro!: opt_le_obind opt_le_owrap simp del: tlbMapFormat.simps)

lemma tlbParseDesc_le:
  "map_of R \<subseteq>\<^sub>m map_of R' \<Longrightarrow> opt_le (tlbParseDesc C R n skip pre d) (tlbParseDesc C R' n skip pre d)"
  unfolding tlbParseDesc_def by (intro opt_le_obind parse_le) auto

subsection \<open>How deep definitions are expanded\<close>

fun field_refs :: "tlb_field \<Rightarrow> tlb_type list" where
  "field_refs (TLBField nm tag fmt opt sub) =
     (if field_format (TLBField nm tag fmt opt sub) = ''struct'' then concat (map field_refs sub)
      else if format_type fmt = None \<and> fmt \<noteq> [] then [fmt] else [])"

definition refs :: "tlb_fields \<Rightarrow> tlb_type list" where
  "refs fs = concat (map field_refs fs)"

lemma obind_None: "obind x f = None \<longleftrightarrow> x = None \<or> (\<exists>t. x = Some (Ok t) \<and> f t = None)"
  by (cases x; cases "the x") auto

lemma obind_neq_None: "x \<noteq> None \<Longrightarrow> (\<And>t. f t \<noteq> None) \<Longrightarrow> obind x f \<noteq> None"
  by (auto simp: obind_None)

lemma obind_ex [simp]: "(\<exists>y. obind x f = Some y) \<longleftrightarrow>
   (\<exists>r. x = Some r) \<and> (\<forall>t. x = Some (Ok t) \<longrightarrow> (\<exists>y. f t = Some y))"
  by (cases x; cases "the x") auto

lemma owrap_None [simp]: "owrap m x = None \<longleftrightarrow> x = None" "owrap m None = None"
  by (simp_all add: owrap_def)

lemma field_format_eq: "field_format (TLBField nm tag fmt opt sub) \<noteq> ''struct'' \<Longrightarrow>
   field_format (TLBField nm tag fmt opt sub) = fmt"
  by (auto simp: field_format_def)

lemma parse_fields_keep: "\<not> (skip \<and> tf_optional f) \<Longrightarrow> parse_fields C R n skip (f # fs) =
    obind (parse_field C R n skip f) (\<lambda>g. obind (parse_fields C R n skip fs) (\<lambda>gs. Some (Ok (g # gs))))"
  and parse_field_struct: "field_format (TLBField nm tag fmt opt sub) = ''struct'' \<Longrightarrow>
    parse_field C R n skip (TLBField nm tag fmt opt sub) =
      obind (owrap ''field with struct'' (obind (parse_fields C R n skip sub) (\<lambda>gs. Some (struct_of gs))))
        (\<lambda>t. Some (Ok (GoField (cs_camel C nm) tag (cs_snake C nm) (TyPtr t))))"
  and parse_field_other: "field_format (TLBField nm tag fmt opt sub) \<noteq> ''struct'' \<Longrightarrow>
    parse_field C R n skip (TLBField nm tag fmt opt sub) =
      obind (owrap ''field'' (tlbMapFormat C R n fmt tag))
        (\<lambda>t. Some (Ok (GoField (cs_camel C nm) tag (cs_snake C nm) t)))"
  unfolding parse_fields.simps parse_field.simps Let_def
  by (simp_all only: if_not_P if_P if_False simp_thms) (frule field_format_eq, simp only:)

lemmas parse_field_cases = parse_field_struct parse_field_other

definition ranked :: "registry \<Rightarrow> (tlb_type \<Rightarrow> nat) \<Rightarrow> bool" where
  "ranked R rank \<longleftrightarrow>
     (\<forall>x d. map_of R x = Some d \<longrightarrow> (\<forall>y \<in> set (refs d). map_of R y \<noteq> None \<longrightarrow> rank y < rank x))"

definition ranks_below :: "registry \<Rightarrow> (tlb_type \<Rightarrow> nat) \<Rightarrow> nat \<Rightarrow> tlb_type list \<Rightarrow> bool" where
  "ranks_below R rank n ys \<longleftrightarrow> (\<forall>y \<in> set ys. map_of R y \<noteq> None \<longrightarrow> rank y < n)"

lemma ranks_below_simps [simp]:
  "ranks_below R rank n (refs (f # fs)) \<longleftrightarrow> ranks_below R rank n (field_refs f) \<and> ranks_below R rank n (refs fs)"
  "ranks_below R rank n (concat (map field_refs fs)) \<longleftrightarrow> ranks_below R rank n (refs fs)"
  "ranks_below R rank n [y] \<longleftrightarrow> (map_of R y \<noteq> None \<longrightarrow> rank y < n)"
  by (auto simp: ranks_below_def refs_def)

lemma ranks_below_def': "ranked R rank \<Longrightarrow> map_of R x = Some d \<Longrightarrow> rank x \<le> m \<Longrightarrow> ranks_below R rank m (refs d)"
  by (fastforce simp: ranked_def ranks_below_def)

lemma parse_terminates:
  shows "ranked R rank \<Longrightarrow> ranks_below R rank n (refs fs) \<Longrightarrow> parse_fields C R n skip fs \<noteq> None"
    and "ranked R rank \<Longrightarrow> ranks_below R rank n (field_refs f) \<Longrightarrow> parse_field C R n skip f \<noteq> None"
    and "ranked R rank \<Longrightarrow> (format_type fmt = None \<Longrightarrow> fmt \<noteq> [] \<Longrightarrow> ranks_below R rank n [fmt]) \<Longrightarrow>
      tlbMapFormat C R n fmt tag \<noteq> None"
proof (induction C R n skip fs and C R n skip f and C R n fmt tag
    rule: parse_fields_parse_field_tlbMapFormat.induct)
  case (2 C R n skip f fs)
  then show ?case by auto
next
  case (3 C R n skip nm tag fmt opt sub)
  show ?case
  proof (cases "field_format (TLBField nm tag fmt opt sub) = ''struct''")
    case True
    with 3(1)[OF _ True] 3(3,4) show ?thesis by (auto simp: obind_None Let_def)
  next
    case False
    with 3(2)[OF _ False 3(3)] 3(4) field_format_eq[OF False] show ?thesis
      unfolding parse_field_other[OF False]
      by (simp add: obind_None field_format_eq del: tlbMapFormat.simps not_None_eq split: if_splits)
  qed
next
  case (4 C R n fmt tag)
  show ?case
  proof (cases "format_type fmt = None \<and> fmt \<noteq> []")
    case True
    show ?thesis
    proof (cases "map_of R fmt")
      case (Some d)
      then obtain m where m: "n = Suc m" "rank fmt \<le> m"
        using 4(3) True by (cases n) auto
      then have "parse_fields C R m False d \<noteq> None"
        using 4(1)[of d m] 4(2) Some True ranks_below_def'[OF 4(2) Some m(2)] by simp
      with True Some m show ?thesis by (auto simp: obind_None)
    qed (use True in auto)
  qed (auto split: option.splits)
qed auto

lemma obind_Ok: "obind x f = Some (Ok y) \<longleftrightarrow> (\<exists>t. x = Some (Ok t) \<and> f t = Some (Ok y))"
  by (cases x; cases "the x") auto

lemma owrap_Ok [simp]: "owrap m x = Some (Ok y) \<longleftrightarrow> x = Some (Ok y)"
  by (cases x) (auto simp: owrap_def)

text \<open>A schema that was read has all its definitions registered.\<close>

lemma parse_refs:
  shows "\<not> skip \<Longrightarrow> parse_fields C R n skip fs = Some (Ok gs) \<Longrightarrow> set (refs fs) \<subseteq> fst ` set R"
    and "\<not> skip \<Longrightarrow> parse_field C R n skip f = Some (Ok g) \<Longrightarrow> set (field_refs f) \<subseteq> fst ` set R"
    and "format_type fmt = None \<Longrightarrow> fmt \<noteq> [] \<Longrightarrow> tlbMapFormat C R n fmt tag = Some (Ok t) \<Longrightarrow> fmt \<in> fst ` set R"
proof (induction C R n skip fs and C R n skip f and C R n fmt tag
    arbitrary: gs and g and t rule: parse_fields_parse_field_tlbMapFormat.induct)
  case (3 C R n skip nm tag fmt opt sub)
  show ?case
  proof (cases "field_format (TLBField nm tag fmt opt sub) = ''struct''")
    case True
    with 3(4) obtain gs where "parse_fields C R n skip sub = Some (Ok gs)"
      by (auto simp: Let_def obind_Ok)
    with 3(1)[OF _ True 3(3)] True show ?thesis by (auto simp: refs_def)
  next
    case False
    with 3(4) obtain t where t: "tlbMapFormat C R n fmt tag = Some (Ok t)"
      unfolding parse_field_other[OF False] by (auto simp: obind_Ok simp del: tlbMapFormat.simps)
    note IH = 3(2)[OF _ False, unfolded field_format_eq[OF False], OF refl _ _ t]
    show ?thesis
      using IH False field_format_eq[OF False] by (auto simp del: tlbMapFormat.simps)
  qed
next
  case (4 C R n fmt tag)
  then show ?case by (auto split: option.splits dest: map_of_SomeD intro: rev_image_eqI)
next
  case (2 C R n skip f fs)
  then have "set (field_refs f) \<subseteq> fst ` set R" "set (refs fs) \<subseteq> fst ` set R"
    by (auto simp: obind_Ok split: if_splits)
  then show ?case by (simp add: refs_def)
qed (simp add: refs_def)

lemma parse_more_eq:
  shows "n \<le> m \<Longrightarrow> parse_fields C R n skip fs \<noteq> None \<Longrightarrow> parse_fields C R m skip fs = parse_fields C R n skip fs"
    and "n \<le> m \<Longrightarrow> parse_field C R n skip f \<noteq> None \<Longrightarrow> parse_field C R m skip f = parse_field C R n skip f"
    and "n \<le> m \<Longrightarrow> tlbMapFormat C R n fmt tag \<noteq> None \<Longrightarrow> tlbMapFormat C R m fmt tag = tlbMapFormat C R n fmt tag"
proof (induction C R n skip fs and C R n skip f and C R n fmt tag
    arbitrary: m and m and m rule: parse_fields_parse_field_tlbMapFormat.induct)
  case (2 C R n skip f fs)
  show ?case
  proof (cases "skip \<and> tf_optional f")
    case True
    with 2(1)[OF True 2(4)] 2(5) show ?thesis by simp
  next
    case False
    then have ne: "parse_field C R n skip f \<noteq> None"
        "\<And>g. parse_field C R n skip f = Some (Ok g) \<Longrightarrow> parse_fields C R n skip fs \<noteq> None"
      using 2(5) unfolding parse_fields_keep[OF False] by (simp_all add: obind_None del: not_None_eq)
    then show ?thesis
      using 2(2)[OF False 2(4) ne(1)] 2(3)[OF False 2(4)] False
      unfolding parse_fields_keep[OF False]
      by (cases "parse_field C R n skip f"; cases "the (parse_field C R n skip f)") simp_all
  qed
next
  case (3 C R n skip nm tag fmt opt sub)
  show ?case
  proof (cases "field_format (TLBField nm tag fmt opt sub) = ''struct''")
    case True
    then have "parse_fields C R n skip sub \<noteq> None"
      using 3(4) by (auto simp: obind_None Let_def)
    with 3(1)[OF _ True 3(3)] True show ?thesis by simp
  next
    case False
    then have "tlbMapFormat C R n (field_format (TLBField nm tag fmt opt sub)) tag \<noteq> None"
      using 3(4) by (auto simp: obind_None Let_def simp del: tlbMapFormat.simps)
    with 3(2)[OF _ False 3(3)] False show ?thesis by (simp del: tlbMapFormat.simps)
  qed
next
  case (4 C R n fmt tag)
  show ?case
  proof (cases "format_type fmt = None \<and> fmt \<noteq> [] \<and> map_of R fmt \<noteq> None")
    case True
    then obtain d k where d: "map_of R fmt = Some d" "n = Suc k" "parse_fields C R k False d \<noteq> None"
      using 4(3) by (cases n; cases "parse_fields C R (n - 1) False (the (map_of R fmt))") auto
    moreover obtain j where "m = Suc j" "k \<le> j"
      using 4(2) d(2) by (cases m) auto
    ultimately show ?thesis using 4(1)[of d k j] True by simp
  qed (auto split: option.splits)
qed auto

lemma tlbParseDesc_more:
  assumes "n \<le> m" and "tlbParseDesc C R n skip pre d \<noteq> None"
  shows "tlbParseDesc C R m skip pre d = tlbParseDesc C R n skip pre d"
proof -
  have "parse_fields C R n skip d \<noteq> None"
    using assms(2) unfolding tlbParseDesc_def by (cases "parse_fields C R n skip d") auto
  with parse_more_eq(1)[OF assms(1) this] show ?thesis by (simp add: tlbParseDesc_def)
qed

text \<open>A registry in which every definition refers to earlier ones only.\<close>

definition topo :: "registry \<Rightarrow> bool" where
  "topo R \<longleftrightarrow> distinct (map fst R) \<and> (\<forall>i < length R. set (refs (snd (R ! i))) \<subseteq> fst ` set (take i R))"

definition index_of :: "registry \<Rightarrow> tlb_type \<Rightarrow> nat" where
  "index_of R x = length (takeWhile (\<lambda>p. fst p \<noteq> x) R)"

lemma index_of_less: "x \<in> fst ` set (take i R) \<Longrightarrow> index_of R x < i"
proof (induction R arbitrary: i)
  case (Cons p R)
  then show ?case by (cases i) (auto simp: index_of_def)
qed (simp add: index_of_def)

lemma index_of_nth: "map_of R x = Some d \<Longrightarrow> index_of R x < length R \<and> R ! index_of R x = (x, d)"
  by (induction R) (auto simp: index_of_def split: if_splits)

lemma topo_ranked: "topo R \<Longrightarrow> ranked R (index_of R)"
  unfolding ranked_def
proof (intro allI impI ballI)
  fix x d y
  assume R: "topo R" and x: "map_of R x = Some d" and y: "y \<in> set (refs d)"
  have i: "index_of R x < length R" and d: "snd (R ! index_of R x) = d"
    using index_of_nth[OF x] by simp_all
  have "\<forall>i < length R. set (refs (snd (R ! i))) \<subseteq> fst ` set (take i R)"
    using R by (simp add: topo_def)
  from subsetD[OF this[rule_format, OF i, unfolded d] y] show "index_of R y < index_of R x"
    by (rule index_of_less)
qed

lemma topo_parse:
  assumes "topo R" and "length R \<le> n"
  shows "tlbParseDesc C R n skip pre d \<noteq> None"
proof -
  have "ranks_below R (index_of R) n (refs d)"
    using assms(2) index_of_nth by (fastforce simp: ranks_below_def)
  from parse_terminates(1)[OF topo_ranked[OF assms(1)] this]
  show ?thesis by (simp add: tlbParseDesc_def obind_None)
qed

lemma topo_snoc:
  assumes "topo R" and "dn \<notin> fst ` set R" and "set (refs d) \<subseteq> fst ` set R"
  shows "topo (R @ [(dn, d)])"
  using assms by (auto simp: topo_def nth_append less_Suc_eq)

lemma tlbParseDesc_refs: "tlbParseDesc C R n False pre d = Some (Ok t) \<Longrightarrow> set (refs d) \<subseteq> fst ` set R"
  unfolding tlbParseDesc_def obind_Ok by (elim exE conjE) (rule parse_refs(1)[where skip = False], simp_all)

lemma register_definition_Ok:
  "register_definition dn d dt S = Ok S' \<Longrightarrow> ts_defs S' = AList.update dn d (ts_defs S)"
  by (auto simp: register_definition_def split: go_type.splits list.splits)

text \<open>What a pass over new definitions does.\<close>

definition names :: "registry \<Rightarrow> tlb_type set" where
  "names R = fst ` set R"

lemma names_simps [simp]: "names [] = {}" "names (p # R) = insert (fst p) (names R)"
  "names (R @ R') = names R \<union> names R'"
  by (auto simp: names_def)

lemma register_pass_topo:
  assumes "topo (ts_defs S)" and "distinct (map fst defs)" and "names defs \<inter> names (ts_defs S) = {}"
    and "length (ts_defs S) + length defs \<le> n"
  shows "\<exists>r S'. register_pass C n defs S = Some (r, S') \<and> topo (ts_defs S') \<and>
    names (ts_defs S') \<subseteq> names (ts_defs S) \<union> names defs \<and>
    length (ts_defs S') \<le> length (ts_defs S) + length defs \<and>
    (\<forall>nd. r = Ok nd \<longrightarrow> distinct (map fst nd) \<and> names nd \<subseteq> names defs \<and>
       names nd \<inter> names (ts_defs S') = {} \<and>
       length (ts_defs S') + length nd \<le> length (ts_defs S) + length defs)"
  using assms
proof (induction defs arbitrary: S)
  case (Cons p defs)
  obtain dn d where p: "p = (dn, d)" by (cases p)
  have "tlbParseDesc C (ts_defs S) n False [] d \<noteq> None"
    using Cons.prems by (intro topo_parse) auto
  then obtain r where r: "tlbParseDesc C (ts_defs S) n False [] d = Some r" by blast
  have fresh: "dn \<notin> fst ` set (ts_defs S)" "dn \<notin> names defs" "distinct (map fst defs)"
    using Cons.prems p by (auto simp: names_def)
  show ?case
  proof (cases r)
    case (Ok dt)
    show ?thesis
    proof (cases "register_definition dn d dt S")
      case R: (Ok S1)
      then have S1: "ts_defs S1 = ts_defs S @ [(dn, d)]"
        using fresh(1) by (simp add: register_definition_Ok alist_update_new)
      have "topo (ts_defs S1)"
        unfolding S1 using tlbParseDesc_refs[OF r[unfolded Ok]] Cons.prems(1) fresh(1) by (intro topo_snoc)
      moreover have "names defs \<inter> names (ts_defs S1) = {}"
        using Cons.prems(3) fresh(2) p by (auto simp: S1)
      ultimately show ?thesis
        using Cons.IH[of S1] Cons.prems(4) fresh(3) Ok R r p by (auto simp: S1; blast)
    qed (use Ok r p Cons.prems in auto)
  next
    case (Err e)
    show ?thesis
    proof (cases "str_contains (err_text e) ''cannot find definition''")
      case True
      from Cons.IH[of S] Cons.prems fresh p obtain r' S' where IH:
        "register_pass C n defs S = Some (r', S')" "topo (ts_defs S')"
        "names (ts_defs S') \<subseteq> names (ts_defs S) \<union> names defs"
        "length (ts_defs S') \<le> length (ts_defs S) + length defs"
        "\<forall>nd. r' = Ok nd \<longrightarrow> distinct (map fst nd) \<and> names nd \<subseteq> names defs \<and>
          names nd \<inter> names (ts_defs S') = {} \<and>
          length (ts_defs S') + length nd \<le> length (ts_defs S) + length defs"
        by auto
      have "dn \<notin> names (ts_defs S')"
        using IH(3) fresh by (auto simp: names_def)
      with IH fresh Err True r p show ?thesis
        by (cases r') (auto simp: names_def)
    qed (use Err r p Cons.prems in auto)
  qed (use r p Cons.prems in auto)
qed auto

lemma names_range_map:
  assumes "range_order ord" and "distinct (map fst defs)"
  shows "names (range_map ord defs) = names defs" and "distinct (map fst (range_map ord defs))"
    and "length (range_map ord defs) = length defs"
proof -
  have m: "mset (range_map ord defs) = mset defs"
    by (rule mset_range_map[OF assms])
  show "names (range_map ord defs) = names defs"
    using mset_eq_setD[OF m] by (simp only: names_def)
  have "mset (map fst (range_map ord defs)) = mset (map fst defs)"
    using m by simp
  from mset_eq_imp_distinct_iff[OF this] assms(2) show "distinct (map fst (range_map ord defs))"
    by simp
  show "length (range_map ord defs) = length defs"
    by (rule mset_eq_length[OF m])
qed

lemma register_from_topo:
  shows "\<forall>k. range_order (ord k) \<Longrightarrow> topo (ts_defs S) \<Longrightarrow> distinct (map fst defs) \<Longrightarrow> names defs \<inter> names (ts_defs S) = {} \<Longrightarrow>
    length (ts_defs S) + length defs \<le> n \<Longrightarrow>
    \<exists>r S'. register_from C n ord depth maxDepth defs S = Some (r, S') \<and> topo (ts_defs S') \<and>
      names (ts_defs S') \<subseteq> names (ts_defs S) \<union> names defs \<and>
      length (ts_defs S') \<le> length (ts_defs S) + length defs"
proof (induction C n ord depth maxDepth defs S rule: register_from.induct)
  case (1 C n ord depth maxDepth defs S)
  let ?ds = "range_map (ord depth) defs"
  note nm = names_range_map[OF spec[OF 1(2), of depth] 1(4)]
  have "names ?ds \<inter> names (ts_defs S) = {}" "length (ts_defs S) + length ?ds \<le> n"
    using 1(5,6) nm(1,3) by simp_all
  note P = register_pass_topo[OF 1(3) nm(2) this]
  from P[of C] obtain r S1 where pass: "register_pass C n ?ds S = Some (r, S1)"
    "topo (ts_defs S1)" "names (ts_defs S1) \<subseteq> names (ts_defs S) \<union> names defs"
    "length (ts_defs S1) \<le> length (ts_defs S) + length defs"
    and nd: "\<And>nd. r = Ok nd \<Longrightarrow> distinct (map fst nd) \<and> names nd \<subseteq> names defs \<and>
       names nd \<inter> names (ts_defs S1) = {} \<and>
       length (ts_defs S1) + length nd \<le> length (ts_defs S) + length defs"
    unfolding nm by blast
  show ?case
  proof (cases "\<exists>nd. r = Ok nd \<and> nd \<noteq> [] \<and> \<not> maxDepth < depth")
    case True
    then obtain nd where r: "r = Ok nd" "nd \<noteq> []" "\<not> maxDepth < depth" by blast
    have "\<exists>r S'. register_from C n ord (Suc depth) maxDepth nd S1 = Some (r, S') \<and> topo (ts_defs S') \<and>
      names (ts_defs S') \<subseteq> names (ts_defs S1) \<union> names nd \<and>
      length (ts_defs S') \<le> length (ts_defs S1) + length nd"
      using 1(1)[OF pass(1)[unfolded r(1)] refl refl r(2,3)] 1(2) pass(2) nd[OF r(1)] 1(6) by simp
    moreover have "register_from C n ord depth maxDepth defs S = register_from C n ord (Suc depth) maxDepth nd S1"
      using pass(1) r by (subst register_from.simps) simp
    ultimately show ?thesis
      using pass(3,4) nd[OF r(1)] by fastforce
  next
    case False
    then show ?thesis
      using pass by (subst register_from.simps) (auto split: res.split)
  qed
qed

text \<open>The calls of the command line and of the services: one map of definitions after another.\<close>

fun register_all :: "case_lib \<Rightarrow> nat \<Rightarrow> ((nat \<Rightarrow> tlb_type key_order) \<times> registry) list \<Rightarrow> tlb_state \<Rightarrow> tlb_state option" where
  "register_all C n [] S = Some S"
| "register_all C n ((ord, defs) # calls) S =
     (case registerDefinitions C n ord defs S of
        None \<Rightarrow> None | Some (r, S') \<Rightarrow> register_all C n calls S')"

definition tlb_empty :: tlb_state where
  "tlb_empty = \<lparr>ts_defs = [], ts_unions = []\<rparr>"

lemma register_all_topo:
  assumes "topo (ts_defs S)" and "\<forall>(ord, defs) \<in> set calls. \<forall>k. range_order (ord k)"
    and "distinct (concat (map (map fst \<circ> snd) calls))"
    and "\<forall>(ord, defs) \<in> set calls. names defs \<inter> names (ts_defs S) = {}"
    and "length (ts_defs S) + length (concat (map snd calls)) \<le> n"
  shows "\<exists>S'. register_all C n calls S = Some S' \<and> topo (ts_defs S') \<and> length (ts_defs S') \<le> n"
  using assms
proof (induction calls arbitrary: S)
  case (Cons c calls)
  obtain ord defs where c: "c = (ord, defs)" by (cases c)
  have ord: "\<forall>k. range_order (ord k)" and d: "distinct (map fst defs)"
    and fresh: "names defs \<inter> names (ts_defs S) = {}" "length (ts_defs S) + length defs \<le> n"
    using Cons.prems c by auto
  from register_from_topo[OF ord Cons.prems(1) d fresh, of C 0 16]
  obtain r S1 where S1: "registerDefinitions C n ord defs S = Some (r, S1)" "topo (ts_defs S1)"
    "names (ts_defs S1) \<subseteq> names (ts_defs S) \<union> names defs"
    "length (ts_defs S1) \<le> length (ts_defs S) + length defs"
    unfolding registerDefinitions_def by blast
  have "names defs' \<inter> names (ts_defs S1) = {}" if "(ord', defs') \<in> set calls" for ord' defs'
  proof -
    have "set (map fst defs) \<inter> set (concat (map (map fst \<circ> snd) calls)) = {}"
      using Cons.prems(3) c by simp
    moreover have "set (map fst defs') \<subseteq> set (concat (map (map fst \<circ> snd) calls))"
      using that by force
    ultimately have "names defs' \<inter> names defs = {}"
      unfolding names_def set_map by blast
    moreover have "names defs' \<inter> names (ts_defs S) = {}"
      using Cons.prems(4) that by auto
    ultimately show ?thesis using S1(3) by blast
  qed
  then have "\<exists>S'. register_all C n calls S1 = Some S' \<and> topo (ts_defs S') \<and> length (ts_defs S') \<le> n"
    using Cons.prems c S1(2,4) by (intro Cons.IH) auto
  then show ?case using S1(1) c by simp
qed simp

lemma topo_Nil: "topo []"
  by (simp add: topo_def)

text \<open>
  C31. Expanding definitions ends. When every definition is registered under a name that was not
  registered before, registering them ends (whatever the order in which the maps are ranged over,
  also when a definition is not found or does not parse), and after it every schema is turned into
  a type or an error: a depth of expansion equal to the number of definitions is enough, and a
  larger bound changes nothing.
\<close>

theorem schema_expansion_terminates:
  assumes "\<forall>(ord, defs) \<in> set calls. \<forall>k. range_order (ord k)"
    and "distinct (concat (map (map fst \<circ> snd) calls))"
    and "length (concat (map snd calls)) \<le> n"
  shows "\<exists>S. register_all C n calls tlb_empty = Some S \<and>
    (\<forall>skip pre schema. \<exists>r. \<forall>m \<ge> length (ts_defs S). tlbParseDesc C (ts_defs S) m skip pre schema = Some r)"
proof -
  obtain S where S: "register_all C n calls tlb_empty = Some S" "topo (ts_defs S)"
    using register_all_topo[of tlb_empty calls n C] assms by (auto simp: tlb_empty_def topo_Nil names_def)
  have "\<exists>r. \<forall>m \<ge> length (ts_defs S). tlbParseDesc C (ts_defs S) m skip pre schema = Some r" for skip pre schema
    using topo_parse[OF S(2) order_refl, of C skip pre schema] tlbParseDesc_more by fastforce
  with S(1) show ?thesis by blast
qed

definition plain_case :: case_lib where
  "plain_case = \<lparr>
     cs_snake = (\<lambda>s. case s of [] \<Rightarrow> [] | c # cs \<Rightarrow>
       (let k = of_char c :: nat in if 65 \<le> k \<and> k \<le> 90 then char_of (k + 32) # cs else c # cs)),
     cs_camel = (\<lambda>s. case s of [] \<Rightarrow> [] | c # cs \<Rightarrow>
       (let k = of_char c :: nat in if 97 \<le> k \<and> k \<le> 122 then char_of (k - 32) # cs else c # cs))\<rparr>"

definition ex_leaf :: "tlb_type \<times> tlb_fields" where
  "ex_leaf = (''leaf'', [TLBField ''amount'' ''## 64'' [] False []])"

definition ex_node :: "tlb_type \<times> tlb_fields" where
  "ex_node = (''node'', [TLBField ''left'' ''.'' ''leaf'' False []])"

theorem schema_expansion_terminates_witness:
  "\<exists>S. register_all plain_case 2 [(\<lambda>k. rev, [ex_leaf, ex_node])] tlb_empty = Some S \<and>
    (\<forall>skip pre schema. \<exists>r. \<forall>m \<ge> length (ts_defs S). tlbParseDesc plain_case (ts_defs S) m skip pre schema = Some r)"
  using schema_expansion_terminates[of "[(\<lambda>k. rev, [ex_leaf, ex_node])]" 2 plain_case]
  by (simp add: range_order_rev ex_leaf_def ex_node_def)

text \<open>
  Registering a name again can make a definition refer to itself: a definition that mentions
  its own name is read against the old one and accepted, and from then on expanding it never ends,
  whatever the depth (the process overflows its stack on the first message or get method that
  uses it).
\<close>

lemma self_reference_None:
  assumes "map_of R dn = Some [TLBField nm tag dn False []]" and "format_type dn = None"
    and "dn \<noteq> []" "dn \<noteq> ''struct''"
  shows "parse_fields C R n skip [TLBField nm tag dn False []] = None"
  using assms by (induction n arbitrary: skip) (simp_all add: field_format_def)

lemma settings_u64: "tlbParseSettings R ''## 64'' = Ok (Some (TyUInt 64))"
  by (simp add: tlbParseSettings.simps trim_space_def is_blank_def is_union_tag_def has_suffix_def Let_def
      tlbParseSettingsInt_def parse_uint_def digit_val_def some_res_def)

lemma range_map_single: "range_order ord \<Longrightarrow> range_map ord [(k, v)] = [(k, v)]"
  using mset_range_map[of ord "[(k, v)]"] by simp

lemma struct_of_single: "exported_name (gf_name f) \<Longrightarrow> struct_of [f] = Ok (TyStruct [f])"
  by (simp add: struct_of_def)

lemma register_single:
  assumes "\<forall>k. range_order (ord k)" and "tlbParseDesc C (ts_defs S) n False [] d = Some (Ok (TyStruct (f # fs)))"
    and "gf_type f \<noteq> TyMagic"
  shows "registerDefinitions C n ord [(dn, d)] S = Some (Ok (), S\<lparr>ts_defs := AList.update dn d (ts_defs S)\<rparr>)"
  unfolding registerDefinitions_def
  by (subst register_from.simps) (simp add: range_map_single assms register_definition_def)

lemma format_type_Nil: "format_type [] = None"
  by (simp add: format_type_def type_names_def)

theorem redefinition_never_terminates:
  assumes "format_type dn = None" and "dn \<noteq> []" "dn \<noteq> ''struct''"
    and "exported_name (cs_camel C nm)" and "\<forall>k. range_order (ord k)" and "0 < n"
  shows "\<exists>S. register_all C n [(ord, [(dn, [TLBField nm ''## 64'' [] False []])]), (ord, [(dn, [TLBField nm ''.'' dn False []])])]
      tlb_empty = Some S \<and> map_of (ts_defs S) dn = Some [TLBField nm ''.'' dn False []] \<and>
    (\<forall>m skip pre. tlbParseDesc C (ts_defs S) m skip pre [TLBField nm ''.'' dn False []] = None)"
proof -
  let ?d = "[TLBField nm ''## 64'' [] False []]" and ?e = "[TLBField nm ''.'' dn False []]"
  obtain m where n: "n = Suc m" using assms(6) by (cases n) auto
  have d: "parse_fields C R k False ?d = Some (Ok [GoField (cs_camel C nm) ''## 64'' (cs_snake C nm) (TyUInt 64)])" for R k
    by (simp add: field_format_def format_type_Nil settings_type_def settings_u64 owrap_def)
  have st: "struct_of [GoField (cs_camel C nm) tag js t] = Ok (TyStruct [GoField (cs_camel C nm) tag js t])" for tag js t
    by (simp add: struct_of_single assms(4))
  have 1: "registerDefinitions C n ord [(dn, ?d)] tlb_empty = Some (Ok (), tlb_empty\<lparr>ts_defs := [(dn, ?d)]\<rparr>)"
    by (subst register_single[OF assms(5)], simp only: tlbParseDesc_def d obind.simps append.simps st)
      (simp_all add: tlb_empty_def)
  have e: "parse_fields C [(dn, ?d)] n False ?e = Some (Ok [GoField (cs_camel C nm) ''.'' (cs_snake C nm)
      (TyPtr (TyStruct [GoField (cs_camel C nm) ''## 64'' (cs_snake C nm) (TyUInt 64)]))])"
  proof -
    have "tlbMapFormat C [(dn, ?d)] n dn ''.'' =
        Some (Ok (TyPtr (TyStruct [GoField (cs_camel C nm) ''## 64'' (cs_snake C nm) (TyUInt 64)])))"
      unfolding tlbMapFormat.simps n using assms(1,2)
      by (simp add: d[of "[(dn, ?d)]" m] st owrap_def del: parse_fields.simps)
    then show ?thesis
      using assms(3) by (simp add: parse_field_other field_format_def owrap_def del: tlbMapFormat.simps parse_field.simps)
  qed
  have 2: "registerDefinitions C n ord [(dn, ?e)] (tlb_empty\<lparr>ts_defs := [(dn, ?d)]\<rparr>)
      = Some (Ok (), tlb_empty\<lparr>ts_defs := [(dn, ?e)]\<rparr>)"
  proof -
    have S: "ts_defs (tlb_empty\<lparr>ts_defs := [(dn, ?d)]\<rparr>) = [(dn, ?d)]" by simp
    show ?thesis
      by (subst register_single[OF assms(5)], simp only: S tlbParseDesc_def e obind.simps append.simps st)
        simp_all
  qed
  show ?thesis
    using self_reference_None[of "[(dn, ?e)]" dn nm "''.''" C] assms(1-3)
    by (simp add: 1 2 tlbParseDesc_def del: parse_fields.simps)
qed

theorem redefinition_never_terminates_witness:
  "\<exists>S. register_all plain_case 1 [((\<lambda>k. rev), [(''leaf'', [TLBField ''next'' ''## 64'' [] False []])]),
      ((\<lambda>k. rev), [(''leaf'', [TLBField ''next'' ''.'' ''leaf'' False []])])] tlb_empty = Some S \<and>
    map_of (ts_defs S) ''leaf'' = Some [TLBField ''next'' ''.'' ''leaf'' False []] \<and>
    (\<forall>m skip pre. tlbParseDesc plain_case (ts_defs S) m skip pre [TLBField ''next'' ''.'' ''leaf'' False []] = None)"
  by (rule redefinition_never_terminates)
    (simp_all add: format_type_def type_names_def plain_case_def exported_name_def ident_char_def range_order_rev Let_def
      char_of_def bit_0)

subsection \<open>Every definition gets registered\<close>

definition lower :: "(tlb_type \<Rightarrow> nat) \<Rightarrow> nat \<Rightarrow> registry \<Rightarrow> registry" where
  "lower rank k defs = filter (\<lambda>(dn, d). rank dn < k) defs"

lemma map_of_lower: "map_of (lower rank k defs) x = (if rank x < k then map_of defs x else None)"
  unfolding lower_def by (induction defs) auto

text \<open>Each definition parses once those of lower rank are registered.\<close>

definition layered :: "case_lib \<Rightarrow> nat \<Rightarrow> (tlb_type \<Rightarrow> nat) \<Rightarrow> registry \<Rightarrow> bool" where
  "layered C n rank defs \<longleftrightarrow> distinct (map fst defs) \<and>
     (\<forall>(dn, d) \<in> set defs. \<exists>f fs. tlbParseDesc C (lower rank (rank dn) defs) n False [] d = Some (Ok (TyStruct (f # fs))))"

lemma opt_le_okD1: "opt_le x y \<Longrightarrow> x = Some (Ok t) \<Longrightarrow> y = Some (Ok t)"
  and opt_le_okD2: "opt_le x y \<Longrightarrow> y = Some (Ok t) \<Longrightarrow> x = Some (Ok t) \<or> (\<exists>e. x = Some (Err e) \<and> missing e)"
  by (auto simp: opt_le_def)

lemma layered_parse:
  assumes "layered C n rank defs" and "(dn, d) \<in> set defs" and "map_of R \<subseteq>\<^sub>m map_of defs"
  obtains f fs where "tlbParseDesc C R n False [] d = Some (Ok (TyStruct (f # fs)))"
  | e where "tlbParseDesc C R n False [] d = Some (Err e)" and "missing e"
      and "\<exists>x \<in> names defs. rank x < rank dn \<and> map_of R x = None"
proof -
  let ?L = "lower rank (rank dn) defs"
  obtain f fs where L: "tlbParseDesc C ?L n False [] d = Some (Ok (TyStruct (f # fs)))"
    using assms(1,2) by (auto simp: layered_def)
  have "map_of ?L \<subseteq>\<^sub>m map_of defs"
    by (auto simp: map_le_def map_of_lower split: if_splits)
  then have D: "tlbParseDesc C defs n False [] d = Some (Ok (TyStruct (f # fs)))"
    using opt_le_okD1[OF tlbParseDesc_le L] by blast
  consider "tlbParseDesc C R n False [] d = Some (Ok (TyStruct (f # fs)))"
    | e where "tlbParseDesc C R n False [] d = Some (Err e)" "missing e"
    using opt_le_okD2[OF tlbParseDesc_le[OF assms(3)] D] by blast
  then show thesis
  proof cases
    case (2 e)
    have "\<not> map_of ?L \<subseteq>\<^sub>m map_of R"
      using opt_le_okD1[OF tlbParseDesc_le L] 2(1) by fastforce
    then obtain x v where x: "rank x < rank dn" "map_of defs x = Some v" "map_of R x \<noteq> Some v"
      by (auto simp: map_le_def map_of_lower dom_def split: if_splits)
    then have "map_of R x = None"
      using assms(3) unfolding map_le_def by (metis domIff option.distinct(1))
    moreover have "x \<in> names defs"
      using map_of_SomeD[OF x(2)] by (force simp: names_def)
    ultimately show thesis using that(2) 2 x(1) by blast
  qed (rule that(1))
qed

lemma register_pass_layered:
  assumes "layered C n rank defs"
  shows "set L \<subseteq> set defs \<Longrightarrow> distinct (map fst L) \<Longrightarrow> names L \<inter> names (ts_defs S) = {} \<Longrightarrow>
    map_of (ts_defs S) \<subseteq>\<^sub>m map_of defs \<Longrightarrow> (\<forall>x \<in> names defs. rank x < k \<longrightarrow> x \<in> names (ts_defs S)) \<Longrightarrow>
    \<exists>nd S'. register_pass C n L S = Some (Ok nd, S') \<and> map_of (ts_defs S') \<subseteq>\<^sub>m map_of defs \<and>
      set nd \<subseteq> set L \<and> distinct (map fst nd) \<and> names nd \<inter> names (ts_defs S') = {} \<and>
      names (ts_defs S') \<union> names nd = names (ts_defs S) \<union> names L \<and> (\<forall>x \<in> names nd. k < rank x)"
proof (induction L arbitrary: S)
  case (Cons p L)
  obtain dn d where p: "p = (dn, d)" by (cases p)
  have mem: "(dn, d) \<in> set defs" and fresh: "dn \<notin> names (ts_defs S)" "dn \<notin> names L"
    using Cons.prems p by (auto simp: names_def)
  have lookup: "map_of defs dn = Some d"
    using assms mem by (simp add: layered_def)
  from assms mem Cons.prems(4) show ?case
  proof (cases rule: layered_parse)
    case (1 f fs)
    then obtain S1 where S1: "register_definition dn d (TyStruct (f # fs)) S = Ok S1"
      "ts_defs S1 = AList.update dn d (ts_defs S)"
      using register_definition_Ok by (fastforce simp: register_definition_def)
    have n1: "names (ts_defs S1) = insert dn (names (ts_defs S))"
      using fresh(1) by (simp add: S1(2) alist_update_new names_def)
    have m1: "map_of (ts_defs S1) \<subseteq>\<^sub>m map_of defs"
      using Cons.prems(4) lookup by (auto simp: S1(2) update_conv' map_le_def)
    have "\<exists>nd S'. register_pass C n L S1 = Some (Ok nd, S') \<and> map_of (ts_defs S') \<subseteq>\<^sub>m map_of defs \<and>
      set nd \<subseteq> set L \<and> distinct (map fst nd) \<and> names nd \<inter> names (ts_defs S') = {} \<and>
      names (ts_defs S') \<union> names nd = names (ts_defs S1) \<union> names L \<and> (\<forall>x \<in> names nd. k < rank x)"
      using Cons.prems fresh p m1 by (intro Cons.IH) (auto simp: n1)
    then show ?thesis
      using 1 S1(1) p by (auto simp: n1)
  next
    case (2 e)
    have "k < rank dn"
      using 2(3) Cons.prems(5) by (auto simp: names_def map_of_eq_None_iff not_less dest: order.strict_trans1)
    moreover have "\<exists>nd S'. register_pass C n L S = Some (Ok nd, S') \<and> map_of (ts_defs S') \<subseteq>\<^sub>m map_of defs \<and>
      set nd \<subseteq> set L \<and> distinct (map fst nd) \<and> names nd \<inter> names (ts_defs S') = {} \<and>
      names (ts_defs S') \<union> names nd = names (ts_defs S) \<union> names L \<and> (\<forall>x \<in> names nd. k < rank x)"
      using Cons.prems p by (intro Cons.IH) auto
    then obtain nd S' where IH: "register_pass C n L S = Some (Ok nd, S')" "map_of (ts_defs S') \<subseteq>\<^sub>m map_of defs"
      "set nd \<subseteq> set L" "distinct (map fst nd)" "names nd \<inter> names (ts_defs S') = {}"
      "names (ts_defs S') \<union> names nd = names (ts_defs S) \<union> names L" "\<forall>x \<in> names nd. k < rank x"
      by blast
    moreover have "dn \<notin> names nd" "dn \<notin> names (ts_defs S')"
      using IH(6) fresh by blast+
    ultimately show ?thesis
      using 2(1,2) p unfolding missing_def by (auto simp: names_def)
  qed
qed auto

lemma map_le_names:
  assumes "map_of R \<subseteq>\<^sub>m map_of defs" and "names defs \<subseteq> names R"
  shows "map_of R = map_of defs"
proof
  fix x
  show "map_of R x = map_of defs x"
    using assms unfolding map_le_def names_def by (metis domIff map_of_eq_None_iff set_map subsetD)
qed

lemma register_from_layered:
  assumes "layered C n rank defs" and "\<forall>x \<in> names defs. rank x \<le> Suc maxDepth" and "\<forall>k. range_order (ord k)"
  shows "set P \<subseteq> set defs \<Longrightarrow> distinct (map fst P) \<Longrightarrow> names P \<inter> names (ts_defs S) = {} \<Longrightarrow>
    map_of (ts_defs S) \<subseteq>\<^sub>m map_of defs \<Longrightarrow> (\<forall>x \<in> names defs. rank x < depth \<longrightarrow> x \<in> names (ts_defs S)) \<Longrightarrow>
    names defs \<subseteq> names (ts_defs S) \<union> names P \<Longrightarrow>
    \<exists>S'. register_from C n ord depth maxDepth P S = Some (Ok (), S') \<and> map_of (ts_defs S') = map_of defs"
proof (induction "Suc maxDepth - depth" arbitrary: depth P S rule: less_induct)
  case less
  let ?L = "range_map (ord depth) P"
  note nm = names_range_map[OF spec[OF assms(3), of depth] less.prems(2)]
  have sub: "set ?L \<subseteq> set defs"
    using set_range_map[OF spec[OF assms(3), of depth] less.prems(2)] less.prems(1) by simp
  have "names ?L \<inter> names (ts_defs S) = {}"
    using less.prems(3) nm(1) by simp
  from register_pass_layered[OF assms(1) sub nm(2) this less.prems(4,5)]
  obtain nd S1 where pass: "register_pass C n ?L S = Some (Ok nd, S1)" "map_of (ts_defs S1) \<subseteq>\<^sub>m map_of defs"
    "set nd \<subseteq> set ?L" "distinct (map fst nd)" "names nd \<inter> names (ts_defs S1) = {}"
    "names (ts_defs S1) \<union> names nd = names (ts_defs S) \<union> names P" "\<forall>x \<in> names nd. depth < rank x"
    unfolding nm by blast
  show ?case
  proof (cases "nd = []")
    case True
    then have "map_of (ts_defs S1) = map_of defs"
      using less.prems(6) pass(2,6) by (intro map_le_names) auto
    with True pass(1) show ?thesis by (subst register_from.simps) simp
  next
    case False
    then obtain x where x: "x \<in> names nd" by (cases nd) auto
    have nd: "names nd \<subseteq> names defs"
      using pass(3) sub by (auto simp: names_def)
    then have depth: "depth \<le> maxDepth"
      using x pass(7) assms(2) by (metis leI not_less_eq order.strict_trans1 less_le_not_le order_trans subsetD)
    have low: "\<forall>x \<in> names defs. rank x < Suc depth \<longrightarrow> x \<in> names (ts_defs S1)"
    proof (intro ballI impI)
      fix y assume y: "y \<in> names defs" "rank y < Suc depth"
      then have "y \<notin> names nd" using pass(7) by fastforce
      with y(1) less.prems(6) pass(6) show "y \<in> names (ts_defs S1)" by blast
    qed
    have "\<exists>S'. register_from C n ord (Suc depth) maxDepth nd S1 = Some (Ok (), S') \<and> map_of (ts_defs S') = map_of defs"
    proof (rule less.hyps)
      show "Suc maxDepth - Suc depth < Suc maxDepth - depth" using depth by simp
      show "names defs \<subseteq> names (ts_defs S1) \<union> names nd" using less.prems(6) pass(6) by blast
    qed (use pass low sub in auto)
    with pass(1) False depth show ?thesis by (subst register_from.simps) simp
  qed
qed

text \<open>
  C13. Whatever the order in which the passes range over the map, every definition gets registered
  under its own schema and the call succeeds, when the definitions can be layered: each parses
  once the ones of lower layers are known, and there are at most 18 layers (ranks 0 to 17: the
  first call, then the calls at depths 1 to 17; the limit is only tested after a pass).
\<close>

theorem definitions_registered:
  assumes "layered C n rank defs" and "\<forall>(dn, d) \<in> set defs. rank dn \<le> 17" and "\<forall>k. range_order (ord k)"
  shows "\<exists>S. registerDefinitions C n ord defs tlb_empty = Some (Ok (), S) \<and> map_of (ts_defs S) = map_of defs \<and>
    (\<forall>(dn, d) \<in> set defs. \<exists>t. tlbParseDesc C (ts_defs S) n False [] d = Some (Ok t))"
proof -
  have "distinct (map fst defs)" using assms(1) by (simp add: layered_def)
  moreover have "\<forall>x \<in> names defs. rank x \<le> Suc 16"
    using assms(2) by (force simp: names_def)
  ultimately obtain S where S: "registerDefinitions C n ord defs tlb_empty = Some (Ok (), S)"
    "map_of (ts_defs S) = map_of defs"
    using register_from_layered[OF assms(1) _ assms(3), of 16 defs tlb_empty 0]
    by (auto simp: registerDefinitions_def tlb_empty_def)
  have "\<exists>t. tlbParseDesc C (ts_defs S) n False [] d = Some (Ok t)" if d: "(dn, d) \<in> set defs" for dn d
  proof -
    have "map_of (ts_defs S) \<subseteq>\<^sub>m map_of defs" by (simp add: S(2))
    from assms(1) d this show ?thesis
      by (cases rule: layered_parse) (auto simp: S(2) map_of_eq_None_iff names_def)
  qed
  with S show ?thesis by blast
qed

lemmas plain_case_eval = plain_case_def exported_name_def ident_char_def Let_def char_of_def bit_0

lemma leaf_fields: "parse_fields plain_case R n skip (snd ex_leaf) = Some (Ok [GoField ''Amount'' ''## 64'' ''amount'' (TyUInt 64)])"
  by (simp add: ex_leaf_def field_format_def format_type_Nil settings_type_def settings_u64 owrap_def plain_case_eval)

lemma exported_ex: "exported_name ''Amount''" "exported_name ''Left''"
  by (simp_all add: exported_name_def ident_char_def Let_def)

lemma parse_leaf: "tlbParseDesc plain_case R n False [] (snd ex_leaf) =
    Some (Ok (TyStruct [GoField ''Amount'' ''## 64'' ''amount'' (TyUInt 64)]))"
  by (simp add: tlbParseDesc_def leaf_fields struct_of_single exported_ex del: parse_fields.simps)

lemma parse_node:
  assumes "map_of R ''leaf'' = Some (snd ex_leaf)"
  shows "tlbParseDesc plain_case R (Suc n) False [] (snd ex_node) =
    Some (Ok (TyStruct [GoField ''Left'' ''.'' ''left'' (TyPtr (TyStruct [GoField ''Amount'' ''## 64'' ''amount'' (TyUInt 64)]))]))"
proof -
  have "tlbMapFormat plain_case R (Suc n) ''leaf'' ''.'' =
      Some (Ok (TyPtr (TyStruct [GoField ''Amount'' ''## 64'' ''amount'' (TyUInt 64)])))"
    unfolding tlbMapFormat.simps
    by (simp add: assms leaf_fields struct_of_single exported_ex owrap_def format_type_def type_names_def
        del: parse_fields.simps)
  moreover have "cs_camel plain_case ''left'' = ''Left''" "cs_snake plain_case ''left'' = ''left''"
    by (simp_all add: plain_case_eval)
  ultimately have "parse_fields plain_case R (Suc n) False (snd ex_node) =
      Some (Ok [GoField ''Left'' ''.'' ''left'' (TyPtr (TyStruct [GoField ''Amount'' ''## 64'' ''amount'' (TyUInt 64)]))])"
    by (simp add: ex_node_def parse_field_other field_format_def owrap_def del: tlbMapFormat.simps parse_field.simps)
  then show ?thesis
    by (simp add: tlbParseDesc_def struct_of_single exported_ex)
qed

theorem definitions_registered_witness:
  "\<exists>S. registerDefinitions plain_case 1 (\<lambda>k. rev) [ex_leaf, ex_node] tlb_empty = Some (Ok (), S) \<and>
    map_of (ts_defs S) = map_of [ex_leaf, ex_node] \<and>
    (\<forall>(dn, d) \<in> set [ex_leaf, ex_node]. \<exists>t. tlbParseDesc plain_case (ts_defs S) 1 False [] d = Some (Ok t))"
proof (rule definitions_registered)
  let ?rank = "\<lambda>dn. if dn = ''leaf'' then 0 else 1 :: nat"
  show "layered plain_case 1 ?rank [ex_leaf, ex_node]"
    using parse_leaf[of "[]" 1] parse_node[of "[ex_leaf]" 0]
    by (simp add: layered_def lower_def ex_leaf_def ex_node_def)
  show "\<forall>(dn, d) \<in> set [ex_leaf, ex_node]. ?rank dn \<le> 17" by (simp add: split_def)
qed (simp add: range_order_rev)

subsection \<open>A schema and the type made from it\<close>

text \<open>
  Schemas that need no registered definition: every format is a known type name, a struct, or left
  to the tag of the field, which then stands for a known type or a union. \<open>norm_field\<close> is
  such a field with its format written out.
\<close>

definition tag_type_ok :: "registry \<Rightarrow> string \<Rightarrow> bool" where
  "tag_type_ok R tag \<longleftrightarrow> (case settings_type R tag of
     Ok t \<Rightarrow> type_format t \<noteq> None \<or> (t = TyAny \<and> is_union_tag tag) | _ \<Rightarrow> False)"

definition tag_format :: "registry \<Rightarrow> string \<Rightarrow> tlb_type" where
  "tag_format R tag = (case settings_type R tag of
     Ok t \<Rightarrow> (case type_format t of Some ft \<Rightarrow> ft | None \<Rightarrow> []) | _ \<Rightarrow> [])"

fun plain_fields :: "case_lib \<Rightarrow> registry \<Rightarrow> tlb_fields \<Rightarrow> bool"
and plain_field :: "case_lib \<Rightarrow> registry \<Rightarrow> tlb_field \<Rightarrow> bool" where
  "plain_fields C R [] \<longleftrightarrow> True"
| "plain_fields C R (f # fs) \<longleftrightarrow> plain_field C R f \<and> plain_fields C R fs \<and>
     cs_camel C (tf_name f) \<notin> (\<lambda>g. cs_camel C (tf_name g)) ` set fs"
| "plain_field C R (TLBField nm tag fmt opt sub) \<longleftrightarrow>
     exported_name (cs_camel C nm) \<and> cs_snake C (cs_camel C nm) = nm \<and>
     (if field_format (TLBField nm tag fmt opt sub) = ''struct'' then plain_fields C R sub
      else format_type fmt \<noteq> None \<or> fmt = [] \<and> tag_type_ok R tag)"

fun norm_field :: "registry \<Rightarrow> tlb_field \<Rightarrow> tlb_field" where
  "norm_field R (TLBField nm tag fmt opt sub) =
     (if field_format (TLBField nm tag fmt opt sub) = ''struct''
      then TLBField nm tag ''struct'' False (map (norm_field R) sub)
      else if fmt = [] then TLBField nm tag (tag_format R tag) False []
      else TLBField nm tag fmt False [])"

lemma type_format_format: "format_type fmt = Some t \<Longrightarrow> type_format t = Some fmt"
  unfolding format_type_def type_format_def
  by (drule map_of_SomeD) (auto simp: type_names_def)

lemma type_format_struct [simp]: "type_format (TyPtr (TyStruct gs)) = None"
  by (simp add: type_format_def type_names_def)

lemma type_format_any [simp]: "type_format TyAny = None"
  by (simp add: type_format_def type_names_def)

lemma settings_type_opt_ok:
  "tag_type_ok R tag \<Longrightarrow> \<exists>t. settings_type R tag = Ok t \<and>
     (type_format t = Some (tag_format R tag) \<or> t = TyAny \<and> is_union_tag tag \<and> tag_format R tag = [])"
  by (auto simp: tag_type_ok_def tag_format_def split: res.splits)

lemma parse_make:
  shows "plain_fields C R fs \<Longrightarrow> \<exists>gs. parse_fields C R n False fs = Some (Ok gs) \<and>
      make_fields C False gs = Ok (map (norm_field R) fs) \<and> map gf_name gs = map (\<lambda>f. cs_camel C (tf_name f)) fs \<and>
      struct_of gs = Ok (TyStruct gs)"
    and "plain_field C R f \<Longrightarrow> \<exists>g. parse_field C R n False f = Some (Ok g) \<and> make_field C g = Ok (norm_field R f) \<and>
      gf_name g = cs_camel C (tf_name f) \<and> exported_name (gf_name g)"
proof (induction C R fs and C R f rule: plain_fields_plain_field.induct)
  case (1 C R)
  then show ?case by (simp add: struct_of_def)
next
  case (2 C R f fs)
  then obtain g gs where "parse_field C R n False f = Some (Ok g)" "make_field C g = Ok (norm_field R f)"
      "gf_name g = cs_camel C (tf_name f)" "exported_name (gf_name g)"
      "parse_fields C R n False fs = Some (Ok gs)" "make_fields C False gs = Ok (map (norm_field R) fs)"
      "map gf_name gs = map (\<lambda>f. cs_camel C (tf_name f)) fs" "struct_of gs = Ok (TyStruct gs)"
    by auto
  moreover from this(7) have "gf_name ` set gs = (\<lambda>f. cs_camel C (tf_name f)) ` set fs"
    by (metis image_set)
  ultimately show ?case
    using 2(3) by (auto simp: parse_fields_keep struct_of_def split: if_splits)
next
  case (3 C R nm tag fmt opt sub)
  show ?case
  proof (cases "field_format (TLBField nm tag fmt opt sub) = ''struct''")
    case True
    with 3 obtain gs where "parse_fields C R n False sub = Some (Ok gs)"
        "make_fields C False gs = Ok (map (norm_field R) sub)" "struct_of gs = Ok (TyStruct gs)"
      by auto
    with True 3(2) show ?thesis
      by (simp add: parse_field_struct owrap_def del: parse_field.simps)
  next
    case False
    note pf = parse_field_other[OF False, of C R n False]
    show ?thesis
    proof (cases "fmt = []")
      case True
      with 3(2) False obtain t where "settings_type R tag = Ok t"
        "type_format t = Some (tag_format R tag) \<or> t = TyAny \<and> is_union_tag tag \<and> tag_format R tag = []"
        using settings_type_opt_ok[of R tag] by (auto simp: format_type_Nil)
      with 3(2) False True pf show ?thesis
        by (auto simp: owrap_def format_type_Nil simp del: parse_field.simps)
    next
      case nn: False
      with 3(2) False obtain t where "format_type fmt = Some t" by auto
      with 3(2) False nn pf type_format_format show ?thesis
        by (auto simp: owrap_def simp del: parse_field.simps)
    qed
  qed
qed

lemma show_hex_digits: "c \<in> set (show_hex n) \<Longrightarrow> \<exists>d < 16. c = digit_char d"
proof (induction n rule: show_hex.induct)
  case (1 n)
  then show ?case by (subst (asm) show_hex.simps) (fastforce split: if_splits intro: exI[of _ "n mod 16"])
qed

lemma parse_digits_hex: "n \<le> maxv \<Longrightarrow> parse_digits 16 maxv 0 (show_hex n) = Ok n"
proof (induction n rule: show_hex.induct)
  case (1 n)
  then show ?case
    by (subst show_hex.simps) (auto simp: parse_digits_app digit_val_char)
qed

lemma length_show_hex: "n < 16 ^ Suc k \<Longrightarrow> length (show_hex n) \<le> Suc k"
proof (induction k arbitrary: n)
  case 0
  then show ?case by (subst show_hex.simps) simp
next
  case (Suc k)
  then have "length (show_hex (n div 16)) \<le> Suc k" by (intro Suc.IH) (simp add: less_mult_imp_div_less mult.commute)
  then show ?case by (subst show_hex.simps) simp
qed

lemma parse_digits_zeros: "parse_digits 16 maxv 0 (replicate k (CHR ''0'') @ s) = parse_digits 16 maxv 0 s"
  by (induction k) (simp_all add: digit_val_def)

lemma drop_0x_id: "CHR ''x'' \<notin> set s \<Longrightarrow> drop_0x s = s"
  by (induction s rule: drop_0x.induct) auto

lemma show_hex_no_x: "CHR ''x'' \<notin> set (show_hex n)"
proof
  assume "CHR ''x'' \<in> set (show_hex n)"
  then obtain d where "d < 16" "CHR ''x'' = digit_char d" using show_hex_digits by blast
  then have "digit_val CHR ''x'' = Some d" by (simp add: digit_val_char)
  with \<open>d < 16\<close> show False by (simp add: digit_val_def)
qed

lemma pad8_hex:
  fixes v :: u32
  shows "length (pad8 (show_hex (unat v))) = 8" and "parse_uint 16 32 (pad8 (show_hex (unat v))) = Ok (unat v)"
proof -
  have v: "unat v < 16 ^ Suc 7"
    using unsigned_less[of v, where 'a = nat] by simp
  then show len: "length (pad8 (show_hex (unat v))) = 8"
    using length_show_hex[OF v] by (simp add: pad8_def)
  then show "parse_uint 16 32 (pad8 (show_hex (unat v))) = Ok (unat v)"
    using v parse_digits_hex[of "unat v" "2 ^ 32 - 1"]
    by (auto simp: parse_uint_def) (simp add: pad8_def parse_digits_zeros)
qed


definition ex_op_desc :: operation_desc where
  "ex_op_desc = \<lparr>od_name = ''ping'', od_code = ''0x5f'', od_type = [],
     od_body = [TLBField ''amount'' ''## 64'' [] True [],
                TLBField ''params'' ''^'' [] False [TLBField ''left'' ''bool'' ''bool'' False []]]\<rparr>"

lemma u64_format: "tag_format R ''## 64'' = ''uint64''" and u64_ok: "tag_type_ok R ''## 64''"
  by (simp_all add: tag_format_def tag_type_ok_def settings_type_def settings_u64 type_format_def type_names_def)


text \<open>
  The comment of \<open>tlbParseSettings\<close> documents \<open>dict 256 -> array ^\<close>; the code
  reads what follows the arrow as the tag of the values and knows no tag \<open>array\<close>.
\<close>

lemma array_tag_rejected:
  "tlbParseSettings R ''dict 256 -> array ^'' = Err (ErrText ''cannot deserialize field as tag'')"
  by (simp add: tlbParseSettings.simps tlbParseSettingsDict.simps trim_space_def is_blank_def is_union_tag_def
      has_suffix_def Let_def dict_args_def parse_uint_def digit_val_def drop_Suc)

end
