(* ===== verification/Emulator.thy ===== *)
theory Emulator
  imports Schema TxMap
begin

section \<open>abi/get_emulator.go: running a get method\<close>

text \<open>
  The arguments of a get method are put on the stack of the virtual machine and its results are
  read from it, by the stack type and the format of their descriptions. The machine itself (tongo),
  the conversion of cells between tongo and tonutils and the building of cells are the arguments
  \<open>vm_lib\<close>; the registered definitions and the depth to which they are expanded are part of
  \<open>vm_env\<close>. Reading a cell or a slice writes the assumed format into the description, so the
  reading functions return the description as well.
\<close>

datatype vm_value =
    VmStkNull
  | VmStkTinyInt i64
  | VmStkInt int
  | VmStkCell cell
  | VmStkSlice cell
  | VmStkOther string

record emulator =
  em_account :: string
  em_code :: string
  em_data :: string
  em_cfg :: string
  em_libraries :: string

record vm_lib =
  vl_accountID :: "ton_addr \<Rightarrow> string res"
  vl_newEmulator :: "string \<Rightarrow> string \<Rightarrow> string \<Rightarrow> string option \<Rightarrow> unit res"
  vl_run :: "emulator \<Rightarrow> string \<Rightarrow> vm_value list \<Rightarrow> (nat \<times> vm_value list) res"
  vl_storeAddr :: "ton_addr \<Rightarrow> cell res"
  vl_storeSnake :: "string \<Rightarrow> cell res"
  vl_toCell :: "payload \<Rightarrow> cell res"
  vl_deserialize :: "cell \<Rightarrow> cell res"
  vl_toVmCell :: "cell \<Rightarrow> vm_value res"
  vl_toVmSlice :: "cell \<Rightarrow> vm_value res"
  vl_toBoc :: "cell \<Rightarrow> bytes res"
  vl_loadAddr :: "slice \<Rightarrow> ton_addr res"
  vl_content :: "cell \<Rightarrow> nft_content_any option res"

record vm_env =
  ve_cells :: cell_lib
  ve_vm :: vm_lib
  ve_tlb :: schema_lib
  ve_case :: case_lib
  ve_defs :: registry
  ve_depth :: nat

definition newEmulatorBase64 :: "vm_lib \<Rightarrow> ton_addr \<Rightarrow> string \<Rightarrow> string \<Rightarrow> string \<Rightarrow> string \<Rightarrow> emulator res" where
  "newEmulatorBase64 V a code data cfg libs =
     rbind (vl_newEmulator V code data cfg (if libs = [] then None else Some libs)) (\<lambda>_.
     rbind (rwrap ''parse address'' (vl_accountID V a)) (\<lambda>acc.
     Ok \<lparr>em_account = acc, em_code = code, em_data = data, em_cfg = cfg, em_libraries = libs\<rparr>))"

subsection \<open>Big integers as the code converts them\<close>

text \<open>
  \<open>SetBytes\<close> and \<open>Bytes\<close> are big-endian and without sign; \<open>Uint64\<close> is the low
  word of the absolute value, \<open>Int64\<close> the same with the sign applied.
\<close>

definition set_bytes :: "bytes \<Rightarrow> int" where
  "set_bytes bs = foldl (\<lambda>n b. n * 256 + uint b) 0 bs"

fun nat_bytes :: "nat \<Rightarrow> bytes" where
  "nat_bytes n = (if n = 0 then [] else nat_bytes (n div 256) @ [word_of_nat (n mod 256)])"

declare nat_bytes.simps [simp del]

definition big_bytes :: "int \<Rightarrow> bytes" where
  "big_bytes i = nat_bytes (nat \<bar>i\<bar>)"

definition big_uint64 :: "int \<Rightarrow> u64" where
  "big_uint64 i = word_of_int \<bar>i\<bar>"

definition big_int64 :: "int \<Rightarrow> i64" where
  "big_int64 i = (if i < 0 then - word_of_int \<bar>i\<bar> else word_of_int \<bar>i\<bar>)"

subsection \<open>Arguments\<close>

text \<open>The type assertion of each format; \<open>uint64\<close> goes through \<open>int64\<close>.\<close>

definition int_payload :: "tlb_type \<Rightarrow> payload \<Rightarrow> int option" where
  "int_payload fmt p =
     (if fmt = [] \<or> fmt = ''bigInt'' then (case p of PBigInt i \<Rightarrow> Some i | _ \<Rightarrow> None)
      else if fmt = ''uint8'' then (case p of PUInt8 w \<Rightarrow> Some (uint w) | _ \<Rightarrow> None)
      else if fmt = ''uint16'' then (case p of PUInt16 w \<Rightarrow> Some (uint w) | _ \<Rightarrow> None)
      else if fmt = ''uint32'' then (case p of PUInt32 w \<Rightarrow> Some (uint w) | _ \<Rightarrow> None)
      else if fmt = ''uint64'' then (case p of PUInt64 w \<Rightarrow> Some (sint w) | _ \<Rightarrow> None)
      else if fmt = ''int8'' then (case p of PInt8 w \<Rightarrow> Some (sint w) | _ \<Rightarrow> None)
      else if fmt = ''int16'' then (case p of PInt16 w \<Rightarrow> Some (sint w) | _ \<Rightarrow> None)
      else if fmt = ''int32'' then (case p of PInt32 w \<Rightarrow> Some (sint w) | _ \<Rightarrow> None)
      else if fmt = ''int64'' then (case p of PInt64 w \<Rightarrow> Some (sint w) | _ \<Rightarrow> None)
      else if fmt = ''bool'' then (case p of PBool b \<Rightarrow> Some (if b then 1 else 0) | _ \<Rightarrow> None)
      else if fmt = ''bytes'' then (case p of PBytes bs \<Rightarrow> Some (set_bytes bs) | _ \<Rightarrow> None)
      else None)"

definition wrong_format :: goerr where
  "wrong_format = Wrap ErrWrongValueFormat ''type with format''"

definition vmMakeValueInt :: "vm_value_desc \<Rightarrow> payload \<Rightarrow> vm_value res" where
  "vmMakeValueInt d p =
     (case int_payload (vd_format d) p of Some i \<Rightarrow> Ok (VmStkInt i) | None \<Rightarrow> Err wrong_format)"

definition vmMakeValueCell :: "vm_lib \<Rightarrow> vm_value_desc \<Rightarrow> payload \<Rightarrow> vm_value res" where
  "vmMakeValueCell V d p =
     rbind (if vd_format d = [] \<or> vd_format d = ''cell''
            then (case p of PCell c \<Rightarrow> Ok c | _ \<Rightarrow> Err wrong_format)
            else if vd_format d = ''addr''
            then (case p of PAddr a \<Rightarrow> some_res (rwrap ''store address'' (vl_storeAddr V a)) | _ \<Rightarrow> Err wrong_format)
            else if vd_format d = ''string''
            then (case p of PString s \<Rightarrow> some_res (rwrap ''store string snake'' (vl_storeSnake V s)) | _ \<Rightarrow> Err wrong_format)
            else if vd_format d = ''struct'' then some_res (rwrap ''argument to cell'' (vl_toCell V p))
            else some_res (rwrap ''argument to cell with format'' (vl_toCell V p)))
       (\<lambda>c. case c of
          None \<Rightarrow> Ok VmStkNull
        | Some c \<Rightarrow> rbind (rwrap ''tongo deserialize boc cell'' (vl_deserialize V c)) (vl_toVmCell V))"

definition vmMakeValueSlice :: "cell_lib \<Rightarrow> vm_lib \<Rightarrow> vm_value_desc \<Rightarrow> payload \<Rightarrow> vm_value res" where
  "vmMakeValueSlice L V d p =
     rbind (if vd_format d = [] \<or> vd_format d = ''slice''
            then (case p of PSlice s \<Rightarrow> Ok s | _ \<Rightarrow> Err wrong_format)
            else if vd_format d = ''addr''
            then (case p of PAddr a \<Rightarrow> some_res (rwrap ''store address'' (vl_storeAddr V a)) | _ \<Rightarrow> Err wrong_format)
            else if vd_format d = ''string''
            then (case p of PString s \<Rightarrow> some_res (rwrap ''store string'' (vl_storeSnake V s)) | _ \<Rightarrow> Err wrong_format)
            else if vd_format d = ''struct'' then some_res (rwrap ''argument to cell'' (vl_toCell V p))
            else some_res (rwrap ''argument to cell with format'' (vl_toCell V p)))
       (\<lambda>s. case s of
          None \<Rightarrow> Panic ''nil pointer dereference''
        | Some s \<Rightarrow>
            rbind (rwrap ''convert slice to cell'' (cl_toCell L s)) (\<lambda>c.
            rbind (rwrap ''tongo deserialize boc cell'' (vl_deserialize V c)) (vl_toVmSlice V)))"

definition vmMakeValue :: "cell_lib \<Rightarrow> vm_lib \<Rightarrow> vm_value_desc \<Rightarrow> payload \<Rightarrow> vm_value res" where
  "vmMakeValue L V d p =
     (if vd_stack_type d = ''int'' then vmMakeValueInt d p
      else if vd_stack_type d = ''cell'' then vmMakeValueCell V d p
      else if vd_stack_type d = ''slice'' then vmMakeValueSlice L V d p
      else Err (ErrText ''unsupported type''))"

subsection \<open>Results\<close>

definition vmParseValueInt :: "vm_value \<Rightarrow> vm_value_desc \<Rightarrow> payload res" where
  "vmParseValueInt v d =
     rbind (case v of
              VmStkInt i \<Rightarrow> Ok i | VmStkTinyInt w \<Rightarrow> Ok (sint w)
            | _ \<Rightarrow> Err (ErrText ''wrong descriptor type as method returned another''))
       (\<lambda>i. let fmt = vd_format d in
          if fmt = [] \<or> fmt = ''bigInt'' then Ok (PBigInt i)
          else if fmt = ''uint8'' then Ok (PUInt8 (ucast (big_uint64 i)))
          else if fmt = ''uint16'' then Ok (PUInt16 (ucast (big_uint64 i)))
          else if fmt = ''uint32'' then Ok (PUInt32 (ucast (big_uint64 i)))
          else if fmt = ''uint64'' then Ok (PUInt64 (big_uint64 i))
          else if fmt = ''int8'' then Ok (PInt8 (ucast (big_int64 i)))
          else if fmt = ''int16'' then Ok (PInt16 (ucast (big_int64 i)))
          else if fmt = ''int32'' then Ok (PInt32 (ucast (big_int64 i)))
          else if fmt = ''int64'' then Ok (PInt64 (big_int64 i))
          else if fmt = ''bool'' then Ok (PBool (i \<noteq> 0))
          else if fmt = ''bytes'' then Ok (PBytes (big_bytes i))
          else Err (ErrText ''unsupported format for type''))"

definition vmParseCell :: "vm_env \<Rightarrow> cell \<Rightarrow> vm_value_desc \<Rightarrow> payload res option" where
  "vmParseCell E c d =
     (let fmt = vd_format d; fieldsFrom = fields_FromCell (ve_case E) (ve_tlb E) (ve_defs E) (ve_depth E) in
      if fmt = ''cell'' then Some (Ok (PCell (Some c)))
      else if fmt = ''slice'' then Some (Ok (PSlice (Some c)))
      else if fmt = ''string'' then Some (rwrap ''load string snake'' (rbind (cl_loadSnake (ve_cells E) c) (\<lambda>s. Ok (PString s))))
      else if fmt = ''addr'' then Some (rwrap ''load address'' (rbind (vl_loadAddr (ve_vm E) c) (\<lambda>a. Ok (PAddr a))))
      else if fmt = ''content'' then Some (rwrap ''load content from cell'' (rbind (vl_content (ve_vm E) c) (\<lambda>x. Ok (PContent x))))
      else if fmt = ''struct'' then owrap ''load struct from cell on value description schema'' (fieldsFrom (vd_fields d) c)
      else (case map_of (ve_defs E) fmt of
              Some defn \<Rightarrow> owrap ''definition from cell'' (fieldsFrom defn c)
            | None \<Rightarrow>
                (case format_type fmt of
                   None \<Rightarrow> Some (Err (ErrText ''cannot find definition or type for format''))
                 | Some t \<Rightarrow> Some (rwrap ''load type from cell'' (tl_load (ve_tlb E) t c)))))"

definition addr_none :: ton_addr where
  "addr_none = \<lparr>ta_std = False, ta_workchain = 0, ta_data = []\<rparr>"

text \<open>The format written into the description of a value that is not null.\<close>

definition assume_format :: "tlb_type \<Rightarrow> vm_value_desc \<Rightarrow> vm_value_desc" where
  "assume_format dflt d =
     (if vd_format d = [] \<and> vd_fields d \<noteq> [] then d\<lparr>vd_format := ''struct''\<rparr>
      else if vd_format d = [] then d\<lparr>vd_format := dflt\<rparr> else d)"

definition from_stack_cell :: "vm_env \<Rightarrow> cell \<Rightarrow> cell res" where
  "from_stack_cell E c =
     rbind (rwrap ''convert stack cell to boc'' (vl_toBoc (ve_vm E) c)) (\<lambda>b.
     rwrap ''convert boc to cell'' (cl_fromBOC (ve_cells E) b))"

definition read_cell :: "vm_env \<Rightarrow> tlb_type \<Rightarrow> cell \<Rightarrow> vm_value_desc \<Rightarrow> (payload res \<times> vm_value_desc) option" where
  "read_cell E dflt c d =
     (case from_stack_cell E c of
        Err e \<Rightarrow> Some (Err e, d) | Panic p \<Rightarrow> Some (Panic p, d)
      | Ok c \<Rightarrow> map_option (\<lambda>r. (r, assume_format dflt d)) (vmParseCell E c (assume_format dflt d)))"

definition vmParseValueCell :: "vm_env \<Rightarrow> vm_value \<Rightarrow> vm_value_desc \<Rightarrow> (payload res \<times> vm_value_desc) option" where
  "vmParseValueCell E v d =
     (case v of
        VmStkNull \<Rightarrow> Some
          (if vd_format d = [] \<or> vd_format d = ''cell'' \<or> vd_format d = ''struct'' then Ok (PCell None)
           else if vd_format d = ''string'' then Ok (PString [])
           else if vd_format d = ''content'' then Ok (PContent None)
           else Err (ErrText ''unsupported format for type''), d)
      | VmStkCell c \<Rightarrow> read_cell E ''cell'' c d
      | _ \<Rightarrow> Some (Err (ErrText ''wrong descriptor type as method returned another''), d))"

definition vmParseValueSlice :: "vm_env \<Rightarrow> vm_value \<Rightarrow> vm_value_desc \<Rightarrow> (payload res \<times> vm_value_desc) option" where
  "vmParseValueSlice E v d =
     (case v of
        VmStkNull \<Rightarrow> Some
          (if vd_format d = [] then Ok (PSlice None)
           else if vd_format d = ''addr'' then Ok (PAddr addr_none)
           else if vd_format d = ''string'' then Ok (PString [])
           else Err (ErrText ''unsupported format for type''), d)
      | VmStkSlice c \<Rightarrow> read_cell E ''slice'' c d
      | _ \<Rightarrow> Some (Err (ErrText ''wrong descriptor type as method returned another''), d))"

definition vmParseValue :: "vm_env \<Rightarrow> vm_value \<Rightarrow> vm_value_desc \<Rightarrow> (payload res \<times> vm_value_desc) option" where
  "vmParseValue E v d =
     (if vd_stack_type d = ''int'' then Some (vmParseValueInt v d, d)
      else if vd_stack_type d = ''cell'' then vmParseValueCell E v d
      else if vd_stack_type d = ''slice'' then vmParseValueSlice E v d
      else Some (Err (ErrText ''unsupported type''), d))"

subsection \<open>Running a method\<close>

fun make_params :: "vm_env \<Rightarrow> (vm_value_desc \<times> payload) list \<Rightarrow> vm_value list res" where
  "make_params E [] = Ok []"
| "make_params E ((d, p) # args) =
     rbind (vmMakeValue (ve_cells E) (ve_vm E) d p) (\<lambda>v.
     rbind (make_params E args) (\<lambda>vs. Ok (v # vs)))"

fun read_results :: "vm_env \<Rightarrow> vm_value list \<Rightarrow> vm_value_desc list \<Rightarrow>
    ((vm_value_desc \<times> payload) list res \<times> vm_value_desc list) option" where
  "read_results E stk [] = Some (Ok [], [])"
| "read_results E [] (d # ds) = Some (Panic ''index out of range'', d # ds)"
| "read_results E (v # stk) (d # ds) =
     (case vmParseValue E v d of
        None \<Rightarrow> None
      | Some (Err e, d') \<Rightarrow> Some (Err e, d' # ds)
      | Some (Panic p, d') \<Rightarrow> Some (Panic p, d' # ds)
      | Some (Ok r, d') \<Rightarrow>
          (case read_results E stk ds of
             None \<Rightarrow> None
           | Some (rs, ds') \<Rightarrow> Some (rbind rs (\<lambda>rs. Ok ((d', r) # rs)), d' # ds')))"

definition runGetMethod :: "vm_env \<Rightarrow> emulator \<Rightarrow> string \<Rightarrow> (vm_value_desc \<times> payload) list \<Rightarrow> vm_value_desc list \<Rightarrow>
    ((vm_value_desc \<times> payload) list res \<times> vm_value_desc list) option" where
  "runGetMethod E em method args retDesc =
     (case rbind (make_params E args) (\<lambda>params. rwrap ''run smc method'' (vl_run (ve_vm E) em method params)) of
        Err e \<Rightarrow> Some (Err e, retDesc) | Panic p \<Rightarrow> Some (Panic p, retDesc)
      | Ok (exit, stk) \<Rightarrow>
          if exit \<noteq> 0 \<and> exit \<noteq> 1
          then Some (Err (ErrText (''tvm execution failed with code '' @ show_nat exit)), retDesc)
          else if length stk < length retDesc
          then Some (Err (ErrText ''tvm execution returned stack with another length''), retDesc)
          else read_results E stk retDesc)"


subsection \<open>What a result is\<close>

text \<open>The dynamic type a description stands for; a struct and a registered type are open.\<close>

definition int_described :: "tlb_type \<Rightarrow> payload \<Rightarrow> bool" where
  "int_described fmt p \<longleftrightarrow>
     (case p of
        PBigInt _ \<Rightarrow> fmt = [] \<or> fmt = ''bigInt''
      | PUInt8 _ \<Rightarrow> fmt = ''uint8'' | PUInt16 _ \<Rightarrow> fmt = ''uint16'' | PUInt32 _ \<Rightarrow> fmt = ''uint32'' | PUInt64 _ \<Rightarrow> fmt = ''uint64''
      | PInt8 _ \<Rightarrow> fmt = ''int8'' | PInt16 _ \<Rightarrow> fmt = ''int16'' | PInt32 _ \<Rightarrow> fmt = ''int32'' | PInt64 _ \<Rightarrow> fmt = ''int64''
      | PBool _ \<Rightarrow> fmt = ''bool'' | PBytes _ \<Rightarrow> fmt = ''bytes'' | _ \<Rightarrow> False)"

definition cell_described :: "tlb_type \<Rightarrow> payload \<Rightarrow> bool" where
  "cell_described fmt p \<longleftrightarrow>
     (fmt = ''cell'' \<longrightarrow> (\<exists>c. p = PCell c)) \<and> (fmt = ''slice'' \<longrightarrow> (\<exists>s. p = PSlice s)) \<and>
     (fmt = ''string'' \<longrightarrow> (\<exists>s. p = PString s)) \<and> (fmt = ''addr'' \<longrightarrow> (\<exists>a. p = PAddr a)) \<and>
     (fmt = ''content'' \<longrightarrow> (\<exists>x. p = PContent x))"

definition described :: "vm_value_desc \<Rightarrow> payload \<Rightarrow> bool" where
  "described d p \<longleftrightarrow>
     (if vd_stack_type d = ''int'' then int_described (vd_format d) p
      else vd_stack_type d \<in> {''cell'', ''slice''} \<and>
           cell_described (vd_format (assume_format (vd_stack_type d) d)) p)"

lemma vmParseValueInt_described: "vmParseValueInt v d = Ok p \<Longrightarrow> int_described (vd_format d) p"
  by (auto simp: vmParseValueInt_def int_described_def Let_def split: if_splits)

lemma vmParseCell_described: "vmParseCell E c d = Some (Ok p) \<Longrightarrow> cell_described (vd_format d) p"
  by (auto simp: vmParseCell_def cell_described_def Let_def split: if_splits)

lemma read_cell_Ok:
  "read_cell E dflt c d = Some (Ok p, d') \<Longrightarrow> d' = assume_format dflt d \<and> cell_described (vd_format d') p"
  using vmParseCell_described by (fastforce simp: read_cell_def split: res.splits)

lemma vmParseValue_described:
  assumes "vmParseValue E v d = Some (Ok p, d')"
  shows "described d p \<and> d' \<in> {d, assume_format (vd_stack_type d) d}"
proof -
  consider "vd_stack_type d = ''int''" | "vd_stack_type d = ''cell''" | "vd_stack_type d = ''slice''"
    using assms by (auto simp: vmParseValue_def split: if_splits)
  then show ?thesis
  proof cases
    case 1
    then show ?thesis
      using assms by (auto simp: vmParseValue_def described_def dest: vmParseValueInt_described)
  next
    case 2
    then have "vmParseValueCell E v d = Some (Ok p, d')" using assms by (simp add: vmParseValue_def)
    then show ?thesis
      using 2 by (cases v) (auto simp: vmParseValueCell_def described_def cell_described_def assume_format_def
          dest: read_cell_Ok split: if_splits)
  next
    case 3
    then have "vmParseValueSlice E v d = Some (Ok p, d')" using assms by (simp add: vmParseValue_def)
    then show ?thesis
      using 3 by (cases v) (auto simp: vmParseValueSlice_def described_def cell_described_def assume_format_def
          dest: read_cell_Ok split: if_splits)
  qed
qed

lemma read_results_described:
  "read_results E stk ds = Some (Ok rs, ds') \<Longrightarrow>
   list_all2 (\<lambda>d r. described d (snd r) \<and> fst r \<in> {d, assume_format (vd_stack_type d) d}) ds rs \<and> ds' = map fst rs"
proof (induction E stk ds arbitrary: rs ds' rule: read_results.induct)
  case (3 E v stk d ds)
  from 3(2) obtain p d' rs0 ds0 where "vmParseValue E v d = Some (Ok p, d')"
    "read_results E stk ds = Some (Ok rs0, ds0)" "rs = (d', p) # rs0" "ds' = d' # ds0"
    by (auto split: option.splits res.splits)
  with 3(1)[OF this(1) refl] vmParseValue_described show ?case by fastforce
qed auto


definition ex_vm_lib :: vm_lib where
  "ex_vm_lib = \<lparr>vl_accountID = (\<lambda>a. Ok ''id''), vl_newEmulator = (\<lambda>c d g l. Ok ()),
     vl_run = (\<lambda>em m args. Ok (0, [VmStkInt 5, VmStkSlice (Cell [] [] False), VmStkNull])),
     vl_storeAddr = (\<lambda>a. Ok (Cell [] [] False)), vl_storeSnake = (\<lambda>s. Ok (Cell [] [] False)),
     vl_toCell = (\<lambda>p. Ok (Cell [] [] False)), vl_deserialize = Ok, vl_toVmCell = (\<lambda>c. Ok (VmStkCell c)),
     vl_toVmSlice = (\<lambda>c. Ok (VmStkSlice c)), vl_toBoc = (\<lambda>c. Ok []),
     vl_loadAddr = (\<lambda>s. Ok \<lparr>ta_std = True, ta_workchain = 0, ta_data = replicate 32 0\<rparr>),
     vl_content = (\<lambda>c. Ok (Some (ContentOffchain ''u'')))\<rparr>"

definition ex_vm_env :: vm_env where
  "ex_vm_env = \<lparr>ve_cells = ex_cell_lib, ve_vm = ex_vm_lib,
     ve_tlb = \<lparr>tl_load = (\<lambda>t c. Ok (PParsed ''x'')), tl_marshal = (\<lambda>p. Ok ''x'')\<rparr>,
     ve_case = plain_case, ve_defs = [], ve_depth = 0\<rparr>"

definition ex_emulator :: emulator where
  "ex_emulator = \<lparr>em_account = ''id'', em_code = [], em_data = [], em_cfg = [], em_libraries = []\<rparr>"

definition int_desc :: "tlb_type \<Rightarrow> vm_value_desc" where
  "int_desc fmt = \<lparr>vd_name = ''n'', vd_stack_type = ''int'', vd_format = fmt, vd_fields = []\<rparr>"

definition slice_desc :: "tlb_type \<Rightarrow> vm_value_desc" where
  "slice_desc fmt = \<lparr>vd_name = ''s'', vd_stack_type = ''slice'', vd_format = fmt, vd_fields = []\<rparr>"

lemmas emulator_eval = runGetMethod_def vmParseValue_def vmParseValueInt_def vmParseValueSlice_def read_cell_def
  from_stack_cell_def vmParseCell_def assume_format_def ex_vm_env_def ex_vm_lib_def ex_cell_lib_def int_desc_def
  slice_desc_def


text \<open>
  A description with an empty format stands for a null slice until a slice was read with it: the
  format filled in then makes the next null slice an error. The descriptions are those of the cached
  contract interface, so what a null result means depends on the accounts parsed before.
\<close>

lemma null_slice_forgotten:
  assumes "vd_format d = []" and "vmParseValueSlice E (VmStkSlice c) d = Some (Ok p, d')"
  shows "vmParseValueSlice E VmStkNull d = Some (Ok (PSlice None), d)"
    and "\<exists>e. vmParseValueSlice E VmStkNull d' = Some (Err e, d')"
  using assms by (auto simp: vmParseValueSlice_def assume_format_def dest!: read_cell_Ok split: if_splits)

subsection \<open>Integers on the stack\<close>

lemma big_int64_eq: "big_int64 i = word_of_int i"
  by (simp add: big_int64_def)

lemma big_uint64_uint: "big_uint64 (uint w) = ucast w"
  by (simp add: big_uint64_def)

lemma cast_back [simp]:
  fixes a :: "8 word" and b :: "16 word" and c :: "32 word"
  shows "ucast (ucast a :: u64) = a" "ucast (ucast b :: u64) = b" "ucast (ucast c :: u64) = c"
    "ucast (scast a :: u64) = a" "ucast (scast b :: u64) = b" "ucast (scast c :: u64) = c"
  by (rule bit_word_eqI; simp add: bit_simps; fail)+

lemma set_bytes_nat: "set_bytes bs = int (foldl (\<lambda>n b. n * 256 + unat b) 0 bs)"
proof -
  have "foldl (\<lambda>n b. n * 256 + uint b) (int k) bs = int (foldl (\<lambda>n b. n * 256 + unat b) k bs)" for k
  proof (induction bs arbitrary: k)
    case (Cons b bs)
    from Cons[of "k * 256 + unat b"] show ?case by simp
  qed simp
  from this[of 0] show ?thesis by (simp add: set_bytes_def)
qed

lemma nat_bytes_snoc: "0 < n * 256 + unat b \<Longrightarrow> nat_bytes (n * 256 + unat (b :: 8 word)) = nat_bytes n @ [b]"
  using unat_byte[of b] by (subst nat_bytes.simps) simp

lemma nat_bytes_foldl:
  "nat_bytes (foldl (\<lambda>n b. n * 256 + unat b) 0 bs) = dropWhile (\<lambda>b. b = 0) bs"
proof (induction bs rule: rev_induct)
  case Nil
  then show ?case by (simp add: nat_bytes.simps)
next
  case (snoc b bs)
  let ?n = "foldl (\<lambda>n b. n * 256 + unat b) 0 bs"
  show ?case
  proof (cases "0 < ?n * 256 + unat b")
    case True
    have "nat_bytes ?n \<noteq> [] \<or> b \<noteq> 0"
      using True by (subst nat_bytes.simps) (auto simp: unat_eq_0)
    with snoc nat_bytes_snoc[OF True] show ?thesis
      by (auto simp: dropWhile_append dropWhile_eq_Nil_conv)
  next
    case False
    then have n: "?n = 0" "b = 0" by (auto simp: unat_eq_0)
    with snoc have "dropWhile (\<lambda>b. b = 0) bs = []" by (simp add: nat_bytes.simps)
    with n show ?thesis by (simp add: nat_bytes.simps dropWhile_append)
  qed
qed

text \<open>What reading an integer argument back gives.\<close>

definition int_back :: "payload \<Rightarrow> payload" where
  "int_back p =
     (case p of
        PUInt64 w \<Rightarrow> PUInt64 (if sint w < 0 then - w else w)
      | PBytes bs \<Rightarrow> PBytes (dropWhile (\<lambda>b. b = 0) bs)
      | _ \<Rightarrow> p)"

lemma big_uint64_sint: "big_uint64 (sint (w :: 64 word)) = (if sint w < 0 then - w else w)"
  by (simp add: big_uint64_def abs_if)

lemma set_bytes_bounds: "0 \<le> set_bytes bs \<and> set_bytes bs < 256 ^ length bs"
proof (induction bs rule: rev_induct)
  case (snoc b bs)
  have "set_bytes (bs @ [b]) = set_bytes bs * 256 + uint b" by (simp add: set_bytes_def)
  moreover have "0 \<le> uint b" "uint b < 256" using uint_lt2p[of b] by simp_all
  ultimately show ?case using snoc by simp
qed (simp add: set_bytes_def)

lemma sint_uint64: "sint (w :: 64 word) = (if uint w < 2 ^ 63 then uint w else uint w - 2 ^ 64)"
proof -
  have "(uint w + 2 ^ 63) mod 2 ^ 64 = (if uint w < 2 ^ 63 then uint w + 2 ^ 63 else uint w + 2 ^ 63 - 2 ^ 64)"
  proof (cases "uint w < 2 ^ 63")
    case False
    then have "(uint w + 2 ^ 63 - 2 ^ 64) mod 2 ^ 64 = uint w + 2 ^ 63 - 2 ^ 64"
      using uint_lt2p[of w] by (intro mod_pos_pos_trivial) simp_all
    with False show ?thesis by (simp only: minus_mod_self2 if_False)
  qed (simp add: mod_pos_pos_trivial)
  then show ?thesis
    by (simp add: sint_uint signed_take_bit_eq_take_bit_shift take_bit_eq_mod split: if_splits)
qed

lemma int_payload_bounds:
  assumes "int_payload fmt p = Some i"
  shows "case p of
        PUInt8 _ \<Rightarrow> 0 \<le> i \<and> i < 2 ^ 8 | PUInt16 _ \<Rightarrow> 0 \<le> i \<and> i < 2 ^ 16 | PUInt32 _ \<Rightarrow> 0 \<le> i \<and> i < 2 ^ 32
      | PUInt64 w \<Rightarrow> i = (if uint w < 2 ^ 63 then uint w else uint w - 2 ^ 64)
      | PInt8 _ \<Rightarrow> - (2 ^ 7) \<le> i \<and> i < 2 ^ 7 | PInt16 _ \<Rightarrow> - (2 ^ 15) \<le> i \<and> i < 2 ^ 15
      | PInt32 _ \<Rightarrow> - (2 ^ 31) \<le> i \<and> i < 2 ^ 31 | PInt64 _ \<Rightarrow> - (2 ^ 63) \<le> i \<and> i < 2 ^ 63
      | PBool b \<Rightarrow> i = of_bool b | PBytes bs \<Rightarrow> 0 \<le> i \<and> i < 256 ^ length bs | PBigInt j \<Rightarrow> i = j | _ \<Rightarrow> False"
proof -
  have u: "0 \<le> uint a \<and> uint a < 2 ^ 8" "0 \<le> uint b \<and> uint b < 2 ^ 16" "0 \<le> uint c \<and> uint c < 2 ^ 32"
    and s: "- (2 ^ 7) \<le> sint a \<and> sint a < 2 ^ 7" "- (2 ^ 15) \<le> sint b \<and> sint b < 2 ^ 15"
      "- (2 ^ 31) \<le> sint c \<and> sint c < 2 ^ 31" "- (2 ^ 63) \<le> sint e \<and> sint e < 2 ^ 63"
    for a :: "8 word" and b :: "16 word" and c :: "32 word" and e :: "64 word"
    using uint_lt2p[of a] uint_lt2p[of b] uint_lt2p[of c] sint_ge[of a] sint_lt[of a] sint_ge[of b] sint_lt[of b]
      sint_ge[of c] sint_lt[of c] sint_ge[of e] sint_lt[of e] by simp_all
  show ?thesis
    using assms u s set_bytes_bounds
    by (auto simp: int_payload_def split: if_splits payload.splits) (simp_all add: sint_uint64)
qed

text \<open>
  C14. The integers of get methods fit their formats: an argument of every integer format is put on
  the stack within the bounds of its type and read back as the same value, except that
  \<open>uint64\<close> goes through \<open>int64\<close>: from \<open>2 ^ 63\<close> on the machine gets the value
  minus \<open>2 ^ 64\<close> and the value read back is its negation; and bytes lose their leading zeros.
\<close>

theorem vm_int_roundtrip:
  assumes "vd_stack_type d = ''int''" and "vmMakeValue L V d p = Ok v"
  shows "vmParseValue E v d = Some (Ok (int_back p), d) \<and>
    (\<exists>i. v = VmStkInt i \<and> (case p of
        PUInt8 _ \<Rightarrow> 0 \<le> i \<and> i < 2 ^ 8 | PUInt16 _ \<Rightarrow> 0 \<le> i \<and> i < 2 ^ 16 | PUInt32 _ \<Rightarrow> 0 \<le> i \<and> i < 2 ^ 32
      | PUInt64 w \<Rightarrow> i = (if uint w < 2 ^ 63 then uint w else uint w - 2 ^ 64)
      | PInt8 _ \<Rightarrow> - (2 ^ 7) \<le> i \<and> i < 2 ^ 7 | PInt16 _ \<Rightarrow> - (2 ^ 15) \<le> i \<and> i < 2 ^ 15
      | PInt32 _ \<Rightarrow> - (2 ^ 31) \<le> i \<and> i < 2 ^ 31 | PInt64 _ \<Rightarrow> - (2 ^ 63) \<le> i \<and> i < 2 ^ 63
      | PBool b \<Rightarrow> i = of_bool b | PBytes bs \<Rightarrow> 0 \<le> i \<and> i < 256 ^ length bs | PBigInt j \<Rightarrow> i = j | _ \<Rightarrow> False))"
proof -
  obtain i where i: "int_payload (vd_format d) p = Some i" "v = VmStkInt i"
    using assms by (auto simp: vmMakeValue_def vmMakeValueInt_def split: option.splits)
  have bytes: "big_bytes (set_bytes bs) = dropWhile (\<lambda>b. b = 0) bs" for bs
    by (simp add: big_bytes_def set_bytes_nat nat_bytes_foldl)
  have "vmParseValueInt v d = Ok (int_back p)"
    using i by (auto simp: int_payload_def int_back_def vmParseValueInt_def Let_def big_uint64_uint big_uint64_sint
        big_int64_eq bytes split: if_splits payload.splits)
  moreover have "case p of
        PUInt8 _ \<Rightarrow> 0 \<le> i \<and> i < 2 ^ 8 | PUInt16 _ \<Rightarrow> 0 \<le> i \<and> i < 2 ^ 16 | PUInt32 _ \<Rightarrow> 0 \<le> i \<and> i < 2 ^ 32
      | PUInt64 w \<Rightarrow> i = (if uint w < 2 ^ 63 then uint w else uint w - 2 ^ 64)
      | PInt8 _ \<Rightarrow> - (2 ^ 7) \<le> i \<and> i < 2 ^ 7 | PInt16 _ \<Rightarrow> - (2 ^ 15) \<le> i \<and> i < 2 ^ 15
      | PInt32 _ \<Rightarrow> - (2 ^ 31) \<le> i \<and> i < 2 ^ 31 | PInt64 _ \<Rightarrow> - (2 ^ 63) \<le> i \<and> i < 2 ^ 63
      | PBool b \<Rightarrow> i = of_bool b | PBytes bs \<Rightarrow> 0 \<le> i \<and> i < 256 ^ length bs | PBigInt j \<Rightarrow> i = j | _ \<Rightarrow> False"
    using i(1) int_payload_bounds by blast
  ultimately show ?thesis
    using assms(1) i(2) by (simp add: vmParseValue_def)
qed

theorem vm_int_roundtrip_witness:
  "\<exists>v. vmMakeValue ex_cell_lib ex_vm_lib (int_desc ''uint64'') (PUInt64 (- 1)) = Ok v \<and> v = VmStkInt (- 1) \<and>
    vmParseValue ex_vm_env v (int_desc ''uint64'') = Some (Ok (PUInt64 1), int_desc ''uint64'')"
proof -
  have v: "vmMakeValue ex_cell_lib ex_vm_lib (int_desc ''uint64'') (PUInt64 (- 1)) = Ok (VmStkInt (- 1))"
    by (simp add: vmMakeValue_def vmMakeValueInt_def int_desc_def int_payload_def)
  have "int_back (PUInt64 (- 1)) = PUInt64 1" by (simp add: int_back_def)
  moreover have "vd_stack_type (int_desc ''uint64'') = ''int''" by (simp add: int_desc_def)
  from vm_int_roundtrip[OF this v, of ex_vm_env] have
    "vmParseValue ex_vm_env (VmStkInt (- 1)) (int_desc ''uint64'') = Some (Ok (int_back (PUInt64 (- 1))), int_desc ''uint64'')"
    by (rule conjunct1)
  ultimately show ?thesis using v by auto
qed

end
