(* ===== verification/Parser.thy ===== *)
theory Parser
  imports Emulator "HOL-Library.Char_ord" "HOL-Library.List_Lexorder"
begin

section \<open>internal/app/parser: what an account is, what its methods say, what a message means\<close>

text \<open>
  The parser works through an account state that it fills in, and asks the repository and the
  callback \<open>others\<close> (the state of another account) on the way; \<open>'w\<close> is their state.
  An operation is a function from the account and that state to a result and both again, so that
  what it did before an error stays done. The virtual machine is that of \<open>Emulator\<close>; a
  schema that is expanded without end overflows the stack. The format that reading fills in in a
  description (\<open>Emulator.assume_format\<close>) stays in the description that was passed: here each
  call starts from the description as the repository returned it.
\<close>

record 'w parser_env =
  pe_addr :: addr_lib
  pe_vm :: vm_env
  pe_config :: string
  pe_no_repo :: bool
  pe_interfaces :: "'w \<Rightarrow> contract_interface list res \<times> 'w"
  pe_methodDesc :: "contract_name \<Rightarrow> string \<Rightarrow> 'w \<Rightarrow> get_method_desc res \<times> 'w"
  pe_operations :: "message_type \<Rightarrow> contract_name list \<Rightarrow> bool \<Rightarrow> u32 \<Rightarrow> 'w \<Rightarrow> contract_operation list res \<times> 'w"
  pe_others :: "addr \<Rightarrow> 'w \<Rightarrow> account_state res \<times> 'w"

subsection \<open>Matching an account with an interface\<close>

definition matchByAddress :: "account_state \<Rightarrow> addr list \<Rightarrow> bool" where
  "matchByAddress acc addresses \<longleftrightarrow> list_ex (\<lambda>a. addr_equal (Some a) (Some (acc_address acc))) addresses"

definition matchByCode :: "cell_lib \<Rightarrow> account_state \<Rightarrow> bytes \<Rightarrow> bool" where
  "matchByCode L acc code \<longleftrightarrow>
     (if acc_code acc = [] \<or> code = [] then False
      else (case cl_fromBOC L code of
              Ok codeCell \<Rightarrow>
                (case cl_fromBOC L (acc_code acc) of
                   Ok accCodeCell \<Rightarrow> cl_hash L accCodeCell = cl_hash L codeCell
                 | _ \<Rightarrow> False)
            | _ \<Rightarrow> False))"

definition matchByGetMethods :: "account_state \<Rightarrow> i32 list \<Rightarrow> bool" where
  "matchByGetMethods acc hashes \<longleftrightarrow>
     acc_get_method_hashes acc \<noteq> [] \<and> hashes \<noteq> [] \<and>
     list_all (\<lambda>x. list_ex (\<lambda>y. x = y) (acc_get_method_hashes acc)) hashes"

definition interfaceMatched :: "cell_lib \<Rightarrow> account_state \<Rightarrow> contract_interface \<Rightarrow> bool" where
  "interfaceMatched L acc i \<longleftrightarrow>
     (if matchByAddress acc (ci_addresses i) then True
      else if matchByCode L acc (ci_code i) then True
      else ci_addresses i = [] \<and> ci_code i = [] \<and> matchByGetMethods acc (ci_get_method_hashes i))"

definition env_cells :: "'w parser_env \<Rightarrow> cell_lib" where
  "env_cells E = ve_cells (pe_vm E)"

definition determineInterfaces :: "'w parser_env \<Rightarrow> account_state \<Rightarrow> 'w \<Rightarrow> contract_interface list res \<times> 'w" where
  "determineInterfaces E acc w =
     (case pe_interfaces E w of
        (Ok is, w) \<Rightarrow> (Ok (filter (interfaceMatched (env_cells E) acc) is), w)
      | (Err e, w) \<Rightarrow> (Err (Wrap e ''get contract interfaces''), w)
      | (Panic p, w) \<Rightarrow> (Panic p, w))"

subsection \<open>Executing one method\<close>

type_synonym ('a, 'w) parser = "account_state \<times> 'w \<Rightarrow> 'a res \<times> account_state \<times> 'w"

fun pbind :: "('a, 'w) parser \<Rightarrow> ('a \<Rightarrow> ('b, 'w) parser) \<Rightarrow> ('b, 'w) parser" where
  "pbind m f s =
     (case m s of
        (Ok x, s) \<Rightarrow> f x s | (Err e, s) \<Rightarrow> (Err e, s) | (Panic p, s) \<Rightarrow> (Panic p, s))"

definition pret :: "'a res \<Rightarrow> ('a, 'w) parser" where
  "pret r s = (r, s)"

definition pmod :: "(account_state \<Rightarrow> account_state) \<Rightarrow> (unit, 'w) parser" where
  "pmod f s = (Ok (), f (fst s), snd s)"

definition pget :: "(account_state \<Rightarrow> ('b, 'w) parser) \<Rightarrow> ('b, 'w) parser" where
  "pget f s = f (fst s) s"

definition pworld :: "('w \<Rightarrow> 'a res \<times> 'w) \<Rightarrow> ('a, 'w) parser" where
  "pworld f s = (case f (snd s) of (r, w) \<Rightarrow> (r, fst s, w))"

text \<open>An error that is only logged, so the function returns; a panic goes on.\<close>

definition on_error :: "('a, 'w) parser \<Rightarrow> (unit, 'w) parser \<Rightarrow> ('a \<Rightarrow> (unit, 'w) parser) \<Rightarrow> (unit, 'w) parser" where
  "on_error m h f s =
     (case m s of
        (Ok x, s) \<Rightarrow> f x s | (Err e, s) \<Rightarrow> h s | (Panic p, s) \<Rightarrow> (Panic p, s))"

definition getMethodByName :: "contract_interface \<Rightarrow> string \<Rightarrow> get_method_desc option" where
  "getMethodByName i n = find (\<lambda>g. gm_name g = n) (ci_get_methods i)"

definition run_or_overflow :: "((vm_value_desc \<times> payload) list res \<times> vm_value_desc list) option \<Rightarrow>
    (vm_value_desc \<times> payload) list res" where
  "run_or_overflow r = (case r of None \<Rightarrow> Panic ''stack overflow'' | Some (rs, ds) \<Rightarrow> rs)"

definition emulateGetMethod :: "'w parser_env \<Rightarrow> get_method_desc \<Rightarrow> account_state \<Rightarrow> payload list \<Rightarrow>
    get_method_execution res" where
  "emulateGetMethod E d acc args =
     (if acc_code acc = [] \<or> acc_data acc = []
      then Err (Wrap ErrImpossibleParsing ''no account code or data'')
      else if length (gm_arguments d) \<noteq> length args
      then Err (ErrText ''length of passed and described arguments does not match'')
      else rbind (must_to_tonutils (pe_addr E) (acc_address acc)) (\<lambda>a.
           rbind (rwrap ''new emulator'' (newEmulatorBase64 (ve_vm (pe_vm E)) a (b64_std (acc_code acc))
                    (b64_std (acc_data acc)) (pe_config E) (b64_std (acc_libraries acc)))) (\<lambda>em.
           let done = (\<lambda>rets err. \<lparr>ge_name = gm_name d, ge_address = None, ge_arguments = [], ge_receives = args,
                 ge_return_values = [], ge_returns = rets, ge_error = err\<rparr>) in
           case run_or_overflow (runGetMethod (pe_vm E) em (gm_name d) (zip (gm_arguments d) args) (gm_returns d)) of
             Ok rs \<Rightarrow> Ok (done (map snd rs) [])
           | Err e \<Rightarrow> Ok (done [] (err_text e))
           | Panic p \<Rightarrow> Panic p)))"

definition emulateGetMethodNoArgs :: "'w parser_env \<Rightarrow> contract_interface \<Rightarrow> string \<Rightarrow> account_state \<Rightarrow>
    get_method_execution res" where
  "emulateGetMethodNoArgs E i name acc =
     (case getMethodByName i name of
        None \<Rightarrow> Panic ''get-method was not found''
      | Some gm \<Rightarrow>
          if gm_arguments gm \<noteq> [] then Panic ''get-method has arguments''
          else rwrap name (emulateGetMethod E gm acc []))"

subsection \<open>The executions of an account\<close>

definition executed_of :: "account_state \<Rightarrow> contract_name \<Rightarrow> get_method_execution list" where
  "executed_of acc c =
     (case acc_executed acc of None \<Rightarrow> [] | Some m \<Rightarrow> (case map_of m c of None \<Rightarrow> [] | Some es \<Rightarrow> es))"

text \<open>Writing to a nil map panics.\<close>

definition set_executed :: "contract_name \<Rightarrow> get_method_execution list \<Rightarrow> account_state \<Rightarrow> account_state res" where
  "set_executed c es acc =
     (case acc_executed acc of
        None \<Rightarrow> Panic ''assignment to entry in nil map''
      | Some m \<Rightarrow> Ok (acc\<lparr>acc_executed := Some (AList.update c es m)\<rparr>))"

fun remove_first :: "string \<Rightarrow> get_method_execution list \<Rightarrow> get_method_execution list option" where
  "remove_first gm [] = None"
| "remove_first gm (e # es) =
     (if ge_name e = gm then Some es else map_option (\<lambda>es. e # es) (remove_first gm es))"

definition removeGetMethodExecution :: "account_state \<Rightarrow> contract_name \<Rightarrow> string \<Rightarrow> (bool \<times> account_state) res" where
  "removeGetMethodExecution acc c gm =
     (case remove_first gm (executed_of acc c) of
        None \<Rightarrow> Ok (False, acc)
      | Some es \<Rightarrow> rbind (set_executed c es acc) (\<lambda>acc. Ok (True, acc)))"

lemma remove_first_length: "remove_first gm es = Some es' \<Longrightarrow> length es = Suc (length es')"
  by (induction es arbitrary: es') (auto split: if_splits)

lemma executed_of_set: "set_executed c es acc = Ok acc' \<Longrightarrow> executed_of acc' c = es"
  by (auto simp: set_executed_def executed_of_def update_conv' split: option.splits)

function remove_executions :: "contract_name \<Rightarrow> string \<Rightarrow> account_state \<Rightarrow> account_state res" where
  "remove_executions c gm acc =
     (case removeGetMethodExecution acc c gm of
        Ok (True, acc') \<Rightarrow> remove_executions c gm acc'
      | Ok (False, acc') \<Rightarrow> Ok acc'
      | Err e \<Rightarrow> Err e | Panic p \<Rightarrow> Panic p)"
  by pat_completeness auto
termination
  by (relation "measure (\<lambda>(c, gm, acc). length (executed_of acc c))")
    (auto simp: removeGetMethodExecution_def dest!: executed_of_set remove_first_length split: option.splits)

declare remove_executions.simps [simp del]

definition appendGetMethodExecution :: "contract_name \<Rightarrow> get_method_execution \<Rightarrow> (unit, 'w) parser" where
  "appendGetMethodExecution c exec s =
     (case rbind (remove_executions c (ge_name exec) (fst s)) (\<lambda>acc. set_executed c (executed_of acc c @ [exec]) acc) of
        Ok acc \<Rightarrow> (Ok (), acc, snd s) | Err e \<Rightarrow> (Err e, s) | Panic p \<Rightarrow> (Panic p, s))"

subsection \<open>Reading results\<close>

definition payload_at :: "payload list \<Rightarrow> nat \<Rightarrow> payload res" where
  "payload_at ps k = (if k < length ps then Ok (ps ! k) else Panic ''index out of range'')"

definition as_addr :: "payload \<Rightarrow> ton_addr res" where
  "as_addr p = (case p of PAddr a \<Rightarrow> Ok a | _ \<Rightarrow> Panic ''interface conversion'')"

definition as_bytes :: "payload \<Rightarrow> bytes res" where
  "as_bytes p = (case p of PBytes b \<Rightarrow> Ok b | _ \<Rightarrow> Panic ''interface conversion'')"

definition as_cell :: "payload \<Rightarrow> cell option res" where
  "as_cell p = (case p of PCell c \<Rightarrow> Ok c | _ \<Rightarrow> Panic ''interface conversion'')"

definition as_big :: "payload \<Rightarrow> int res" where
  "as_big p = (case p of PBigInt i \<Rightarrow> Ok i | _ \<Rightarrow> Panic ''interface conversion'')"

definition as_bool :: "payload \<Rightarrow> bool res" where
  "as_bool p = (case p of PBool b \<Rightarrow> Ok b | _ \<Rightarrow> Panic ''interface conversion'')"

definition as_dedust :: "payload \<Rightarrow> dedust_asset option res" where
  "as_dedust p = (case p of PDedust a \<Rightarrow> Ok a | _ \<Rightarrow> Panic ''interface conversion'')"

definition addr_at :: "payload list \<Rightarrow> nat \<Rightarrow> addr option res" where
  "addr_at ps k = rbind (rbind (payload_at ps k) as_addr) must_from_tonutils"

text \<open>The named attributes of NFT content; the name, description, image and image data.\<close>

definition attr_of :: "(string \<times> bytes) list \<Rightarrow> string \<Rightarrow> bytes" where
  "attr_of attrs k = (case map_of attrs k of None \<Rightarrow> [] | Some b \<Rightarrow> b)"

definition attr_text :: "(string \<times> bytes) list \<Rightarrow> string \<Rightarrow> string" where
  "attr_text attrs k = map (\<lambda>b. char_of (unat b)) (attr_of attrs k)"

definition onchain_content :: "(string \<times> bytes) list \<Rightarrow> nft_content \<Rightarrow> nft_content" where
  "onchain_content attrs n = n\<lparr>nc_name := attr_text attrs ''name'', nc_description := attr_text attrs ''description'',
     nc_image := attr_text attrs ''image'', nc_image_data := attr_of attrs ''image_data''\<rparr>"

definition mapContentDataNFT :: "payload \<Rightarrow> account_state \<Rightarrow> account_state" where
  "mapContentDataNFT c ret =
     (case c of
        PContent (Some (ContentSemichain uri attrs)) \<Rightarrow>
          ret\<lparr>acc_nft_content := onchain_content attrs ((acc_nft_content ret)\<lparr>nc_uri := uri\<rparr>)\<rparr>
      | PContent (Some (ContentOnchain attrs)) \<Rightarrow>
          ret\<lparr>acc_nft_content := onchain_content attrs (acc_nft_content ret)\<rparr>
      | PContent (Some (ContentOffchain uri)) \<Rightarrow>
          ret\<lparr>acc_nft_content := (acc_nft_content ret)\<lparr>nc_uri := uri\<rparr>\<rparr>
      | _ \<Rightarrow> ret)"

subsection \<open>The content of an item and the check of its minter\<close>

text \<open>Reading the repository's description of a method that must be there panics on any error.\<close>

definition must_desc :: "'w parser_env \<Rightarrow> contract_name \<Rightarrow> string \<Rightarrow> (get_method_desc, 'w) parser" where
  "must_desc E c gm s =
     (case pworld (pe_methodDesc E c gm) s of
        (Err e, s) \<Rightarrow> (Panic (''get '' @ gm @ '' method description''), s) | r \<Rightarrow> r)"

definition getNFTItemContent :: "'w parser_env \<Rightarrow> account_state \<Rightarrow> int \<Rightarrow> cell option \<Rightarrow> (unit, 'w) parser" where
  "getNFTItemContent E collection idx itemContent =
     pbind (must_desc E known_nft_collection ''get_nft_content'') (\<lambda>desc.
     on_error (pret (emulateGetMethod E desc collection [PBytes (big_bytes idx), PCell itemContent]))
       (pret (Ok ()))
       (\<lambda>exec.
          pbind (appendGetMethodExecution known_nft_collection (exec\<lparr>ge_address := Some (acc_address collection)\<rparr>)) (\<lambda>_.
          if ge_error exec \<noteq> [] then pret (Ok ())
          else pbind (pret (payload_at (ge_returns exec) 0)) (\<lambda>c. pmod (mapContentDataNFT c)))))"

definition checkMinter :: "'w parser_env \<Rightarrow> account_state \<Rightarrow> contract_name \<Rightarrow> get_method_desc \<Rightarrow> payload list \<Rightarrow> (unit, 'w) parser" where
  "checkMinter E minter i desc args =
     pbind (pmod (\<lambda>item. item\<lparr>acc_fake := True\<rparr>)) (\<lambda>_.
     on_error (pret (emulateGetMethod E desc minter args))
       (pret (Ok ()))
       (\<lambda>exec.
          pbind (appendGetMethodExecution i (exec\<lparr>ge_address := Some (acc_address minter)\<rparr>)) (\<lambda>_.
          if ge_error exec \<noteq> [] then pret (Ok ())
          else pbind (pret (addr_at (ge_returns exec) 0)) (\<lambda>itemAddr.
               pmod (\<lambda>item. if addr_equal itemAddr (Some (acc_address item)) then item\<lparr>acc_fake := False\<rparr> else item)))))"

definition checkNFTMinter :: "'w parser_env \<Rightarrow> account_state \<Rightarrow> int \<Rightarrow> (unit, 'w) parser" where
  "checkNFTMinter E minter idx =
     pbind (must_desc E known_nft_collection ''get_nft_address_by_index'') (\<lambda>desc.
     checkMinter E minter known_nft_collection desc [PBytes (big_bytes idx)])"

definition checkJettonMinter :: "'w parser_env \<Rightarrow> account_state \<Rightarrow> addr \<Rightarrow> (unit, 'w) parser" where
  "checkJettonMinter E minter owner =
     pbind (must_desc E known_jetton_minter ''get_wallet_address'') (\<lambda>desc.
     pbind (pret (must_to_tonutils (pe_addr E) owner)) (\<lambda>a.
     checkMinter E minter known_jetton_minter desc [PAddr a]))"

definition dedust_factory_addr :: string where
  "dedust_factory_addr = ''EQBfBWT7X2BHg9tXAxzhz2aKiNTU1tpt5NsiK0uSDW_YAJ67''"

definition checkDeDustMinter :: "'w parser_env \<Rightarrow> (unit, 'w) parser" where
  "checkDeDustMinter E =
     pbind (pret (must_from_base64 (pe_addr E) dedust_factory_addr)) (\<lambda>fa.
     on_error (pworld (pe_others E fa)) (pret (Ok ())) (\<lambda>factory.
     pbind (pmod (\<lambda>acc. acc\<lparr>acc_fake := True\<rparr>)) (\<lambda>_.
     pget (\<lambda>acc. let es = executed_of acc known_dedust_pool in
       if length es < 6 then pret (Ok ())
       else if ge_name (es ! 0) \<noteq> ''get_assets'' \<or> ge_name (es ! 5) \<noteq> ''is_stable''
         \<or> ge_error (es ! 0) \<noteq> [] \<or> ge_error (es ! 5) \<noteq> [] then pret (Ok ())
       else
         pbind (must_desc E known_dedust_factory ''get_pool_address'') (\<lambda>desc.
         pbind (pret (rbind (payload_at (ge_returns (es ! 0)) 0) as_dedust)) (\<lambda>asset0.
         pbind (pret (rbind (payload_at (ge_returns (es ! 0)) 1) as_dedust)) (\<lambda>asset1.
         pbind (pret (rbind (payload_at (ge_returns (es ! 5)) 0) as_bool)) (\<lambda>isStable.
         checkMinter E factory known_dedust_factory desc [PBool isStable, PDedust asset0, PDedust asset1]))))))))"

definition stonfi_router_addr :: string where
  "stonfi_router_addr = ''EQB3ncyBUTjZUA5EnFKR5_EnOMI9V1tTEAAPaiU71gc4TiUt''"

definition checkStonFiMinter :: "'w parser_env \<Rightarrow> (unit, 'w) parser" where
  "checkStonFiMinter E =
     pbind (pret (must_from_base64 (pe_addr E) stonfi_router_addr)) (\<lambda>ra.
     on_error (pworld (pe_others E ra)) (pret (Ok ())) (\<lambda>router.
     pbind (pmod (\<lambda>acc. acc\<lparr>acc_fake := True\<rparr>)) (\<lambda>_.
     pget (\<lambda>acc. let es = executed_of acc known_stonfi_pool in
       if length es < 1 then pret (Ok ())
       else if ge_name (es ! 0) \<noteq> ''get_pool_data'' \<or> ge_error (es ! 0) \<noteq> [] then pret (Ok ())
       else
         pbind (must_desc E known_stonfi_router ''get_pool_address'') (\<lambda>desc.
         pbind (pret (rbind (payload_at (ge_returns (es ! 0)) 2) as_addr)) (\<lambda>asset0.
         pbind (pret (rbind (payload_at (ge_returns (es ! 0)) 3) as_addr)) (\<lambda>asset1.
         checkMinter E router known_stonfi_router desc [PAddr asset0, PAddr asset1])))))))"

subsection \<open>The methods of an account\<close>

text \<open>What is kept of the results of a method that was executed without an error.\<close>

definition keep_collection :: "payload list \<Rightarrow> (unit, 'w) parser" where
  "keep_collection rets =
     pbind (pret (addr_at rets 2)) (\<lambda>owner.
     pbind (pmod (\<lambda>acc. acc\<lparr>acc_owner := owner\<rparr>)) (\<lambda>_.
     pbind (pret (payload_at rets 1)) (\<lambda>c. pmod (mapContentDataNFT c))))"

definition keep_nft :: "'w parser_env \<Rightarrow> payload list \<Rightarrow> (unit, 'w) parser" where
  "keep_nft E rets =
     pbind (pret (addr_at rets 2)) (\<lambda>minter.
     pbind (pmod (\<lambda>acc. acc\<lparr>acc_minter := minter\<rparr>)) (\<lambda>_.
     pbind (pret (addr_at rets 3)) (\<lambda>owner.
     pbind (pmod (\<lambda>acc. acc\<lparr>acc_owner := owner\<rparr>)) (\<lambda>_.
     case minter of
       None \<Rightarrow> pret (Ok ())
     | Some m \<Rightarrow>
         on_error (pworld (pe_others E m)) (pret (Ok ())) (\<lambda>collection.
         pbind (pret (rbind (payload_at rets 1) as_bytes)) (\<lambda>b.
         pbind (pret (rbind (payload_at rets 4) as_cell)) (\<lambda>content.
         pbind (getNFTItemContent E collection (set_bytes b) content) (\<lambda>_.
         checkNFTMinter E collection (set_bytes b)))))))))"

definition keep_wallet :: "'w parser_env \<Rightarrow> payload list \<Rightarrow> (unit, 'w) parser" where
  "keep_wallet E rets =
     pbind (pret (rbind (payload_at rets 0) as_big)) (\<lambda>balance.
     pbind (pmod (\<lambda>acc. acc\<lparr>acc_jetton_balance := Some balance\<rparr>)) (\<lambda>_.
     pbind (pret (addr_at rets 1)) (\<lambda>owner.
     pbind (pmod (\<lambda>acc. acc\<lparr>acc_owner := owner\<rparr>)) (\<lambda>_.
     pbind (pret (addr_at rets 2)) (\<lambda>minter.
     pbind (pmod (\<lambda>acc. acc\<lparr>acc_minter := minter\<rparr>)) (\<lambda>_.
     case (minter, owner) of
       (Some m, Some own) \<Rightarrow>
         on_error (pworld (pe_others E m)) (pret (Ok ())) (\<lambda>minter. checkJettonMinter E minter own)
     | _ \<Rightarrow> pret (Ok ())))))))"

definition keep_results :: "'w parser_env \<Rightarrow> string \<Rightarrow> payload list \<Rightarrow> (unit, 'w) parser" where
  "keep_results E name rets =
     (if name = ''get_collection_data'' then keep_collection rets
      else if name = ''get_nft_data'' then keep_nft E rets
      else if name = ''get_jetton_data'' then pbind (pret (payload_at rets 3)) (\<lambda>c. pmod (mapContentDataNFT c))
      else if name = ''get_wallet_data'' then keep_wallet E rets
      else pret (Ok ()))"

definition callGetMethod :: "'w parser_env \<Rightarrow> contract_interface \<Rightarrow> get_method_desc \<Rightarrow> (unit, 'w) parser" where
  "callGetMethod E i d =
     pget (\<lambda>acc. pbind (pret (rwrap ''execute get-method'' (emulateGetMethodNoArgs E i (gm_name d) acc))) (\<lambda>exec.
     pbind (appendGetMethodExecution (ci_name i) exec) (\<lambda>_.
     if ge_error exec \<noteq> [] then pret (Ok ()) else keep_results E (gm_name d) (ge_returns exec))))"

fun call_methods :: "'w parser_env \<Rightarrow> contract_interface \<Rightarrow> get_method_desc list \<Rightarrow> (unit, 'w) parser" where
  "call_methods E i [] = pret (Ok ())"
| "call_methods E i (d # ds) =
     (if gm_arguments d \<noteq> [] then call_methods E i ds
      else on_error (callGetMethod E i d) (call_methods E i ds) (\<lambda>_. call_methods E i ds))"

text \<open>\<open>sort.Slice\<close> by name; no two executions of a contract have the same name.\<close>

definition sort_executed :: "contract_name \<Rightarrow> account_state \<Rightarrow> account_state" where
  "sort_executed c acc =
     (case acc_executed acc of
        None \<Rightarrow> acc
      | Some m \<Rightarrow> (case map_of m c of
           None \<Rightarrow> acc
         | Some es \<Rightarrow> acc\<lparr>acc_executed := Some (AList.update c (sort_key ge_name es) m)\<rparr>))"

definition check_pool :: "'w parser_env \<Rightarrow> contract_name \<Rightarrow> (unit, 'w) parser" where
  "check_pool E c =
     (if c = known_dedust_pool then checkDeDustMinter E
      else if c = known_stonfi_pool then checkStonFiMinter E else pret (Ok ()))"

fun callPossibleGetMethods :: "'w parser_env \<Rightarrow> contract_interface list \<Rightarrow> (unit, 'w) parser" where
  "callPossibleGetMethods E [] = pret (Ok ())"
| "callPossibleGetMethods E (i # is) =
     pbind (call_methods E i (ci_get_methods i)) (\<lambda>_.
     pbind (pmod (sort_executed (ci_name i))) (\<lambda>_.
     pbind (check_pool E (ci_name i)) (\<lambda>_.
     callPossibleGetMethods E is)))"

subsection \<open>Parsing an account\<close>

definition parseAccountData :: "'w parser_env \<Rightarrow> (unit, 'w) parser" where
  "parseAccountData E =
     (if pe_no_repo E then pret (Err (Wrap ErrImpossibleParsing ''no contract repository''))
      else pget (\<lambda>acc. pbind (\<lambda>s. case pworld (determineInterfaces E acc) s of (r, s) \<Rightarrow> (rwrap ''determine contract interfaces'' r, s)) (\<lambda>is.
        if is = [] then pret (Err (Wrap ErrImpossibleParsing ''unknown contract interfaces''))
        else pbind (pmod (\<lambda>acc. acc\<lparr>acc_types := map ci_name is, acc_executed := Some []\<rparr>)) (\<lambda>_.
             callPossibleGetMethods E is))))"

definition parseAccountContractData :: "'w parser_env \<Rightarrow> contract_interface \<Rightarrow> (unit, 'w) parser" where
  "parseAccountContractData E desc =
     pget (\<lambda>acc.
       if \<not> interfaceMatched (env_cells E) acc desc then pret (Err ErrUnmatchedContractInterface)
       else pbind (pmod (\<lambda>acc. acc\<lparr>
           acc_types := (if ci_name desc \<in> set (acc_types acc) then acc_types acc else acc_types acc @ [ci_name desc]),
           acc_executed := Some (AList.delete (ci_name desc) (case acc_executed acc of None \<Rightarrow> [] | Some m \<Rightarrow> m))\<rparr>)) (\<lambda>_.
         callPossibleGetMethods E [desc]))"

text \<open>
  The loop variable keeps the last interface when none has the name that is looked for.
\<close>

fun pick_interface :: "contract_name \<Rightarrow> contract_interface option \<Rightarrow> contract_interface list \<Rightarrow> contract_interface option" where
  "pick_interface c i [] = i"
| "pick_interface c i (j # is) = (if ci_name j = c then Some j else pick_interface c (Some j) is)"

definition executeAccountGetMethod :: "'w parser_env \<Rightarrow> contract_name \<Rightarrow> string \<Rightarrow> (unit, 'w) parser" where
  "executeAccountGetMethod E contract getMethod =
     (if pe_no_repo E then pret (Err (Wrap ErrImpossibleParsing ''no contract repository''))
      else pget (\<lambda>acc. pbind (\<lambda>s. case pworld (determineInterfaces E acc) s of (r, s) \<Rightarrow> (rwrap ''determine contract interfaces'' r, s)) (\<lambda>is.
        if is = [] then pret (Err (Wrap ErrImpossibleParsing ''unknown contract interfaces''))
        else (case pick_interface contract None is of
            None \<Rightarrow> pret (Err (Wrap ErrInvalidArg ''cannot find interface description for account''))
          | Some i \<Rightarrow>
              (case getMethodByName i getMethod of
                 None \<Rightarrow> pret (Err (Wrap ErrInvalidArg ''cannot find get-method description for account and interface''))
               | Some d \<Rightarrow>
                   pbind (pmod (\<lambda>acc. acc\<lparr>acc_types := map ci_name is,
                       acc_executed := Some (case acc_executed acc of None \<Rightarrow> [] | Some m \<Rightarrow> m)\<rparr>)) (\<lambda>_.
                   callGetMethod E i d))))))"

subsection \<open>Messages\<close>

text \<open>Parsing fills in the message, also before an error.\<close>

definition parseOperationAttempt :: "'w parser_env \<Rightarrow> message \<Rightarrow> contract_operation \<Rightarrow> unit res \<times> message" where
  "parseOperationAttempt E msg op =
     (let V = pe_vm E;
          m0 = msg\<lparr>ms_operation_name := co_operation_name op\<rparr>;
          m1 = (if co_outgoing op then m0\<lparr>ms_src_contract := co_contract_name op\<rparr>
                else m0\<lparr>ms_dst_contract := co_contract_name op\<rparr>) in
      case rbind (rwrap ''msg body from boc'' (cl_fromBOC (ve_cells V) (ms_body m1))) (\<lambda>c.
             rwrap ''msg body from boc'' (case operation_FromCell (ve_case V) (ve_tlb V) (ve_defs V) (ve_depth V) (co_schema op) c of
               None \<Rightarrow> Panic ''stack overflow'' | Some r \<Rightarrow> r)) of
        Err e \<Rightarrow> (Err e, m1)
      | Panic p \<Rightarrow> (Panic p, m1)
      | Ok parsed \<Rightarrow>
          (case tl_marshal (ve_tlb V) parsed of
             Ok js \<Rightarrow> (Ok (), m1\<lparr>ms_data_json := js\<rparr>)
           | Err e \<Rightarrow> (Err (Wrap e ''json marshal parsed payload''), m1\<lparr>ms_data_json := []\<rparr>)
           | Panic p \<Rightarrow> (Panic p, m1)))"

text \<open>
  The operations are tried in their order; the first pass leaves the standard contracts out and
  its errors are dropped, the second tries all and the error of the last one is returned.
\<close>

definition standard_contract :: "contract_name \<Rightarrow> bool" where
  "standard_contract c \<longleftrightarrow> List.member [known_nft_item, known_nft_collection, known_jetton_minter, known_jetton_wallet] c"

fun try_operations :: "'w parser_env \<Rightarrow> contract_operation list \<Rightarrow> unit res \<Rightarrow> message \<Rightarrow> bool \<times> unit res \<times> message" where
  "try_operations E [] r msg = (False, r, msg)"
| "try_operations E (op # ops) r msg =
     (case parseOperationAttempt E msg op of
        (Ok _, msg) \<Rightarrow> (True, Ok (), msg)
      | (Panic p, msg) \<Rightarrow> (True, Panic p, msg)
      | (Err e, msg) \<Rightarrow> try_operations E ops (Err e) msg)"

definition parse_operations :: "'w parser_env \<Rightarrow> contract_operation list \<Rightarrow> message \<Rightarrow> unit res \<times> message" where
  "parse_operations E ops msg =
     (case ops of
        [] \<Rightarrow> (Err (Wrap ErrImpossibleParsing ''unknown operation''), msg)
      | [op] \<Rightarrow> parseOperationAttempt E msg op
      | _ \<Rightarrow>
         (case try_operations E (filter (\<lambda>op. \<not> standard_contract (co_contract_name op)) ops) (Ok ()) msg of
            (True, r, msg) \<Rightarrow> (r, msg)
          | (False, _, msg) \<Rightarrow> (case try_operations E ops (Ok ()) msg of (_, r, msg) \<Rightarrow> (r, msg))))"

definition parseDirectedMessage :: "'w parser_env \<Rightarrow> account_state option \<Rightarrow> message \<Rightarrow> 'w \<Rightarrow> unit res \<times> message \<times> 'w" where
  "parseDirectedMessage E acc msg w =
     (case acc of
        None \<Rightarrow> (Err (Wrap ErrImpossibleParsing ''no account data''), msg, w)
      | Some acc \<Rightarrow>
          if acc_types acc = [] then (Err (Wrap ErrImpossibleParsing ''no interfaces''), msg, w)
          else
            let outgoing = (acc_address acc = ms_src_address msg);
                msg = (if length (acc_types acc) \<noteq> 1 then msg
                       else if outgoing then msg\<lparr>ms_src_contract := acc_types acc ! 0\<rparr>
                       else msg\<lparr>ms_dst_contract := acc_types acc ! 0\<rparr>) in
            (case pe_operations E (ms_type msg) (acc_types acc) outgoing (ms_operation_id msg) w of
               (Err e, w) \<Rightarrow> (Err (Wrap e ''get contract operations''), msg, w)
             | (Panic p, w) \<Rightarrow> (Panic p, msg, w)
             | (Ok ops, w) \<Rightarrow> (case parse_operations E ops msg of (r, msg) \<Rightarrow> (r, msg, w))))"

definition parse_verdict :: "string \<Rightarrow> goerr \<Rightarrow> goerr \<Rightarrow> goerr" where
  "parse_verdict m e err = (if err_is e ErrImpossibleParsing then err else Wrap e m)"

definition parseMessagePayload :: "'w parser_env \<Rightarrow> message \<Rightarrow> 'w \<Rightarrow> unit res \<times> message \<times> 'w" where
  "parseMessagePayload E msg w =
     (if ms_body msg = [] then (Err (Wrap ErrImpossibleParsing ''no message body''), msg, w)
      else case parseDirectedMessage E (ms_dst_state msg) msg w of
        (Err e, msg, w) \<Rightarrow>
          (case parseDirectedMessage E (ms_src_state msg) msg w of
             (Err e', msg, w) \<Rightarrow>
               (Err (parse_verdict ''outgoing'' e' (parse_verdict ''incoming'' e ErrImpossibleParsing)), msg, w)
           | r \<Rightarrow> r)
      | r \<Rightarrow> r)"

end
