(* ===== verification/Parsing.thy ===== *)
theory Parsing
  imports Parser
begin

section \<open>Parsing accounts: what is kept, which wallets are genuine\<close>

text \<open>
  The properties of \<open>Parser\<close>. The rules \<open>keeps_rules\<close> carry an invariant of the account
  through the steps, with the executions of the account as the only part that has a structure of its
  own (\<open>append_execution_eq\<close>); the \<open>_cases\<close> lemmas split the entry points into the
  failures that change nothing and the run over the matching interfaces.
\<close>

subsection \<open>What every step keeps\<close>

text \<open>\<open>keeps I m\<close>: however the step \<open>m\<close> ends, the account satisfies \<open>I\<close> if it did before.\<close>

definition keeps :: "(account_state \<Rightarrow> bool) \<Rightarrow> ('a, 'w) parser \<Rightarrow> bool" where
  "keeps I m \<longleftrightarrow> (\<forall>s. I (fst s) \<longrightarrow> I (fst (snd (m s))))"

named_theorems keeps_rules

lemma keeps_pbind [keeps_rules]:
  fixes m :: "('a, 'w) parser"
  assumes "keeps I m" and "\<And>x. keeps I (f x)"
  shows "keeps I (pbind m f)"
  unfolding keeps_def
proof (intro allI impI)
  fix s :: "account_state \<times> 'w" assume "I (fst s)"
  moreover obtain r a w where m: "m s = (r, a, w)" by (cases "m s")
  ultimately have "I a" using assms(1) by (metis keeps_def fst_conv snd_conv)
  with m assms(2) show "I (fst (snd (pbind m f s)))" by (cases r) (simp_all add: keeps_def)
qed

lemma keeps_on_error [keeps_rules]:
  fixes m :: "('a, 'w) parser"
  assumes "keeps I m" and "keeps I h" and "\<And>x. keeps I (f x)"
  shows "keeps I (on_error m h f)"
  unfolding keeps_def
proof (intro allI impI)
  fix s :: "account_state \<times> 'w" assume "I (fst s)"
  moreover obtain r a w where m: "m s = (r, a, w)" by (cases "m s")
  ultimately have "I a" using assms(1) by (metis keeps_def fst_conv snd_conv)
  with m assms(2,3) show "I (fst (snd (on_error m h f s)))" by (cases r) (simp_all add: keeps_def on_error_def)
qed

lemma keeps_pret [keeps_rules]: "keeps I (pret r)"
  by (simp add: keeps_def pret_def)

lemma keeps_pworld [keeps_rules]: "keeps I (pworld f)"
  by (simp add: keeps_def pworld_def split: prod.split)

lemma keeps_pget [keeps_rules]: "(\<And>acc. keeps I (f acc)) \<Longrightarrow> keeps I (pget f)"
  by (simp add: keeps_def pget_def)

lemma keeps_pmod [keeps_rules]: "(\<And>acc. I acc \<Longrightarrow> I (f acc)) \<Longrightarrow> keeps I (pmod f)"
  by (simp add: keeps_def pmod_def)

lemma keeps_must_desc [keeps_rules]: "keeps I (must_desc E c gm)"
  by (auto simp: keeps_def must_desc_def pworld_def split: prod.split res.split)

lemma keeps_if [keeps_rules]: "keeps I m \<Longrightarrow> keeps I m' \<Longrightarrow> keeps I (if b then m else m')"
  by simp

lemma keeps_case_option [keeps_rules]:
  "keeps I m \<Longrightarrow> (\<And>x. keeps I (f x)) \<Longrightarrow> keeps I (case x of None \<Rightarrow> m | Some y \<Rightarrow> f y)"
  by (cases x) auto

lemma remove_first_Some: "remove_first gm es = Some es' \<Longrightarrow> \<exists>pre e post. es = pre @ e # post \<and> es' = pre @ post \<and>
    ge_name e = gm \<and> gm \<notin> ge_name ` set pre"
proof (induction es arbitrary: es')
  case (Cons e es)
  show ?case
  proof (cases "ge_name e = gm")
    case False
    with Cons.prems obtain es1 where "remove_first gm es = Some es1" "es' = e # es1" by auto
    with Cons.IH[of es1] obtain pre x post where "es = pre @ x # post" "es' = (e # pre) @ post"
      "ge_name x = gm" "gm \<notin> ge_name ` set pre" by auto
    with False show ?thesis by (intro exI[of _ "e # pre"]) auto
  qed (use Cons.prems in \<open>auto intro: exI[of _ "[]"]\<close>)
qed simp

lemma remove_first_None: "remove_first gm es = None \<longleftrightarrow> gm \<notin> ge_name ` set es"
  by (induction es) auto

lemma executed_of_set_other: "set_executed c es acc = Ok acc' \<Longrightarrow> executed_of acc' c' = (if c' = c then es else executed_of acc c')"
  by (auto simp: set_executed_def executed_of_def update_conv' split: option.splits)

lemma account_executed_same: "acc_executed acc = Some m \<Longrightarrow> acc\<lparr>acc_executed := Some m\<rparr> = acc"
  by (cases acc) simp

text \<open>Removing executions leaves those of other names and other contracts.\<close>

lemma remove_executions_eq:
  assumes "acc_executed acc \<noteq> None"
  shows "\<exists>acc'. remove_executions c gm acc = Ok acc' \<and> acc_executed acc' \<noteq> None \<and>
    (\<forall>c'. executed_of acc' c' = (if c' = c then filter (\<lambda>e. ge_name e \<noteq> gm) (executed_of acc c) else executed_of acc c')) \<and>
    (\<exists>m. acc' = acc\<lparr>acc_executed := Some m\<rparr>)"
  using assms
proof (induction c gm acc rule: remove_executions.induct)
  case (1 c gm acc)
  show ?case
  proof (cases "remove_first gm (executed_of acc c)")
    case None
    then have "filter (\<lambda>e. ge_name e \<noteq> gm) (executed_of acc c) = executed_of acc c"
      by (auto simp: remove_first_None intro!: filter_True)
    with None 1(2) show ?thesis
      by (subst remove_executions.simps) (auto simp: removeGetMethodExecution_def account_executed_same intro: exI[of _ "the (acc_executed acc)"])
  next
    case (Some es)
    from 1(2) obtain m where m: "acc_executed acc = Some m" by blast
    let ?a = "acc\<lparr>acc_executed := Some (AList.update c es m)\<rparr>"
    have set: "set_executed c es acc = Ok ?a" by (simp add: set_executed_def m)
    have rem: "removeGetMethodExecution acc c gm = Ok (True, ?a)"
      by (simp add: removeGetMethodExecution_def Some set)
    have "filter (\<lambda>e. ge_name e \<noteq> gm) es = filter (\<lambda>e. ge_name e \<noteq> gm) (executed_of acc c)"
      using remove_first_Some[OF Some] by auto
    moreover from 1(1)[OF rem refl] obtain acc' where "remove_executions c gm ?a = Ok acc'" "acc_executed acc' \<noteq> None"
      "\<forall>c'. executed_of acc' c' = (if c' = c then filter (\<lambda>e. ge_name e \<noteq> gm) (executed_of ?a c) else executed_of ?a c')"
      "\<exists>m. acc' = ?a\<lparr>acc_executed := Some m\<rparr>" by auto
    ultimately show ?thesis
      using rem executed_of_set_other[OF set] by (subst remove_executions.simps) auto
  qed
qed

lemma append_execution_eq:
  assumes "acc_executed acc \<noteq> None"
  obtains acc' where "appendGetMethodExecution c e (acc, w) = (Ok (), acc', w)" and "acc_executed acc' \<noteq> None"
    and "\<And>c'. executed_of acc' c' = (if c' = c then filter (\<lambda>x. ge_name x \<noteq> ge_name e) (executed_of acc c) @ [e] else executed_of acc c')"
    and "\<exists>m. acc' = acc\<lparr>acc_executed := Some m\<rparr>"
proof -
  from remove_executions_eq[OF assms, of c "ge_name e"] obtain a m where
    a: "remove_executions c (ge_name e) acc = Ok a" "a = acc\<lparr>acc_executed := Some m\<rparr>"
    "\<forall>c'. executed_of a c' = (if c' = c then filter (\<lambda>x. ge_name x \<noteq> ge_name e) (executed_of acc c) else executed_of acc c')"
    by blast
  let ?es = "filter (\<lambda>x. ge_name x \<noteq> ge_name e) (executed_of acc c) @ [e]"
  have s: "set_executed c ?es a = Ok (a\<lparr>acc_executed := Some (AList.update c ?es m)\<rparr>)"
    by (simp add: set_executed_def a(2))
  show thesis
  proof (rule that)
    show "appendGetMethodExecution c e (acc, w) = (Ok (), a\<lparr>acc_executed := Some (AList.update c ?es m)\<rparr>, w)"
      using a(1,3) s by (simp add: appendGetMethodExecution_def)
    show "executed_of (a\<lparr>acc_executed := Some (AList.update c ?es m)\<rparr>) c' = (if c' = c then ?es else executed_of acc c')" for c'
      using executed_of_set_other[OF s] a(3) by simp
  qed (auto simp: a(2))
qed

text \<open>A nil map makes the append panic, before anything is changed.\<close>

lemma append_execution_None:
  assumes "acc_executed acc = None"
  shows "appendGetMethodExecution c e (acc, w) = (Panic ''assignment to entry in nil map'', acc, w)"
proof -
  have "executed_of acc c = []" using assms by (simp add: executed_of_def)
  then have "remove_executions c (ge_name e) acc = Ok acc"
    by (subst remove_executions.simps) (simp add: removeGetMethodExecution_def)
  with assms \<open>executed_of acc c = []\<close> show ?thesis
    by (simp add: appendGetMethodExecution_def set_executed_def)
qed

text \<open>No contract has two executions of one method, and what is not a result stays as it was.\<close>

definition execs_distinct :: "account_state \<Rightarrow> bool" where
  "execs_distinct acc \<longleftrightarrow> (\<forall>c. distinct (map ge_name (executed_of acc c)))"

definition raw_state :: "account_state \<Rightarrow> account_state" where
  "raw_state acc = acc\<lparr>acc_types := [], acc_owner := None, acc_minter := None, acc_fake := False, acc_executed := None,
     acc_nft_content := nft_content_zero, acc_jetton_balance := None\<rparr>"

lemma raw_state_simps [simp]:
  "raw_state (acc\<lparr>acc_types := ts\<rparr>) = raw_state acc" "raw_state (acc\<lparr>acc_owner := a\<rparr>) = raw_state acc"
  "raw_state (acc\<lparr>acc_minter := b\<rparr>) = raw_state acc" "raw_state (acc\<lparr>acc_fake := f\<rparr>) = raw_state acc"
  "raw_state (acc\<lparr>acc_executed := m\<rparr>) = raw_state acc" "raw_state (acc\<lparr>acc_nft_content := n\<rparr>) = raw_state acc"
  "raw_state (acc\<lparr>acc_jetton_balance := j\<rparr>) = raw_state acc"
  "raw_state (acc\<lparr>acc_types := ts, acc_executed := m\<rparr>) = raw_state acc"
  by (simp_all add: raw_state_def)

lemma executed_of_simps [simp]:
  "executed_of (acc\<lparr>acc_types := ts\<rparr>) c = executed_of acc c" "executed_of (acc\<lparr>acc_owner := a\<rparr>) c = executed_of acc c"
  "executed_of (acc\<lparr>acc_minter := b\<rparr>) c = executed_of acc c" "executed_of (acc\<lparr>acc_fake := f\<rparr>) c = executed_of acc c"
  "executed_of (acc\<lparr>acc_nft_content := n\<rparr>) c = executed_of acc c"
  "executed_of (acc\<lparr>acc_jetton_balance := j\<rparr>) c = executed_of acc c"
  by (simp_all add: executed_of_def)

lemma raw_state_content [simp]: "raw_state (mapContentDataNFT c acc) = raw_state acc"
  and executed_of_content [simp]: "executed_of (mapContentDataNFT c acc) c' = executed_of acc c'"
  and acc_types_content [simp]: "acc_types (mapContentDataNFT c acc) = acc_types acc"
  by (auto simp: mapContentDataNFT_def split: payload.split option.split nft_content_any.split)

lemma executed_of_sort: "executed_of (sort_executed c acc) c' =
    (if c' = c then sort_key ge_name (executed_of acc c) else executed_of acc c')"
  by (auto simp: sort_executed_def executed_of_def update_conv' split: option.split)

lemma raw_state_sort [simp]: "raw_state (sort_executed c acc) = raw_state acc"
  and acc_types_sort [simp]: "acc_types (sort_executed c acc) = acc_types acc"
  by (auto simp: sort_executed_def split: option.split)

definition parse_inv :: "account_state \<Rightarrow> contract_name list \<Rightarrow> account_state \<Rightarrow> bool" where
  "parse_inv r ts acc \<longleftrightarrow> execs_distinct acc \<and> raw_state acc = r \<and> acc_types acc = ts"

lemma distinct_sort_key: "distinct (map ge_name es) \<Longrightarrow> distinct (map ge_name (sort_key ge_name es))"
  by (metis distinct_map distinct_sort set_sort)

lemma keeps_append [keeps_rules]: "keeps (parse_inv r ts) (appendGetMethodExecution c e)"
  unfolding keeps_def
proof (intro allI impI)
  fix s :: "account_state \<times> 'w"
  assume I: "parse_inv r ts (fst s)"
  obtain acc w where s: "s = (acc, w)" by (cases s)
  show "parse_inv r ts (fst (snd (appendGetMethodExecution c e s)))"
  proof (cases "acc_executed acc")
    case None
    with I show ?thesis by (simp add: s append_execution_None)
  next
    case (Some m)
    then have "acc_executed acc \<noteq> None" by simp
    then obtain acc' where "appendGetMethodExecution c e (acc, w) = (Ok (), acc', w)"
      "\<And>c'. executed_of acc' c' = (if c' = c then filter (\<lambda>x. ge_name x \<noteq> ge_name e) (executed_of acc c) @ [e] else executed_of acc c')"
      "\<exists>m. acc' = acc\<lparr>acc_executed := Some m\<rparr>"
      by (rule append_execution_eq[of acc c e w]) blast
    with I show ?thesis
      by (auto simp: s parse_inv_def execs_distinct_def distinct_map inj_on_def)
  qed
qed

lemma keeps_simple_mod:
  "(\<And>acc c. executed_of (f acc) c = executed_of acc c) \<Longrightarrow> (\<And>acc. raw_state (f acc) = raw_state acc) \<Longrightarrow>
   (\<And>acc. acc_types (f acc) = acc_types acc) \<Longrightarrow> keeps (parse_inv r ts) (pmod f)"
  by (rule keeps_pmod) (simp add: parse_inv_def execs_distinct_def)

lemma keeps_sort: "keeps (parse_inv r ts) (pmod (sort_executed c))"
  by (rule keeps_pmod) (auto simp: parse_inv_def execs_distinct_def executed_of_sort distinct_sort_key)

lemmas parse_keeps = keeps_rules keeps_simple_mod keeps_sort

lemma keeps_item: "keeps (parse_inv r ts) (pmod (\<lambda>item. if P item then item\<lparr>acc_fake := f\<rparr> else item))"
  by (rule keeps_simple_mod) auto

lemma checkMinter_keeps: "keeps (parse_inv r ts) (checkMinter E minter i desc args)"
  unfolding checkMinter_def by (intro parse_keeps keeps_item) auto

lemma keep_results_keeps: "keeps (parse_inv r ts) (keep_results E name rets)"
  unfolding keep_results_def keep_collection_def keep_nft_def keep_wallet_def getNFTItemContent_def
    checkNFTMinter_def checkJettonMinter_def
  by (intro parse_keeps checkMinter_keeps; (simp split: option.split prod.split)?;
      (intro conjI allI impI parse_keeps checkMinter_keeps)?; simp?)

lemma callGetMethod_keeps: "keeps (parse_inv r ts) (callGetMethod E i d)"
  unfolding callGetMethod_def by (intro parse_keeps keep_results_keeps)

lemma call_methods_keeps: "keeps (parse_inv r ts) (call_methods E i ds)"
proof (induction ds)
  case (Cons d ds)
  then show ?case by (auto intro: keeps_on_error callGetMethod_keeps)
qed (simp add: keeps_pret)

lemma check_pool_keeps: "keeps (parse_inv r ts) (check_pool E c)"
  unfolding check_pool_def checkDeDustMinter_def checkStonFiMinter_def Let_def
  by (intro parse_keeps checkMinter_keeps; simp)

lemma callPossibleGetMethods_keeps: "keeps (parse_inv r ts) (callPossibleGetMethods E is)"
  by (induction "is")
    (simp_all del: pbind.simps add: keeps_pret, intro parse_keeps call_methods_keeps check_pool_keeps)

lemma keeps_run: "keeps I m \<Longrightarrow> I acc \<Longrightarrow> m (acc, w) = (r, acc', w') \<Longrightarrow> I acc'"
  unfolding keeps_def by (metis fst_conv snd_conv)

definition matched :: "'w parser_env \<Rightarrow> account_state \<Rightarrow> contract_interface list \<Rightarrow> contract_interface list" where
  "matched E acc is = filter (interfaceMatched (env_cells E) acc) is"

lemma parseAccountData_cases:
  assumes "parseAccountData E (acc, w) = (r, acc', w')"
  obtains "acc' = acc" and "\<not> is_ok r"
  | "is" w1 where "pe_interfaces E w = (Ok is, w1)" and "matched E acc is \<noteq> []"
      and "callPossibleGetMethods E (matched E acc is)
        (acc\<lparr>acc_types := map ci_name (matched E acc is), acc_executed := Some []\<rparr>, w1) = (r, acc', w')"
  using assms unfolding parseAccountData_def pget_def pbind.simps matched_def
  by (cases "pe_no_repo E"; cases "pe_interfaces E w"; cases "fst (pe_interfaces E w)")
    (auto simp: pret_def pworld_def determineInterfaces_def pmod_def split: if_splits)

lemma parseAccountContractData_cases:
  assumes "parseAccountContractData E desc (acc, w) = (r, acc', w')"
  obtains "acc' = acc" and "r = Err ErrUnmatchedContractInterface"
  | ts m where "interfaceMatched (env_cells E) acc desc"
      and "m = AList.delete (ci_name desc) (case acc_executed acc of None \<Rightarrow> [] | Some m \<Rightarrow> m)"
      and "callPossibleGetMethods E [desc] (acc\<lparr>acc_types := ts, acc_executed := Some m\<rparr>, w) = (r, acc', w')"
  using assms unfolding parseAccountContractData_def pget_def pbind.simps
  by (auto simp: pret_def pmod_def simp del: callPossibleGetMethods.simps split: if_splits)

lemma executeAccountGetMethod_cases:
  assumes "executeAccountGetMethod E c gm (acc, w) = (r, acc', w')"
  obtains "acc' = acc" and "\<not> is_ok r"
  | "is" w1 i d ts where "pe_interfaces E w = (Ok is, w1)" and "pick_interface c None (matched E acc is) = Some i"
      and "getMethodByName i gm = Some d" and "ts = map ci_name (matched E acc is)"
      and "callGetMethod E i d (acc\<lparr>acc_types := ts,
        acc_executed := Some (case acc_executed acc of None \<Rightarrow> [] | Some m \<Rightarrow> m)\<rparr>, w1) = (r, acc', w')"
  using assms unfolding executeAccountGetMethod_def pget_def pbind.simps matched_def
  by (cases "pe_no_repo E"; cases "pe_interfaces E w"; cases "fst (pe_interfaces E w)")
    (auto simp: pret_def pworld_def determineInterfaces_def pmod_def split: if_splits option.splits)

lemma executed_of_nil_map: "executed_of (acc\<lparr>acc_types := ts, acc_executed := Some (case acc_executed acc of None \<Rightarrow> [] | Some m \<Rightarrow> m)\<rparr>) c = executed_of acc c"
  by (simp add: executed_of_def split: option.split)

lemma executed_of_delete: "executed_of (acc\<lparr>acc_types := ts, acc_executed := Some (AList.delete c
    (case acc_executed acc of None \<Rightarrow> [] | Some m \<Rightarrow> m))\<rparr>) c' = (if c' = c then [] else executed_of acc c')"
  by (auto simp: executed_of_def delete_conv' split: option.split)

lemma parse_inv_start:
  "execs_distinct acc \<Longrightarrow> parse_inv (raw_state acc) (acc_types acc) acc"
  "parse_inv (raw_state acc) ts (acc\<lparr>acc_types := ts, acc_executed := Some []\<rparr>)"
  "execs_distinct acc \<Longrightarrow> parse_inv (raw_state acc) ts (acc\<lparr>acc_types := ts,
     acc_executed := Some (AList.delete c (case acc_executed acc of None \<Rightarrow> [] | Some m \<Rightarrow> m))\<rparr>)"
  "execs_distinct acc \<Longrightarrow> parse_inv (raw_state acc) ts (acc\<lparr>acc_types := ts,
     acc_executed := Some (case acc_executed acc of None \<Rightarrow> [] | Some m \<Rightarrow> m)\<rparr>)"
  by (simp_all add: parse_inv_def execs_distinct_def executed_of_nil_map executed_of_delete)
    (simp add: executed_of_def)

text \<open>
  C11. Parsing changes what it is there to change: after any of the three entry points, however it
  ends (a panic included), the account still has its address, code, data, balance and all the rest
  that was fetched, and no contract has two executions of one method. When \<open>ParseAccountData\<close>
  succeeds the account has the names of the known interfaces that match it, at least one, in the
  order of the repository.
\<close>

theorem parsing_keeps_account:
  assumes "execs_distinct acc"
    and "m \<in> {parseAccountData E, parseAccountContractData E desc, executeAccountGetMethod E c gm}"
    and "m (acc, w) = (r, acc', w')"
  shows "raw_state acc' = raw_state acc \<and> execs_distinct acc' \<and>
    (parseAccountData E (acc, w) = (Ok (), acc', w') \<longrightarrow>
      (\<exists>is w1. pe_interfaces E w = (Ok is, w1) \<and> acc_types acc' \<noteq> [] \<and>
        acc_types acc' = map ci_name (filter (interfaceMatched (env_cells E) acc) is)))"
proof -
  have "raw_state acc' = raw_state acc \<and> execs_distinct acc'"
    using assms(2)
  proof (elim insertE emptyE)
    assume "m = parseAccountData E"
    with assms(3) have "parseAccountData E (acc, w) = (r, acc', w')" by simp
    then show ?thesis
    proof (cases rule: parseAccountData_cases)
      case (2 "is" w1)
      from keeps_run[OF callPossibleGetMethods_keeps parse_inv_start(2) 2(3)] show ?thesis
        by (simp add: parse_inv_def)
    qed (simp add: assms(1))
  next
    assume "m = parseAccountContractData E desc"
    with assms(3) have "parseAccountContractData E desc (acc, w) = (r, acc', w')" by simp
    then show ?thesis
    proof (cases rule: parseAccountContractData_cases)
      case (2 ts)
      from keeps_run[OF callPossibleGetMethods_keeps parse_inv_start(3)[OF assms(1)] 2(3)[unfolded 2(2)]] show ?thesis
        by (simp add: parse_inv_def)
    qed (simp add: assms(1))
  next
    assume "m = executeAccountGetMethod E c gm"
    with assms(3) have "executeAccountGetMethod E c gm (acc, w) = (r, acc', w')" by simp
    then show ?thesis
    proof (cases rule: executeAccountGetMethod_cases)
      case (2 "is" w1 i d ts)
      from keeps_run[OF callGetMethod_keeps parse_inv_start(4)[OF assms(1)] 2(5)] show ?thesis
        by (simp add: parse_inv_def)
    qed (simp add: assms(1))
  qed
  moreover have "\<exists>is w1. pe_interfaces E w = (Ok is, w1) \<and> acc_types acc' \<noteq> [] \<and>
      acc_types acc' = map ci_name (filter (interfaceMatched (env_cells E) acc) is)"
    if "parseAccountData E (acc, w) = (Ok (), acc', w')"
    using that
  proof (cases rule: parseAccountData_cases)
    case (2 "is" w1)
    from keeps_run[OF callPossibleGetMethods_keeps parse_inv_start(2) 2(3)]
    have "acc_types acc' = map ci_name (matched E acc is)" by (simp add: parse_inv_def)
    with 2 show ?thesis by (auto simp: matched_def)
  qed simp
  ultimately show ?thesis by blast
qed

subsection \<open>Genuine wallets\<close>

definition vouches :: "'w parser_env \<Rightarrow> get_method_desc \<Rightarrow> account_state \<Rightarrow> payload list \<Rightarrow> addr \<Rightarrow> bool" where
  "vouches E desc minter args a \<longleftrightarrow>
     (\<exists>ex. emulateGetMethod E desc minter args = Ok ex \<and> ge_error ex = [] \<and>
        addr_at (ge_returns ex) 0 = Ok (Some a))"

lemma checkMinter_fake:
  assumes "checkMinter E minter i desc args (acc, w) = (Ok (), acc', w')" and "acc_executed acc \<noteq> None"
  shows "(\<not> acc_fake acc' \<longleftrightarrow> vouches E desc minter args (acc_address acc)) \<and>
    acc_minter acc' = acc_minter acc \<and> acc_owner acc' = acc_owner acc"
proof -
  let ?a = "acc\<lparr>acc_fake := True\<rparr>"
  have step: "on_error (pret (emulateGetMethod E desc minter args)) (pret (Ok ()))
       (\<lambda>exec.
          pbind (appendGetMethodExecution i (exec\<lparr>ge_address := Some (acc_address minter)\<rparr>)) (\<lambda>_.
          if ge_error exec \<noteq> [] then pret (Ok ())
          else pbind (pret (addr_at (ge_returns exec) 0)) (\<lambda>itemAddr.
               pmod (\<lambda>item. if addr_equal itemAddr (Some (acc_address item)) then item\<lparr>acc_fake := False\<rparr> else item))))
       (?a, w) = (Ok (), acc', w')"
    using assms(1) by (simp add: checkMinter_def pmod_def)
  show ?thesis
  proof (cases "emulateGetMethod E desc minter args")
    case (Ok ex)
    let ?e = "ex\<lparr>ge_address := Some (acc_address minter)\<rparr>"
    obtain m where app: "appendGetMethodExecution i ?e (?a, w) = (Ok (), ?a\<lparr>acc_executed := Some m\<rparr>, w)"
      using append_execution_eq[of ?a i ?e w] assms(2) by auto
    show ?thesis
    proof (cases "ge_error ex = []")
      case True
      from step Ok app True obtain x where x: "addr_at (ge_returns ex) 0 = Ok x"
        and acc': "acc' = (if addr_equal x (Some (acc_address acc)) then ?a\<lparr>acc_executed := Some m, acc_fake := False\<rparr>
            else ?a\<lparr>acc_executed := Some m\<rparr>)"
        by (cases "addr_at (ge_returns ex) 0") (auto simp: on_error_def pret_def pmod_def split: if_splits)
      have "addr_equal x (Some (acc_address acc)) \<longleftrightarrow> x = Some (acc_address acc)"
        by (simp add: addr_equal_def split: option.split)
      then show ?thesis using Ok True x by (auto simp: vouches_def acc')
    next
      case False
      with step Ok app show ?thesis by (auto simp: on_error_def pret_def vouches_def)
    qed
  qed (use step in \<open>auto simp: on_error_def pret_def vouches_def\<close>)
qed

text \<open>
  C12. Whether a jetton wallet is genuine. After the \<open>get_wallet_data\<close> of an account was executed
  and its minter's state was found, the account counts as genuine exactly when the minter's
  \<open>get_wallet_address\<close>, called with the owner, ran without error and returned the address of
  this account. When there is no minter or no owner, or the minter's state cannot be read, the
  mark stays what it was, which for a new account is genuine.
\<close>

theorem wallet_genuine:
  assumes "callGetMethod E i d (acc, w) = (Ok (), acc', w')" and "gm_name d = ''get_wallet_data''"
    and "emulateGetMethodNoArgs E i ''get_wallet_data'' acc = Ok exec" and "ge_error exec = []"
    and "acc_executed acc \<noteq> None"
  shows "case (acc_minter acc', acc_owner acc') of
      (Some m, Some own) \<Rightarrow>
        (case pe_others E m w of
           (Ok minter, w1) \<Rightarrow> \<exists>desc w2 a. pe_methodDesc E known_jetton_minter ''get_wallet_address'' w1 = (Ok desc, w2) \<and>
             must_to_tonutils (pe_addr E) own = Ok a \<and>
             (\<not> acc_fake acc' \<longleftrightarrow> vouches E desc minter [PAddr a] (acc_address acc))
         | (Err e, _) \<Rightarrow> acc_fake acc' = acc_fake acc
         | (Panic p, _) \<Rightarrow> False)
    | _ \<Rightarrow> acc_fake acc' = acc_fake acc"
proof -
  obtain m where app: "appendGetMethodExecution (ci_name i) exec (acc, w) = (Ok (), acc\<lparr>acc_executed := Some m\<rparr>, w)"
    using append_execution_eq[of acc "ci_name i" exec w] assms(5) by auto
  have run: "keep_wallet E (ge_returns exec) (acc\<lparr>acc_executed := Some m\<rparr>, w) = (Ok (), acc', w')"
    using assms(1) by (simp add: callGetMethod_def pget_def pret_def assms(2-4) app keep_results_def)
  then obtain balance own mt where vals: "rbind (payload_at (ge_returns exec) 0) as_big = Ok balance"
      "addr_at (ge_returns exec) 1 = Ok own" "addr_at (ge_returns exec) 2 = Ok mt"
    unfolding keep_wallet_def
    by (cases "rbind (payload_at (ge_returns exec) 0) as_big"; cases "addr_at (ge_returns exec) 1";
        cases "addr_at (ge_returns exec) 2") (auto simp: pret_def pmod_def)
  let ?b = "acc\<lparr>acc_executed := Some m, acc_jetton_balance := Some balance, acc_owner := own, acc_minter := mt\<rparr>"
  have rest: "(case (mt, own) of
       (Some m, Some own) \<Rightarrow>
         on_error (pworld (pe_others E m)) (pret (Ok ())) (\<lambda>minter. checkJettonMinter E minter own)
     | _ \<Rightarrow> pret (Ok ())) (?b, w) = (Ok (), acc', w')"
    using run unfolding keep_wallet_def by (simp add: vals vals(2)[unfolded One_nat_def] pret_def pmod_def)
  show ?thesis
  proof (cases "mt = None \<or> own = None")
    case True
    with rest show ?thesis by (auto simp: pret_def split: option.splits)
  next
    case False
    then obtain k o' where mo: "mt = Some k" "own = Some o'" by auto
    obtain res w1 where oth: "pe_others E k w = (res, w1)" by (cases "pe_others E k w")
    show ?thesis
    proof (cases res)
      case (Ok minter)
      obtain rd w2 where md: "pe_methodDesc E known_jetton_minter ''get_wallet_address'' w1 = (rd, w2)"
        by (cases "pe_methodDesc E known_jetton_minter ''get_wallet_address'' w1")
      from rest mo oth Ok have "checkJettonMinter E minter o' (?b, w1) = (Ok (), acc', w')"
        by (simp add: on_error_def pworld_def)
      then obtain desc a where da: "rd = Ok desc" "must_to_tonutils (pe_addr E) o' = Ok a"
        "checkMinter E minter known_jetton_minter desc [PAddr a] (?b, w2) = (Ok (), acc', w')"
        unfolding checkJettonMinter_def
        by (cases rd; cases "must_to_tonutils (pe_addr E) o'") (auto simp: must_desc_def pworld_def md pret_def)
      from checkMinter_fake[OF da(3)] mo oth Ok md da(1,2) show ?thesis by simp
    qed (use rest mo oth in \<open>auto simp: on_error_def pworld_def pret_def\<close>)
  qed
qed

definition zero_ton :: ton_addr where
  "zero_ton = \<lparr>ta_std = True, ta_workchain = 0, ta_data = replicate 32 0\<rparr>"

definition ex_wallet_vm :: vm_env where
  "ex_wallet_vm = ex_vm_env\<lparr>ve_vm := ex_vm_lib\<lparr>
     vl_run := (\<lambda>em m args. Ok (0, if m = ''get_wallet_data''
        then [VmStkInt 5, VmStkSlice (Cell [] [] False), VmStkSlice (Cell [] [] False)]
        else [VmStkSlice (Cell [] [] False)])),
     vl_loadAddr := (\<lambda>s. Ok zero_ton)\<rparr>\<rparr>"

definition ex_wallet_desc :: get_method_desc where
  "ex_wallet_desc = \<lparr>gm_name = ''get_wallet_data'', gm_arguments = [],
     gm_returns = [int_desc [], slice_desc ''addr'', slice_desc ''addr'']\<rparr>"

definition ex_minter_desc :: get_method_desc where
  "ex_minter_desc = \<lparr>gm_name = ''get_wallet_address'', gm_arguments = [slice_desc ''addr''],
     gm_returns = [slice_desc ''addr'']\<rparr>"

definition ex_wallet :: contract_interface where
  "ex_wallet = \<lparr>ci_name = known_jetton_wallet, ci_addresses = [], ci_code = [], ci_get_methods = [ex_wallet_desc],
     ci_get_method_hashes = [7], ci_operations = []\<rparr>"

definition ex_account :: account_state where
  "ex_account = account_zero\<lparr>acc_code := [1], acc_data := [2], acc_get_method_hashes := [7], acc_executed := Some []\<rparr>"

definition ex_parser :: "unit parser_env" where
  "ex_parser = \<lparr>pe_addr = addr_lib_impl\<lparr>al_parseAddr := (\<lambda>s. Ok zero_ton)\<rparr>, pe_vm = ex_wallet_vm, pe_config = [],
     pe_no_repo = False, pe_interfaces = (\<lambda>w. (Ok [ex_wallet], w)),
     pe_methodDesc = (\<lambda>c m w. (Ok ex_minter_desc, w)), pe_operations = (\<lambda>t cs out i w. (Ok [], w)),
     pe_others = (\<lambda>a w. (Ok ex_account, w))\<rparr>"

lemmas ex_parser_eval = emulator_eval emulateGetMethod_def ex_parser_def ex_wallet_vm_def ex_wallet_desc_def
  ex_minter_desc_def ex_account_def must_to_tonutils_def to_tonutils_def newEmulatorBase64_def run_or_overflow_def
  vmMakeValue_def vmMakeValueSlice_def some_res_def

lemma ex_run_wallet: "emulateGetMethod ex_parser ex_wallet_desc ex_account [] = Ok
   \<lparr>ge_name = ''get_wallet_data'', ge_address = None, ge_arguments = [], ge_receives = [], ge_return_values = [],
    ge_returns = [PBigInt 5, PAddr zero_ton, PAddr zero_ton], ge_error = []\<rparr>"
  by (simp add: ex_parser_eval)

lemma ex_run_minter: "emulateGetMethod ex_parser ex_minter_desc ex_account [PAddr a] = Ok
   \<lparr>ge_name = ''get_wallet_address'', ge_address = None, ge_arguments = [], ge_receives = [PAddr a], ge_return_values = [],
    ge_returns = [PAddr zero_ton], ge_error = []\<rparr>"
  by (simp add: ex_parser_eval)

lemma ex_addr: "addr_at [PBigInt 5, PAddr zero_ton, PAddr zero_ton] (Suc 0) = Ok (Some (acc_address ex_account))"
  "addr_at [PBigInt 5, PAddr zero_ton, PAddr zero_ton] 2 = Ok (Some (acc_address ex_account))"
  "addr_at [PAddr zero_ton] 0 = Ok (Some (acc_address ex_account))"
  by (simp_all add: addr_at_def payload_at_def as_addr_def must_from_tonutils_def from_tonutils_def zero_ton_def
      ex_account_def account_zero_def flip: replicate_Suc)

lemma ex_parser_simps: "pe_others ex_parser m u = (Ok ex_account, u)"
  "pe_methodDesc ex_parser c gm u = (Ok ex_minter_desc, u)" "must_to_tonutils (pe_addr ex_parser) x = Ok zero_ton"
  by (simp_all add: ex_parser_def must_to_tonutils_def to_tonutils_def ex_account_def)

lemma ex_emulate_wallet: "emulateGetMethodNoArgs ex_parser ex_wallet ''get_wallet_data'' ex_account = Ok
   \<lparr>ge_name = ''get_wallet_data'', ge_address = None, ge_arguments = [], ge_receives = [], ge_return_values = [],
    ge_returns = [PBigInt 5, PAddr zero_ton, PAddr zero_ton], ge_error = []\<rparr>"
proof -
  have "getMethodByName ex_wallet ''get_wallet_data'' = Some ex_wallet_desc" "gm_arguments ex_wallet_desc = []"
    by (simp_all add: getMethodByName_def ex_wallet_def ex_wallet_desc_def)
  then show ?thesis by (simp add: emulateGetMethodNoArgs_def ex_run_wallet)
qed

lemmas append_eval = appendGetMethodExecution_def remove_executions.simps removeGetMethodExecution_def
  executed_of_def set_executed_def

lemma ex_executed: "acc_executed ex_account = Some []"
  by (simp add: ex_account_def)

lemma ex_call_ok: "\<exists>acc'. callGetMethod ex_parser ex_wallet ex_wallet_desc (ex_account, ()) = (Ok (), acc', ()) \<and>
    acc_minter acc' = Some (acc_address ex_account) \<and> acc_owner acc' = Some (acc_address ex_account)"
proof -
  have n: "gm_name ex_wallet_desc = ''get_wallet_data''" "ci_name ex_wallet = known_jetton_wallet"
    by (simp_all add: ex_wallet_desc_def ex_wallet_def)
  show ?thesis
    by (simp add: callGetMethod_def pget_def pret_def n ex_emulate_wallet append_eval ex_executed keep_results_def
        keep_wallet_def ex_addr payload_at_def[of _ 0] as_big_def pmod_def on_error_def pworld_def ex_parser_simps(1-3)
        checkJettonMinter_def must_desc_def checkMinter_def ex_run_minter known_jetton_wallet_def known_jetton_minter_def)
qed

theorem wallet_genuine_witness:
  "\<exists>acc'. callGetMethod ex_parser ex_wallet ex_wallet_desc (ex_account, ()) = (Ok (), acc', ()) \<and>
    (\<not> acc_fake acc' \<longleftrightarrow> vouches ex_parser ex_minter_desc ex_account [PAddr zero_ton] (acc_address ex_account)) \<and>
    vouches ex_parser ex_minter_desc ex_account [PAddr zero_ton] (acc_address ex_account)"
proof -
  obtain acc' where c: "callGetMethod ex_parser ex_wallet ex_wallet_desc (ex_account, ()) = (Ok (), acc', ())"
    and mo: "acc_minter acc' = Some (acc_address ex_account)" "acc_owner acc' = Some (acc_address ex_account)"
    using ex_call_ok by blast
  have n: "gm_name ex_wallet_desc = ''get_wallet_data''" by (simp add: ex_wallet_desc_def)
  have "vouches ex_parser ex_minter_desc ex_account [PAddr zero_ton] (acc_address ex_account)"
    by (simp add: vouches_def ex_run_minter ex_addr)
  with wallet_genuine[OF c n ex_emulate_wallet] c show ?thesis
    by (simp add: mo ex_parser_simps ex_executed)
qed

theorem parsing_keeps_account_witness:
  "raw_state (fst (snd (parseAccountData ex_parser (ex_account, ())))) = raw_state ex_account \<and>
   execs_distinct (fst (snd (parseAccountData ex_parser (ex_account, ()))))"
proof -
  obtain r acc' w' where r: "parseAccountData ex_parser (ex_account, ()) = (r, acc', w')"
    by (cases "parseAccountData ex_parser (ex_account, ())")
  have d: "execs_distinct ex_account" by (simp add: execs_distinct_def executed_of_def ex_executed)
  show ?thesis
    using parsing_keeps_account[of ex_account "parseAccountData ex_parser" ex_parser ex_wallet "[]" "[]" "()" r acc' w'] d r
    by simp
qed

subsection \<open>The interface a method is executed for\<close>

lemma pick_interface_missing:
  "c \<notin> ci_name ` set is \<Longrightarrow> is \<noteq> [] \<Longrightarrow> pick_interface c i is = Some (last is)"
  by (induction "is" arbitrary: i) auto

text \<open>
  \<open>ExecuteAccountGetMethod\<close> does not report that the account lacks the interface: when no
  interface that matches the account has the requested name, the last one that matches stands in
  for it, so the call is the same as one for that other interface, and its results are stored
  under that other name.
\<close>

theorem missing_interface_replaced:
  assumes "pe_interfaces E w = (Ok is, w1)" and "matched E acc is \<noteq> []"
    and "contract \<notin> ci_name ` set (matched E acc is)"
    and "ci_name (last (matched E acc is)) \<notin> ci_name ` set (butlast (matched E acc is))"
  shows "executeAccountGetMethod E contract gm (acc, w) =
    executeAccountGetMethod E (ci_name (last (matched E acc is))) gm (acc, w)"
proof -
  let ?ms = "matched E acc is"
  have p: "pick_interface (ci_name j) i (js @ [j]) = Some j" if "ci_name j \<notin> ci_name ` set js" for i j js
    using that by (induction js arbitrary: i) auto
  have "pick_interface (ci_name (last ?ms)) None ?ms = Some (last ?ms)"
    using p[OF assms(4), of None] assms(2) by simp
  moreover have "pick_interface contract None ?ms = Some (last ?ms)"
    by (rule pick_interface_missing[OF assms(3,2)])
  ultimately show ?thesis
    using assms(1,2) unfolding executeAccountGetMethod_def pget_def pbind.simps matched_def
    by (simp add: pworld_def determineInterfaces_def)
qed

theorem missing_interface_replaced_witness:
  "executeAccountGetMethod ex_parser ''nft_item'' ''get_wallet_data'' (ex_account, ()) =
   executeAccountGetMethod ex_parser known_jetton_wallet ''get_wallet_data'' (ex_account, ())"
proof -
  have m: "matched ex_parser ex_account [ex_wallet] = [ex_wallet]"
    by (simp add: matched_def interfaceMatched_def matchByAddress_def matchByCode_def matchByGetMethods_def
        ex_wallet_def ex_account_def)
  have "pe_interfaces ex_parser () = (Ok [ex_wallet], ())" by (simp add: ex_parser_def)
  from missing_interface_replaced[OF this, of ex_account "''nft_item''" "''get_wallet_data''"] show ?thesis
    by (simp add: m) (simp add: ex_wallet_def known_jetton_wallet_def)
qed

end
