(* ===== verification/AccountFilter.thy ===== *)
theory AccountFilter
  imports Store Filters
begin

section \<open>internal/core/repository/account/filter.go: reading account states and labels\<close>

text \<open>
  The requests of the API and of the services for account states. Every condition of a request that
  is set must hold; the total is counted in ClickHouse, the rows come from PostgreSQL, in the order
  \<open>ord\<close> that the database picks when the request asks for none (and among equals when it does).
  What bun leaves out of a row for the excluded columns is the argument \<open>excl\<close>.
\<close>

definition to_upper :: "string \<Rightarrow> string" where
  "to_upper s = map (\<lambda>c. let k = of_char c :: nat in if 97 \<le> k \<and> k \<le> 122 then char_of (k - 32) else c) s"

definition to_lower :: "string \<Rightarrow> string" where
  "to_lower s = map (\<lambda>c. let k = of_char c :: nat in if 65 \<le> k \<and> k \<le> 90 then char_of (k + 32) else c) s"

definition opt_cond :: "'a option \<Rightarrow> ('a \<Rightarrow> bool) \<Rightarrow> bool" where
  "opt_cond x P = (case x of None \<Rightarrow> True | Some y \<Rightarrow> P y)"

definition list_cond :: "'a list \<Rightarrow> ('a list \<Rightarrow> bool) \<Rightarrow> bool" where
  "list_cond xs P \<longleftrightarrow> xs = [] \<or> P xs"

text \<open>The query builder adds no limit that is not positive; the text of a raw query takes any.\<close>

definition sql_limit :: "int \<Rightarrow> 'a list \<Rightarrow> 'a list" where
  "sql_limit n rows = (if 0 < n then take (nat n) rows else rows)"

subsection \<open>Labels\<close>

text \<open>
  PostgreSQL's \<open>ILIKE\<close> on a lowercased text and pattern: \<open>%\<close> is any text, \<open>_\<close> any
  character, a backslash takes the next character as it is. The name of a request goes into the pattern
  unescaped; ClickHouse searches it as it is written.
\<close>

fun like :: "string \<Rightarrow> string \<Rightarrow> bool" where
  "like [] s = (s = [])"
| "like (p # ps) s =
     (if p = CHR ''%'' then list_ex (\<lambda>n. like ps (drop n s)) [0 ..< length s + 1]
      else if p = CHR 0x5C
      then (case ps of [] \<Rightarrow> False | q # qs \<Rightarrow> s \<noteq> [] \<and> hd s = q \<and> like qs (tl s))
      else s \<noteq> [] \<and> (p = CHR ''_'' \<or> hd s = p) \<and> like ps (tl s))"

definition filterAddressLabels :: "(db \<Rightarrow> address_label list) \<Rightarrow> labels_req \<Rightarrow> db \<Rightarrow> address_label list res \<times> db" where
  "filterAddressLabels table f =
     query (\<lambda>d. sql_limit (if lr_limit f = 0 then 3 else lr_limit f)
       (drop (nat (lr_offset f)) (sort_key lb_name (filter (\<lambda>l.
          (lr_name f = [] \<or> like (''%'' @ to_lower (lr_name f) @ ''%'') (to_lower (lb_name l))) \<and>
          list_cond (lr_categories f) (\<lambda>cs. set cs \<inter> set (lb_categories l) \<noteq> {})) (table d)))))"

definition countAddressLabels :: "labels_req \<Rightarrow> db \<Rightarrow> int res \<times> db" where
  "countAddressLabels f = query (\<lambda>d. int (length (filter (\<lambda>l.
     (lr_name f = [] \<or> str_contains (to_lower (lb_name l)) (to_lower (lr_name f))) \<and>
     list_cond (lr_categories f) (\<lambda>cs. set cs \<inter> set (lb_categories l) \<noteq> {})) (ch_labels d))))"

definition filterLabels :: "(db \<Rightarrow> address_label list) \<Rightarrow> labels_req \<Rightarrow> db \<Rightarrow> address_label rows res \<times> db" where
  "filterLabels rows f d =
     (case filterAddressLabels rows f d of
        (Err e, d) \<Rightarrow>
          (if str_contains (err_text e) ''invalid input value for enum label_category''
           then Err (Wrap ErrInvalidArg ''invalid input value for enum label_category'') else Err e, d)
      | (Panic p, d) \<Rightarrow> (Panic p, d)
      | (Ok rs, d) \<Rightarrow>
          if rs = [] then (Ok \<lparr>rs_total = 0, rs_rows = []\<rparr>, d)
          else (case countAddressLabels f d of
                  (Ok n, d) \<Rightarrow> (Ok \<lparr>rs_total = n, rs_rows = rs\<rparr>, d)
                | (Err e, d) \<Rightarrow> (Err e, d) | (Panic p, d) \<Rightarrow> (Panic p, d)))"

subsection \<open>Account states\<close>

definition block_conditions :: "accounts_req \<Rightarrow> account_state \<Rightarrow> bool" where
  "block_conditions f a \<longleftrightarrow>
     opt_cond (ar_workchain f) (\<lambda>w. acc_workchain a = w) \<and> opt_cond (ar_shard f) (\<lambda>s. acc_shard a = s) \<and>
     opt_cond (ar_seqno_leq f) (\<lambda>n. acc_block_seqno a \<le> n) \<and> opt_cond (ar_seqno_beq f) (\<lambda>n. n \<le> acc_block_seqno a)"

definition type_condition :: "accounts_req \<Rightarrow> account_state \<Rightarrow> bool" where
  "type_condition f a \<longleftrightarrow> list_cond (ar_contract_types f) (\<lambda>ts. set ts \<inter> set (acc_types a) \<noteq> {})"

definition state_matches :: "accounts_req \<Rightarrow> account_state \<Rightarrow> bool" where
  "state_matches f a \<longleftrightarrow>
     list_cond (ar_addresses f) (\<lambda>as. acc_address a \<in> set as) \<and>
     list_cond (ar_state_ids f) (\<lambda>ids. \<lparr>ai_address = acc_address a, ai_last_tx_lt = acc_last_tx_lt a\<rparr> \<in> set ids) \<and>
     block_conditions f a \<and> type_condition f a \<and>
     opt_cond (ar_owner f) (\<lambda>o'. acc_owner a = Some o') \<and> opt_cond (ar_minter f) (\<lambda>m. acc_minter a = Some m) \<and>
     opt_cond (ar_after_tx_lt f) (\<lambda>lt. if ar_order f = ''ASC'' then lt < acc_last_tx_lt a else acc_last_tx_lt a < lt)"

text \<open>The rows of the table that the request reads, with their labels.\<close>

definition state_table :: "accounts_req \<Rightarrow> db \<Rightarrow> account_state list" where
  "state_table f d =
     map (\<lambda>(k, a). a\<lparr>acc_label := pg_labels d (acc_address a)\<rparr>)
       (filter (\<lambda>((ad, lt), a). ar_latest_state f \<longrightarrow> pg_latest d ad = Some lt) (pg_accounts d))"

text \<open>
  \<open>ORDER BY\<close>: by time, or by block when the request bounds the block. The table of latest states has
  no block column, and a direction other than the two is no SQL: both are errors of the statement.
\<close>

definition by_seqno :: "accounts_req \<Rightarrow> bool" where
  "by_seqno f \<longleftrightarrow> ar_seqno_leq f \<noteq> None \<or> ar_seqno_beq f \<noteq> None"

definition order_rows :: "accounts_req \<Rightarrow> account_state list \<Rightarrow> account_state list" where
  "order_rows f rows =
     (let key = (\<lambda>a. if by_seqno f then uint (acc_block_seqno a) else uint (acc_last_tx_lt a))
      in if ar_order f = [] then rows
         else if to_upper (ar_order f) = ''DESC'' then sort_key (\<lambda>a. - key a) rows
         else sort_key key rows)"

definition order_error :: "accounts_req \<Rightarrow> goerr option" where
  "order_error f =
     (if ar_order f = [] then None
      else if to_upper (ar_order f) \<noteq> ''ASC'' \<and> to_upper (ar_order f) \<noteq> ''DESC'' then Some (ErrExt ''syntax error'')
      else if ar_latest_state f \<and> by_seqno f
      then Some (ErrExt ''column latest_account_state.block_seq_no does not exist'') else None)"

definition filterAccountStates :: "(account_state list \<Rightarrow> account_state list) \<Rightarrow>
    (string list \<Rightarrow> account_state \<Rightarrow> account_state) \<Rightarrow> accounts_req \<Rightarrow> int \<Rightarrow> db \<Rightarrow> account_state list res \<times> db" where
  "filterAccountStates ord excl f n d =
     (case order_error f of
        Some e \<Rightarrow> (Err e, d)
      | None \<Rightarrow>
          if ar_latest_state f \<and> n < 100000 \<and> ar_limit f < n \<and> ar_limit f < 0
          then (Err (ErrExt ''LIMIT must not be negative''), d)
          else query (\<lambda>d. let rows = order_rows f (ord (filter (state_matches f) (state_table f d)))
            in map (excl (ar_exclude_column f)) (if ar_limit f < n then sql_limit (ar_limit f) rows else rows)) d)"

text \<open>The last owner of each address among the rows that are counted.\<close>

definition last_owner :: "account_state list \<Rightarrow> addr \<Rightarrow> addr option" where
  "last_owner rows a =
     (case sort_key acc_last_tx_lt (filter (\<lambda>r. acc_address r = a) rows) of [] \<Rightarrow> None | rs \<Rightarrow> acc_owner (last rs))"

definition count_matches :: "accounts_req \<Rightarrow> account_state \<Rightarrow> bool" where
  "count_matches f a \<longleftrightarrow> list_cond (ar_addresses f) (\<lambda>as. acc_address a \<in> set as) \<and> block_conditions f a \<and>
     type_condition f a \<and> opt_cond (ar_minter f) (\<lambda>m. acc_minter a = Some m)"

definition countAccountStates :: "accounts_req \<Rightarrow> db \<Rightarrow> int res \<times> db" where
  "countAccountStates f d =
     (if ar_state_ids f \<noteq> [] then (Err (Wrap ErrNotImplemented ''do not count on filter by account state ids''), d)
      else query (\<lambda>d. let rows = filter (count_matches f) (ch_accounts d) in
        if ar_latest_state f
        then int (length (filter (\<lambda>a. opt_cond (ar_owner f) (\<lambda>o'. last_owner rows a = Some o')) (remdups (map acc_address rows))))
        else int (length (filter (\<lambda>r. opt_cond (ar_owner f) (\<lambda>o'. acc_owner r = Some o')) rows))) d)"

definition excludes :: "accounts_req \<Rightarrow> string \<Rightarrow> bool" where
  "excludes f c \<longleftrightarrow> c \<in> set (map to_lower (ar_exclude_column f))"

definition filterAccounts :: "(account_state list \<Rightarrow> account_state list) \<Rightarrow> (string list \<Rightarrow> account_state \<Rightarrow> account_state) \<Rightarrow>
    bytes key_order \<Rightarrow> accounts_req \<Rightarrow> db \<Rightarrow> account_state rows res \<times> db" where
  "filterAccounts ord excl hord f0 d =
     (let f = (if ar_limit f0 = 0 then f0\<lparr>ar_limit := 3\<rparr> else f0);
          page = (\<lambda>n d. case filterAccountStates ord excl f n d of
             (Err e, d) \<Rightarrow> (Err e, d) | (Panic p, d) \<Rightarrow> (Panic p, d)
           | (Ok rows, d) \<Rightarrow>
               if ar_with_code_data f \<and> (\<not> excludes f ''code'' \<or> \<not> excludes f ''data'')
               then (case getCodeData hord (excludes f ''code'') (excludes f ''data'') rows d of
                       (Ok rows, d) \<Rightarrow> (Ok \<lparr>rs_total = n, rs_rows = rows\<rparr>, d)
                     | (Err e, d) \<Rightarrow> (Err e, d) | (Panic p, d) \<Rightarrow> (Panic p, d))
               else (Ok \<lparr>rs_total = n, rs_rows = rows\<rparr>, d))
      in case countAccountStates f d of
           (Ok n, d) \<Rightarrow> if n = 0 then (Ok \<lparr>rs_total = 0, rs_rows = []\<rparr>, d) else page n d
         | (Err e, d) \<Rightarrow> if err_is e ErrNotImplemented then page 0 d else (Err (Wrap e ''count account states''), d)
         | (Panic p, d) \<Rightarrow> (Panic p, d))"

end
