(* ===== verification/Rescan.thy ===== *)
theory Rescan
  imports Parser AbiGet AccountFilter History ContractRepo Lru "HOL-Library.Product_Lexorder"
begin

section \<open>internal/app/rescan: parsing again what is stored when a contract description changes\<close>

text \<open>
  The rescan service takes the unfinished tasks one by one. A round of a task selects the next page
  of account states (or messages) after the checkpoint of the task, hands it in batches to the
  workers, writes what they changed and moves the checkpoint. The state is the database and the two
  caches of the service. A worker runs to its end before the next starts, in the order \<open>re_batches\<close>
  in which they are scheduled. The order of a Go map is \<open>re_range\<close>, of the hashes that are read
  \<open>re_hashes\<close>, of rows that a query does not sort \<open>re_rows\<close> and \<open>re_messages\<close>;
  \<open>re_empty_nil\<close> tells whether the driver reads an empty array as a nil slice.
\<close>

subsection \<open>cache.go: the states of minters\<close>

type_synonym minter_states = "(u64, account_state \<times> u64) lru_cache"
type_synonym minters_cache = "(addr, minter_states) lru_cache"

definition maxMinterStates :: nat where
  "maxMinterStates = 64"

text \<open>The cache holds pointers: what is done to the states of a minter is seen in the cache.\<close>

definition write_back :: "addr \<Rightarrow> minter_states \<Rightarrow> minters_cache \<Rightarrow> minters_cache" where
  "write_back k s c = c\<lparr>lru_items := map (\<lambda>(j, it). (j, if j = k then it\<lparr>it_data := s\<rparr> else it)) (lru_items c)\<rparr>"

definition minters_put :: "addr \<Rightarrow> account_state \<Rightarrow> u64 \<Rightarrow> minters_cache \<Rightarrow> minters_cache res" where
  "minters_put k st nextTxLT c =
     (case lru_get c k of
        (None, c) \<Rightarrow>
          rbind (lru_put (lru_new (int maxMinterStates)) (acc_last_tx_lt st) (st, nextTxLT)) (\<lambda>states. lru_put c k states)
      | (Some states, c) \<Rightarrow>
          rbind (lru_put states (acc_last_tx_lt st) (st, nextTxLT)) (\<lambda>states. Ok (write_back k states c)))"

fun pick_minter :: "u64 \<Rightarrow> u64 list \<Rightarrow> minter_states \<Rightarrow> account_state option \<times> minter_states" where
  "pick_minter itemTxLT [] s = (None, s)"
| "pick_minter itemTxLT (lt # lts) s =
     (if itemTxLT < lt then pick_minter itemTxLT lts s
      else case lru_get s lt of
             (None, s) \<Rightarrow> (None, s)
           | (Some (acc, nextTxLT), s) \<Rightarrow>
               if nextTxLT \<noteq> 0 \<and> nextTxLT < itemTxLT then pick_minter itemTxLT lts s else (Some acc, s))"

definition minters_get :: "addr \<Rightarrow> u64 \<Rightarrow> minters_cache \<Rightarrow> account_state option \<times> minters_cache" where
  "minters_get k itemTxLT c =
     (case lru_get c k of
        (None, c) \<Rightarrow> (None, c)
      | (Some states, c) \<Rightarrow>
          (case pick_minter itemTxLT (rev (sort (map fst (lru_items states)))) states of
             (r, states) \<Rightarrow> (r, write_back k states c)))"

subsection \<open>rescan.go: the service\<close>

record rescan_world =
  rw_db :: db
  rw_minters :: minters_cache
  rw_interfaces :: "(addr, u64 \<rightharpoonup> contract_name list) lru_cache"

record rescan_env =
  re_parser :: "rescan_world parser_env"
  re_crc :: "bytes \<Rightarrow> u16"
  re_workers :: int
  re_limit :: nat
  re_hashes :: "bytes key_order"
  re_rows :: "account_state list \<Rightarrow> account_state list"
  re_messages :: "message list \<Rightarrow> message list"
  re_batches :: "nat list \<Rightarrow> nat list"
  re_range :: "(u64 \<rightharpoonup> contract_name list) \<Rightarrow> u64 list"
  re_empty_nil :: bool

definition newService :: "rescan_env \<Rightarrow> db \<Rightarrow> rescan_env \<times> rescan_world" where
  "newService cfg d =
     (if re_workers cfg < 1 then cfg\<lparr>re_workers := 1\<rparr> else cfg,
      \<lparr>rw_db = d, rw_minters = lru_new 2048, rw_interfaces = lru_new 16384\<rparr>)"

subsection \<open>account.go: account states\<close>

fun keep_states :: "addr \<Rightarrow> account_state list \<Rightarrow> minters_cache \<Rightarrow> minters_cache res" where
  "keep_states a [] c = Ok c"
| "keep_states a (st # states) c =
     rbind (minters_put a st (case states of [] \<Rightarrow> 0 | s # _ \<Rightarrow> acc_last_tx_lt s) c) (keep_states a states)"

definition getRecentAccountState :: "rescan_env \<Rightarrow> addr \<Rightarrow> u64 \<Rightarrow> rescan_world \<Rightarrow> account_state res \<times> rescan_world" where
  "getRecentAccountState E a lastLT w =
     (case minters_get a lastLT (rw_minters w) of
        (Some minter, c) \<Rightarrow> (Ok minter, w\<lparr>rw_minters := c\<rparr>)
      | (None, c) \<Rightarrow>
          (case getAllAccountStates (re_hashes E) a lastLT maxMinterStates (rw_db w) of
             (Err e, d) \<Rightarrow> (Err e, w\<lparr>rw_minters := c, rw_db := d\<rparr>)
           | (Panic p, d) \<Rightarrow> (Panic p, w\<lparr>rw_minters := c, rw_db := d\<rparr>)
           | (Ok states, d) \<Rightarrow>
               (case keep_states a states c of
                  Ok c \<Rightarrow>
                    (case minters_get a lastLT c of
                       (Some minter, c) \<Rightarrow> (Ok minter, w\<lparr>rw_minters := c, rw_db := d\<rparr>)
                     | (None, c) \<Rightarrow> (Err (Wrap ErrNotFound ''cannot find minter state before lt''), w\<lparr>rw_minters := c, rw_db := d\<rparr>))
                | Err e \<Rightarrow> (Err e, w\<lparr>rw_minters := c, rw_db := d\<rparr>)
                | Panic p \<Rightarrow> (Panic p, w\<lparr>rw_minters := c, rw_db := d\<rparr>))))"

definition copyAccountState :: "account_state \<Rightarrow> account_state" where
  "copyAccountState st = st\<lparr>acc_executed := Some (case acc_executed st of None \<Rightarrow> [] | Some m \<Rightarrow> m)\<rparr>"

definition clear_content :: "account_state \<Rightarrow> account_state" where
  "clear_content acc = acc\<lparr>acc_nft_content := nft_content_zero\<rparr>"

definition clearParsedAccountsData :: "rescan_task \<Rightarrow> account_state \<Rightarrow> account_state" where
  "clearParsedAccountsData task acc =
     (let n = rt_contract_name task;
          m = (case acc_executed acc of None \<Rightarrow> [] | Some m \<Rightarrow> m);
          acc = acc\<lparr>acc_types := remove1 n (acc_types acc)\<rparr>
      in if n \<notin> fst ` set m then acc
         else let acc = acc\<lparr>acc_executed := Some (AList.delete n m)\<rparr>
              in if standard_contract n
                 then (clear_content acc)\<lparr>acc_minter := None, acc_owner := None, acc_fake := False, acc_jetton_balance := None\<rparr>
                 else acc)"

text \<open>The parser asks for other accounts as they were at the time of this one; its errors are logged.\<close>

definition parser_at :: "rescan_env \<Rightarrow> account_state \<Rightarrow> rescan_world parser_env" where
  "parser_at E acc = re_parser E\<lparr>pe_others := \<lambda>a. getRecentAccountState E a (acc_last_tx_lt acc)\<rparr>"

definition logged :: "(unit, 'w) parser \<Rightarrow> (unit, 'w) parser" where
  "logged m = on_error m (pret (Ok ())) (\<lambda>_. pret (Ok ()))"

definition the_contract :: "rescan_task \<Rightarrow> contract_interface res" where
  "the_contract task = (case rt_contract task of None \<Rightarrow> Panic ''nil pointer dereference'' | Some i \<Rightarrow> Ok i)"

definition rescan_parseAccountData :: "rescan_env \<Rightarrow> rescan_task \<Rightarrow> (unit, rescan_world) parser" where
  "rescan_parseAccountData E task = pget (\<lambda>acc.
     if acc_types acc \<noteq> [] \<and> is_only_wallet_interfaces (acc_types acc) then pret (Ok ())
     else pbind (pret (the_contract task)) (\<lambda>i. logged (parseAccountContractData (parser_at E acc) i)))"

definition rescanInterface :: "rescan_env \<Rightarrow> rescan_task \<Rightarrow> (unit, rescan_world) parser" where
  "rescanInterface E task =
     pbind (pmod (clearParsedAccountsData task)) (\<lambda>_.
     if rt_type task = DelInterface then pret (Ok ()) else rescan_parseAccountData E task)"

definition clearExecutedGetMethod :: "rescan_task \<Rightarrow> string \<Rightarrow> account_state \<Rightarrow> account_state" where
  "clearExecutedGetMethod task gm acc =
     (let n = rt_contract_name task;
          m = (case acc_executed acc of None \<Rightarrow> [] | Some m \<Rightarrow> m)
      in case map_of m n of
           None \<Rightarrow> acc
         | Some es \<Rightarrow>
             let a0 = (case remove_first gm es of None \<Rightarrow> acc | Some es' \<Rightarrow> acc\<lparr>acc_executed := Some (AList.update n es' m)\<rparr>);
                 a1 = (if List.member [''get_nft_content'', ''get_collection_data'', ''get_jetton_data''] gm then clear_content a0 else a0);
                 a2 = (if gm = ''get_collection_data'' then a1\<lparr>acc_owner := None\<rparr>
                       else if gm = ''get_nft_data'' \<or> gm = ''get_wallet_data''
                       then a1\<lparr>acc_owner := None, acc_minter := None, acc_fake := False, acc_jetton_balance := None\<rparr> else a1);
                 a3 = (if gm = ''get_wallet_address'' \<or> gm = ''get_nft_address_by_index'' then a2\<lparr>acc_fake := False\<rparr> else a2)
             in if standard_contract n then a3 else a0)"

definition rescan_executeGetMethod :: "rescan_env \<Rightarrow> rescan_task \<Rightarrow> string \<Rightarrow> (unit, rescan_world) parser" where
  "rescan_executeGetMethod E task gm = pget (\<lambda>acc.
     logged (executeAccountGetMethod (parser_at E acc) (rt_contract_name task) gm))"

definition matchedByGetMethod :: "rescan_env \<Rightarrow> contract_interface \<Rightarrow> string \<Rightarrow> bool \<times> bool" where
  "matchedByGetMethod E i gm =
     (if ci_code i \<noteq> [] \<or> ci_addresses i \<noteq> [] then (False, False)
      else (True, List.member (ci_get_method_hashes i) (method_name_hash (re_crc E) gm)))"

definition rescanGetMethod :: "rescan_env \<Rightarrow> rescan_task \<Rightarrow> string \<Rightarrow> (unit, rescan_world) parser" where
  "rescanGetMethod E task gm =
     pbind (pmod (clearExecutedGetMethod task gm)) (\<lambda>_.
     case rt_type task of
       AddGetMethod \<Rightarrow>
         pbind (pret (the_contract task)) (\<lambda>i.
         if matchedByGetMethod E i gm = (True, False) then pmod (clearParsedAccountsData task)
         else rescan_executeGetMethod E task gm)
     | DelGetMethod \<Rightarrow>
         pbind (pret (the_contract task)) (\<lambda>i.
         if matchedByGetMethod E i gm = (True, False) then rescan_parseAccountData E task else pret (Ok ()))
     | UpdGetMethod \<Rightarrow> rescan_executeGetMethod E task gm
     | _ \<Rightarrow> pret (Ok ()))"

fun rescan_methods :: "rescan_env \<Rightarrow> rescan_task \<Rightarrow> string list \<Rightarrow> (unit, rescan_world) parser" where
  "rescan_methods E task [] = pret (Ok ())"
| "rescan_methods E task (gm # gms) = pbind (rescanGetMethod E task gm) (\<lambda>_. rescan_methods E task gms)"

definition rescan_account :: "rescan_env \<Rightarrow> rescan_task \<Rightarrow> (unit, rescan_world) parser" where
  "rescan_account E task =
     (if rt_type task \<in> {AddInterface, UpdInterface, DelInterface} then rescanInterface E task
      else if rt_type task \<in> {AddGetMethod, UpdGetMethod, DelGetMethod} then rescan_methods E task (rt_changed_methods task)
      else pret (Ok ()))"

fun rescanAccountsWorker :: "rescan_env \<Rightarrow> rescan_task \<Rightarrow> account_state list \<Rightarrow> rescan_world \<Rightarrow>
    account_state list res \<times> rescan_world" where
  "rescanAccountsWorker E task [] w = (Ok [], w)"
| "rescanAccountsWorker E task (acc # batch) w =
     (case rescan_account E task (copyAccountState acc, w) of
        (Ok _, update, w) \<Rightarrow>
          (case rescanAccountsWorker E task batch w of
             (Ok updates, w) \<Rightarrow> (Ok (if update = acc then updates else update # updates), w)
           | r \<Rightarrow> r)
      | (Err e, _, w) \<Rightarrow> (Err e, w)
      | (Panic p, _, w) \<Rightarrow> (Panic p, w))"

subsection \<open>tx.go: messages\<close>

text \<open>
  The interfaces of an account at a time: of the last change that is not after it, or else of the
  first change of all. The first loop leaves the change at time 0 out and its result counts only
  when it is not nil.
\<close>

definition last_change :: "(u64 \<rightharpoonup> contract_name list) \<Rightarrow> u64 \<Rightarrow> u64 list \<Rightarrow> u64 \<times> contract_name list option" where
  "last_change updates txLT lts = foldl (\<lambda>(maxLT, ret) updLT.
     if updLT \<le> txLT \<and> maxLT < updLT then (updLT, updates updLT) else (maxLT, ret)) (0, None) lts"

definition first_change :: "(u64 \<rightharpoonup> contract_name list) \<Rightarrow> u64 list \<Rightarrow> u64 \<times> contract_name list option" where
  "first_change updates lts = foldl (\<lambda>(minLT, ret) updLT.
     if updLT < minLT then (updLT, updates updLT) else (minLT, ret)) (push_bit 63 1, None) lts"

definition chooseInterfaces :: "rescan_env \<Rightarrow> (u64 \<rightharpoonup> contract_name list) \<Rightarrow> u64 \<Rightarrow> contract_name list" where
  "chooseInterfaces E updates txLT =
     (let lts = re_range E updates;
          or_empty = (\<lambda>r. case r of None \<Rightarrow> [] | Some ts \<Rightarrow> ts);
          ret = snd (last_change updates txLT lts)
      in if lts = [] then []
         else if ret \<noteq> None \<and> (or_empty ret \<noteq> [] \<or> \<not> re_empty_nil E) then or_empty ret
         else case first_change updates lts of (_, Some ts) \<Rightarrow> ts | (_, None) \<Rightarrow> or_empty ret)"

definition typed_account :: "addr \<Rightarrow> contract_name list \<Rightarrow> account_state" where
  "typed_account a ts = account_zero\<lparr>acc_address := a, acc_types := ts\<rparr>"

definition getAccountStateForMessage :: "rescan_env \<Rightarrow> addr \<Rightarrow> u64 \<Rightarrow> rescan_world \<Rightarrow> account_state option res \<times> rescan_world" where
  "getAccountStateForMessage E a txLT w =
     (case lru_get (rw_interfaces w) a of
        (Some updates, c) \<Rightarrow> (Ok (Some (typed_account a (chooseInterfaces E updates txLT))), w\<lparr>rw_interfaces := c\<rparr>)
      | (None, c) \<Rightarrow>
          (case getAllAccountInterfaces a (rw_db w) of
             (Err e, d) \<Rightarrow> (Ok None, w\<lparr>rw_interfaces := c, rw_db := d\<rparr>)
           | (Panic p, d) \<Rightarrow> (Panic p, w\<lparr>rw_interfaces := c, rw_db := d\<rparr>)
           | (Ok updates, d) \<Rightarrow>
               (case lru_put c a updates of
                  Ok c \<Rightarrow> (Ok (Some (typed_account a (chooseInterfaces E updates txLT))), w\<lparr>rw_interfaces := c, rw_db := d\<rparr>)
                | Err e \<Rightarrow> (Err e, w\<lparr>rw_interfaces := c, rw_db := d\<rparr>)
                | Panic p \<Rightarrow> (Panic p, w\<lparr>rw_interfaces := c, rw_db := d\<rparr>))))"

definition rescanMessage :: "rescan_env \<Rightarrow> rescan_task \<Rightarrow> message \<Rightarrow> rescan_world \<Rightarrow> unit res \<times> message \<times> rescan_world" where
  "rescanMessage E task upd w =
     (let n = rt_contract_name task;
          parse = (\<lambda>src dst upd w. parseMessagePayload (re_parser E) (upd\<lparr>ms_src_state := src, ms_dst_state := dst\<rparr>) w)
      in if rt_outgoing task
         then (case getAccountStateForMessage E (ms_dst_address upd) (ms_dst_tx_lt upd) w of
                 (Ok dst, w) \<Rightarrow> parse (Some (typed_account (ms_src_address upd) [n])) dst upd w
               | (Err e, w) \<Rightarrow> (Err e, upd, w) | (Panic p, w) \<Rightarrow> (Panic p, upd, w))
         else (case getAccountStateForMessage E (ms_src_address upd) (ms_src_tx_lt upd) w of
                 (Ok src, w) \<Rightarrow> parse src (Some (typed_account (ms_dst_address upd) [n])) upd w
               | (Err e, w) \<Rightarrow> (Err e, upd, w) | (Panic p, w) \<Rightarrow> (Panic p, upd, w)))"

definition clear_operation :: "message \<Rightarrow> message" where
  "clear_operation m = m\<lparr>ms_src_contract := [], ms_dst_contract := [], ms_operation_name := [], ms_data_json := [], ms_error := []\<rparr>"

fun rescanMessagesWorker :: "rescan_env \<Rightarrow> rescan_task \<Rightarrow> message list \<Rightarrow> rescan_world \<Rightarrow> message list res \<times> rescan_world" where
  "rescanMessagesWorker E task [] w = (Ok [], w)"
| "rescanMessagesWorker E task (msg # msgs) w =
     (let (r, upd, w) =
        (if rt_type task = DelOperation then (Ok (), clear_operation msg, w)
         else if rt_type task = UpdOperation then rescanMessage E task msg w
         else (Ok (), msg, w))
      in case r of
           Panic p \<Rightarrow> (Panic p, w)
         | _ \<Rightarrow>
           (case rescanMessagesWorker E task msgs w of
              (Ok updates, w) \<Rightarrow> (Ok (if is_ok r \<and> upd \<noteq> msg then upd # updates else updates), w)
            | x \<Rightarrow> x))"

subsection \<open>rescan.go: batches, pages and tasks\<close>

text \<open>Each batch is the remaining elements divided by the remaining workers, rounded up.\<close>

fun batches :: "nat \<Rightarrow> 'v list \<Rightarrow> 'v list list res" where
  "batches 0 xs = (if xs = [] then Ok [] else Panic ''integer divide by zero'')"
| "batches (Suc w) xs =
     (if xs = [] then Ok []
      else let n = length xs div Suc w + (if length xs mod Suc w \<noteq> 0 then 1 else 0)
           in rbind (batches w (drop n xs)) (\<lambda>bs. Ok (take n xs # bs)))"

fun run_batches :: "('v list \<Rightarrow> 'w \<Rightarrow> 'v list res \<times> 'w) \<Rightarrow> 'v list list \<Rightarrow> 'w \<Rightarrow> 'v list res \<times> 'w" where
  "run_batches work [] w = (Ok [], w)"
| "run_batches work (b # bs) w =
     (case work b w of
        (Ok us, w) \<Rightarrow>
          (case run_batches work bs w of (Ok vs, w) \<Rightarrow> (Ok (us @ vs), w) | r \<Rightarrow> r)
      | r \<Rightarrow> r)"

definition zero_id :: account_state_id where
  "zero_id = \<lparr>ai_address = replicate 33 0, ai_last_tx_lt = 0\<rparr>"

definition last_parsed :: "('v \<Rightarrow> account_state_id) \<Rightarrow> 'v list \<Rightarrow> account_state_id" where
  "last_parsed getID rows = foldl (\<lambda>l v. let i = getID v in
     if ai_address l \<le> ai_address i \<or> ai_last_tx_lt l \<le> ai_last_tx_lt i then i else l) zero_id rows"

definition rescanStartWorkers :: "(nat list \<Rightarrow> nat list) \<Rightarrow> 'v list \<Rightarrow> ('v \<Rightarrow> account_state_id) \<Rightarrow>
    ('v list \<Rightarrow> 'w \<Rightarrow> 'v list res \<times> 'w) \<Rightarrow> int \<Rightarrow> 'w \<Rightarrow> ('v list \<times> account_state_id) res \<times> 'w" where
  "rescanStartWorkers ord rows getID work workers w =
     (case batches (nat (if int (length rows) < workers then int (length rows) else workers)) rows of
        Err e \<Rightarrow> (Err e, w)
      | Panic p \<Rightarrow> (Panic p, w)
      | Ok bs \<Rightarrow>
          (case run_batches work (map (nth bs) (ord [0 ..< length bs])) w of
             (Ok updates, w) \<Rightarrow> (Ok (updates, last_parsed getID rows), w)
           | (Err e, w) \<Rightarrow> (Err e, w)
           | (Panic p, w) \<Rightarrow> (Panic p, w)))"

definition move_checkpoint :: "account_state_id \<Rightarrow> rescan_task \<Rightarrow> rescan_task" where
  "move_checkpoint i task = task\<lparr>rt_last_address := Some (ai_address i), rt_last_tx_lt := ai_last_tx_lt i\<rparr>"

definition state_id :: "account_state \<Rightarrow> account_state_id" where
  "state_id v = \<lparr>ai_address = acc_address v, ai_last_tx_lt = acc_last_tx_lt v\<rparr>"

definition message_id :: "rescan_task \<Rightarrow> message \<Rightarrow> account_state_id" where
  "message_id task v =
     (if rt_outgoing task then \<lparr>ai_address = ms_src_address v, ai_last_tx_lt = ms_src_tx_lt v\<rparr>
      else \<lparr>ai_address = ms_dst_address v, ai_last_tx_lt = ms_dst_tx_lt v\<rparr>)"

definition rescanAccounts :: "rescan_env \<Rightarrow> rescan_task \<Rightarrow> account_state_id list \<Rightarrow> rescan_world \<Rightarrow> rescan_task res \<times> rescan_world" where
  "rescanAccounts E task ids w =
     (case filterAccounts (re_rows E) (\<lambda>_ a. a) (re_hashes E)
             (accounts_req_zero\<lparr>ar_with_code_data := True, ar_state_ids := ids\<rparr>) (rw_db w) of
        (Err e, d) \<Rightarrow> (Err (Wrap e ''filter accounts''), w\<lparr>rw_db := d\<rparr>)
      | (Panic p, d) \<Rightarrow> (Panic p, w\<lparr>rw_db := d\<rparr>)
      | (Ok res, d) \<Rightarrow>
          (case rescanStartWorkers (re_batches E) (rs_rows res) state_id (rescanAccountsWorker E task) (re_workers E) (w\<lparr>rw_db := d\<rparr>) of
             (Err e, w) \<Rightarrow> (Err e, w)
           | (Panic p, w) \<Rightarrow> (Panic p, w)
           | (Ok (updates, i), w) \<Rightarrow>
               (case if updates \<noteq> [] then updateAccountStates updates (rw_db w) else (None, rw_db w) of
                  (Some e, d) \<Rightarrow> (Err (Wrap e ''update account states''), w\<lparr>rw_db := d\<rparr>)
                | (None, d) \<Rightarrow> (Ok (move_checkpoint i task), w\<lparr>rw_db := d\<rparr>))))"

definition rescanMessages :: "rescan_env \<Rightarrow> rescan_task \<Rightarrow> bytes list \<Rightarrow> rescan_world \<Rightarrow> rescan_task res \<times> rescan_world" where
  "rescanMessages E task hashes w =
     (case getMessages (re_messages E) hashes (rw_db w) of
        (Err e, d) \<Rightarrow> (Err e, w\<lparr>rw_db := d\<rparr>)
      | (Panic p, d) \<Rightarrow> (Panic p, w\<lparr>rw_db := d\<rparr>)
      | (Ok messages, d) \<Rightarrow>
          (case rescanStartWorkers (re_batches E) messages (message_id task) (rescanMessagesWorker E task) (re_workers E) (w\<lparr>rw_db := d\<rparr>) of
             (Err e, w) \<Rightarrow> (Err e, w)
           | (Panic p, w) \<Rightarrow> (Panic p, w)
           | (Ok (updates, i), w) \<Rightarrow>
               (case if updates \<noteq> [] then updateMessages updates (rw_db w) else (None, rw_db w) of
                  (Some e, d) \<Rightarrow> (Err (Wrap e ''update messages''), w\<lparr>rw_db := d\<rparr>)
                | (None, d) \<Rightarrow> (Ok (move_checkpoint i task), w\<lparr>rw_db := d\<rparr>))))"

text \<open>An empty page ends the task.\<close>

definition page :: "string \<Rightarrow> string \<Rightarrow> ('i list \<Rightarrow> rescan_world \<Rightarrow> rescan_task res \<times> rescan_world) \<Rightarrow> rescan_task \<Rightarrow>
    'i list res \<times> db \<Rightarrow> rescan_world \<Rightarrow> rescan_task res \<times> rescan_world" where
  "page m1 m2 scan task r w =
     (case r of
        (Err e, d) \<Rightarrow> (Err (Wrap e m1), w\<lparr>rw_db := d\<rparr>)
      | (Panic p, d) \<Rightarrow> (Panic p, w\<lparr>rw_db := d\<rparr>)
      | (Ok ids, d) \<Rightarrow>
          if ids = [] then (Ok (task\<lparr>rt_finished := True\<rparr>), w\<lparr>rw_db := d\<rparr>)
          else case scan ids (w\<lparr>rw_db := d\<rparr>) of (r, w) \<Rightarrow> (rwrap m2 r, w))"

definition codeHash_of :: "rescan_env \<Rightarrow> rescan_task \<Rightarrow> bytes res" where
  "codeHash_of E task =
     (let L = env_cells (re_parser E)
      in case rt_contract task of
           Some i \<Rightarrow> if ci_code i = [] then Ok []
             else rbind (rwrap ''making code cell from boc'' (cl_fromBOC L (ci_code i))) (\<lambda>c. Ok (cl_hash L c))
         | None \<Rightarrow> Ok [])"

definition match_states :: "rescan_env \<Rightarrow> rescan_task \<Rightarrow> contract_name \<Rightarrow> contract_interface option \<Rightarrow> bytes \<Rightarrow> rescan_world \<Rightarrow>
    account_state_id list res \<times> db" where
  "match_states E task n i codeHash w =
     (case i of
        None \<Rightarrow> matchStatesByInterfaceDesc n [] [] [] (rt_last_address task) (rt_last_tx_lt task) (re_limit E) (rw_db w)
      | Some i \<Rightarrow> matchStatesByInterfaceDesc n (ci_addresses i) codeHash (ci_get_method_hashes i)
          (rt_last_address task) (rt_last_tx_lt task) (re_limit E) (rw_db w))"

definition rescanRunTask :: "rescan_env \<Rightarrow> rescan_task \<Rightarrow> rescan_world \<Rightarrow> rescan_task res \<times> rescan_world" where
  "rescanRunTask E task w =
     (case codeHash_of E task of
        Err e \<Rightarrow> (Err e, w)
      | Panic p \<Rightarrow> (Panic p, w)
      | Ok codeHash \<Rightarrow>
          (let accounts = (\<lambda>n i. page ''match states by interface description'' ''rescan accounts'' (rescanAccounts E task) task
                  (match_states E task n i codeHash w) w);
               contract = (\<lambda>n. case the_contract task of
                  Ok i \<Rightarrow> accounts n (Some i) | Err e \<Rightarrow> (Err e, w) | Panic p \<Rightarrow> (Panic p, w))
           in case rt_type task of
                AddInterface \<Rightarrow> contract []
              | DelInterface \<Rightarrow> accounts (rt_contract_name task) None
              | DelOperation \<Rightarrow> page ''get addresses by contract name'' ''rescan messages'' (rescanMessages E task) task
                  (matchMessagesByOperationDesc (rt_contract_name task) (rt_message_type task) (rt_outgoing task)
                     (rt_operation_id task) (rt_last_address task) (rt_last_tx_lt task) (re_limit E) (rw_db w)) w
              | UpdOperation \<Rightarrow> page ''get addresses by contract name'' ''rescan messages'' (rescanMessages E task) task
                  (matchMessagesByOperationDesc (rt_contract_name task) (rt_message_type task) (rt_outgoing task)
                     (rt_operation_id task) (rt_last_address task) (rt_last_tx_lt task) (re_limit E) (rw_db w)) w
              | RescanOther t \<Rightarrow> (Err (Wrap ErrInvalidArg ''unknown rescan task type''), w)
              | _ \<Rightarrow> contract (rt_contract_name task)))"

text \<open>
  One round of \<open>rescanLoop\<close>, with what it logs; \<open>rescanLoop\<close> runs rounds, each in its own
  environment, until the service is stopped. A round that fails is rolled back: of the transaction, which
  holds the row of the task only, nothing is left, what the round wrote otherwise stays.
\<close>

definition rescan_round :: "rescan_env \<Rightarrow> rescan_world \<Rightarrow> unit res \<times> rescan_world" where
  "rescan_round E w =
     (case getUnfinishedRescanTask (rw_db w) of
        (Err e, d) \<Rightarrow> (Err e, w\<lparr>rw_db := d\<rparr>)
      | (Panic p, d) \<Rightarrow> (Panic p, w\<lparr>rw_db := d\<rparr>)
      | (Ok task, d) \<Rightarrow>
          (case rescanRunTask E task (w\<lparr>rw_db := d\<rparr>) of
             (Err e, w) \<Rightarrow> (Err e, w)
           | (Panic p, w) \<Rightarrow> (Panic p, w)
           | (Ok task, w) \<Rightarrow>
               (case setRescanTask task (rw_db w) of
                  (Some e, d) \<Rightarrow> (Err e, w\<lparr>rw_db := d\<rparr>)
                | (None, d) \<Rightarrow> (Ok (), w\<lparr>rw_db := d\<rparr>))))"

fun rescanLoop :: "rescan_env list \<Rightarrow> rescan_world \<Rightarrow> unit res \<times> rescan_world" where
  "rescanLoop [] w = (Ok (), w)"
| "rescanLoop (E # Es) w =
     (case rescan_round E w of (Panic p, w) \<Rightarrow> (Panic p, w) | (_, w) \<Rightarrow> rescanLoop Es w)"

end
