(* ===== verification/Rescanning.thy ===== *)
theory Rescanning
  imports Rescan Parsing
begin

section \<open>A rescan reaches every account state\<close>

text \<open>
  What the tasks of the rescan service come to. The locale \<open>paged_scan\<close> is the contract of a scan
  by pages: a step treats the pending keys up to a new checkpoint, which is one of them, and leaves the
  later ones pending; an empty page ends the scan. It is interpreted on the rounds of a
  \<open>DelInterface\<close> task.
\<close>

subsection \<open>Scans by pages\<close>

locale paged_scan =
  fixes step :: "'s \<Rightarrow> 's" and ok finished :: "'s \<Rightarrow> bool"
    and pending :: "'s \<Rightarrow> 'k::linorder set" and treated :: "'s \<Rightarrow> 'k \<Rightarrow> bool"
  assumes finite_pending: "ok s \<Longrightarrow> finite (pending s)"
    and step_ok: "ok s \<Longrightarrow> \<not> finished s \<Longrightarrow> ok (step s)"
    and step_end: "ok s \<Longrightarrow> \<not> finished s \<Longrightarrow> pending s = {} \<Longrightarrow> finished (step s)"
    and step_page: "ok s \<Longrightarrow> \<not> finished s \<Longrightarrow> pending s \<noteq> {} \<Longrightarrow> \<not> finished (step s) \<and>
      (\<exists>c \<in> pending s. pending (step s) = {k \<in> pending s. c < k} \<and> (\<forall>k \<in> pending s. k \<le> c \<longrightarrow> treated (step s) k))"
    and step_keeps: "ok s \<Longrightarrow> \<not> finished s \<Longrightarrow> treated s k \<Longrightarrow> treated (step s) k"
begin

text \<open>The scan ends, and then every key that was pending has been treated.\<close>

lemma completes:
  assumes "ok s" and "\<not> finished s"
  shows "\<exists>n \<le> card (pending s). (\<forall>m \<le> n. ok ((step ^^ m) s) \<and> \<not> finished ((step ^^ m) s)) \<and>
    ok ((step ^^ Suc n) s) \<and> finished ((step ^^ Suc n) s) \<and>
    (\<forall>k. k \<in> pending s \<or> treated s k \<longrightarrow> treated ((step ^^ Suc n) s) k)"
  using assms
proof (induction "card (pending s)" arbitrary: s rule: less_induct)
  case less
  show ?case
  proof (cases "pending s = {}")
    case True
    then show ?thesis
      using less.prems by (intro exI[of _ 0]) (auto simp: step_ok step_end step_keeps)
  next
    case False
    note page = step_page[OF less.prems False]
    then obtain c where c: "c \<in> pending s" and rest: "pending (step s) = {k \<in> pending s. c < k}"
      and visited: "\<And>k. k \<in> pending s \<Longrightarrow> k \<le> c \<Longrightarrow> treated (step s) k" by blast
    have ok1: "ok (step s)" using less.prems by (rule step_ok)
    have fewer: "card (pending (step s)) < card (pending s)"
      unfolding rest by (rule psubset_card_mono[OF finite_pending[OF less.prems(1)]]) (use c in auto)
    from less.hyps[OF fewer ok1 conjunct1[OF page]] obtain n where n: "n \<le> card (pending (step s))"
      "\<forall>m \<le> n. ok ((step ^^ m) (step s)) \<and> \<not> finished ((step ^^ m) (step s))"
      "ok ((step ^^ Suc n) (step s))" "finished ((step ^^ Suc n) (step s))"
      "\<forall>k. k \<in> pending (step s) \<or> treated (step s) k \<longrightarrow> treated ((step ^^ Suc n) (step s)) k"
      by blast
    have shift: "(step ^^ Suc m) s = (step ^^ m) (step s)" for m by (simp add: funpow_swap1)
    have before: "ok ((step ^^ m) s) \<and> \<not> finished ((step ^^ m) s)" if "m \<le> Suc n" for m
      using that n(2) less.prems by (cases m) (auto simp: shift simp del: funpow.simps(2))
    have "treated (step s) k \<or> k \<in> pending (step s)" if "k \<in> pending s" for k
      using that visited[of k] unfolding rest by (cases "k \<le> c") auto
    then have "treated ((step ^^ Suc n) (step s)) k" if "k \<in> pending s \<or> treated s k" for k
      using that n(5) step_keeps[OF less.prems, of k] by blast
    then show ?thesis
      using n before fewer by (intro exI[of _ "Suc n"]) (auto simp: shift simp del: funpow.simps(2))
  qed
qed

end

subsection \<open>Batches and checkpoints\<close>

lemma batches_Ok: "0 < w \<or> xs = [] \<Longrightarrow> \<exists>bs. batches w xs = Ok bs \<and> concat bs = xs \<and> length bs \<le> w"
proof (induction w xs rule: batches.induct)
  case (2 w xs)
  show ?case
  proof (cases "xs = []")
    case False
    let ?n = "length xs div Suc w + (if length xs mod Suc w \<noteq> 0 then 1 else 0)"
    have "0 < w \<or> drop ?n xs = []" by (cases w) auto
    from "2.IH"[OF False refl this] obtain bs where "batches w (drop ?n xs) = Ok bs" "concat bs = drop ?n xs" "length bs \<le> w"
      by blast
    then show ?thesis using False by (simp add: Let_def)
  qed simp
qed simp

lemma last_parsed_mem:
  assumes "rows \<noteq> []"
  shows "last_parsed getID rows \<in> getID ` set rows"
proof -
  have step: "foldl (\<lambda>l v. let i = getID v in if ai_address l \<le> ai_address i \<or> ai_last_tx_lt l \<le> ai_last_tx_lt i then i else l) l rows
      \<in> insert l (getID ` set rows)" for l rows
    by (induction rows arbitrary: l) (auto simp: Let_def)
  obtain v vs where "rows = v # vs" using assms by (cases rows) auto
  then show ?thesis
    using step[of "getID v" vs] by (auto simp: last_parsed_def zero_id_def Let_def)
qed

text \<open>The first keys of a sorted list hold every key up to any one of them.\<close>

lemma take_sorted_initial:
  assumes "sorted xs" and "x \<in> set (take n xs)" and "y \<in> set xs" and "y \<le> x"
  shows "y \<in> set (take n xs)"
proof (rule ccontr)
  assume y: "y \<notin> set (take n xs)"
  then have "y \<in> set (drop n xs)" using assms(3) by (metis Un_iff append_take_drop_id set_append)
  moreover have "sorted (take n xs @ drop n xs)" using assms(1) by simp
  ultimately have "x \<le> y" using assms(2) unfolding sorted_append by blast
  then show False using y assms(2,4) by auto
qed

subsection \<open>Clearing what a deleted interface left\<close>

text \<open>An account state carries an interface when it has its type or results of its methods.\<close>

definition carries :: "contract_name \<Rightarrow> account_state \<Rightarrow> bool" where
  "carries c a \<longleftrightarrow> c \<in> set (acc_types a) \<or> c \<in> fst ` set (case acc_executed a of None \<Rightarrow> [] | Some m \<Rightarrow> m)"

definition cleared :: "rescan_task \<Rightarrow> account_state \<Rightarrow> account_state" where
  "cleared task a = clearParsedAccountsData task (copyAccountState a)"

definition clear_update :: "rescan_task \<Rightarrow> account_state \<Rightarrow> account_state list" where
  "clear_update task a = (if cleared task a = a then [] else [cleared task a])"

lemma cleared_keeps [simp]:
  "acc_address (cleared task a) = acc_address a" "acc_last_tx_lt (cleared task a) = acc_last_tx_lt a"
  "account_key (cleared task a) = account_key a"
  by (simp_all add: cleared_def clearParsedAccountsData_def copyAccountState_def Let_def clear_content_def account_key_def)

lemma cleared_types: "acc_types (cleared task a) = remove1 (rt_contract_name task) (acc_types a)"
  by (simp add: cleared_def clearParsedAccountsData_def copyAccountState_def Let_def clear_content_def)

lemma cleared_executed:
  "rt_contract_name task \<notin> fst ` set (case acc_executed (cleared task a) of None \<Rightarrow> [] | Some m \<Rightarrow> m)"
proof -
  have "n \<notin> fst ` set (AList.delete n m)" for n and m :: "(contract_name \<times> get_method_execution list) list"
    by (auto simp: AList.delete_eq)
  then show ?thesis
    by (auto simp: cleared_def clearParsedAccountsData_def copyAccountState_def Let_def clear_content_def)
qed

lemma cleared_not_carries: "distinct (acc_types a) \<Longrightarrow> \<not> carries (rt_contract_name task) (cleared task a)"
  using cleared_executed[of task a] by (simp add: carries_def cleared_types)

lemma carries_sort [simp]: "carries c (sort_executions a) = carries c a"
  by (cases "acc_executed a") (simp_all add: carries_def sort_executions_def image_image case_prod_unfold)

lemma account_key_sort [simp]: "account_key (sort_executions a) = account_key a"
  by (simp add: account_key_def sort_executions_def)

lemma worker_clears:
  assumes "rt_type task = DelInterface"
  shows "rescanAccountsWorker E task xs w = (Ok (concat (map (clear_update task) xs)), w)"
  by (induction xs)
    (simp_all add: rescan_account_def rescanInterface_def assms pmod_def pret_def clear_update_def cleared_def)

lemma run_batches_map:
  assumes "\<And>b w. work b w = (Ok (concat (map f b)), w)"
  shows "run_batches work bs w = (Ok (concat (map f (concat bs))), w)"
  by (induction bs) (simp_all add: assms)

lemma mset_concat_image: "mset (concat xs) = sum_mset (image_mset mset (mset xs))"
  by (induction xs) simp_all

text \<open>Every row is worked on once, in whatever order the batches run.\<close>

lemma start_workers_map:
  assumes work: "\<And>b w. work b w = (Ok (concat (map f b)), w)" and "range_order ord" and "1 \<le> workers"
  obtains us where "rescanStartWorkers ord rows getID work workers w = (Ok (us, last_parsed getID rows), w)"
    and "mset us = mset (concat (map f rows))"
proof -
  let ?n = "nat (if int (length rows) < workers then int (length rows) else workers)"
  obtain bs where bs: "batches ?n rows = Ok bs" "concat bs = rows"
    using batches_Ok[of ?n rows] assms(3) by fastforce
  let ?order = "map (nth bs) (ord [0 ..< length bs])"
  have "mset ?order = image_mset (nth bs) (mset [0 ..< length bs])"
    using assms(2) by (simp only: mset_map range_order_def)
  then have "mset ?order = mset bs" by (simp only: map_nth flip: mset_map)
  then have "mset (concat ?order) = mset rows" by (simp only: mset_concat_image flip: bs(2))
  then have "mset (concat (map f (concat ?order))) = mset (concat (map f rows))"
    by (simp only: mset_concat_image mset_map)
  then show ?thesis
    by (rule that[rotated]) (simp add: rescanStartWorkers_def bs(1) run_batches_map[OF work])
qed

subsection \<open>What a page of account states reads and writes\<close>

text \<open>
  A database that can be rescanned: no statement fails, every row of ClickHouse has its row in
  PostgreSQL with a time, and the code and data of the rows can be read.
\<close>

definition rescannable :: "db \<Rightarrow> bool" where
  "rescannable d \<longleftrightarrow> db_faults d = [] \<and>
     (\<forall>(k, a) \<in> set (pg_accounts d). k = account_key a \<and> distinct (acc_types a) \<and> code_stored d a) \<and>
     account_key ` set (ch_accounts d) \<subseteq> fst ` set (pg_accounts d) \<and>
     (\<forall>b \<in> set (ch_accounts d). acc_last_tx_lt b \<noteq> 0)"

definition states_of :: "account_state_id list \<Rightarrow> db \<Rightarrow> account_state list" where
  "states_of ids d = filter (\<lambda>a. state_id a \<in> set ids) (map (\<lambda>(k, a). a\<lparr>acc_label := pg_labels d (acc_address a)\<rparr>) (pg_accounts d))"

lemma filterAccounts_ids:
  assumes "db_faults d = []" and "range_order ord" and "range_order hord" and "ids \<noteq> []"
    and "\<And>a. a \<in> set (states_of ids d) \<Longrightarrow> code_stored d a"
  shows "filterAccounts ord (\<lambda>_ a. a) hord (accounts_req_zero\<lparr>ar_with_code_data := True, ar_state_ids := ids\<rparr>) d
    = (Ok \<lparr>rs_total = 0, rs_rows = map (filled d) (ord (states_of ids d))\<rparr>, d)"
proof -
  let ?f = "accounts_req_zero\<lparr>ar_with_code_data := True, ar_state_ids := ids, ar_limit := 3\<rparr>"
  have rows: "filter (state_matches ?f) (state_table ?f d) = states_of ids d"
    unfolding states_of_def state_table_def
    by (simp add: accounts_req_zero_def state_matches_def[abs_def] block_conditions_def type_condition_def
        opt_cond_def list_cond_def assms(4) state_id_def[abs_def] case_prod_unfold cong: filter_cong)
  have "filterAccountStates ord (\<lambda>_ a. a) ?f 0 d = (Ok (ord (states_of ids d)), d)"
    using rows unfolding filterAccountStates_def
    by (simp add: order_error_def order_rows_def accounts_req_zero_def query_def assms(1) Let_def)
  moreover have "getCodeData hord False False (ord (states_of ids d)) d = (Ok (map (filled d) (ord (states_of ids d))), d)"
    by (rule getCodeData_ok[OF assms(1,3)]) (simp add: range_order_set[OF assms(2)] assms(5))
  ultimately show ?thesis
    by (simp add: filterAccounts_def countAccountStates_def accounts_req_zero_def assms(4) excludes_def Let_def)
qed

lemma update_accounts_Ok:
  assumes "db_faults d = []"
  shows "update_accounts us d = (None, d\<lparr>pg_accounts := map (\<lambda>(k, row).
    (k, fold (\<lambda>u row. if k = account_key u then update_parsed (sort_executions u) row else row) us row)) (pg_accounts d)\<rparr>)"
  using assms
proof (induction us arbitrary: d)
  case (Cons u us)
  then show ?case
    by (simp add: then_exec_def wrap_exec_def exec_def wrap_err_def comp_def case_prod_unfold)
qed simp

lemma updateAccountStates_Ok:
  assumes "db_faults d = []" and "us \<noteq> []"
  shows "updateAccountStates us d = (None, d\<lparr>pg_accounts := map (\<lambda>(k, row).
      (k, fold (\<lambda>u row. if k = account_key u then update_parsed (sort_executions u) row else row) us row)) (pg_accounts d),
    ch_accounts := ch_accounts d @ map (account_row \<circ> sort_executions) us\<rparr>)"
  using assms(2) by (simp add: updateAccountStates_def update_accounts_Ok[OF assms(1)] then_exec_def exec_def assms(1))

text \<open>What the updates leave in a row, when none of them carries the interface.\<close>

lemma fold_update_keeps:
  "account_key (fold (\<lambda>u row. if k = account_key u then update_parsed (sort_executions u) row else row) us row) = account_key row"
  "code_stored d (fold (\<lambda>u row. if k = account_key u then update_parsed (sort_executions u) row else row) us row) = code_stored d row"
  by (induction us arbitrary: row) (simp_all add: update_parsed_def account_key_def code_stored_def)

lemma fold_update_types:
  assumes "\<forall>u \<in> set us. distinct (acc_types u)" and "distinct (acc_types row)"
  shows "distinct (acc_types (fold (\<lambda>u row. if k = account_key u then update_parsed (sort_executions u) row else row) us row))"
  using assms by (induction us arbitrary: row) (simp_all add: update_parsed_def sort_executions_def)

lemma carries_update [simp]: "carries c (update_parsed u row) = carries c u"
  by (simp add: carries_def update_parsed_def)

lemma fold_update_clears:
  assumes "\<forall>u \<in> set us. \<not> carries c u" and "\<not> carries c row \<or> (\<exists>u \<in> set us. account_key u = k)"
  shows "\<not> carries c (fold (\<lambda>u row. if k = account_key u then update_parsed (sort_executions u) row else row) us row)"
  using assms by (induction us arbitrary: row) auto

definition with_updates :: "account_state list \<Rightarrow> db \<Rightarrow> db" where
  "with_updates us d = d\<lparr>pg_accounts := map (\<lambda>(k, row).
      (k, fold (\<lambda>u row. if k = account_key u then update_parsed (sort_executions u) row else row) us row)) (pg_accounts d),
    ch_accounts := ch_accounts d @ map (account_row \<circ> sort_executions) us\<rparr>"

lemma update_if_any:
  assumes "db_faults d = []"
  shows "(if us \<noteq> [] then updateAccountStates us d else (None, d)) = (None, with_updates us d)"
proof (cases "us = []")
  case True
  then show ?thesis by (simp add: with_updates_def case_prod_unfold)
qed (simp add: updateAccountStates_Ok[OF assms] with_updates_def)

subsection \<open>One round of a task that deletes an interface\<close>

definition matched :: "contract_name \<Rightarrow> db \<Rightarrow> (addr \<times> u64) set" where
  "matched c d = account_key ` {b \<in> set (ch_accounts d). c \<in> set (acc_types b)}"

definition after_checkpoint :: "rescan_task \<Rightarrow> addr \<times> u64 \<Rightarrow> bool" where
  "after_checkpoint task k \<longleftrightarrow>
     (case rt_last_address task of Some a \<Rightarrow> rt_last_tx_lt task \<noteq> 0 \<longrightarrow> (a, rt_last_tx_lt task) < k | None \<Rightarrow> True)"

definition to_scan :: "contract_name \<Rightarrow> rescan_task \<Rightarrow> db \<Rightarrow> (addr \<times> u64) set" where
  "to_scan c task d = {k \<in> matched c d. after_checkpoint task k}"

definition freed :: "contract_name \<Rightarrow> db \<Rightarrow> addr \<times> u64 \<Rightarrow> bool" where
  "freed c d k \<longleftrightarrow> (\<forall>a. (k, a) \<in> set (pg_accounts d) \<longrightarrow> \<not> carries c a)"

definition scan_env :: "rescan_env \<Rightarrow> bool" where
  "scan_env E \<longleftrightarrow> 0 < re_limit E \<and> 1 \<le> re_workers E \<and> range_order (re_hashes E) \<and> range_order (re_rows E) \<and>
     range_order (re_batches E)"

definition deletes :: "contract_name \<Rightarrow> rescan_task \<Rightarrow> bool" where
  "deletes c task \<longleftrightarrow> rt_type task = DelInterface \<and> rt_contract_name task = c \<and> c \<noteq> [] \<and> rt_contract task = None"

lemma finite_matched: "finite (matched c d)"
  by (simp add: matched_def)

lemma match_page:
  assumes "db_faults (rw_db w) = []" and "deletes c task"
  obtains ks where "match_states E task c None h w = (Ok (map (\<lambda>(a, lt). \<lparr>ai_address = a, ai_last_tx_lt = lt\<rparr>) (take (re_limit E) ks)), rw_db w)"
    and "sorted ks" and "set ks = to_scan c task (rw_db w)"
proof (rule that)
  let ?d = "rw_db w"
  let ?ks = "sort (nub (map account_key (filter (\<lambda>a. c \<in> set (acc_types a) \<and> after_checkpoint task (account_key a)) (ch_accounts ?d))))"
  show "sorted ?ks" by simp
  show "set ?ks = to_scan c task ?d" by (auto simp: nub_def to_scan_def matched_def image_iff)
  show "match_states E task c None h w = (Ok (map (\<lambda>(a, lt). \<lparr>ai_address = a, ai_last_tx_lt = lt\<rparr>) (take (re_limit E) ?ks)), ?d)"
    using assms by (simp add: match_states_def matchStatesByInterfaceDesc_def match_conditions_def query_def deletes_def
        after_checkpoint_def[abs_def] Let_def cong: option.case_cong)
qed

lemma mem_states_of: "a \<in> set (states_of ids d) \<longleftrightarrow>
    (\<exists>k b. (k, b) \<in> set (pg_accounts d) \<and> a = b\<lparr>acc_label := pg_labels d (acc_address b)\<rparr> \<and> state_id b \<in> set ids)"
  by (force simp: states_of_def state_id_def)

lemma filled_keeps [simp]:
  "acc_types (filled d a) = acc_types a" "acc_executed (filled d a) = acc_executed a"
  "acc_address (filled d a) = acc_address a" "acc_last_tx_lt (filled d a) = acc_last_tx_lt a"
  by (simp_all add: filled_def)

text \<open>The rows of a page, each of them once, and what becomes of the database.\<close>

lemma with_updates_ready:
  assumes ready: "rescannable d"
    and us: "\<And>u. u \<in> set us \<Longrightarrow> account_key u \<in> fst ` set (pg_accounts d) \<and> acc_last_tx_lt u \<noteq> 0 \<and>
      distinct (acc_types u) \<and> \<not> carries c u"
  shows "rescannable (with_updates us d)" and "matched c (with_updates us d) = matched c d"
    and "\<And>k. freed c d k \<or> k \<in> account_key ` set us \<Longrightarrow> freed c (with_updates us d) k"
proof -
  let ?upd = "\<lambda>k. fold (\<lambda>u row. if k = account_key u then update_parsed (sort_executions u) row else row) us"
  have pg: "pg_accounts (with_updates us d) = map (\<lambda>(k, row). (k, ?upd k row)) (pg_accounts d)"
    and ch: "ch_accounts (with_updates us d) = ch_accounts d @ map (account_row \<circ> sort_executions) us"
    and rest: "db_faults (with_updates us d) = db_faults d" "code_stored (with_updates us d) = code_stored d"
    by (simp_all add: with_updates_def code_stored_def[abs_def])
  have row: "account_key (account_row (sort_executions u)) = account_key u"
    "acc_types (account_row (sort_executions u)) = acc_types u"
    "acc_last_tx_lt (account_row (sort_executions u)) = acc_last_tx_lt u" for u
    by (simp_all add: account_row_def sort_executions_def account_key_def)
  have kept: "k = account_key (?upd k a) \<and> distinct (acc_types (?upd k a)) \<and> code_stored d (?upd k a)"
    if "(k, a) \<in> set (pg_accounts d)" for k a
    using ready us that fold_update_types[of us a k] by (auto simp: rescannable_def fold_update_keeps)
  have "fst ` set (pg_accounts (with_updates us d)) = fst ` set (pg_accounts d)"
    unfolding pg by (force simp: image_image)
  moreover have "account_key ` set (ch_accounts (with_updates us d)) \<subseteq> fst ` set (pg_accounts d)"
    unfolding ch using ready us by (auto simp: rescannable_def row)
  moreover have "\<forall>(k, a) \<in> set (pg_accounts (with_updates us d)). k = account_key a \<and> distinct (acc_types a) \<and> code_stored d a"
    unfolding pg using kept by auto
  moreover have "\<forall>b \<in> set (ch_accounts (with_updates us d)). acc_last_tx_lt b \<noteq> 0"
    unfolding ch using ready us by (auto simp: rescannable_def row)
  ultimately show "rescannable (with_updates us d)"
    using ready unfolding rescannable_def rest by simp
  have "{b \<in> set (ch_accounts (with_updates us d)). c \<in> set (acc_types b)} = {b \<in> set (ch_accounts d). c \<in> set (acc_types b)}"
    unfolding ch using us by (auto simp: row carries_def)
  then show "matched c (with_updates us d) = matched c d" by (simp only: matched_def)
  show "freed c (with_updates us d) k" if "freed c d k \<or> k \<in> account_key ` set us" for k
    unfolding freed_def
  proof (intro allI impI)
    fix b assume "(k, b) \<in> set (pg_accounts (with_updates us d))"
    then obtain a where a: "(k, a) \<in> set (pg_accounts d)" "b = ?upd k a" by (auto simp: pg)
    show "\<not> carries c b"
      unfolding a(2) by (rule fold_update_clears) (use us that a(1) in \<open>auto simp: freed_def\<close>)
  qed
qed

lemma scan_round:
  assumes ready: "rescannable (rw_db w)" and env: "scan_env E" and del: "deletes c task"
  shows "to_scan c task (rw_db w) = {} \<Longrightarrow> rescanRunTask E task w = (Ok (task\<lparr>rt_finished := True\<rparr>), w)"
    and "to_scan c task (rw_db w) \<noteq> {} \<Longrightarrow> \<exists>k us. k \<in> to_scan c task (rw_db w) \<and>
      rescanRunTask E task w = (Ok (move_checkpoint \<lparr>ai_address = fst k, ai_last_tx_lt = snd k\<rparr> task),
        w\<lparr>rw_db := with_updates us (rw_db w)\<rparr>) \<and>
      rescannable (with_updates us (rw_db w)) \<and> matched c (with_updates us (rw_db w)) = matched c (rw_db w) \<and>
      (\<forall>j. freed c (rw_db w) j \<or> j \<in> to_scan c task (rw_db w) \<and> j \<le> k \<longrightarrow> freed c (with_updates us (rw_db w)) j)"
proof -
  let ?d = "rw_db w" and ?id = "\<lambda>(a, lt). \<lparr>ai_address = a, ai_last_tx_lt = lt\<rparr>"
  have faults: "db_faults ?d = []" using ready by (simp add: rescannable_def)
  have self: "w\<lparr>rw_db := ?d\<rparr> = w" by simp
  obtain ks where ids: "match_states E task c None [] w = (Ok (map ?id (take (re_limit E) ks)), ?d)"
    and ks: "sorted ks" "set ks = to_scan c task ?d" by (rule match_page[OF faults del])
  let ?ids = "map ?id (take (re_limit E) ks)"
  have run: "rescanRunTask E task w = page ''match states by interface description'' ''rescan accounts''
      (rescanAccounts E task) task (Ok ?ids, ?d) w"
    using del ids by (simp add: rescanRunTask_def codeHash_of_def deletes_def Let_def)
  show "to_scan c task ?d = {} \<Longrightarrow> rescanRunTask E task w = (Ok (task\<lparr>rt_finished := True\<rparr>), w)"
    using ks(2) by (simp add: run page_def)
  assume some: "to_scan c task ?d \<noteq> {}"
  have mem: "state_id b \<in> set ?ids \<longleftrightarrow> account_key b \<in> set (take (re_limit E) ks)" for b
    by (auto simp: state_id_def account_key_def)
  let ?rows = "map (filled ?d) (re_rows E (states_of ?ids ?d))"
  have perm: "set (re_rows E xs) = set xs" for xs
    using env by (simp add: scan_env_def range_order_set)
  have pg: "k = account_key a \<and> distinct (acc_types a) \<and> code_stored ?d a" if "(k, a) \<in> set (pg_accounts ?d)" for k a
    using ready that by (auto simp: rescannable_def)
  have rows: "r \<in> set ?rows \<longleftrightarrow> (\<exists>k b. (k, b) \<in> set (pg_accounts ?d) \<and> k \<in> set (take (re_limit E) ks) \<and>
      r = filled ?d (b\<lparr>acc_label := pg_labels ?d (acc_address b)\<rparr>))" for r
  proof -
    have "r \<in> set ?rows \<longleftrightarrow> (\<exists>a. a \<in> set (states_of ?ids ?d) \<and> r = filled ?d a)"
      by (simp only: set_map perm image_iff Bex_def)
    also have "\<dots> \<longleftrightarrow> (\<exists>k b. (k, b) \<in> set (pg_accounts ?d) \<and> account_key b \<in> set (take (re_limit E) ks) \<and>
        r = filled ?d (b\<lparr>acc_label := pg_labels ?d (acc_address b)\<rparr>))"
      unfolding mem_states_of mem by blast
    also have "\<dots> \<longleftrightarrow> (\<exists>k b. (k, b) \<in> set (pg_accounts ?d) \<and> k \<in> set (take (re_limit E) ks) \<and>
        r = filled ?d (b\<lparr>acc_label := pg_labels ?d (acc_address b)\<rparr>))"
      by (intro ex_cong1 conj_cong refl) (auto dest: pg)
    finally show ?thesis .
  qed
  have ne: "?ids \<noteq> []" using some ks env by (auto simp: scan_env_def)
  have "\<exists>a. (k, a) \<in> set (pg_accounts ?d)" if "k \<in> set ks" for k
    using that ready unfolding ks(2) by (force simp: to_scan_def matched_def rescannable_def)
  moreover have "hd ks \<in> set (take (re_limit E) ks)" "hd ks \<in> set ks"
    using ne by (cases ks; cases "re_limit E"; simp)+
  ultimately have "?rows \<noteq> []" using rows by fastforce
  have read: "filterAccounts (re_rows E) (\<lambda>_ a. a) (re_hashes E)
      (accounts_req_zero\<lparr>ar_with_code_data := True, ar_state_ids := ?ids\<rparr>) ?d = (Ok \<lparr>rs_total = 0, rs_rows = ?rows\<rparr>, ?d)"
  proof (rule filterAccounts_ids[OF faults _ _ ne])
    show "code_stored ?d a" if "a \<in> set (states_of ?ids ?d)" for a
      using that pg by (force simp: mem_states_of code_stored_def)
  qed (use env in \<open>simp_all add: scan_env_def\<close>)
  obtain us where work: "rescanStartWorkers (re_batches E) ?rows state_id (rescanAccountsWorker E task) (re_workers E) w
      = (Ok (us, last_parsed state_id ?rows), w)" and us: "mset us = mset (concat (map (clear_update task) ?rows))"
    using start_workers_map[where work = "rescanAccountsWorker E task" and f = "clear_update task" and w = w
        and ord = "re_batches E" and workers = "re_workers E" and rows = ?rows and getID = state_id]
      worker_clears[of task] del env by (auto simp: deletes_def scan_env_def)
  let ?d' = "with_updates us ?d"
  have us_mem: "u \<in> set us \<longleftrightarrow> (\<exists>r \<in> set ?rows. u = cleared task r \<and> u \<noteq> r)" for u
    using mset_eq_setD[OF us] by (auto simp: clear_update_def)
  obtain r where r: "r \<in> set ?rows" "last_parsed state_id ?rows = state_id r"
    using last_parsed_mem[OF \<open>?rows \<noteq> []\<close>, of state_id] by blast
  have rows_key: "account_key r \<in> set (take (re_limit E) ks)" if "r \<in> set ?rows" for r
    using that rows pg by (auto simp: account_key_def)
  have in_scan: "k \<in> to_scan c task ?d" if "k \<in> set (take (re_limit E) ks)" for k
    using that ks(2) by (auto dest: in_set_takeD)
  have upd: "account_key u \<in> fst ` set (pg_accounts ?d) \<and> acc_last_tx_lt u \<noteq> 0 \<and> distinct (acc_types u) \<and> \<not> carries c u"
    if "u \<in> set us" for u
  proof -
    from that obtain q where q: "q \<in> set ?rows" "u = cleared task q" by (auto simp: us_mem)
    then have "account_key u \<in> matched c ?d" using rows_key[OF q(1)] in_scan by (simp add: to_scan_def)
    then have "account_key u \<in> fst ` set (pg_accounts ?d) \<and> acc_last_tx_lt u \<noteq> 0"
      using ready by (auto simp: matched_def rescannable_def account_key_def)
    moreover have "distinct (acc_types q)" using q(1) rows pg by auto
    ultimately show ?thesis
      using cleared_not_carries[of q task] del q(2) by (simp add: cleared_types deletes_def)
  qed
  note after = with_updates_ready[OF ready upd]
  have acc: "rescanAccounts E task ?ids w = (Ok (move_checkpoint (state_id r) task), w\<lparr>rw_db := ?d'\<rparr>)"
    unfolding rescanAccounts_def read prod.case res.case self
    using work update_if_any[OF faults, of us] by (simp add: r(2))
  show "\<exists>k us. k \<in> to_scan c task ?d \<and>
      rescanRunTask E task w = (Ok (move_checkpoint \<lparr>ai_address = fst k, ai_last_tx_lt = snd k\<rparr> task), w\<lparr>rw_db := with_updates us ?d\<rparr>) \<and>
      rescannable (with_updates us ?d) \<and> matched c (with_updates us ?d) = matched c ?d \<and>
      (\<forall>j. freed c ?d j \<or> j \<in> to_scan c task ?d \<and> j \<le> k \<longrightarrow> freed c (with_updates us ?d) j)"
  proof (intro exI[of _ "account_key r"] exI[of _ us] conjI allI impI)
    show "account_key r \<in> to_scan c task ?d" using rows_key[OF r(1)] by (rule in_scan)
    show "rescanRunTask E task w = (Ok (move_checkpoint \<lparr>ai_address = fst (account_key r), ai_last_tx_lt = snd (account_key r)\<rparr> task), w\<lparr>rw_db := ?d'\<rparr>)"
      using ne acc by (simp add: run page_def self state_id_def account_key_def)
    fix j assume "freed c ?d j \<or> j \<in> to_scan c task ?d \<and> j \<le> account_key r"
    then show "freed c ?d' j"
    proof (cases "freed c ?d j")
      case False
      then have "j \<in> set ks" "j \<le> account_key r" using \<open>freed c ?d j \<or> _\<close> ks(2) by auto
      then have j: "j \<in> set (take (re_limit E) ks)" using take_sorted_initial[OF ks(1) rows_key[OF r(1)]] by blast
      from False obtain a where a: "(j, a) \<in> set (pg_accounts ?d)" "carries c a" by (auto simp: freed_def)
      let ?q = "filled ?d (a\<lparr>acc_label := pg_labels ?d (acc_address a)\<rparr>)"
      have "?q \<in> set ?rows" using a(1) j rows by blast
      moreover have "carries c ?q" "distinct (acc_types ?q)" using a pg by (auto simp: carries_def)
      ultimately have "cleared task ?q \<in> set us"
        using cleared_not_carries[of ?q task] del by (force simp: us_mem deletes_def)
      moreover have "account_key (cleared task ?q) = j" using pg[OF a(1)] by (simp add: account_key_def)
      ultimately show ?thesis using after(3) by blast
    qed (simp add: after(3))
  qed (use after(1,2) in auto)
qed

subsection \<open>The rounds of the task\<close>

lemma sort_key_map_same: "(\<And>x. k (g x) = k x) \<Longrightarrow> sort_key k (map g xs) = map g (sort_key k xs)"
proof (induction xs)
  case (Cons x xs)
  have "insort_key k (g x) (map g ys) = map g (insort_key k x ys)" for ys
    by (induction ys) (simp_all add: Cons.prems)
  then show ?case using Cons by simp
qed simp

definition set_progress :: "rescan_task \<Rightarrow> rescan_task \<Rightarrow> rescan_task" where
  "set_progress task k = (if rt_id k = rt_id task
     then k\<lparr>rt_finished := rt_finished task, rt_last_address := rt_last_address task, rt_last_tx_lt := rt_last_tx_lt task\<rparr> else k)"

lemma rt_id_set_progress [simp]: "rt_id (set_progress task k) = rt_id k"
  by (simp add: set_progress_def)

lemma setRescanTask_Ok:
  "db_faults d = [] \<Longrightarrow> setRescanTask task d = (None, d\<lparr>pg_tasks := map (set_progress task) (pg_tasks d)\<rparr>)"
  by (simp add: setRescanTask_def then_exec_def exec_def set_progress_def[abs_def])

lemma unfinished_mem: "unfinished_tasks d = t # ts \<Longrightarrow> t \<in> set (pg_tasks d) \<and> \<not> rt_finished t"
  by (metis (mono_tags, lifting) list.set_intros(1) mem_Collect_eq set_filter set_sort unfinished_tasks_def)

lemma same_task:
  assumes "distinct (map rt_id ts)" and "x \<in> set ts" and "y \<in> set ts" and "rt_id x = rt_id y"
  shows "x = y"
  using assms by (metis distinct_map inj_onD)

lemma unfinished_progress:
  assumes "distinct (map rt_id (pg_tasks d))" and "unfinished_tasks d = t # ts"
    and "rt_id task = rt_id t" and "\<not> rt_finished task"
  shows "unfinished_tasks (d\<lparr>pg_tasks := map (set_progress task) (pg_tasks d)\<rparr>) = set_progress task t # map (set_progress task) ts"
proof -
  note t = unfinished_mem[OF assms(2)]
  have "rt_finished (set_progress task x) = rt_finished x" if "x \<in> set (pg_tasks d)" for x
    using same_task[OF assms(1) that, of t] t assms(3,4) by (auto simp: set_progress_def)
  then have "filter (\<lambda>k. \<not> rt_finished k) (map (set_progress task) (pg_tasks d))
      = map (set_progress task) (filter (\<lambda>k. \<not> rt_finished k) (pg_tasks d))"
    by (simp add: filter_map comp_def cong: filter_cong)
  then have "unfinished_tasks (d\<lparr>pg_tasks := map (set_progress task) (pg_tasks d)\<rparr>) = map (set_progress task) (unfinished_tasks d)"
    by (simp add: unfinished_tasks_def sort_key_map_same)
  then show ?thesis by (simp add: assms(2))
qed

lemma tasks_keep [simp]:
  "rescannable (d\<lparr>pg_tasks := ts\<rparr>) = rescannable d" "matched c (d\<lparr>pg_tasks := ts\<rparr>) = matched c d"
  "freed c (d\<lparr>pg_tasks := ts\<rparr>) k = freed c d k"
  by (simp_all add: rescannable_def matched_def freed_def code_stored_def)

definition scanning :: "rescan_env \<Rightarrow> contract_name \<Rightarrow> int \<Rightarrow> rescan_world \<Rightarrow> bool" where
  "scanning E c i w \<longleftrightarrow> scan_env E \<and> rescannable (rw_db w) \<and> distinct (map rt_id (pg_tasks (rw_db w))) \<and>
     (\<exists>t. t \<in> set (pg_tasks (rw_db w)) \<and> rt_id t = i \<and> (rt_finished t \<or>
        deletes c t \<and> (\<exists>ts. unfinished_tasks (rw_db w) = t # ts)))"

definition task_finished :: "int \<Rightarrow> rescan_world \<Rightarrow> bool" where
  "task_finished i w \<longleftrightarrow> (\<forall>t \<in> set (pg_tasks (rw_db w)). rt_id t = i \<longrightarrow> rt_finished t)"

definition scan_left :: "contract_name \<Rightarrow> rescan_world \<Rightarrow> (addr \<times> u64) set" where
  "scan_left c w = to_scan c (hd (unfinished_tasks (rw_db w))) (rw_db w)"

lemma task_finishedD: "task_finished i w \<Longrightarrow> t \<in> set (pg_tasks (rw_db w)) \<Longrightarrow> rt_id t = i \<Longrightarrow> rt_finished t"
  by (simp add: task_finished_def)

lemma scanning_unfinished:
  assumes "scanning E c i w" and "\<not> task_finished i w"
  obtains t ts where "unfinished_tasks (rw_db w) = t # ts" and "rt_id t = i" and "deletes c t"
proof -
  from assms(1) obtain t where t: "t \<in> set (pg_tasks (rw_db w))" "rt_id t = i"
    "rt_finished t \<or> deletes c t \<and> (\<exists>ts. unfinished_tasks (rw_db w) = t # ts)" by (auto simp: scanning_def)
  moreover have "\<not> rt_finished t"
  proof -
    from assms(2) obtain x where x: "x \<in> set (pg_tasks (rw_db w))" "rt_id x = i" "\<not> rt_finished x"
      by (auto simp: task_finished_def)
    have "distinct (map rt_id (pg_tasks (rw_db w)))" using assms(1) by (simp add: scanning_def)
    then have "x = t" using x(1) t(1) by (rule same_task) (simp add: x(2) t(2))
    then show ?thesis using x(3) by simp
  qed
  ultimately show ?thesis using that by blast
qed

lemma deletes_task:
  assumes "db_faults d = []" and "unfinished_tasks d = t # ts" and "deletes c t"
  shows "getUnfinishedRescanTask d = (Ok t, d)"
  using assms by (simp add: getUnfinishedRescanTask_def exec_def query_def task_contract_def task_operation_def deletes_def)

text \<open>A round with nothing left to scan, and a round with a page.\<close>

lemma round_ends:
  assumes scan: "scanning E c i w" and go: "\<not> task_finished i w" and none: "scan_left c w = {}"
  shows "fst (rescan_round E w) = Ok ()" and "scanning E c i (snd (rescan_round E w))"
    and "task_finished i (snd (rescan_round E w))" and "freed c (rw_db (snd (rescan_round E w))) = freed c (rw_db w)"
proof -
  obtain t ts where t: "unfinished_tasks (rw_db w) = t # ts" "rt_id t = i" "deletes c t"
    by (rule scanning_unfinished[OF scan go])
  have ready: "rescannable (rw_db w)" "scan_env E" using scan by (simp_all add: scanning_def)
  then have faults: "db_faults (rw_db w) = []" by (simp add: rescannable_def)
  have "rescanRunTask E t w = (Ok (t\<lparr>rt_finished := True\<rparr>), w)"
    using scan_round(1)[OF ready t(3)] none t(1) by (simp add: scan_left_def)
  then have round: "rescan_round E w = (Ok (), w\<lparr>rw_db := (rw_db w)\<lparr>pg_tasks := map (set_progress (t\<lparr>rt_finished := True\<rparr>)) (pg_tasks (rw_db w))\<rparr>\<rparr>)"
    by (simp add: rescan_round_def deletes_task[OF faults t(1,3)] setRescanTask_Ok[OF faults])
  show "fst (rescan_round E w) = Ok ()" "freed c (rw_db (snd (rescan_round E w))) = freed c (rw_db w)"
    by (simp_all add: round fun_eq_iff)
  show "task_finished i (snd (rescan_round E w))"
    using t(2) by (auto simp: round task_finished_def set_progress_def)
  show "scanning E c i (snd (rescan_round E w))"
  proof -
    let ?u = "t\<lparr>rt_finished := True\<rparr>" and ?d = "rw_db w"
    have "set_progress ?u t \<in> set (map (set_progress ?u) (pg_tasks ?d))" using unfinished_mem[OF t(1)] by simp
    moreover have "rt_finished (set_progress ?u t)" "rt_id (set_progress ?u t) = i"
      using t(2) by (simp_all add: set_progress_def)
    moreover have "distinct (map rt_id (map (set_progress ?u) (pg_tasks ?d)))"
      using scan by (simp add: scanning_def comp_def)
    ultimately show ?thesis
      using ready unfolding round scanning_def by (auto simp del: set_map map_map)
  qed
qed

lemma round_page:
  assumes scan: "scanning E c i w" and go: "\<not> task_finished i w" and some: "scan_left c w \<noteq> {}"
  shows "fst (rescan_round E w) = Ok ()" and "scanning E c i (snd (rescan_round E w))"
    and "\<not> task_finished i (snd (rescan_round E w))"
    and "\<exists>k \<in> scan_left c w. scan_left c (snd (rescan_round E w)) = {j \<in> scan_left c w. k < j} \<and>
      (\<forall>j \<in> scan_left c w. j \<le> k \<longrightarrow> freed c (rw_db (snd (rescan_round E w))) j)"
    and "\<And>j. freed c (rw_db w) j \<Longrightarrow> freed c (rw_db (snd (rescan_round E w))) j"
proof -
  obtain t ts where t: "unfinished_tasks (rw_db w) = t # ts" "rt_id t = i" "deletes c t"
    by (rule scanning_unfinished[OF scan go])
  have ready: "rescannable (rw_db w)" "scan_env E" "distinct (map rt_id (pg_tasks (rw_db w)))"
    using scan by (simp_all add: scanning_def)
  then have faults: "db_faults (rw_db w) = []" by (simp add: rescannable_def)
  have left: "scan_left c w = to_scan c t (rw_db w)" by (simp add: scan_left_def t(1))
  from scan_round(2)[OF ready(1,2) t(3)] some obtain k us where k: "k \<in> scan_left c w"
    and run: "rescanRunTask E t w = (Ok (move_checkpoint \<lparr>ai_address = fst k, ai_last_tx_lt = snd k\<rparr> t),
        w\<lparr>rw_db := with_updates us (rw_db w)\<rparr>)"
    and next_ready: "rescannable (with_updates us (rw_db w))" "matched c (with_updates us (rw_db w)) = matched c (rw_db w)"
    and treated: "\<forall>j. freed c (rw_db w) j \<or> j \<in> scan_left c w \<and> j \<le> k \<longrightarrow> freed c (with_updates us (rw_db w)) j"
    unfolding left by blast
  let ?t = "move_checkpoint \<lparr>ai_address = fst k, ai_last_tx_lt = snd k\<rparr> t" and ?d = "with_updates us (rw_db w)"
  have same: "pg_tasks ?d = pg_tasks (rw_db w)" "unfinished_tasks ?d = t # ts" "db_faults ?d = []"
    using t(1) faults by (simp_all add: with_updates_def unfinished_tasks_def)
  let ?d' = "?d\<lparr>pg_tasks := map (set_progress ?t) (pg_tasks ?d)\<rparr>"
  have round: "rescan_round E w = (Ok (), w\<lparr>rw_db := ?d'\<rparr>)"
    using run by (simp add: rescan_round_def deletes_task[OF faults t(1,3)] setRescanTask_Ok[OF same(3)])
  have unfin: "\<not> rt_finished ?t" "rt_id ?t = rt_id t" using unfinished_mem[OF t(1)] by (simp_all add: move_checkpoint_def)
  have head: "unfinished_tasks ?d' = set_progress ?t t # map (set_progress ?t) ts"
    by (rule unfinished_progress) (use same ready(3) unfin in simp_all)
  have moved: "set_progress ?t t = t\<lparr>rt_last_address := Some (fst k), rt_last_tx_lt := snd k\<rparr>"
    using unfinished_mem[OF t(1)] by (simp add: set_progress_def move_checkpoint_def)
  show "fst (rescan_round E w) = Ok ()" by (simp add: round)
  show "scanning E c i (snd (rescan_round E w))"
  proof -
    have "deletes c (set_progress ?t t)" using t(3) by (simp add: moved deletes_def)
    moreover have "\<exists>ts'. unfinished_tasks ?d' = set_progress ?t t # ts'" using head by blast
    moreover have "rt_id (set_progress ?t t) = i" using t(2) by simp
    moreover have "rescannable ?d'" using next_ready(1) by simp
    moreover have "distinct (map rt_id (pg_tasks ?d'))" using ready(3) by (simp add: same(1) comp_def)
    moreover have "rw_db (w\<lparr>rw_db := ?d'\<rparr>) = ?d'" by simp
    ultimately show ?thesis
      using ready(2) unfinished_mem[OF head] unfolding scanning_def round snd_conv by metis
  qed
  show "\<not> task_finished i (snd (rescan_round E w))"
    using task_finishedD[of i "w\<lparr>rw_db := ?d'\<rparr>" "set_progress ?t t"] unfinished_mem[OF head] t(2) by (auto simp: round)
  show "freed c (rw_db (snd (rescan_round E w))) j" if "freed c (rw_db w) j" for j
    using that treated[rule_format, of j] by (simp add: round)
  have "snd k \<noteq> 0"
    using k ready(1) by (auto simp: left to_scan_def matched_def rescannable_def account_key_def)
  moreover have "k < j \<Longrightarrow> after_checkpoint t j" if "j \<in> matched c (rw_db w)" for j
    using k by (auto simp: left to_scan_def after_checkpoint_def split: option.splits)
  ultimately have "scan_left c (snd (rescan_round E w)) = {j \<in> scan_left c w. k < j}"
    by (auto simp: round scan_left_def head moved to_scan_def next_ready(2) left[unfolded scan_left_def] after_checkpoint_def[of "t\<lparr>rt_last_address := _, rt_last_tx_lt := _\<rparr>"] t(1))
  then show "\<exists>k \<in> scan_left c w. scan_left c (snd (rescan_round E w)) = {j \<in> scan_left c w. k < j} \<and>
      (\<forall>j \<in> scan_left c w. j \<le> k \<longrightarrow> freed c (rw_db (snd (rescan_round E w))) j)"
    using k treated by (intro bexI[of _ k] conjI ballI impI) (simp_all add: round del: split_paired_All)
qed

definition rescan_step :: "rescan_env \<Rightarrow> rescan_world \<Rightarrow> rescan_world" where
  "rescan_step E w = snd (rescan_round E w)"

interpretation deletion: paged_scan "rescan_step E" "scanning E c i" "task_finished i"
    "scan_left c" "\<lambda>w. freed c (rw_db w)" for E c i
proof unfold_locales
  show "finite (scan_left c w)" for w
    unfolding scan_left_def to_scan_def using finite_matched by (rule rev_finite_subset) blast
  show "scanning E c i (rescan_step E w)" if "scanning E c i w" "\<not> task_finished i w" for w
    using that round_ends(2)[of E c i w] round_page(2)[of E c i w] unfolding rescan_step_def by blast
  show "freed c (rw_db (rescan_step E w)) k" if "scanning E c i w" "\<not> task_finished i w" "freed c (rw_db w) k" for w k
    using that round_ends(4)[of E c i w] round_page(5)[of E c i w k] unfolding rescan_step_def by metis
qed (use round_ends(3) round_page(3,4) in \<open>simp_all add: rescan_step_def\<close>)

lemma rescanLoop_rounds:
  assumes "\<And>m. m < n \<Longrightarrow> fst (rescan_round E ((rescan_step E ^^ m) w)) = Ok ()"
  shows "rescanLoop (replicate n E) w = (Ok (), (rescan_step E ^^ n) w)"
  using assms
proof (induction n arbitrary: w)
  case (Suc n)
  have "rescan_round E w = (Ok (), rescan_step E w)"
    using Suc.prems[of 0] by (simp add: prod_eq_iff rescan_step_def)
  moreover have "rescanLoop (replicate n E) (rescan_step E w) = (Ok (), (rescan_step E ^^ n) (rescan_step E w))"
    by (rule Suc.IH) (use Suc.prems[of "Suc _"] in \<open>simp add: funpow_swap1\<close>)
  ultimately show ?case by (simp add: funpow_swap1)
qed simp


definition ex_rescan :: rescan_env where
  "ex_rescan = \<lparr>re_parser = \<lparr>pe_addr = pe_addr ex_parser, pe_vm = ex_wallet_vm, pe_config = [], pe_no_repo = False,
       pe_interfaces = (\<lambda>w. (Ok [], w)), pe_methodDesc = (\<lambda>c m w. (Ok ex_minter_desc, w)),
       pe_operations = (\<lambda>t cs out i w. (Ok [], w)), pe_others = (\<lambda>a w. (Ok ex_account, w))\<rparr>,
     re_crc = (\<lambda>_. 0), re_workers = 2, re_limit = 1, re_hashes = (\<lambda>hs. hs), re_rows = rev, re_messages = (\<lambda>ms. ms),
     re_batches = rev, re_range = (\<lambda>_. []), re_empty_nil = True\<rparr>"

definition ex_typed :: "u64 \<Rightarrow> account_state" where
  "ex_typed lt = account_zero\<lparr>acc_last_tx_lt := lt, acc_types := [''dex''], acc_executed := Some [(''dex'', [])]\<rparr>"

definition ex_task :: rescan_task where
  "ex_task = \<lparr>rt_id = 1, rt_finished = False, rt_type = DelInterface, rt_contract_name = ''dex'', rt_contract = None,
     rt_changed_methods = [], rt_message_type = MsgTypeUnset, rt_outgoing = False, rt_operation_id = 0, rt_operation = None,
     rt_last_address = None, rt_last_tx_lt = 0\<rparr>"

definition ex_world :: rescan_world where
  "ex_world = snd (newService ex_rescan (db_empty\<lparr>pg_accounts := map (\<lambda>lt. (account_key (ex_typed lt), ex_typed lt)) [7, 5],
     ch_accounts := map ex_typed [7, 5], pg_tasks := [ex_task]\<rparr>))"


subsection \<open>A task for messages can end early\<close>

text \<open>
  A task that deletes an operation looks at the first \<open>SelectLimit\<close> addresses of the contract
  only: when none of them has a message with the operation, the task is finished at once and nothing is
  written, whatever messages of other addresses still carry the operation. (The addresses are limited
  before the messages are selected, and an empty page ends the task.)
\<close>

theorem operation_rescan_stops_early:
  assumes "rt_type task = DelOperation" and "rt_last_address task = None" and "rt_contract task = None"
    and "db_faults (rw_db w) = []"
    and "\<forall>m \<in> set (ch_messages (rw_db w)). ms_type m = rt_message_type task \<and> ms_operation_id m = rt_operation_id task \<longrightarrow>
      fst (msg_key (rt_outgoing task) m) \<notin> set (contract_addresses (rt_contract_name task) None (re_limit E) (rw_db w))"
  shows "rescanRunTask E task w = (Ok (task\<lparr>rt_finished := True\<rparr>), w)"
proof -
  let ?as = "contract_addresses (rt_contract_name task) None (re_limit E) (rw_db w)"
  have "filter (\<lambda>m. ms_type m = rt_message_type task \<and> fst (msg_key (rt_outgoing task) m) \<in> set ?as \<and>
      ms_operation_id m = rt_operation_id task) (ch_messages (rw_db w)) = []"
    using assms(5) by (auto simp: filter_empty_conv)
  then have "operation_messages ?as (rt_message_type task) (rt_outgoing task) (rt_operation_id task) None
      (rt_last_tx_lt task) (re_limit E) (rw_db w) = []"
    by (simp add: operation_messages_def nub_def)
  then show ?thesis
    using assms(1-4) by (simp add: rescanRunTask_def codeHash_of_def matchMessagesByOperationDesc_def query_def page_def)
qed

definition ex_op_task :: rescan_task where
  "ex_op_task = ex_task\<lparr>rt_type := DelOperation, rt_message_type := Internal, rt_operation_id := 9\<rparr>"

definition ex_op_message :: message where
  "ex_op_message = message_zero\<lparr>ms_type := Internal, ms_hash := [1], ms_operation_id := 9,
     ms_operation_name := ''swap'', ms_dst_address := replicate 33 1\<rparr>"

definition ex_op_world :: rescan_world where
  "ex_op_world = snd (newService ex_rescan (db_empty\<lparr>
     ch_accounts := [ex_typed 7, (ex_typed 7)\<lparr>acc_address := replicate 33 1\<rparr>],
     ch_messages := [ex_op_message], pg_messages := [[1] \<mapsto> ex_op_message]\<rparr>))"

theorem operation_rescan_stops_early_witness:
  "rescanRunTask ex_rescan ex_op_task ex_op_world = (Ok (ex_op_task\<lparr>rt_finished := True\<rparr>), ex_op_world) \<and>
   ''dex'' \<in> set (acc_types ((ex_typed 7)\<lparr>acc_address := ms_dst_address ex_op_message\<rparr>)) \<and>
   map_option ms_operation_name (pg_messages (rw_db ex_op_world) [1]) = Some ''swap''"
proof -
  have w: "rw_db ex_op_world = db_empty\<lparr>ch_accounts := [ex_typed 7, (ex_typed 7)\<lparr>acc_address := replicate 33 1\<rparr>],
     ch_messages := [ex_op_message], pg_messages := [[1] \<mapsto> ex_op_message]\<rparr>"
    by (simp add: ex_op_world_def newService_def)
  have zero: "acc_address (ex_typed 7) = replicate 33 0" "acc_types (ex_typed lt) = [''dex'']" for lt
    by (simp_all add: ex_typed_def account_zero_def)
  have lt: "replicate 33 (0 :: u8) < replicate 33 1" by (simp add: numeral_eq_Suc)
  have "contract_addresses ''dex'' None 1 (rw_db ex_op_world) = [replicate 33 0]"
    using lt by (auto simp: contract_addresses_def w nub_def zero)
  then have "rescanRunTask ex_rescan ex_op_task ex_op_world = (Ok (ex_op_task\<lparr>rt_finished := True\<rparr>), ex_op_world)"
    using lt by (intro operation_rescan_stops_early)
      (auto simp: ex_op_task_def ex_task_def ex_rescan_def w db_empty_def ex_op_message_def msg_key_def message_zero_def)
  then show ?thesis by (simp add: w zero ex_op_message_def)
qed

end
