(* ===== verification/Leader.thy ===== *)
theory Leader
  imports Prelude
begin

section \<open>internal/leader_election: one node of the cluster leads\<close>

text \<open>
  Every node of the cluster competes for a key of Redis. The lock server is an argument (it answers
  on its own state \<open>'w\<close>, which also holds what the callbacks change), the clock is read at the start and at
  the end of an attempt. The second half of the theory is the cluster: the electors of all nodes on one
  lock server, with time passing between their attempts.
\<close>

subsection \<open>config.go\<close>

record leader_config =
  lc_lockKey :: string
  lc_nodeID :: string
  lc_leaderTTL :: int
  lc_electionTimeout :: int
  lc_renewalPeriod :: int

definition validate_config :: "leader_config \<Rightarrow> goerr option" where
  "validate_config c =
     (if lc_lockKey c = [] then Some (ErrText ''lock key must not be empty'')
      else if lc_nodeID c = [] then Some (ErrText ''node id must not be empty'')
      else if lc_leaderTTL c \<le> 0 \<or> lc_electionTimeout c \<le> 0 \<or> lc_renewalPeriod c \<le> 0
      then Some (ErrText ''all durations must be greater than zero'')
      else if \<not> (lc_renewalPeriod c < lc_electionTimeout c \<and> lc_electionTimeout c < lc_leaderTTL c)
      then Some (ErrText ''invalid leader election timings (correct ratio is: RenewalPeriod < ElectionTimeout < LeaderTTL)'')
      else None)"

subsection \<open>leaderelection.go\<close>

definition seconds :: "int \<Rightarrow> int" where
  "seconds n = n * 1000000000"

definition default_config :: "string \<Rightarrow> leader_config" where
  "default_config nodeID = \<lparr>lc_lockKey = ''leader_lock'', lc_nodeID = nodeID, lc_leaderTTL = seconds 10,
     lc_electionTimeout = seconds 5, lc_renewalPeriod = seconds 2\<rparr>"

record 'w lock_client =
  lk_setNX :: "string \<Rightarrow> string \<Rightarrow> int \<Rightarrow> 'w \<Rightarrow> bool res \<times> 'w"
  lk_get :: "string \<Rightarrow> 'w \<Rightarrow> string res \<times> 'w"
  lk_expire :: "string \<Rightarrow> int \<Rightarrow> 'w \<Rightarrow> bool res \<times> 'w"

record 'w leader_callback =
  onStartLeading :: "'w \<Rightarrow> unit res \<times> 'w"
  onStopLeading :: "'w \<Rightarrow> unit res \<times> 'w"

record elector =
  el_isLeader :: bool
  el_lastLeadershipTime :: gotime

definition newLeaderElector :: elector where
  "newLeaderElector = \<lparr>el_isLeader = False, el_lastLeadershipTime = time_zero\<rparr>"

text \<open>The callbacks run one after another; a panic ends the process.\<close>

fun run_callbacks :: "('w \<Rightarrow> unit res \<times> 'w) list \<Rightarrow> 'w \<Rightarrow> unit res \<times> 'w" where
  "run_callbacks [] w = (Ok (), w)"
| "run_callbacks (f # fs) w = (case f w of (Ok _, w) \<Rightarrow> run_callbacks fs w | r \<Rightarrow> r)"

definition ownLeadership :: "'w leader_callback list \<Rightarrow> elector \<Rightarrow> 'w \<Rightarrow> unit res \<times> elector \<times> 'w" where
  "ownLeadership cbs l w = (case run_callbacks (map onStartLeading cbs) w of (r, w) \<Rightarrow> (r, l\<lparr>el_isLeader := True\<rparr>, w))"

definition loseLeadership :: "'w leader_callback list \<Rightarrow> elector \<Rightarrow> 'w \<Rightarrow> unit res \<times> elector \<times> 'w" where
  "loseLeadership cbs l w = (case run_callbacks (map onStopLeading cbs) w of (r, w) \<Rightarrow> (r, l\<lparr>el_isLeader := False\<rparr>, w))"

text \<open>
  One attempt, begun at the time \<open>fst t\<close> and ended at \<open>snd t\<close>. Errors are logged. A missing key is an
  error of \<open>Get\<close>, so the test for \<open>redis.Nil\<close> behind it is never reached.
\<close>

definition tryAcquireLeadership :: "leader_config \<Rightarrow> 'w leader_callback list \<Rightarrow> 'w lock_client \<Rightarrow> gotime \<times> gotime \<Rightarrow>
    elector \<Rightarrow> 'w \<Rightarrow> unit res \<times> elector \<times> 'w" where
  "tryAcquireLeadership c cbs R t l w =
     (if el_isLeader l \<and> time_since (fst t) (el_lastLeadershipTime l) > lc_electionTimeout c then loseLeadership cbs l w
      else case lk_setNX R (lc_lockKey c) (lc_nodeID c) (lc_leaderTTL c) w of
        (Err e, w) \<Rightarrow> (Ok (), l, w)
      | (Panic p, w) \<Rightarrow> (Panic p, l, w)
      | (Ok _, w) \<Rightarrow>
        (case lk_get R (lc_lockKey c) w of
           (Err e, w) \<Rightarrow> (Ok (), l, w)
         | (Panic p, w) \<Rightarrow> (Panic p, l, w)
         | (Ok val, w) \<Rightarrow>
             if val \<noteq> lc_nodeID c then (if el_isLeader l then loseLeadership cbs l w else (Ok (), l, w))
             else (case if el_isLeader l then (Ok (), l, w) else ownLeadership cbs l w of
                 (Ok _, l, w) \<Rightarrow>
                   (case lk_expire R (lc_lockKey c) (lc_leaderTTL c) w of
                      (Err e, w) \<Rightarrow> (Ok (), l, w)
                    | (Panic p, w) \<Rightarrow> (Panic p, l, w)
                    | (Ok _, w) \<Rightarrow> (Ok (), l\<lparr>el_lastLeadershipTime := snd t\<rparr>, w))
               | r \<Rightarrow> r)))"

subsection \<open>The lock server\<close>

text \<open>
  What Redis documents of the three commands, on the state \<open>'w\<close> with its clock and the holder
  of the key with its expiry: \<open>SET NX\<close> sets the key only when there is none, \<open>GET\<close>
  returns the value of a key that has not expired, \<open>EXPIRE\<close> gives a key that is there a new expiry. A
  command that fails may have been carried out or not. The callbacks leave the lock alone.
\<close>

definition live :: "('w \<Rightarrow> gotime) \<Rightarrow> ('w \<Rightarrow> (string \<times> gotime) option) \<Rightarrow> 'w \<Rightarrow> bool" where
  "live clock holder w \<longleftrightarrow> (\<exists>v e. holder w = Some (v, e) \<and> clock w < e)"

definition lock_served :: "('w \<Rightarrow> gotime) \<Rightarrow> ('w \<Rightarrow> (string \<times> gotime) option) \<Rightarrow> string \<Rightarrow> 'w lock_client \<Rightarrow> bool" where
  "lock_served clock holder k R \<longleftrightarrow>
     (\<forall>v ttl w r w'. lk_setNX R k v ttl w = (r, w') \<longrightarrow> clock w' = clock w \<and>
        (holder w' = holder w \<or> \<not> live clock holder w \<and> holder w' = Some (v, clock w + ttl)) \<and> (is_ok r \<and> 0 < ttl \<longrightarrow> live clock holder w')) \<and>
     (\<forall>w r w'. lk_get R k w = (r, w') \<longrightarrow> clock w' = clock w \<and> holder w' = holder w \<and>
        (\<forall>v. r = Ok v \<longrightarrow> live clock holder w \<and> map_option fst (holder w) = Some v)) \<and>
     (\<forall>ttl w r w'. lk_expire R k ttl w = (r, w') \<longrightarrow> clock w' = clock w \<and>
        (\<forall>v e. holder w = Some (v, e) \<and> live clock holder w \<longrightarrow>
           holder w' = Some (v, clock w + ttl) \<or> \<not> is_ok r \<and> holder w' = holder w) \<and>
        (\<not> live clock holder w \<longrightarrow> holder w' = holder w))"

definition callbacks_apart :: "('w \<Rightarrow> gotime) \<Rightarrow> ('w \<Rightarrow> (string \<times> gotime) option) \<Rightarrow> 'w leader_callback list \<Rightarrow> bool" where
  "callbacks_apart clock holder cbs \<longleftrightarrow> (\<forall>cb \<in> set cbs. \<forall>w.
     clock (snd (onStartLeading cb w)) = clock w \<and> holder (snd (onStartLeading cb w)) = holder w \<and>
     clock (snd (onStopLeading cb w)) = clock w \<and> holder (snd (onStopLeading cb w)) = holder w)"

subsection \<open>The cluster\<close>

text \<open>
  A state of the cluster: the server with its clock, the elector of each node and the time of its last
  attempt. An attempt is instantaneous. \<open>renews\<close> demands that the renewal does not fail in the
  attempt that takes the lead. Time passes so that a leading node is never longer than \<open>delay\<close>
  without an attempt; a node may stop at any time and start anew.
\<close>

record 'w cluster =
  cl_world :: 'w
  cl_elector :: "string \<Rightarrow> elector"
  cl_tried :: "string \<Rightarrow> gotime"

inductive cluster_step :: "('w \<Rightarrow> gotime) \<Rightarrow> ('w \<Rightarrow> (string \<times> gotime) option) \<Rightarrow> leader_config \<Rightarrow> 'w leader_callback list \<Rightarrow>
    'w lock_client \<Rightarrow> int \<Rightarrow> bool \<Rightarrow> 'w cluster \<Rightarrow> 'w cluster \<Rightarrow> bool"
  for clock holder c cbs R delay renews where
  attempt: "t = clock (cl_world s) \<Longrightarrow>
    tryAcquireLeadership (c\<lparr>lc_nodeID := p\<rparr>) cbs R (t, t) (cl_elector s p) (cl_world s) = (Ok (), l, w) \<Longrightarrow>
    (renews \<and> el_isLeader l \<and> \<not> el_isLeader (cl_elector s p) \<longrightarrow> el_lastLeadershipTime l = t) \<Longrightarrow>
    cluster_step clock holder c cbs R delay renews s
      (s\<lparr>cl_world := w, cl_elector := (cl_elector s)(p := l), cl_tried := (cl_tried s)(p := t)\<rparr>)"
| restart: "cluster_step clock holder c cbs R delay renews s (s\<lparr>cl_elector := (cl_elector s)(p := newLeaderElector)\<rparr>)"
| pass: "clock (cl_world s) \<le> clock w \<Longrightarrow> holder w = holder (cl_world s) \<Longrightarrow>
    \<forall>p. el_isLeader (cl_elector s p) \<longrightarrow> clock w \<le> cl_tried s p + delay \<Longrightarrow>
    cluster_step clock holder c cbs R delay renews s (s\<lparr>cl_world := w\<rparr>)"

inductive cluster_reachable :: "('w \<Rightarrow> gotime) \<Rightarrow> ('w \<Rightarrow> (string \<times> gotime) option) \<Rightarrow> leader_config \<Rightarrow> 'w leader_callback list \<Rightarrow>
    'w lock_client \<Rightarrow> int \<Rightarrow> bool \<Rightarrow> 'w cluster \<Rightarrow> bool"
  for clock holder c cbs R delay renews where
  start: "0 \<le> clock w \<Longrightarrow> holder w = None \<Longrightarrow>
    cluster_reachable clock holder c cbs R delay renews \<lparr>cl_world = w, cl_elector = (\<lambda>p. newLeaderElector), cl_tried = (\<lambda>p. clock w)\<rparr>"
| step: "cluster_reachable clock holder c cbs R delay renews s \<Longrightarrow> cluster_step clock holder c cbs R delay renews s s' \<Longrightarrow>
    cluster_reachable clock holder c cbs R delay renews s'"

subsection \<open>What one attempt does to the lock\<close>

lemma served_setNX:
  assumes "lock_served clock holder k R" and "lk_setNX R k v ttl w = (r, w')"
  shows "clock w' = clock w" and "holder w' = holder w \<or> \<not> live clock holder w \<and> holder w' = Some (v, clock w + ttl)"
  using assms unfolding lock_served_def by blast+

lemma served_get:
  assumes "lock_served clock holder k R" and "lk_get R k w = (r, w')"
  shows "clock w' = clock w" and "holder w' = holder w"
    and "r = Ok v \<Longrightarrow> live clock holder w \<and> map_option fst (holder w) = Some v"
  using assms unfolding lock_served_def by blast+

lemma served_expire:
  assumes "lock_served clock holder k R" and "lk_expire R k ttl w = (r, w')"
  shows "clock w' = clock w"
    and "\<And>v e. holder w = Some (v, e) \<Longrightarrow> clock w < e \<Longrightarrow> holder w' = Some (v, clock w + ttl) \<or> \<not> is_ok r \<and> holder w' = holder w"
proof -
  note law = assms(1)[unfolded lock_served_def, THEN conjunct2, THEN conjunct2, THEN spec, THEN spec, THEN spec, THEN spec, THEN mp, OF assms(2)]
  show "clock w' = clock w" using law by (rule conjunct1)
  show "holder w' = Some (v, clock w + ttl) \<or> \<not> is_ok r \<and> holder w' = holder w" if "holder w = Some (v, e)" "clock w < e" for v e
  proof -
    have "live clock holder w" using that by (auto simp: live_def)
    then show ?thesis using law[THEN conjunct2, THEN conjunct1, THEN spec, THEN spec, THEN mp, of v e] that(1) by blast
  qed
qed

lemma run_callbacks_apart:
  assumes "\<forall>f \<in> set fs. \<forall>w. clock (snd (f w)) = clock w \<and> holder (snd (f w)) = holder w"
    and "run_callbacks fs w = (r, w')"
  shows "clock w' = clock w \<and> holder w' = holder w"
  using assms
proof (induction fs arbitrary: w)
  case (Cons f fs)
  obtain x v where f: "f w = (x, v)" by (cases "f w")
  then have "clock v = clock w \<and> holder v = holder w" using Cons.prems(1) by (metis list.set_intros(1) snd_conv)
  then show ?case using Cons f by (auto split: res.splits)
qed simp

lemma leadership_apart:
  assumes "callbacks_apart clock holder cbs"
  shows "ownLeadership cbs l w = (r, l', w') \<Longrightarrow> clock w' = clock w \<and> holder w' = holder w \<and> l' = l\<lparr>el_isLeader := True\<rparr>"
    and "loseLeadership cbs l w = (r, l', w') \<Longrightarrow> clock w' = clock w \<and> holder w' = holder w \<and> l' = l\<lparr>el_isLeader := False\<rparr>"
proof -
  have own: "\<forall>f \<in> set (map onStartLeading cbs). \<forall>w. clock (snd (f w)) = clock w \<and> holder (snd (f w)) = holder w"
    and lose: "\<forall>f \<in> set (map onStopLeading cbs). \<forall>w. clock (snd (f w)) = clock w \<and> holder (snd (f w)) = holder w"
    using assms by (auto simp: callbacks_apart_def)
  show "ownLeadership cbs l w = (r, l', w') \<Longrightarrow> clock w' = clock w \<and> holder w' = holder w \<and> l' = l\<lparr>el_isLeader := True\<rparr>"
    using run_callbacks_apart[OF own] by (auto simp: ownLeadership_def split: prod.splits)
  show "loseLeadership cbs l w = (r, l', w') \<Longrightarrow> clock w' = clock w \<and> holder w' = holder w \<and> l' = l\<lparr>el_isLeader := False\<rparr>"
    using run_callbacks_apart[OF lose] by (auto simp: loseLeadership_def split: prod.splits)
qed

text \<open>
  A key that has not expired keeps its owner, and only the owner changes its expiry; an elector that
  leads afterwards has just renewed, was leading before and in time, or failed to renew what it has just taken.
\<close>

definition attempt_sound :: "('w \<Rightarrow> gotime) \<Rightarrow> ('w \<Rightarrow> (string \<times> gotime) option) \<Rightarrow> leader_config \<Rightarrow> gotime \<Rightarrow>
    elector \<Rightarrow> 'w \<Rightarrow> elector \<Rightarrow> 'w \<Rightarrow> bool" where
  "attempt_sound clock holder c t l w l' w' \<longleftrightarrow> clock w' = t \<and>
     (\<forall>v e. holder w = Some (v, e) \<and> t < e \<longrightarrow>
        holder w' = Some (v, e) \<or> v = lc_nodeID c \<and> holder w' = Some (v, t + lc_leaderTTL c)) \<and>
     (el_lastLeadershipTime l' = el_lastLeadershipTime l \<or>
        el_lastLeadershipTime l' = t \<and> holder w' = Some (lc_nodeID c, t + lc_leaderTTL c)) \<and>
     (el_isLeader l' \<longrightarrow> el_lastLeadershipTime l' = t \<and> holder w' = Some (lc_nodeID c, t + lc_leaderTTL c) \<or>
        el_isLeader l \<and> time_since t (el_lastLeadershipTime l) \<le> lc_electionTimeout c \<or>
        \<not> el_isLeader l \<and> el_lastLeadershipTime l' = el_lastLeadershipTime l)"

lemma attempt_effect:
  assumes served: "lock_served clock holder (lc_lockKey c) R" and apart: "callbacks_apart clock holder cbs"
    and run: "tryAcquireLeadership c cbs R (t, t) l w = (Ok (), l', w')" and t: "t = clock w"
  shows "attempt_sound clock holder c t l w l' w'"
proof (cases "el_isLeader l \<and> time_since t (el_lastLeadershipTime l) > lc_electionTimeout c")
  case True
  then have "loseLeadership cbs l w = (Ok (), l', w')" using run by (simp add: tryAcquireLeadership_def)
  from leadership_apart(2)[OF apart this] show ?thesis using t by (simp add: attempt_sound_def)
next
  case False
  obtain r1 w1 where set: "lk_setNX R (lc_lockKey c) (lc_nodeID c) (lc_leaderTTL c) w = (r1, w1)" by fastforce
  obtain r2 w2 where get: "lk_get R (lc_lockKey c) w1 = (r2, w2)" by fastforce
  note run' = run[unfolded tryAcquireLeadership_def fst_conv snd_conv if_not_P[OF False] set prod.case]
  have clocks: "clock w1 = t" "clock w2 = t" "holder w2 = holder w1"
    using served_setNX(1)[OF served set] served_get(1,2)[OF served get] t by auto
  have kept: "holder w1 = Some (v, e)" if "holder w = Some (v, e)" "t < e" for v e
    using served_setNX(2)[OF served set] that t by (auto simp: live_def)
  have stay: "attempt_sound clock holder c t l w l v" if "holder v = holder w1" "clock v = t" for v
    using that kept False by (auto simp: attempt_sound_def not_less)
  show ?thesis
  proof (cases r1)
    case (Ok b)
    note run' = run'[unfolded Ok res.case get prod.case]
    show ?thesis
    proof (cases r2)
      case (Ok val)
      note run' = run'[unfolded Ok res.case]
      show ?thesis
      proof (cases "val = lc_nodeID c")
        case False
        show ?thesis
        proof (cases "el_isLeader l")
          case True
          then have "loseLeadership cbs l w2 = (Ok (), l', w')" using run' \<open>val \<noteq> lc_nodeID c\<close> by simp
          from leadership_apart(2)[OF apart this] show ?thesis using clocks kept by (auto simp: attempt_sound_def)
        next
          case False
          then show ?thesis using run' \<open>val \<noteq> lc_nodeID c\<close> stay[of w2] clocks by simp
        qed
      next
        case True
        obtain e where mine: "holder w2 = Some (lc_nodeID c, e)" "t < e"
          using served_get(3)[OF served get Ok] clocks True by (auto simp: live_def)
        obtain r3 l3 w3 where own: "(if el_isLeader l then (Ok (), l, w2) else ownLeadership cbs l w2) = (r3, l3, w3)"
          by (metis prod_cases3)
        have led: "clock w3 = t" "holder w3 = holder w2" "l3 = l\<lparr>el_isLeader := True\<rparr>"
          using own leadership_apart(1)[OF apart, of l w2 r3 l3 w3] clocks by (auto split: if_splits)
        obtain r4 w4 where exp: "lk_expire R (lc_lockKey c) (lc_leaderTTL c) w3 = (r4, w4)" by fastforce
        note renew = served_expire(1)[OF served exp] served_expire(2)[OF served exp, of "lc_nodeID c" e]
        have "r3 = Ok ()"
          using run' True own by (cases r3) auto
        moreover have "\<not> val \<noteq> lc_nodeID c" using True by simp
        ultimately have run': "(case r4 of Err x \<Rightarrow> (Ok (), l3, w4) | Panic p \<Rightarrow> (Panic p, l3, w4)
            | Ok b \<Rightarrow> (Ok (), l3\<lparr>el_lastLeadershipTime := t\<rparr>, w4)) = (Ok (), l', w')"
          using run' own exp by simp
        have old: "v = lc_nodeID c \<and> x = e" if "holder w = Some (v, x)" "t < x" for v x
          using kept[OF that] mine(1) clocks(3) by simp
        show ?thesis
        proof (cases r4)
          case (Ok renewed)
          then have "l' = l3\<lparr>el_lastLeadershipTime := t\<rparr>" "w' = w4" using run' by auto
          moreover have "holder w4 = Some (lc_nodeID c, t + lc_leaderTTL c)"
            using renew(2) led mine Ok by auto
          ultimately show ?thesis using old renew(1) led by (auto simp: attempt_sound_def)
        next
          case (Err x)
          then have "l' = l3" "w' = w4" using run' by auto
          moreover have "holder w4 = Some (lc_nodeID c, t + lc_leaderTTL c) \<or> holder w4 = Some (lc_nodeID c, e)"
            using renew(2) led mine Err by auto
          ultimately show ?thesis using old renew(1) led \<open>\<not> (el_isLeader l \<and> _)\<close>
            by (auto simp: attempt_sound_def not_less)
        qed (use run' in auto)
      qed
    next
      case (Err x)
      then show ?thesis using run' stay[of w2] clocks by simp
    qed (use run' in auto)
  next
    case (Err x)
    then show ?thesis using run' stay[of w1] clocks by simp
  qed (use run' in auto)
qed

subsection \<open>The invariant of the cluster\<close>

text \<open>
  A node that has renewed holds the key until its time to live is over; a node that leads holds it for
  longer than it can be without an attempt.
\<close>

definition lead_inv :: "('w \<Rightarrow> gotime) \<Rightarrow> ('w \<Rightarrow> (string \<times> gotime) option) \<Rightarrow> leader_config \<Rightarrow> int \<Rightarrow> 'w cluster \<Rightarrow> bool" where
  "lead_inv clock holder c delay s \<longleftrightarrow> 0 \<le> clock (cl_world s) \<and> (\<forall>p.
     (el_isLeader (cl_elector s p) \<longrightarrow> 0 \<le> el_lastLeadershipTime (cl_elector s p) \<and>
        (\<exists>e. holder (cl_world s) = Some (p, e) \<and> cl_tried s p + delay < e) \<and> clock (cl_world s) \<le> cl_tried s p + delay) \<and>
     (0 \<le> el_lastLeadershipTime (cl_elector s p) \<longrightarrow> el_lastLeadershipTime (cl_elector s p) \<le> clock (cl_world s) \<and>
        (clock (cl_world s) < el_lastLeadershipTime (cl_elector s p) + lc_leaderTTL c \<longrightarrow>
           (\<exists>e. holder (cl_world s) = Some (p, e) \<and> el_lastLeadershipTime (cl_elector s p) + lc_leaderTTL c \<le> e))))"

definition timings :: "leader_config \<Rightarrow> int \<Rightarrow> bool" where
  "timings c delay \<longleftrightarrow> 0 \<le> delay \<and> 0 < lc_electionTimeout c \<and> lc_electionTimeout c < max_duration \<and>
     lc_electionTimeout c + delay < lc_leaderTTL c"

lemma in_time:
  assumes "timings c delay" and "time_since t u \<le> lc_electionTimeout c"
  shows "t - u \<le> lc_electionTimeout c"
  using assms by (auto simp: timings_def time_since_def split: if_splits)

lemma attempt_inv:
  assumes inv: "lead_inv clock holder c delay s" and tim: "timings c delay" and t: "t = clock (cl_world s)"
    and sound: "attempt_sound clock holder (c\<lparr>lc_nodeID := p\<rparr>) t (cl_elector s p) (cl_world s) l w"
    and renewed: "el_isLeader l \<and> \<not> el_isLeader (cl_elector s p) \<longrightarrow> el_lastLeadershipTime l = t"
  shows "lead_inv clock holder c delay (s\<lparr>cl_world := w, cl_elector := (cl_elector s)(p := l), cl_tried := (cl_tried s)(p := t)\<rparr>)"
proof -
  let ?l = "cl_elector s p" and ?T = "lc_electionTimeout c" and ?TTL = "lc_leaderTTL c"
  note sound = sound[unfolded attempt_sound_def, simplified]
  have now: "clock w = t" "0 \<le> t" using sound inv t by (auto simp: lead_inv_def)
  have ttl: "0 \<le> delay" "?T + delay < ?TTL" "0 < ?T" "0 < ?TTL" using tim by (auto simp: timings_def)
  have kept: "holder w = Some (v, e) \<or> v = p \<and> holder w = Some (v, t + ?TTL)" if "holder (cl_world s) = Some (v, e)" "t < e" for v e
    using sound that by blast
  have mine: "\<exists>e. holder w = Some (p, e) \<and> u + ?TTL \<le> e"
    if "0 \<le> u" "u = el_lastLeadershipTime ?l" "t < u + ?TTL" for u
  proof -
    from inv that t obtain e where "holder (cl_world s) = Some (p, e)" "u + ?TTL \<le> e" "u \<le> t"
      unfolding lead_inv_def by blast
    with kept[of p e] that(3) show ?thesis by force
  qed
  have last: "0 \<le> el_lastLeadershipTime l \<longrightarrow> el_lastLeadershipTime l \<le> t \<and>
      (t < el_lastLeadershipTime l + ?TTL \<longrightarrow> (\<exists>e. holder w = Some (p, e) \<and> el_lastLeadershipTime l + ?TTL \<le> e))"
  proof (cases "el_lastLeadershipTime l = el_lastLeadershipTime ?l")
    case True
    then show ?thesis using mine[of "el_lastLeadershipTime l"] inv t unfolding lead_inv_def by metis
  next
    case False
    then show ?thesis using sound by auto
  qed
  have lead: "0 \<le> el_lastLeadershipTime l \<and> (\<exists>e. holder w = Some (p, e) \<and> t + delay < e)" if "el_isLeader l"
  proof -
    have "el_lastLeadershipTime l = t \<or> el_lastLeadershipTime l = el_lastLeadershipTime ?l \<and> el_isLeader ?l \<and> time_since t (el_lastLeadershipTime ?l) \<le> ?T"
      using sound that renewed by blast
    moreover have "0 \<le> el_lastLeadershipTime ?l" if "el_isLeader ?l" using inv that by (auto simp: lead_inv_def)
    ultimately have "0 \<le> el_lastLeadershipTime l" "t - el_lastLeadershipTime l \<le> ?T"
      using in_time[OF tim, of t "el_lastLeadershipTime ?l"] now(2) ttl(3) by auto
    then show ?thesis using last ttl by force
  qed
  have "el_isLeader (cl_elector s q) \<longrightarrow> (\<exists>e. holder w = Some (q, e) \<and> cl_tried s q + delay < e)" if "q \<noteq> p" for q
    using inv kept that t unfolding lead_inv_def by fastforce
  moreover have "0 \<le> el_lastLeadershipTime (cl_elector s q) \<longrightarrow> t < el_lastLeadershipTime (cl_elector s q) + ?TTL \<longrightarrow>
      (\<exists>e. holder w = Some (q, e) \<and> el_lastLeadershipTime (cl_elector s q) + ?TTL \<le> e)" if "q \<noteq> p" for q
    using inv kept that t unfolding lead_inv_def by fastforce
  ultimately show ?thesis
    using inv t now ttl last lead by (auto simp: lead_inv_def)
qed

lemma cluster_inv:
  assumes "lock_served clock holder (lc_lockKey c) R" and "callbacks_apart clock holder cbs" and tim: "timings c delay"
    and "cluster_reachable clock holder c cbs R delay True s"
  shows "lead_inv clock holder c delay s"
  using assms(4)
proof (induction rule: cluster_reachable.induct)
  case (start w)
  then show ?case by (simp add: lead_inv_def newLeaderElector_def time_zero_def)
next
  case (step s s')
  from step.hyps(2) show ?case
  proof (cases rule: cluster_step.cases)
    case (attempt t p l w)
    have "attempt_sound clock holder (c\<lparr>lc_nodeID := p\<rparr>) t (cl_elector s p) (cl_world s) l w"
      by (rule attempt_effect[OF _ assms(2) attempt(3)]) (use assms(1) attempt(2) in simp_all)
    from attempt_inv[OF step.IH tim attempt(2) this] attempt(1,4) show ?thesis by simp
  next
    case (restart p)
    then show ?thesis using step.IH by (auto simp: lead_inv_def newLeaderElector_def time_zero_def)
  next
    case (pass w)
    then show ?thesis using step.IH by (force simp: lead_inv_def)
  qed
qed


subsection \<open>A lock server\<close>

text \<open>A server that keeps one key and fails the next commands as \<open>rs_fails\<close> says.\<close>

record redis =
  rs_now :: gotime
  rs_lock :: "(string \<times> gotime) option"
  rs_fails :: "bool list"

definition command :: "(redis \<Rightarrow> 'a res \<times> redis) \<Rightarrow> redis \<Rightarrow> 'a res \<times> redis" where
  "command f w =
     (let w' = w\<lparr>rs_fails := tl (rs_fails w)\<rparr>
      in if rs_fails w \<noteq> [] \<and> hd (rs_fails w) then (Err (ErrExt ''i/o timeout''), w') else f w')"

definition rs_value :: "redis \<Rightarrow> string option" where
  "rs_value w = (case rs_lock w of Some (v, e) \<Rightarrow> if rs_now w < e then Some v else None | None \<Rightarrow> None)"

definition redis_client :: "redis lock_client" where
  "redis_client = \<lparr>
     lk_setNX = (\<lambda>k v ttl. command (\<lambda>w. if rs_value w = None then (Ok True, w\<lparr>rs_lock := Some (v, rs_now w + ttl)\<rparr>) else (Ok False, w))),
     lk_get = (\<lambda>k. command (\<lambda>w. case rs_value w of None \<Rightarrow> (Err (ErrExt ''redis: nil''), w) | Some v \<Rightarrow> (Ok v, w))),
     lk_expire = (\<lambda>k ttl. command (\<lambda>w. case rs_value w of None \<Rightarrow> (Ok False, w)
       | Some v \<Rightarrow> (Ok True, w\<lparr>rs_lock := Some (v, rs_now w + ttl)\<rparr>)))\<rparr>"

lemma redis_served: "lock_served rs_now rs_lock k redis_client"
  unfolding lock_served_def live_def redis_client_def
  by (auto simp: command_def rs_value_def Let_def split: if_splits option.splits prod.splits)

lemma no_callbacks: "callbacks_apart clock holder []"
  by (simp add: callbacks_apart_def)

lemma default_timings: "timings (default_config n) (seconds 2)"
  by (simp add: timings_def default_config_def seconds_def max_duration_def)

lemmas redis_eval = tryAcquireLeadership_def redis_client_def command_def rs_value_def default_config_def seconds_def
  ownLeadership_def newLeaderElector_def Let_def


text \<open>
  A renewal that fails in the attempt that takes the lead lets two nodes lead with the default
  timings: the node took the key earlier but could not read it back; by the time it can, the key is
  about to expire, \<open>EXPIRE\<close> fails, and the node leads all the same until its next attempt, while another node takes
  the expired key and leads too.
\<close>

theorem failed_renewal_two_leaders:
  "\<exists>s. cluster_reachable rs_now rs_lock (default_config []) [] redis_client (seconds 2) False s \<and>
    el_isLeader (cl_elector s ''a'') \<and> el_isLeader (cl_elector s ''b'')"
proof -
  let ?reach = "cluster_reachable rs_now rs_lock (default_config []) [] redis_client (seconds 2) False"
  let ?step = "cluster_step rs_now rs_lock (default_config []) [] redis_client (seconds 2) False"
  let ?run = "\<lambda>p t l w. tryAcquireLeadership (default_config []\<lparr>lc_nodeID := p\<rparr>) [] redis_client (t, t) l w"
  let ?w = "\<lambda>t k fs. \<lparr>rs_now = t, rs_lock = k, rs_fails = fs\<rparr>"
  let ?a = "Some (''a'', seconds 10)"
  let ?led = "newLeaderElector\<lparr>el_isLeader := True\<rparr>"
  let ?s = "\<lambda>w E T. \<lparr>cl_world = w, cl_elector = E, cl_tried = T\<rparr>"
  let ?E0 = "\<lambda>p. newLeaderElector" and ?T0 = "\<lambda>p :: string. 0 :: int"
  have attempt: "?reach (?s w' (E(p := l)) (T(p := t)))"
    if "?reach (?s w E T)" "t = rs_now w" "?run p t (E p) w = (Ok (), l, w')" for w E T p t l w'
    using cluster_reachable.step[OF that(1) cluster_step.attempt[where s = "?s w E T" and t = t and p = p and l = l and w = w']] that(2,3)
    by simp
  have pass: "?reach (?s w' E T)"
    if "?reach (?s w E T)" "rs_now w \<le> rs_now w'" "rs_lock w' = rs_lock w" "\<forall>p. el_isLeader (E p) \<longrightarrow> rs_now w' \<le> T p + seconds 2" for w E T w'
    using cluster_reachable.step[OF that(1) cluster_step.pass[where s = "?s w E T" and w = w']] that(2-4)
    by simp
  have s0: "?reach (?s (?w 0 None [False, True]) ?E0 ?T0)"
    using cluster_reachable.start[of rs_now "?w 0 None [False, True]" rs_lock] by simp
  have s1: "?reach (?s (?w 0 ?a []) (?E0(''a'' := newLeaderElector)) (?T0(''a'' := 0)))"
    by (rule attempt[OF s0]) (simp_all add: redis_eval)
  have s2: "?reach (?s (?w (seconds 9) ?a [False, False, True]) ?E0 ?T0)"
    using pass[OF s1, of "?w (seconds 9) ?a [False, False, True]"] by (simp add: newLeaderElector_def seconds_def fun_upd_def)
  have s3: "?reach (?s (?w (seconds 9) ?a []) (?E0(''a'' := ?led)) (?T0(''a'' := seconds 9)))"
    by (rule attempt[OF s2]) (simp_all add: redis_eval)
  have s4: "?reach (?s (?w (seconds 10) ?a []) (?E0(''a'' := ?led)) (?T0(''a'' := seconds 9)))"
    by (rule pass[OF s3]) (simp_all add: seconds_def newLeaderElector_def)
  have s5: "?reach (?s (?w (seconds 10) (Some (''b'', seconds 20)) []) ((?E0(''a'' := ?led))(''b'' := ?led\<lparr>el_lastLeadershipTime := seconds 10\<rparr>))
      ((?T0(''a'' := seconds 9))(''b'' := seconds 10)))"
    by (rule attempt[OF s4]) (simp_all add: redis_eval)
  show ?thesis by (rule exI, rule conjI, rule s5) simp
qed

end
