(* ===== verification/Producer.thy ===== *)
theory Producer
  imports Leader Kafka Indexer
begin

section \<open>internal/leader_election/callbacks: what the leader does\<close>

text \<open>
  \<open>unseen.go\<close>: the leader hands the identifiers of master blocks to workers, which fetch the unseen
  blocks of each and produce them to the topic. The workers share a channel of identifiers and an
  atomic counter; a worker adds to the counter and reads it in two steps, so another may come between.
  What a worker does in one step is a function; a run is any schedule of the workers.
  \<open>expired.go\<close>: the leader deletes the consumer groups of broadcasting nodes that are gone.
\<close>

subsection \<open>unseen.go\<close>

text \<open>
  The block to start from; it is asked for until it is known, a bounded number of times.
\<close>

definition fromBlock_attempt :: "u32 \<Rightarrow> db \<Rightarrow> u32 res \<times> db" where
  "fromBlock_attempt FromBlock d =
     (case getLastMasterBlock d of
        (Ok lastMaster, d) \<Rightarrow> (Ok (bl_seqno lastMaster + 1), d)
      | (Err e, d) \<Rightarrow> if err_is e ErrNotFound then (Ok FromBlock, d)
                      else (Err (Wrap e ''cannot get last masterchain block''), d)
      | (Panic p, d) \<Rightarrow> (Panic p, d))"

fun retry_fromBlock :: "nat \<Rightarrow> u32 \<Rightarrow> db \<Rightarrow> u32 res \<times> db" where
  "retry_fromBlock n FromBlock d =
     (case fromBlock_attempt FromBlock d of
        (Err e, d) \<Rightarrow> (case n of 0 \<Rightarrow> (Panic (err_text e), d) | Suc n \<Rightarrow> retry_fromBlock n FromBlock d)
      | r \<Rightarrow> r)"

definition processBlockId :: "nat \<Rightarrow> node_api \<Rightarrow> node_api \<Rightarrow> (nat \<Rightarrow> gotime \<times> gotime) \<Rightarrow> (nat \<Rightarrow> gotime \<times> gotime) \<Rightarrow>
    proto_unseen codec \<Rightarrow> goerr option \<Rightarrow> u32 \<Rightarrow> blocks_cache \<times> krecord list \<Rightarrow> unit res \<times> blocks_cache \<times> krecord list" where
  "processBlockId fuel api waiting clk clk' K produce blockId w =
     (case getUnseenBlocks fuel api waiting clk clk' blockId (fst w) of
        (Ok (master, shards), c) \<Rightarrow> (case produceUnseen K produce blockId (Some master) shards (snd w) of (r, topic) \<Rightarrow> (r, c, topic))
      | (Err e, c) \<Rightarrow> (Err e, c, snd w)
      | (Panic p, c) \<Rightarrow> (Panic p, c, snd w))"

datatype block_worker = Waiting | Processing u32 | Failed u32 | Adding | Loading | Stopped

record 'w producer =
  pr_masterSeq :: u32
  pr_blockIds :: "u32 list"
  pr_workers :: "block_worker list"
  pr_world :: 'w
  pr_produced :: "u32 list"

text \<open>The channel is filled before the workers start.\<close>

fun fill_ids :: "nat \<Rightarrow> u32 \<Rightarrow> u32 list \<times> u32" where
  "fill_ids 0 seq = ([], seq)"
| "fill_ids (Suc n) seq = (case fill_ids n (seq + 1) of (ids, s) \<Rightarrow> ((seq + 1) # ids, s))"

definition produceBlockIdsLoop :: "nat \<Rightarrow> u32 \<Rightarrow> 'w \<Rightarrow> 'w producer" where
  "produceBlockIdsLoop workers fromBlock w =
     (case fill_ids workers fromBlock of (ids, seq) \<Rightarrow>
        \<lparr>pr_masterSeq = seq, pr_blockIds = ids, pr_workers = replicate workers Waiting, pr_world = w, pr_produced = []\<rparr>)"

text \<open>
  The next step of worker \<open>i\<close>; nothing happens when it has to wait for the channel, whose
  capacity is the number of workers. A worker that waits stops when the lead is lost; a
  panic ends the process with all its workers.
\<close>

definition worker_step :: "u32 option \<Rightarrow> (u32 \<Rightarrow> 'w \<Rightarrow> unit res \<times> 'w) \<Rightarrow> nat \<times> bool \<Rightarrow> 'w producer \<Rightarrow> 'w producer" where
  "worker_step target process sched s =
     (let i = fst sched; become = (\<lambda>x s. s\<lparr>pr_workers := (pr_workers s)[i := x]\<rparr>);
          send = (\<lambda>x s. if length (pr_blockIds s) < length (pr_workers s)
                        then become Waiting (s\<lparr>pr_blockIds := pr_blockIds s @ [x]\<rparr>) else s)
      in if length (pr_workers s) \<le> i then s
         else case pr_workers s ! i of
           Waiting \<Rightarrow>
             if snd sched then become Stopped s
             else (case pr_blockIds s of
                [] \<Rightarrow> s
              | x # ids \<Rightarrow>
                  let s = s\<lparr>pr_blockIds := ids\<rparr>
                  in if (case target of Some t \<Rightarrow> t < x | None \<Rightarrow> False) then become Stopped s else become (Processing x) s)
         | Processing x \<Rightarrow>
             (case process x (pr_world s) of
                (Ok _, w) \<Rightarrow> become Adding (s\<lparr>pr_world := w, pr_produced := pr_produced s @ [x]\<rparr>)
              | (Err e, w) \<Rightarrow> become (Failed x) (s\<lparr>pr_world := w\<rparr>)
              | (Panic p, w) \<Rightarrow> s\<lparr>pr_workers := map (\<lambda>_. Stopped) (pr_workers s), pr_world := w\<rparr>)
         | Failed x \<Rightarrow> send x s
         | Adding \<Rightarrow> become Loading (s\<lparr>pr_masterSeq := pr_masterSeq s + 1\<rparr>)
         | Loading \<Rightarrow> send (pr_masterSeq s) s
         | Stopped \<Rightarrow> s)"

definition run_workers :: "u32 option \<Rightarrow> (u32 \<Rightarrow> 'w \<Rightarrow> unit res \<times> 'w) \<Rightarrow> (nat \<times> bool) list \<Rightarrow> 'w producer \<Rightarrow> 'w producer" where
  "run_workers target process sched s = fold (worker_step target process) sched s"

subsection \<open>expired.go\<close>

record described_group =
  dg_group :: string
  dg_members :: nat

definition outdatedGroupsTimeLimit :: int where
  "outdatedGroupsTimeLimit = seconds 15"

definition monitored :: "string list \<Rightarrow> string \<Rightarrow> bool" where
  "monitored pfxs g \<longleftrightarrow> list_ex (has_prefix g) pfxs"

text \<open>
  One round: \<open>all\<close> is what Kafka describes (nothing after an error, which is dropped), read at the
  times \<open>now g\<close>; the map of the described groups is gone through in some order. The second result are the
  groups that Kafka is asked to delete, whether it does or not.
\<close>

definition see_group :: "(string \<Rightarrow> gotime) \<Rightarrow> described_group \<Rightarrow> (string \<rightharpoonup> gotime) \<times> string list \<Rightarrow> (string \<rightharpoonup> gotime) \<times> string list" where
  "see_group now g st =
     (case st of (seen, del) \<Rightarrow>
        if 0 < dg_members g then (seen(dg_group g \<mapsto> now (dg_group g)), del)
        else (case seen (dg_group g) of
                None \<Rightarrow> (seen(dg_group g \<mapsto> now (dg_group g)), del)
              | Some t \<Rightarrow> if time_since (now (dg_group g)) t > outdatedGroupsTimeLimit then (seen, del @ [dg_group g]) else (seen, del)))"

definition purgeOutdatedGroups :: "string list \<Rightarrow> (string \<Rightarrow> gotime) \<Rightarrow> described_group list res \<Rightarrow> goerr option \<Rightarrow>
    (string \<rightharpoonup> gotime) \<Rightarrow> unit res \<times> string list \<times> (string \<rightharpoonup> gotime)" where
  "purgeOutdatedGroups pfxs now all delete_error seen =
     (let described = filter (\<lambda>g. monitored pfxs (dg_group g)) (case all of Ok gs \<Rightarrow> gs | _ \<Rightarrow> []);
          (seen, del) = fold (see_group now) described (seen, [])
      in case delete_error of
           Some e \<Rightarrow> (Err (Wrap e ''failed to delete groups''), del, seen)
         | None \<Rightarrow> (Ok (), del, (\<lambda>g. if g \<in> set del \<or> g \<notin> dg_group ` set described then None else seen g)))"

subsection \<open>The first block is never produced\<close>

text \<open>
  Every identifier in the channel or in the hands of a worker is behind the block to start from,
  and so are those that were produced, as long as the counter does not wrap around.
\<close>

definition id_of :: "block_worker \<Rightarrow> u32 list" where
  "id_of b = (case b of Processing x \<Rightarrow> [x] | Failed x \<Rightarrow> [x] | _ \<Rightarrow> [])"

definition behind :: "u32 \<Rightarrow> nat \<Rightarrow> 'w producer \<Rightarrow> bool" where
  "behind from n s \<longleftrightarrow> unat (pr_masterSeq s) \<le> unat from + n \<and> (pr_workers s \<noteq> [] \<longrightarrow> from < pr_masterSeq s) \<and>
     (\<forall>x \<in> set (pr_blockIds s) \<union> set (pr_produced s) \<union> set (concat (map id_of (pr_workers s))). from < x)"

lemma fill_ids_behind:
  assumes "fill_ids n seq = (ids, s)" and "unat seq + n < 2 ^ 32"
  shows "unat s = unat seq + n \<and> (\<forall>x \<in> set ids. seq < x)"
  using assms
proof (induction n arbitrary: seq ids)
  case (Suc n)
  have one: "unat (seq + 1) = unat seq + 1"
    using Suc.prems(2) by (simp add: unat_word_ariths)
  obtain ids' where ids: "fill_ids n (seq + 1) = (ids', s)" "ids = (seq + 1) # ids'"
    using Suc.prems(1) by (auto split: prod.splits)
  have "unat s = unat (seq + 1) + n \<and> (\<forall>x \<in> set ids'. seq + 1 < x)"
    by (rule Suc.IH[OF ids(1)]) (use Suc.prems(2) one in simp)
  then show ?case using one by (auto simp: ids(2) word_less_nat_alt)
qed simp

lemma set_id_of_update: "i < length bs \<Longrightarrow> set (concat (map id_of (bs[i := b]))) \<subseteq> set (id_of b) \<union> set (concat (map id_of bs))"
  by (auto dest!: set_update_subset_insert[THEN subsetD])

lemma id_of_mem: "i < length bs \<Longrightarrow> x \<in> set (id_of (bs ! i)) \<Longrightarrow> x \<in> set (concat (map id_of bs))"
  by (auto intro!: bexI[of _ "bs ! i"])

text \<open>Everything a step puts somewhere was in the channel or with the worker, or is the counter.\<close>

lemma worker_step_ids:
  "pr_masterSeq (worker_step target process x s) \<in> {pr_masterSeq s, pr_masterSeq s + 1}"
  "length (pr_workers (worker_step target process x s)) = length (pr_workers s)"
  "pr_workers s \<noteq> [] \<or> worker_step target process x s = s"
  "set (pr_blockIds (worker_step target process x s)) \<union> set (pr_produced (worker_step target process x s)) \<union>
     set (concat (map id_of (pr_workers (worker_step target process x s))))
   \<subseteq> insert (pr_masterSeq s) (set (pr_blockIds s) \<union> set (pr_produced s) \<union> set (concat (map id_of (pr_workers s))))"
proof -
  show "pr_masterSeq (worker_step target process x s) \<in> {pr_masterSeq s, pr_masterSeq s + 1}"
    "length (pr_workers (worker_step target process x s)) = length (pr_workers s)"
    "pr_workers s \<noteq> [] \<or> worker_step target process x s = s"
    by (auto simp: worker_step_def Let_def split: block_worker.split list.split prod.split res.split)
  show "set (pr_blockIds (worker_step target process x s)) \<union> set (pr_produced (worker_step target process x s)) \<union>
     set (concat (map id_of (pr_workers (worker_step target process x s))))
   \<subseteq> insert (pr_masterSeq s) (set (pr_blockIds s) \<union> set (pr_produced s) \<union> set (concat (map id_of (pr_workers s))))"
  proof (cases "fst x < length (pr_workers s)")
    case True
    note upd = set_id_of_update[OF True, THEN subsetD]
    note mem = id_of_mem[OF True]
    have none: "id_of Waiting = []" "id_of Adding = []" "id_of Loading = []" "id_of Stopped = []"
      "id_of (Processing y) = [y]" "id_of (Failed y) = [y]" for y by (simp_all add: id_of_def)
    have all: "concat (map (id_of \<circ> (\<lambda>_. Stopped)) bs) = []" for bs :: "block_worker list" by (simp add: none comp_def)
    show ?thesis
      using True mem
      by (auto simp: worker_step_def Let_def none all dest!: upd
          split: block_worker.split list.split prod.split res.split simp del: set_concat)
  qed (auto simp: worker_step_def Let_def)
qed

lemma behind_step:
  assumes "behind from n s" and "unat from + n + 1 < 2 ^ 32"
  shows "behind from (n + 1) (worker_step target process x s)"
proof (cases "pr_workers s = []")
  case True
  then show ?thesis using worker_step_ids(3)[of s target process x] assms(1) by (simp add: behind_def)
next
  case False
  have "unat (pr_masterSeq s + 1) = unat (pr_masterSeq s) + 1"
    using assms by (simp add: behind_def unat_word_ariths)
  then have "unat (pr_masterSeq (worker_step target process x s)) \<le> unat from + (n + 1)"
    "from < pr_masterSeq (worker_step target process x s)"
    using worker_step_ids(1)[of target process x s] assms(1) False by (auto simp: behind_def word_less_nat_alt)
  then show ?thesis
    using worker_step_ids(4)[of target process x s] assms(1) False unfolding behind_def by blast
qed

lemma behind_run:
  assumes "behind from n s" and "unat from + n + length sched < 2 ^ 32"
  shows "behind from (n + length sched) (run_workers target process sched s)"
  using assms
proof (induction sched arbitrary: s n)
  case (Cons x sched)
  have "behind from (n + 1) (worker_step target process x s)" by (rule behind_step) (use Cons.prems in simp_all)
  then have "behind from (n + 1 + length sched) (run_workers target process sched (worker_step target process x s))"
    by (rule Cons.IH) (use Cons.prems in simp)
  then show ?case by (simp add: run_workers_def)
qed (simp add: run_workers_def)

lemma behind_start:
  assumes "unat from + workers < 2 ^ 32"
  shows "behind from workers (produceBlockIdsLoop workers from w)"
proof -
  obtain ids seq where fill: "fill_ids workers from = (ids, seq)" by fastforce
  note filled = fill_ids_behind[OF fill assms]
  have "concat (map id_of (replicate workers Waiting)) = []" by (simp add: id_of_def)
  then show ?thesis
    using filled by (auto simp: behind_def produceBlockIdsLoop_def fill word_less_nat_alt)
qed

text \<open>
  C39. The leader never hands out the block it starts from: however its workers are scheduled and
  however often they fail, a block that is produced is behind \<open>fromBlock\<close> (as long as the counter does not
  wrap around). But \<open>fromBlock\<close> is the block after the last one in the database, or the first one to
  index, so that block is left out each time a node takes the lead.
\<close>

theorem first_block_not_produced:
  assumes "fromBlock_attempt FromBlock d = (Ok from, d')"
    and "unat from + workers + length sched < 2 ^ 32"
  shows "(\<forall>x \<in> set (pr_produced (run_workers target process sched (produceBlockIdsLoop workers from w))). from < x) \<and>
    (\<forall>b d''. getLastMasterBlock d = (Ok b, d'') \<longrightarrow> from = bl_seqno b + 1)"
proof -
  have "behind from (workers + length sched) (run_workers target process sched (produceBlockIdsLoop workers from w))"
    by (rule behind_run[OF behind_start]) (use assms(2) in simp_all)
  moreover have "from = bl_seqno b + 1" if "getLastMasterBlock d = (Ok b, d'')" for b d''
    using assms(1) that by (simp add: fromBlock_attempt_def)
  ultimately show ?thesis by (auto simp: behind_def)
qed

text \<open>Two workers that both succeed: between its two steps on the counter the first is overtaken.\<close>

definition ex_process :: "u32 \<Rightarrow> unit \<Rightarrow> unit res \<times> unit" where
  "ex_process x w = (Ok (), w)"

lemmas worker_eval = run_workers_def worker_step_def produceBlockIdsLoop_def ex_process_def Let_def numeral_eq_Suc

theorem first_block_not_produced_witness:
  "list_all (\<lambda>x. 7 < x) (pr_produced (run_workers None ex_process [(0, False), (0, False)] (produceBlockIdsLoop 1 7 ()))) \<and>
   pr_produced (run_workers None ex_process [(0, False), (0, False)] (produceBlockIdsLoop 1 7 ())) = [8]"
proof -
  have first: "fromBlock_attempt 7 db_empty = (Ok 7, db_empty)"
    by (simp add: fromBlock_attempt_def getLastMasterBlock_def query_def db_empty_def)
  show ?thesis
    using first_block_not_produced[OF first, of 1 "[(0, False), (0, False)]" None ex_process "()"]
    by (simp add: run_workers_def worker_step_def produceBlockIdsLoop_def ex_process_def)
qed

lemma overtaken_worker_skips:
  "pr_blockIds (run_workers None ex_process (map (\<lambda>i. (i, False)) [0, 1, 0, 1, 0, 1, 0, 1]) (produceBlockIdsLoop 2 0 ())) = [4, 4]"
  by (simp add: run_workers_def worker_step_def produceBlockIdsLoop_def ex_process_def numeral_2_eq_2)

subsection \<open>Only groups without members are deleted\<close>

text \<open>The rounds of the leader, each with its clock and what Kafka answers; the groups each deletes.\<close>

record purge_round =
  pu_now :: "string \<Rightarrow> gotime"
  pu_groups :: "described_group list res"
  pu_delete_error :: "goerr option"

fun purge_rounds :: "string list \<Rightarrow> purge_round list \<Rightarrow> (string \<rightharpoonup> gotime) \<Rightarrow> string list list" where
  "purge_rounds pfxs [] seen = []"
| "purge_rounds pfxs (r # rs) seen =
     (case purgeOutdatedGroups pfxs (pu_now r) (pu_groups r) (pu_delete_error r) seen of
        (_, del, seen) \<Rightarrow> del # purge_rounds pfxs rs seen)"

definition group_members :: "purge_round \<Rightarrow> string \<Rightarrow> nat option" where
  "group_members r g = map_option dg_members (find (\<lambda>d. dg_group d = g) (case pu_groups r of Ok gs \<Rightarrow> gs | _ \<Rightarrow> []))"

definition round_ok :: "purge_round \<Rightarrow> bool" where
  "round_ok r \<longleftrightarrow> (case pu_groups r of Ok gs \<Rightarrow> distinct (map dg_group gs) | _ \<Rightarrow> True)"

lemma find_group: "distinct (map dg_group gs) \<Longrightarrow> d \<in> set gs \<Longrightarrow> find (\<lambda>x. dg_group x = dg_group d) gs = Some d"
  by (induction gs) auto

lemma see_groups:
  assumes "distinct (map dg_group gs)" and "fold (see_group now) gs (seen, del) = (seen', del')"
  shows "seen' g = (case find (\<lambda>d. dg_group d = g) gs of None \<Rightarrow> seen g
      | Some d \<Rightarrow> if 0 < dg_members d then Some (now g) else (case seen g of None \<Rightarrow> Some (now g) | Some t \<Rightarrow> Some t))"
    and "g \<in> set del' \<Longrightarrow> g \<in> set del \<or> (\<exists>d \<in> set gs. dg_group d = g \<and> dg_members d = 0 \<and>
      (\<exists>t. seen g = Some t \<and> outdatedGroupsTimeLimit < time_since (now g) t))"
proof -
  have step: "seen' g = (case find (\<lambda>d. dg_group d = g) gs of None \<Rightarrow> seen g
      | Some d \<Rightarrow> if 0 < dg_members d then Some (now g) else (case seen g of None \<Rightarrow> Some (now g) | Some t \<Rightarrow> Some t)) \<and>
    (g \<in> set del' \<longrightarrow> g \<in> set del \<or> (\<exists>d \<in> set gs. dg_group d = g \<and> dg_members d = 0 \<and>
      (\<exists>t. seen g = Some t \<and> outdatedGroupsTimeLimit < time_since (now g) t)))"
    using assms
  proof (induction gs arbitrary: seen del)
    case (Cons d gs)
    obtain seen1 del1 where one: "see_group now d (seen, del) = (seen1, del1)" by fastforce
    have IH: "seen' g = (case find (\<lambda>d. dg_group d = g) gs of None \<Rightarrow> seen1 g
      | Some d \<Rightarrow> if 0 < dg_members d then Some (now g) else (case seen1 g of None \<Rightarrow> Some (now g) | Some t \<Rightarrow> Some t)) \<and>
    (g \<in> set del' \<longrightarrow> g \<in> set del1 \<or> (\<exists>d \<in> set gs. dg_group d = g \<and> dg_members d = 0 \<and>
      (\<exists>t. seen1 g = Some t \<and> outdatedGroupsTimeLimit < time_since (now g) t)))"
      by (rule Cons.IH) (use Cons.prems one in simp_all)
    show ?case
    proof (cases "dg_group d = g")
      case True
      then have others: "\<forall>x \<in> set gs. dg_group x \<noteq> g" using Cons.prems(1) by (auto simp: image_iff)
      then have "find (\<lambda>d. dg_group d = g) gs = None" by (auto simp: find_None_iff)
      with others show ?thesis using IH one True by (auto simp: see_group_def split: if_splits option.splits)
    next
      case False
      then have same: "seen1 g = seen g" "g \<in> set del1 \<longleftrightarrow> g \<in> set del"
        using one by (auto simp: see_group_def split: if_splits option.splits)
      show ?thesis using IH False unfolding same by auto
    qed
  qed simp
  from step show "seen' g = (case find (\<lambda>d. dg_group d = g) gs of None \<Rightarrow> seen g
      | Some d \<Rightarrow> if 0 < dg_members d then Some (now g) else (case seen g of None \<Rightarrow> Some (now g) | Some t \<Rightarrow> Some t))" ..
  from step show "g \<in> set del' \<Longrightarrow> g \<in> set del \<or> (\<exists>d \<in> set gs. dg_group d = g \<and> dg_members d = 0 \<and>
      (\<exists>t. seen g = Some t \<and> outdatedGroupsTimeLimit < time_since (now g) t))" by blast
qed

lemma late_enough: "outdatedGroupsTimeLimit < time_since now t \<Longrightarrow> outdatedGroupsTimeLimit < now - t"
  by (auto simp: time_since_def outdatedGroupsTimeLimit_def seconds_def max_duration_def split: if_splits)

lemma find_filter_None: "\<not> P g \<Longrightarrow> find (\<lambda>d. dg_group d = g) (filter (\<lambda>d. P (dg_group d)) gs) = None"
  by (auto simp: find_None_iff)

lemma find_filter: "P g \<Longrightarrow> find (\<lambda>d. dg_group d = g) (filter (\<lambda>d. P (dg_group d)) gs) = find (\<lambda>d. dg_group d = g) gs"
  by (induction gs) auto

text \<open>One round: what is remembered afterwards, and what it deletes.\<close>

lemma purge_round:
  assumes "round_ok r" and run: "purgeOutdatedGroups pfxs (pu_now r) (pu_groups r) (pu_delete_error r) seen = (x, del, seen')"
  shows "seen' g = Some t \<Longrightarrow> (seen g = Some t \<or> t = pu_now r g) \<and>
      (monitored pfxs g \<and> group_members r g = Some n \<and> 0 < n \<longrightarrow> t = pu_now r g)"
    and "g \<in> set del \<Longrightarrow> monitored pfxs g \<and> group_members r g = Some 0 \<and>
      (\<exists>t. seen g = Some t \<and> outdatedGroupsTimeLimit < pu_now r g - t)"
proof -
  define all where "all = (case pu_groups r of Ok gs \<Rightarrow> gs | _ \<Rightarrow> [])"
  let ?gs = "filter (\<lambda>d. monitored pfxs (dg_group d)) all"
  obtain seen1 del1 where run1: "fold (see_group (pu_now r)) ?gs (seen, []) = (seen1, del1)" by fastforce
  have dist: "distinct (map dg_group all)" using assms(1) by (auto simp: round_ok_def all_def split: res.splits)
  then have dist': "distinct (map dg_group ?gs)" by (rule distinct_map_filter)
  have res: "set del \<subseteq> set del1" "seen' g = Some t \<Longrightarrow> seen1 g = Some t" for t
    using run run1 by (auto simp: purgeOutdatedGroups_def all_def[symmetric] Let_def split: option.splits if_splits)
  have members: "group_members r g = map_option dg_members (find (\<lambda>d. dg_group d = g) all)"
    by (simp add: group_members_def all_def)
  note look = see_groups[OF dist' run1, of g]
  show "(seen g = Some t \<or> t = pu_now r g) \<and> (monitored pfxs g \<and> group_members r g = Some n \<and> 0 < n \<longrightarrow> t = pu_now r g)"
    if "seen' g = Some t"
    using res(2)[OF that] look(1) find_filter[where P = "monitored pfxs" and g = g and gs = all]
    by (auto simp: members split: option.splits if_splits)
  show "monitored pfxs g \<and> group_members r g = Some 0 \<and> (\<exists>t. seen g = Some t \<and> outdatedGroupsTimeLimit < pu_now r g - t)"
    if "g \<in> set del"
  proof -
    from that res(1) look(2) obtain d t where "d \<in> set all" "monitored pfxs (dg_group d)" "dg_group d = g" "dg_members d = 0"
      "seen g = Some t" "outdatedGroupsTimeLimit < time_since (pu_now r g) t" by auto
    moreover from this have "group_members r g = Some 0" using find_group[OF dist, of d] by (simp add: members)
    ultimately show ?thesis using late_enough by blast
  qed
qed

lemma purge_rounds_safe:
  assumes "\<forall>r \<in> set rs. round_ok r" and "sorted (map (\<lambda>r. pu_now r g) rs)"
    and "\<And>t. seen g = Some t \<Longrightarrow> u \<le> t" and "\<forall>r \<in> set rs. u \<le> pu_now r g"
    and "j < length rs" and "g \<in> set (purge_rounds pfxs rs seen ! j)"
  shows "monitored pfxs g \<and> group_members (rs ! j) g = Some 0 \<and> outdatedGroupsTimeLimit < pu_now (rs ! j) g - u \<and>
    (\<forall>i < j. \<forall>n. group_members (rs ! i) g = Some n \<and> 0 < n \<longrightarrow> outdatedGroupsTimeLimit < pu_now (rs ! j) g - pu_now (rs ! i) g)"
  using assms
proof (induction rs arbitrary: seen u j)
  case (Cons r rs)
  obtain x del seen1 where run: "purgeOutdatedGroups pfxs (pu_now r) (pu_groups r) (pu_delete_error r) seen = (x, del, seen1)"
    by (metis prod_cases3)
  note round = purge_round[OF _ run, of g]
  have ok: "round_ok r" using Cons.prems(1) by simp
  show ?case
  proof (cases j)
    case 0
    then have "g \<in> set del" using Cons.prems(6) run by simp
    from round(2)[OF ok this] Cons.prems(3) 0 show ?thesis by force
  next
    case (Suc k)
    then have del: "g \<in> set (purge_rounds pfxs rs seen1 ! k)" and k: "k < length rs" using Cons.prems(5,6) run by simp_all
    have late: "\<forall>q \<in> set rs. pu_now r g \<le> pu_now q g" using Cons.prems(2) by auto
    have low: "u \<le> t" if "seen1 g = Some t" for t
      using round(1)[OF ok that] Cons.prems(3,4) by force
    have IH: "monitored pfxs g \<and> group_members (rs ! k) g = Some 0 \<and> outdatedGroupsTimeLimit < pu_now (rs ! k) g - v \<and>
      (\<forall>i < k. \<forall>n. group_members (rs ! i) g = Some n \<and> 0 < n \<longrightarrow> outdatedGroupsTimeLimit < pu_now (rs ! k) g - pu_now (rs ! i) g)"
      if "\<And>t. seen1 g = Some t \<Longrightarrow> v \<le> t" "v \<le> pu_now r g" for v
      by (rule Cons.IH[OF _ _ that(1) _ k del]) (use Cons.prems(1,2) late that(2) in force)+
    have first: "outdatedGroupsTimeLimit < pu_now (rs ! k) g - pu_now r g" if "group_members r g = Some n" "0 < n" for n
    proof -
      have "monitored pfxs g" using IH[OF low] Cons.prems(4) by simp
      then have "t = pu_now r g" if "seen1 g = Some t" for t
        using round(1)[OF ok that, of n] \<open>group_members r g = Some n\<close> \<open>0 < n\<close> by blast
      then show ?thesis using IH[of "pu_now r g"] by blast
    qed
    show ?thesis
      using IH[OF low] Cons.prems(4) first by (auto simp: Suc nth_Cons split: nat.split)
  qed
qed simp

text \<open>
  C26. The leader deletes a consumer group only when its name has a monitored prefix and Kafka
  describes it without members, and when every earlier round that saw it with members is more than
  15 seconds back, whatever Kafka answered in between (errors, and groups that vanish and come back).
\<close>

theorem only_unused_groups_deleted:
  assumes "\<forall>r \<in> set rs. round_ok r" and "sorted (map (\<lambda>r. pu_now r g) rs)"
    and "j < length rs" and "g \<in> set (purge_rounds pfxs rs Map.empty ! j)"
  shows "monitored pfxs g \<and> group_members (rs ! j) g = Some 0 \<and>
    (\<forall>i < j. \<forall>n. group_members (rs ! i) g = Some n \<and> 0 < n \<longrightarrow> outdatedGroupsTimeLimit < pu_now (rs ! j) g - pu_now (rs ! i) g)"
proof -
  have "rs \<noteq> []" using assms(3) by auto
  then have "\<forall>r \<in> set rs. pu_now (hd rs) g \<le> pu_now r g"
    using assms(2) by (cases rs) auto
  with purge_rounds_safe[OF assms(1,2) _ _ assms(3,4), of "pu_now (hd rs) g"] show ?thesis by simp
qed

definition ex_purge :: "gotime \<Rightarrow> nat \<Rightarrow> purge_round" where
  "ex_purge t n = \<lparr>pu_now = (\<lambda>_. t), pu_groups = Ok [\<lparr>dg_group = ''b-1'', dg_members = n\<rparr>], pu_delete_error = None\<rparr>"

theorem only_unused_groups_deleted_witness:
  "purge_rounds [''b-''] [ex_purge (seconds 10) 1, ex_purge (seconds 20) 0, ex_purge (seconds 30) 0] Map.empty = [[], [], [''b-1'']] \<and>
   outdatedGroupsTimeLimit < seconds 30 - seconds 10"
proof -
  let ?rs = "[ex_purge (seconds 10) 1, ex_purge (seconds 20) 0, ex_purge (seconds 30) 0]"
  have run: "purge_rounds [''b-''] ?rs Map.empty = [[], [], [''b-1'']]"
    by (simp add: ex_purge_def purgeOutdatedGroups_def monitored_def see_group_def Let_def time_since_def seconds_def
        outdatedGroupsTimeLimit_def max_duration_def)
  have "\<forall>r \<in> set ?rs. round_ok r" "sorted (map (\<lambda>r. pu_now r ''b-1'') ?rs)"
    by (simp_all add: ex_purge_def round_ok_def seconds_def)
  from only_unused_groups_deleted[OF this, of 2 "[''b-'']"] run show ?thesis
    by (auto simp: ex_purge_def group_members_def numeral_2_eq_2 all_simps less_Suc_eq)
qed

end
