(* ===== verification/Stats.thy ===== *)
theory Stats
  imports Store Filters AccountFilter Tlb
begin

section \<open>internal/core/aggregate: statistics of what is indexed\<close>

text \<open>
  The statistics of the API: \<open>GetStatistics\<close> of \<open>internal/core/aggregate\<close>, the aggregates of
  \<open>repository/account\<close> and \<open>repository/msg\<close>, and the histories of the three repositories. The queries run
  in ClickHouse, which reads rows and returns groups in no fixed order; Go ranges over a map in no fixed order
  either. These orders are arguments. A column that is nullable in Go has a default in ClickHouse, so \\<open>None\\<close> is
  a value of its own in a group and 0 in a sum.
\<close>

definition group_by :: "('a \<Rightarrow> 'k) \<Rightarrow> 'a list \<Rightarrow> ('k \<times> 'a list) list" where
  "group_by f xs = map (\<lambda>k. (k, filter (\<lambda>x. f x = k) xs)) (remdups (map f xs))"

text \<open>\<open>argMax\<close>: a row of the greatest time, the last one that is read.\<close>

definition argMax :: "('a \<Rightarrow> u64) \<Rightarrow> 'a list \<Rightarrow> 'a" where
  "argMax lt xs = last (sort_key lt xs)"

definition uniq_exact :: "'a list \<Rightarrow> int" where
  "uniq_exact xs = int (length (remdups xs))"

subsection \<open>aggregate.go\<close>

record statistics =
  st_FirstBlock :: int
  st_LastBlock :: int
  st_MasterBlockCount :: int
  st_AddressCount :: int
  st_ParsedAddressCount :: int
  st_AccountCount :: int
  st_ParsedAccountCount :: int
  st_TransactionCount :: int
  st_MessageCount :: int
  st_ParsedMessageCount :: int
  st_ContractInterfaceCount :: int
  st_ContractOperationCount :: int
  st_AddressStatusCount :: "(account_status \<times> int) list"
  st_AddressTypesCount :: "(contract_name list \<times> int) list"
  st_MessageTypesCount :: "(string \<times> int) list"

definition statistics_zero :: statistics where
  "statistics_zero = \<lparr>st_FirstBlock = 0, st_LastBlock = 0, st_MasterBlockCount = 0, st_AddressCount = 0,
     st_ParsedAddressCount = 0, st_AccountCount = 0, st_ParsedAccountCount = 0, st_TransactionCount = 0,
     st_MessageCount = 0, st_ParsedMessageCount = 0, st_ContractInterfaceCount = 0, st_ContractOperationCount = 0,
     st_AddressStatusCount = [], st_AddressTypesCount = [], st_MessageTypesCount = []\<rparr>"

definition marshalInterfacesKey :: "contract_name list \<Rightarrow> string" where
  "marshalInterfacesKey is = str_join (CHR '','') (sort is)"

definition unmarshalInterfacesKey :: "string \<Rightarrow> contract_name list" where
  "unmarshalInterfacesKey raw = filter (\<lambda>s. s \<noteq> []) (str_split (CHR '','') raw)"

text \<open>The minimum and the maximum of no rows is 0.\<close>

definition getBlockStatistics :: "statistics \<Rightarrow> db \<Rightarrow> statistics res \<times> db" where
  "getBlockStatistics S d =
     (case query (\<lambda>d. map bl_seqno (filter (\<lambda>b. bl_workchain b = -1) (ch_blocks d))) d of
        (Ok ns, d) \<Rightarrow> (Ok (S\<lparr>st_MasterBlockCount := int (length ns),
           st_FirstBlock := (if ns = [] then 0 else uint (fold min ns (hd ns))),
           st_LastBlock := (if ns = [] then 0 else uint (fold max ns (hd ns)))\<rparr>), d)
      | (Err e, d) \<Rightarrow> (Err (Wrap e ''first and last masterchain blocks''), d)
      | (Panic p, d) \<Rightarrow> (Panic p, d))"

text \<open>A map of counts, \<open>m[k] += n\<close>, and rows by falling count.\<close>

definition add_count :: "'k \<Rightarrow> int \<Rightarrow> ('k \<times> int) list \<Rightarrow> ('k \<times> int) list" where
  "add_count k n m = AList.update k ((case map_of m k of Some c \<Rightarrow> c | None \<Rightarrow> 0) + n) m"

definition by_count :: "('k \<times> int) list \<Rightarrow> ('k \<times> int) list" where
  "by_count rows = sort_key (\<lambda>(k, c). - c) rows"

text \<open>The states by whether they have interfaces; the addresses by their latest status and interfaces.\<close>

definition state_counts :: "db \<Rightarrow> (bool \<times> int) list" where
  "state_counts d = map (\<lambda>(p, rs). (p, int (length rs))) (group_by (\<lambda>a. acc_types a \<noteq> []) (ch_accounts d))"

definition latest_states :: "account_state list \<Rightarrow> account_state list" where
  "latest_states rows = map (\<lambda>(a, rs). argMax acc_last_tx_lt rs) (group_by acc_address rows)"

definition address_counts :: "account_state list \<Rightarrow> ((account_status \<times> contract_name list) \<times> int) list" where
  "address_counts rows = map (\<lambda>(k, rs). (k, int (length rs))) (group_by (\<lambda>a. (acc_status a, acc_types a)) (latest_states rows))"

record stat_orders =
  so_rows :: "account_state key_order"
  so_groups :: "((account_status \<times> contract_name list) \<times> int) key_order"
  so_statuses :: "account_status key_order"
  so_types :: "string key_order"
  so_operations :: "(string \<times> int) key_order"

definition addressStatusCount :: "stat_orders \<Rightarrow> ((account_status \<times> contract_name list) \<times> int) list \<Rightarrow> (account_status \<times> int) list" where
  "addressStatusCount ord addresses =
     by_count (range_map (so_statuses ord) (fold (\<lambda>(k, c). add_count (fst k) c) addresses []))"

definition addressTypesCount :: "stat_orders \<Rightarrow> ((account_status \<times> contract_name list) \<times> int) list \<Rightarrow> (contract_name list \<times> int) list" where
  "addressTypesCount ord addresses =
     by_count (filter (\<lambda>(is, c). is \<noteq> []) (map (\<lambda>(i, c). (unmarshalInterfacesKey i, c))
       (range_map (so_types ord) (fold (\<lambda>(k, c). add_count (marshalInterfacesKey (snd k)) c) addresses []))))"

definition getAccountStatistics :: "stat_orders \<Rightarrow> statistics \<Rightarrow> db \<Rightarrow> statistics res \<times> db" where
  "getAccountStatistics ord S d =
     (case query state_counts d of
        (Err e, d) \<Rightarrow> (Err (Wrap e ''account state count''), d)
      | (Panic p, d) \<Rightarrow> (Panic p, d)
      | (Ok accounts, d) \<Rightarrow>
        (case query (\<lambda>d. so_groups ord (address_counts (so_rows ord (ch_accounts d)))) d of
           (Err e, d) \<Rightarrow> (Err (Wrap e ''address count''), d)
         | (Panic p, d) \<Rightarrow> (Panic p, d)
         | (Ok addresses, d) \<Rightarrow>
             let statusCount = addressStatusCount ord addresses; typesCount = addressTypesCount ord addresses
             in (Ok (S\<lparr>st_AccountCount := st_AccountCount S + sum_list (map snd accounts),
                   st_ParsedAccountCount := st_ParsedAccountCount S + sum_list (map snd (filter fst accounts)),
                   st_AddressStatusCount := statusCount, st_AddressTypesCount := typesCount,
                   st_AddressCount := st_AddressCount S + sum_list (map snd statusCount),
                   st_ParsedAddressCount := st_ParsedAddressCount S + sum_list (map snd (filter (\<lambda>(is, c). is \<noteq> []) typesCount))\<rparr>), d)))"

text \<open>
  The row of the messages without a known operation is taken out. Without any rows, -1 is the index of
  the last row: the slice up to it is out of range.
\<close>

definition operation_counts :: "(string \<times> int) key_order \<Rightarrow> db \<Rightarrow> (string \<times> int) list" where
  "operation_counts ord d = by_count (ord (map (\<lambda>(k, rs). (k, int (length rs))) (group_by ms_operation_name (ch_messages d))))"

fun unknown_index :: "nat \<Rightarrow> (string \<times> int) list \<Rightarrow> int" where
  "unknown_index i [] = -1"
| "unknown_index i ((k, c) # rows) = (let u = unknown_index (Suc i) rows in if u \<noteq> -1 then u else if k = [] then int i else -1)"

definition getTransactionStatistics :: "stat_orders \<Rightarrow> statistics \<Rightarrow> db \<Rightarrow> statistics res \<times> db" where
  "getTransactionStatistics ord S d =
     (case query (operation_counts (so_operations ord)) d of
        (Err e, d) \<Rightarrow> (Err (Wrap e ''message types count''), d)
      | (Panic p, d) \<Rightarrow> (Panic p, d)
      | (Ok rows, d) \<Rightarrow>
          let u = unknown_index 0 rows
          in if u = int (length rows) - 1 \<and> u < 0 then (Panic ''slice bounds out of range [:-1]'', d)
             else (case query (\<lambda>d. int (length (ch_transactions d))) d of
                 (Ok n, d) \<Rightarrow> (Ok (S\<lparr>st_MessageCount := st_MessageCount S + sum_list (map snd rows),
                     st_ParsedMessageCount := st_ParsedMessageCount S + sum_list (map snd (filter (\<lambda>(k, c). k \<noteq> []) rows)),
                     st_MessageTypesCount := (if u = int (length rows) - 1 then take (nat u) rows
                       else if u \<noteq> -1 then take (nat u) rows @ drop (nat (u + 1)) rows else rows),
                     st_TransactionCount := n\<rparr>), d)
               | (Err e, d) \<Rightarrow> (Err (Wrap e ''transaction count''), d)
               | (Panic p, d) \<Rightarrow> (Panic p, d)))"

definition then_stats :: "statistics res \<times> db \<Rightarrow> (statistics \<Rightarrow> db \<Rightarrow> statistics res \<times> db) \<Rightarrow> statistics res \<times> db" where
  "then_stats r k = (case r of (Ok S, d) \<Rightarrow> k S d | r \<Rightarrow> r)"

definition count_rows :: "(db \<Rightarrow> 'a list) \<Rightarrow> string \<Rightarrow> (int \<Rightarrow> statistics \<Rightarrow> statistics) \<Rightarrow> statistics \<Rightarrow> db \<Rightarrow> statistics res \<times> db" where
  "count_rows t m set_n S d =
     (case query (\<lambda>d. int (length (t d))) d of
        (Ok n, d) \<Rightarrow> (Ok (set_n n S), d) | (Err e, d) \<Rightarrow> (Err (Wrap e m), d) | (Panic p, d) \<Rightarrow> (Panic p, d))"

definition getStatistics :: "stat_orders \<Rightarrow> db \<Rightarrow> statistics res \<times> db" where
  "getStatistics ord d =
     then_stats (then_stats (then_stats (then_stats (getBlockStatistics statistics_zero d)
       (getAccountStatistics ord)) (getTransactionStatistics ord))
       (count_rows pg_interfaces ''contract interface count'' (\<lambda>n S. S\<lparr>st_ContractInterfaceCount := n\<rparr>)))
       (count_rows pg_operations ''contract operation count'' (\<lambda>n S. S\<lparr>st_ContractOperationCount := n\<rparr>))"

subsection \<open>repository/account/aggregate.go\<close>

record aggregate_accounts_req =
  aq_Address :: "addr option"
  aq_MinterAddress :: "addr option"
  aq_Limit :: int

record aggregate_accounts_res =
  ag_TransactionsCount :: int
  ag_OwnedNFTItems :: int
  ag_OwnedNFTCollections :: int
  ag_OwnedJettonWallets :: int
  ag_Items :: int
  ag_OwnersCount :: int
  ag_OwnedItems :: "(addr option \<times> int) list"
  ag_UniqueOwners :: "(addr \<times> int) list"
  ag_Wallets :: int
  ag_TotalSupply :: "int option"
  ag_OwnedBalance :: "(addr \<times> addr option \<times> int) list"

definition aggregate_accounts_zero :: aggregate_accounts_res where
  "aggregate_accounts_zero = \<lparr>ag_TransactionsCount = 0, ag_OwnedNFTItems = 0, ag_OwnedNFTCollections = 0,
     ag_OwnedJettonWallets = 0, ag_Items = 0, ag_OwnersCount = 0, ag_OwnedItems = [], ag_UniqueOwners = [],
     ag_Wallets = 0, ag_TotalSupply = None, ag_OwnedBalance = []\<rparr>"

text \<open>The reads of an aggregate, one after another, each adding to the result.\<close>

definition agg_query :: "(db \<Rightarrow> 'a) \<Rightarrow> string \<Rightarrow> ('a \<Rightarrow> 'r \<Rightarrow> 'r) \<Rightarrow> 'r res \<times> db \<Rightarrow> 'r res \<times> db" where
  "agg_query q m f st =
     (case st of
        (Ok r, d) \<Rightarrow> (case query q d of (Ok x, d) \<Rightarrow> (Ok (f x r), d) | (Err e, d) \<Rightarrow> (Err (Wrap e m), d) | (Panic p, d) \<Rightarrow> (Panic p, d))
      | st \<Rightarrow> st)"

definition opt_amount :: "int option \<Rightarrow> int" where
  "opt_amount a = (case a of Some n \<Rightarrow> n | None \<Rightarrow> 0)"

definition sum256 :: "int list \<Rightarrow> int" where
  "sum256 ns = sum_list ns mod 2 ^ 256"

definition owned_counts :: "addr \<Rightarrow> db \<Rightarrow> (contract_name list \<times> int) list" where
  "owned_counts a d = map (\<lambda>(ts, rs). (ts, uniq_exact (map acc_address rs)))
     (group_by acc_types (filter (\<lambda>r. acc_owner r = Some a) (ch_accounts d)))"

definition owned :: "contract_name \<Rightarrow> (contract_name list \<times> int) list \<Rightarrow> int" where
  "owned c rows = sum_list (map (\<lambda>(ts, n). int (length (filter (\<lambda>t. t = c) ts)) * n) rows)"

definition aggregateAddressStatistics :: "addr \<Rightarrow> aggregate_accounts_res res \<times> db \<Rightarrow> aggregate_accounts_res res \<times> db" where
  "aggregateAddressStatistics a st =
     agg_query (owned_counts a) ''count owned nft items''
       (\<lambda>rows r. r\<lparr>ag_OwnedNFTItems := ag_OwnedNFTItems r + owned known_nft_item rows,
          ag_OwnedNFTCollections := ag_OwnedNFTCollections r + owned known_nft_collection rows,
          ag_OwnedJettonWallets := ag_OwnedJettonWallets r + owned known_jetton_wallet rows\<rparr>)
       (agg_query (\<lambda>d. int (length (filter (\<lambda>t. tx_address t = a) (ch_transactions d)))) ''count transactions''
          (\<lambda>n r. r\<lparr>ag_TransactionsCount := n\<rparr>) st)"

text \<open>The latest state of each item of a minter among its genuine states.\<close>

definition last_items :: "account_state key_order \<Rightarrow> addr \<Rightarrow> db \<Rightarrow> account_state list" where
  "last_items rord m d = latest_states (rord (filter (\<lambda>r. acc_minter r = Some m \<and> \<not> acc_fake r) (ch_accounts d)))"

definition aggregateNFTMinter :: "account_state key_order \<Rightarrow> addr \<Rightarrow> int \<Rightarrow> aggregate_accounts_res res \<times> db \<Rightarrow> aggregate_accounts_res res \<times> db" where
  "aggregateNFTMinter rord m lim st =
     agg_query (\<lambda>d. sql_limit lim (by_count (map (\<lambda>(o', rs). (o', int (length rs))) (group_by acc_owner (last_items rord m d)))))
       ''count owned nft items'' (\<lambda>x r. r\<lparr>ag_OwnedItems := x\<rparr>)
       (agg_query (\<lambda>d. sql_limit lim (by_count (map (\<lambda>(a, rs). (a, uniq_exact (map acc_owner rs)))
            (group_by acc_address (rord (filter (\<lambda>r. acc_minter r = Some m) (ch_accounts d)))))))
          ''count unique owners of nft items'' (\<lambda>x r. r\<lparr>ag_UniqueOwners := x\<rparr>)
       (agg_query (\<lambda>d. uniq_exact (map acc_owner (last_items rord m d))) ''count owners of nft minter'' (\<lambda>n r. r\<lparr>ag_OwnersCount := n\<rparr>)
       (agg_query (\<lambda>d. int (length (last_items rord m d))) ''count nft items'' (\<lambda>n r. r\<lparr>ag_Items := n\<rparr>) st)))"

definition aggregateFTMinter :: "account_state key_order \<Rightarrow> addr \<Rightarrow> int \<Rightarrow> aggregate_accounts_res res \<times> db \<Rightarrow> aggregate_accounts_res res \<times> db" where
  "aggregateFTMinter rord m lim st =
     agg_query (\<lambda>d. sql_limit lim (sort_key (\<lambda>(a, o', b). - b)
          (map (\<lambda>r. (acc_address r, acc_owner r, opt_amount (acc_jetton_balance r))) (last_items rord m d))))
       ''count jetton holders'' (\<lambda>x r. r\<lparr>ag_OwnedBalance := x\<rparr>)
       (agg_query (\<lambda>d. sum256 (map (\<lambda>r. opt_amount (acc_jetton_balance r)) (last_items rord m d)))
          ''count jetton total supply'' (\<lambda>n r. r\<lparr>ag_TotalSupply := Some n\<rparr>)
       (agg_query (\<lambda>d. int (length (last_items rord m d))) ''count jetton wallets'' (\<lambda>n r. r\<lparr>ag_Wallets := n\<rparr>) st))"

text \<open>A minter without states is no error.\<close>

definition aggregateMinterStatistics :: "account_state key_order \<Rightarrow> addr \<Rightarrow> int \<Rightarrow> aggregate_accounts_res res \<times> db \<Rightarrow> aggregate_accounts_res res \<times> db" where
  "aggregateMinterStatistics rord m lim st =
     (case st of
        (Ok r, d) \<Rightarrow>
          (case query (\<lambda>d. filter (\<lambda>r. acc_address r = m) (ch_accounts d)) d of
             (Ok rows, d) \<Rightarrow>
               if rows = [] then (Ok r, d)
               else fold (\<lambda>t st. if t = known_nft_collection then aggregateNFTMinter rord m lim st
                   else if t = known_jetton_minter then aggregateFTMinter rord m lim st else st)
                 (acc_types (argMax acc_last_tx_lt (rord rows))) (Ok r, d)
           | (Err e, d) \<Rightarrow> if err_is e ErrNoRows then (Ok r, d) else (Err e, d)
           | (Panic p, d) \<Rightarrow> (Panic p, d))
      | st \<Rightarrow> st)"

definition aggregateAccounts :: "account_state key_order \<Rightarrow> aggregate_accounts_req \<Rightarrow> db \<Rightarrow> aggregate_accounts_res res \<times> db" where
  "aggregateAccounts rord req d =
     (if aq_Address req = None \<and> aq_MinterAddress req = None then (Err (Wrap ErrInvalidArg ''address must be set''), d)
      else let st = (Ok aggregate_accounts_zero, d);
               st = (case aq_Address req of Some a \<Rightarrow> aggregateAddressStatistics a st | None \<Rightarrow> st)
           in case aq_MinterAddress req of Some m \<Rightarrow> aggregateMinterStatistics rord m (aq_Limit req) st | None \<Rightarrow> st)"

subsection \<open>repository/msg/aggregate.go\<close>

record aggregate_messages_req =
  mq_Address :: "addr option"
  mq_From :: gotime
  mq_To :: gotime
  mq_OrderBy :: string
  mq_Limit :: int

record aggregate_messages_res =
  am_RecvCount :: int
  am_RecvAmount :: int
  am_SentCount :: int
  am_SentAmount :: int
  am_RecvByAddress :: "(addr \<times> int \<times> int) list"
  am_SentByAddress :: "(addr \<times> int \<times> int) list"

text \<open>Both bounds are left out when they are the zero time.\<close>

definition in_period :: "gotime \<Rightarrow> gotime \<Rightarrow> gotime \<Rightarrow> bool" where
  "in_period start stop t \<longleftrightarrow> (start \<noteq> time_zero \<longrightarrow> start < t) \<and> (stop \<noteq> time_zero \<longrightarrow> t < stop)"

text \<open>
  The groups of the other address with amount and count. The request is ordered by one of the two;
  what ClickHouse does with any other column is the argument \<open>other\<close>.
\<close>

definition by_address :: "(string \<Rightarrow> (addr \<times> int \<times> int) list \<Rightarrow> (addr \<times> int \<times> int) list) \<Rightarrow> aggregate_messages_req \<Rightarrow>
    (message \<Rightarrow> addr) \<Rightarrow> message list \<Rightarrow> (addr \<times> int \<times> int) list" where
  "by_address other req key ms =
     (let rows = map (\<lambda>(a, rs). (a, sum256 (map (\<lambda>m. opt_amount (ms_amount m)) rs), int (length rs))) (group_by key ms)
      in sql_limit (mq_Limit req)
        (if mq_OrderBy req = ''amount'' then sort_key (\<lambda>(a, s, c). - s) rows
         else if mq_OrderBy req = ''count'' then sort_key (\<lambda>(a, s, c). - c) rows
         else other (mq_OrderBy req) rows))"

definition aggregate_messages :: "(message key_order) \<Rightarrow> aggregate_messages_req \<Rightarrow> (message \<Rightarrow> addr) \<Rightarrow> addr \<Rightarrow> db \<Rightarrow> message list" where
  "aggregate_messages rord req side a d = rord (filter (\<lambda>m. side m = a \<and> in_period (mq_From req) (mq_To req) (ms_created_at m)) (ch_messages d))"

definition aggregateMessages :: "message key_order \<Rightarrow> (string \<Rightarrow> (addr \<times> int \<times> int) list \<Rightarrow> (addr \<times> int \<times> int) list) \<Rightarrow>
    aggregate_messages_req \<Rightarrow> db \<Rightarrow> aggregate_messages_res res \<times> db" where
  "aggregateMessages rord other req d =
     (case mq_Address req of
        None \<Rightarrow> (Err (Wrap ErrInvalidArg ''address must be set''), d)
      | Some a \<Rightarrow>
          let rows = aggregate_messages rord req;
              amount = (\<lambda>ms. sum256 (map (\<lambda>m. opt_amount (ms_amount m)) ms))
          in agg_query (\<lambda>d. by_address other req ms_dst_address (rows ms_src_address a d)) ''received by address'' (\<lambda>x r. r\<lparr>am_SentByAddress := x\<rparr>)
            (agg_query (\<lambda>d. by_address other req ms_src_address (rows ms_dst_address a d)) ''received by address'' (\<lambda>x r. r\<lparr>am_RecvByAddress := x\<rparr>)
            (agg_query (rows ms_src_address a) ''sent total'' (\<lambda>ms r. r\<lparr>am_SentCount := int (length ms), am_SentAmount := amount ms\<rparr>)
            (agg_query (rows ms_dst_address a) ''received total'' (\<lambda>ms r. r\<lparr>am_RecvCount := int (length ms), am_RecvAmount := amount ms\<rparr>)
              (Ok \<lparr>am_RecvCount = 0, am_RecvAmount = 0, am_SentCount = 0, am_SentAmount = 0, am_RecvByAddress = [], am_SentByAddress = []\<rparr>, d)))))"

subsection \<open>aggregate/history and the histories of the repositories\<close>

record history_params =
  hp_From :: gotime
  hp_To :: gotime
  hp_Interval :: int

text \<open>A rounding is the number and the unit that go into the text of ClickHouse's function.\<close>

definition getRoundingFunction :: "int \<Rightarrow> (int \<times> string) res" where
  "getRoundingFunction interval =
     (let sec = (if interval < 0 then - (- interval div 1000000000) else interval div 1000000000);
          minutes = (if sec < 0 then - (- sec div 60) else sec div 60);
          hours = minutes div 60; days = hours div 24
      in if minutes < 5 then Err (Wrap ErrInvalidArg (''unsupported interval '' @ show_int sec @ '' seconds''))
         else if minutes < 60 then Ok (minutes, ''minute'')
         else if hours < 24 then Ok (hours, ''hour'')
         else if days < 7 then Ok (days, ''day'')
         else Err (Wrap ErrInvalidArg (''unsupported interval '' @ show_int days @ '' hours'')))"

text \<open>The rows of a period in buckets by time: \<open>toStartOfInterval\<close> of ClickHouse is the argument \<open>start\<close>.\<close>

type_synonym rounding = "int \<times> string \<Rightarrow> gotime \<Rightarrow> gotime"

definition buckets :: "('a \<Rightarrow> gotime) \<Rightarrow> (gotime \<Rightarrow> gotime) \<Rightarrow> 'a list \<Rightarrow> (gotime \<times> 'a list) list" where
  "buckets at start rows = sort_key fst (group_by (\<lambda>r. start (at r)) rows)"

definition history_query :: "rounding \<Rightarrow> history_params \<Rightarrow> ('a \<Rightarrow> gotime) \<Rightarrow> ('a list \<Rightarrow> int) \<Rightarrow> (db \<Rightarrow> 'a list) \<Rightarrow> db \<Rightarrow>
    (int \<times> gotime) list res \<times> db" where
  "history_query start p at val rows d =
     (case getRoundingFunction (hp_Interval p) of
        Ok r \<Rightarrow> query (\<lambda>d. map (\<lambda>(t, rs). (val rs, t))
            (buckets at (start r) (filter (\<lambda>x. in_period (hp_From p) (hp_To p) (at x)) (rows d)))) d
      | Err e \<Rightarrow> (Err e, d)
      | Panic p \<Rightarrow> (Panic p, d))"

record accounts_history_req =
  ha_Metric :: string
  ha_ContractTypes :: "contract_name list"
  ha_MinterAddress :: "addr option"
  ha_Params :: history_params

definition getContractTypes :: "contract_name list \<Rightarrow> contract_name list \<Rightarrow> contract_name list" where
  "getContractTypes wallets ts = concat (map (\<lambda>t. if t = ''wallet'' then t # wallets else [t]) ts)"

definition aggregateAccountsHistory :: "rounding \<Rightarrow> contract_name list \<Rightarrow> accounts_history_req \<Rightarrow> db \<Rightarrow> (int \<times> gotime) list res \<times> db" where
  "aggregateAccountsHistory start wallets req d =
     (if ha_Metric req = ''active_addresses''
      then history_query start (ha_Params req) acc_updated_at (\<lambda>rs. uniq_exact (map acc_address rs))
        (\<lambda>d. filter (\<lambda>a. list_cond (ha_ContractTypes req) (\<lambda>ts. set (getContractTypes wallets ts) \<inter> set (acc_types a) \<noteq> {}) \<and>
           opt_cond (ha_MinterAddress req) (\<lambda>m. acc_minter a = Some m)) (ch_accounts d)) d
      else (Err (Wrap ErrInvalidArg (''invalid account metric '' @ ha_Metric req)), d))"

record messages_history_req =
  hm_Metric :: string
  hm_SrcAddresses :: "addr list"
  hm_DstAddresses :: "addr list"
  hm_SrcWorkchain :: "i32 option"
  hm_DstWorkchain :: "i32 option"
  hm_SrcContracts :: "string list"
  hm_DstContracts :: "string list"
  hm_OperationNames :: "string list"
  hm_MinterAddress :: "addr option"
  hm_Params :: history_params

text \<open>Messages have no minter, so a request for one names a column that there is not.\<close>

definition addMessagesHistoryFilters :: "messages_history_req \<Rightarrow> message \<Rightarrow> bool" where
  "addMessagesHistoryFilters req m \<longleftrightarrow>
     list_cond (hm_SrcAddresses req) (\<lambda>as. ms_src_address m \<in> set as) \<and>
     list_cond (hm_DstAddresses req) (\<lambda>as. ms_dst_address m \<in> set as) \<and>
     opt_cond (hm_SrcWorkchain req) (\<lambda>w. ms_src_workchain m = w) \<and>
     opt_cond (hm_DstWorkchain req) (\<lambda>w. ms_dst_workchain m = w) \<and>
     list_cond (hm_SrcContracts req) (\<lambda>cs. ms_src_contract m \<in> set cs) \<and>
     list_cond (hm_DstContracts req) (\<lambda>cs. ms_dst_contract m \<in> set cs) \<and>
     list_cond (hm_OperationNames req) (\<lambda>ns. ms_operation_name m \<in> set ns)"

definition aggregateMessagesHistory :: "rounding \<Rightarrow> messages_history_req \<Rightarrow> db \<Rightarrow> (int \<times> gotime) list res \<times> db" where
  "aggregateMessagesHistory start req d =
     (let run = (\<lambda>val. case getRoundingFunction (hp_Interval (hm_Params req)) of
            Ok r \<Rightarrow> if hm_MinterAddress req \<noteq> None then (Err (ErrExt ''Missing columns: minter_address''), d)
              else history_query start (hm_Params req) ms_created_at val (\<lambda>d. filter (addMessagesHistoryFilters req) (ch_messages d)) d
          | Err e \<Rightarrow> (Err e, d)
          | Panic p \<Rightarrow> (Panic p, d))
      in if hm_Metric req = ''message_count'' then run (\<lambda>ms. int (length ms))
         else if hm_Metric req = ''message_amount_sum'' then run (\<lambda>ms. sum256 (map (\<lambda>m. opt_amount (ms_amount m)) ms))
         else (Err (Wrap ErrInvalidArg (''invalid message metric '' @ hm_Metric req)), d))"

record transactions_history_req =
  ht_Metric :: string
  ht_Addresses :: "addr list"
  ht_Workchain :: "i32 option"
  ht_Params :: history_params

definition transactions_history_matches :: "transactions_history_req \<Rightarrow> transaction \<Rightarrow> bool" where
  "transactions_history_matches req t \<longleftrightarrow>
     list_cond (ht_Addresses req) (\<lambda>as. tx_address t \<in> set as) \<and> opt_cond (ht_Workchain req) (\<lambda>w. tx_workchain t = w)"

definition aggregateTransactionsHistory :: "rounding \<Rightarrow> transactions_history_req \<Rightarrow> db \<Rightarrow> (int \<times> gotime) list res \<times> db" where
  "aggregateTransactionsHistory start req d =
     (if ht_Metric req = ''transaction_count''
      then history_query start (ht_Params req) tx_created_at (\<lambda>ts. int (length ts))
        (\<lambda>d. filter (transactions_history_matches req) (ch_transactions d)) d
      else (Err (Wrap ErrInvalidArg (''invalid transaction metric '' @ ht_Metric req)), d))"

subsection \<open>Groups\<close>

lemma group_by_keys: "map fst (group_by f xs) = remdups (map f xs)"
  by (simp add: group_by_def comp_def)

lemma group_by_rows: "(k, rs) \<in> set (group_by f xs) \<Longrightarrow> rs = filter (\<lambda>x. f x = k) xs \<and> rs \<noteq> []"
  by (auto simp: group_by_def filter_empty_conv)

lemma sum_over_keys:
  fixes g :: "'a \<Rightarrow> int"
  assumes "finite K" and "f ` set xs \<subseteq> K"
  shows "(\<Sum>k \<in> K. sum_list (map g (filter (\<lambda>x. f x = k) xs))) = sum_list (map g xs)"
  using assms(2)
proof (induction xs)
  case (Cons a xs)
  have "(\<Sum>k \<in> K. sum_list (map g (filter (\<lambda>x. f x = k) (a # xs))))
      = (\<Sum>k \<in> K. (if f a = k then g a else 0) + sum_list (map g (filter (\<lambda>x. f x = k) xs)))"
    by (rule sum.cong) auto
  also have "\<dots> = g a + sum_list (map g xs)"
    using Cons assms(1) by (simp add: sum.distrib)
  finally show ?case by simp
qed simp

text \<open>Every row is in one group: sums over the groups are sums over the rows.\<close>

lemma sum_groups: "sum_list (map (\<lambda>(k, rs). sum_list (map g rs)) (group_by f xs)) = sum_list (map g xs)"
  for g :: "'a \<Rightarrow> int"
proof -
  have "sum_list (map (\<lambda>(k, rs). sum_list (map g rs)) (group_by f xs))
      = (\<Sum>k \<in> set (map f xs). sum_list (map g (filter (\<lambda>x. f x = k) xs)))"
    by (simp add: group_by_def comp_def sum_list_distinct_conv_sum_set flip: set_map)
  also have "\<dots> = sum_list (map g xs)"
    by (rule sum_over_keys) simp_all
  finally show ?thesis .
qed

lemma count_groups: "sum_list (map (\<lambda>(k, rs). if P k then int (length rs) else 0) (group_by f xs)) = int (length (filter (\<lambda>x. P (f x)) xs))"
proof -
  have "(\<lambda>(k, rs). if P k then int (length rs) else 0) p = (\<lambda>(k, rs). sum_list (map (\<lambda>x. if P (f x) then 1 else 0 :: int) rs)) p"
    if "p \<in> set (group_by f xs)" for p
  proof (cases p)
    case (Pair k rs)
    with that have "\<forall>x \<in> set rs. f x = k" using group_by_rows[of k rs f xs] by auto
    then have "map (\<lambda>x. if P (f x) then 1 else 0 :: int) rs = map (\<lambda>_. if P k then 1 else 0) rs" by simp
    then show ?thesis by (simp only: Pair prod.case) (simp add: sum_list_triv)
  qed
  then have "sum_list (map (\<lambda>(k, rs). if P k then int (length rs) else 0) (group_by f xs))
      = sum_list (map (\<lambda>x. if P (f x) then 1 else 0 :: int) xs)"
    by (simp add: sum_groups cong: map_cong)
  also have "\<dots> = int (length (filter (\<lambda>x. P (f x)) xs))" by (induction xs) simp_all
  finally show ?thesis .
qed

text \<open>The map of counts loses nothing either.\<close>

lemma add_count_distinct: "distinct (map fst m) \<Longrightarrow> distinct (map fst (add_count k n m))"
  by (simp add: add_count_def distinct_update)

definition count_of :: "('k \<Rightarrow> bool) \<Rightarrow> ('k \<times> int) list \<Rightarrow> int" where
  "count_of P m = sum_list (map snd (filter (\<lambda>(k, c). P k) m))"

lemma count_of_update:
  "distinct (map fst m) \<Longrightarrow>
    count_of P (AList.update k n m) = count_of P m + (if P k then n - (case map_of m k of Some c \<Rightarrow> c | None \<Rightarrow> 0) else 0)"
  by (induction m) (auto simp: count_of_def map_of_eq_None_iff[THEN iffD2])

lemma count_of_Cons: "count_of P ((k, c) # m) = (if P k then c else 0) + count_of P m"
  by (simp add: count_of_def)

lemma count_of_add: "distinct (map fst m) \<Longrightarrow> count_of P (add_count k n m) = count_of P m + (if P k then n else 0)"
  by (simp add: add_count_def count_of_update)

lemma count_of_fold:
  assumes "distinct (map fst m)"
  shows "distinct (map fst (fold (\<lambda>(k, c). add_count (f k) c) rows m)) \<and>
    count_of P (fold (\<lambda>(k, c). add_count (f k) c) rows m) = count_of P m + count_of (\<lambda>k. P (f k)) rows"
  using assms
proof (induction rows arbitrary: m)
  case (Cons r rows)
  then show ?case
    using add_count_distinct[OF Cons.prems] by (cases r) (simp add: count_of_add[OF Cons.prems] count_of_Cons)
qed (simp add: count_of_def)

lemma count_of_mset: "mset m = mset m' \<Longrightarrow> count_of P m = count_of P m'"
proof -
  assume "mset m = mset m'"
  then have "mset (map snd (filter (\<lambda>(k, c). P k) m)) = mset (map snd (filter (\<lambda>(k, c). P k) m'))"
    by (simp only: mset_map mset_filter)
  from arg_cong[OF this, of sum_mset] show ?thesis by (simp only: sum_mset_sum_list count_of_def)
qed

lemma count_of_by_count [simp]: "count_of P (by_count m) = count_of P m"
  by (rule count_of_mset) (simp add: by_count_def)

lemma count_of_lengths: "count_of P (map (\<lambda>(k, rs). (k, int (length rs))) g) = sum_list (map (\<lambda>(k, rs). if P k then int (length rs) else 0) g)"
  by (induction g) (auto simp: count_of_def)

lemma count_of_groups: "count_of P (map (\<lambda>(k, rs). (k, int (length rs))) (group_by f xs)) = int (length (filter (\<lambda>x. P (f x)) xs))"
  by (simp only: count_of_lengths count_groups)

lemma count_of_True: "count_of (\<lambda>_. True) m = sum_list (map snd m)"
  by (simp add: count_of_def)

text \<open>The keys of interfaces: joining with commas and splitting again only sorts the names.\<close>

lemma split_join: "\<forall>w \<in> set ws. sep \<notin> set w \<Longrightarrow> ws \<noteq> [] \<Longrightarrow> str_split sep (str_join sep ws) = ws"
  by (induction sep ws rule: str_join.induct) (auto simp: str_split_none str_split_app)

definition plain_names :: "contract_name list \<Rightarrow> bool" where
  "plain_names ts \<longleftrightarrow> (\<forall>t \<in> set ts. t \<noteq> [] \<and> CHR '','' \<notin> set t)"

lemma sort_key_Nil_iff: "sort_key f xs = [] \<longleftrightarrow> xs = []"
  by (simp flip: length_0_conv)

lemma unmarshal_marshal:
  assumes "plain_names is"
  shows "unmarshalInterfacesKey (marshalInterfacesKey is) = sort is"
proof (cases "is = []")
  case False
  then have "str_split CHR '','' (str_join CHR '','' (sort is)) = sort is"
    using assms by (intro split_join) (auto simp: plain_names_def sort_key_Nil_iff)
  then show ?thesis
    using assms by (simp add: marshalInterfacesKey_def unmarshalInterfacesKey_def plain_names_def filter_id_conv)
qed (simp add: marshalInterfacesKey_def unmarshalInterfacesKey_def)

subsection \<open>The latest states\<close>

lemma sorted_last: "sorted ys \<Longrightarrow> y \<in> set ys \<Longrightarrow> y \<le> last ys"
  by (induction ys) (auto split: if_splits)

lemma argMax_greatest:
  assumes "x \<in> set xs"
  shows "lt x \<le> lt (argMax lt xs) \<and> argMax lt xs \<in> set xs"
proof -
  have ne: "sort_key lt xs \<noteq> []" using assms by (auto simp: sort_key_Nil_iff)
  have "lt x \<le> last (map lt (sort_key lt xs))" using assms by (intro sorted_last) simp_all
  then show ?thesis using last_in_set[OF ne] ne by (simp add: argMax_def last_map)
qed

lemma group_by_argMax:
  assumes "(k, rs) \<in> set (group_by f xs)"
  shows "f (argMax lt rs) = k" and "argMax lt rs \<in> set xs" and "y \<in> set xs \<Longrightarrow> f y = k \<Longrightarrow> lt y \<le> lt (argMax lt rs)"
proof -
  note rs = group_by_rows[OF assms]
  then have "hd rs \<in> set rs" by (blast intro: hd_in_set)
  from argMax_greatest[OF this, of lt] have "argMax lt rs \<in> set rs" ..
  then show "f (argMax lt rs) = k" and "argMax lt rs \<in> set xs" using rs by auto
  show "y \<in> set xs \<Longrightarrow> f y = k \<Longrightarrow> lt y \<le> lt (argMax lt rs)" using argMax_greatest[of y rs lt] rs by simp
qed

lemma latest_states_addresses: "map acc_address (latest_states rows) = remdups (map acc_address rows)"
proof -
  have "map acc_address (latest_states rows) = map fst (group_by acc_address rows)"
    using group_by_argMax(1)[of _ _ acc_address rows] by (auto simp: latest_states_def)
  then show ?thesis by (simp only: group_by_keys)
qed

lemma latest_states_latest:
  assumes "a \<in> set (latest_states rows)"
  shows "a \<in> set rows" and "b \<in> set rows \<Longrightarrow> acc_address b = acc_address a \<Longrightarrow> acc_last_tx_lt b \<le> acc_last_tx_lt a"
proof -
  from assms obtain k rs where k: "(k, rs) \<in> set (group_by acc_address rows)" "a = argMax acc_last_tx_lt rs"
    by (auto simp: latest_states_def)
  from group_by_argMax[OF k(1), where lt = acc_last_tx_lt] k(2) show "a \<in> set rows" and "b \<in> set rows \<Longrightarrow> acc_address b = acc_address a \<Longrightarrow> acc_last_tx_lt b \<le> acc_last_tx_lt a"
    by auto
qed

subsection \<open>What the statistics count\<close>

text \<open>The row without a name is the only one that is taken out.\<close>

definition without_unknown :: "(string \<times> int) list \<Rightarrow> (string \<times> int) list" where
  "without_unknown rows = (let u = unknown_index 0 rows in
     if u = int (length rows) - 1 then take (nat u) rows
     else if u \<noteq> -1 then take (nat u) rows @ drop (nat (u + 1)) rows else rows)"

lemma unknown_index:
  "distinct (map fst rows) \<Longrightarrow>
    (if [] \<in> fst ` set rows then \<exists>j < length rows. unknown_index i rows = int (i + j) \<and> fst (rows ! j) = [] else unknown_index i rows = -1)"
proof (induction i rows rule: unknown_index.induct)
  case (2 i k c rows)
  show ?case
  proof (cases "k = []")
    case True
    then have "unknown_index (Suc i) rows = -1" using 2 by auto
    with True show ?thesis by (auto intro!: exI[of _ 0])
  next
    case False
    show ?thesis
    proof (cases "[] \<in> fst ` set rows")
      case True
      then obtain j where "j < length rows" "unknown_index (Suc i) rows = int (Suc i + j)" "fst (rows ! j) = []"
        using 2 by auto
      with True False show ?thesis by (auto intro!: exI[of _ "Suc j"])
    next
      case unknown: False
      then have "unknown_index (Suc i) rows = -1" using 2 by simp
      with unknown False show ?thesis by auto
    qed
  qed
qed simp

lemma without_unknown_eq:
  assumes "distinct (map fst rows)" and "rows \<noteq> []"
  shows "without_unknown rows = filter (\<lambda>(k, c). k \<noteq> []) rows"
proof (cases "[] \<in> fst ` set rows")
  case True
  then obtain j where j: "j < length rows" "unknown_index 0 rows = int j" "fst (rows ! j) = []"
    using unknown_index[OF assms(1), of 0] by auto
  have rows: "rows = take j rows @ rows ! j # drop (Suc j) rows" using j(1) by (rule id_take_nth_drop)
  have "distinct (map fst (take j rows @ rows ! j # drop (Suc j) rows))" using assms(1) rows by simp
  then have "\<forall>r \<in> set (take j rows) \<union> set (drop (Suc j) rows). fst r \<noteq> []"
    using j(3) by (auto simp del: append_take_drop_id simp: image_iff)
  then have "filter (\<lambda>(k, c). k \<noteq> []) rows = take j rows @ drop (Suc j) rows"
    using j(3) by (subst rows) (auto simp: filter_id_conv case_prod_unfold)
  moreover have "without_unknown rows = take j rows @ drop (Suc j) rows"
  proof (cases "int j = int (length rows) - 1")
    case True
    then have "Suc j = length rows" by linarith
    then have "drop (Suc j) rows = []" by simp
    with True show ?thesis by (simp add: without_unknown_def Let_def j(2) flip: True)
  next
    case False
    have "nat (int j + 1) = Suc j" by linarith
    then show ?thesis using False by (simp add: without_unknown_def Let_def j(2))
  qed
  ultimately show ?thesis by simp
next
  case False
  then have "unknown_index 0 rows = -1" using unknown_index[OF assms(1), of 0] by simp
  then have "without_unknown rows = rows" using assms(2) by (simp add: without_unknown_def)
  moreover have "\<forall>r \<in> set rows. fst r \<noteq> []" using False by force
  ultimately show ?thesis by (simp add: filter_id_conv case_prod_unfold)
qed

definition orders_ok :: "stat_orders \<Rightarrow> bool" where
  "orders_ok ord \<longleftrightarrow> range_order (so_rows ord) \<and> range_order (so_groups ord) \<and> range_order (so_statuses ord) \<and>
     range_order (so_types ord) \<and> range_order (so_operations ord)"

lemma count_of_addresses: "count_of (\<lambda>k. P (fst k) (snd k)) (address_counts rows) = int (length (filter (\<lambda>a. P (acc_status a) (acc_types a)) (latest_states rows)))"
  by (simp add: address_counts_def count_of_groups)

lemma count_of_range_fold:
  assumes "range_order ord"
  shows "count_of P (range_map ord (fold (\<lambda>(k, c). add_count (f k) c) rows [])) = count_of (\<lambda>k. P (f k)) rows"
proof -
  note fold = count_of_fold[of "[]" f rows P]
  then have "mset (range_map ord (fold (\<lambda>(k, c). add_count (f k) c) rows [])) = mset (fold (\<lambda>(k, c). add_count (f k) c) rows [])"
    by (intro mset_range_map[OF assms]) simp
  from count_of_mset[OF this] fold show ?thesis by (simp add: count_of_def)
qed

lemma addressStatusCount_total:
  assumes "range_order (so_statuses ord)"
  shows "sum_list (map snd (addressStatusCount ord addresses)) = count_of (\<lambda>_. True) addresses"
  using count_of_range_fold[OF assms, of "\<lambda>_. True" fst addresses] by (simp add: addressStatusCount_def flip: count_of_True)

lemma count_of_map_filter: "count_of P (filter (\<lambda>(k, c). Q k) (map (\<lambda>(k, c). (f k, c)) m)) = count_of (\<lambda>k. P (f k) \<and> Q (f k)) m"
  by (induction m) (auto simp: count_of_def)

lemma addressTypesCount_total:
  assumes "range_order (so_types ord)"
  shows "sum_list (map snd (filter (\<lambda>(is, c). is \<noteq> []) (addressTypesCount ord addresses)))
    = count_of (\<lambda>k. unmarshalInterfacesKey (marshalInterfacesKey (snd k)) \<noteq> []) addresses"
proof -
  have "sum_list (map snd (filter (\<lambda>(is, c). is \<noteq> []) (addressTypesCount ord addresses)))
      = count_of (\<lambda>is. is \<noteq> []) (addressTypesCount ord addresses)"
    by (simp add: count_of_def)
  also have "\<dots> = count_of (\<lambda>k. unmarshalInterfacesKey (marshalInterfacesKey (snd k)) \<noteq> []) addresses"
    by (simp add: addressTypesCount_def count_of_map_filter count_of_range_fold[OF assms])
  finally show ?thesis .
qed

lemma state_counts_sum: "sum_list (map snd (state_counts d)) = int (length (ch_accounts d))"
  "sum_list (map snd (filter fst (state_counts d))) = int (length (filter (\<lambda>a. acc_types a \<noteq> []) (ch_accounts d)))"
  using count_of_groups[of "\<lambda>_. True" "\<lambda>a. acc_types a \<noteq> []" "ch_accounts d"] count_of_groups[of "\<lambda>p. p" "\<lambda>a. acc_types a \<noteq> []" "ch_accounts d"]
  by (simp_all add: state_counts_def count_of_def case_prod_unfold)

lemma account_statistics:
  assumes "getAccountStatistics ord S d = (Ok S', d')" and "orders_ok ord" and "\<forall>a \<in> set (ch_accounts d). plain_names (acc_types a)"
  shows "\<exists>fs tc sc. d' = d\<lparr>db_faults := fs\<rparr> \<and> (let rows = ch_accounts d; latest = latest_states (so_rows ord rows) in
    S' = S\<lparr>st_AccountCount := st_AccountCount S + int (length rows),
      st_ParsedAccountCount := st_ParsedAccountCount S + int (length (filter (\<lambda>a. acc_types a \<noteq> []) rows)),
      st_AddressStatusCount := sc, st_AddressTypesCount := tc,
      st_AddressCount := st_AddressCount S + int (length latest),
      st_ParsedAddressCount := st_ParsedAddressCount S + int (length (filter (\<lambda>a. acc_types a \<noteq> []) latest))\<rparr>)"
proof -
  from assms(1) obtain accounts addresses d1 where q: "query state_counts d = (Ok accounts, d1)"
    "query (\<lambda>d. so_groups ord (address_counts (so_rows ord (ch_accounts d)))) d1 = (Ok addresses, d')"
    by (auto simp: getAccountStatistics_def Let_def split: prod.splits res.splits)
  obtain fs fs' where d: "d1 = d\<lparr>db_faults := fs\<rparr>" "d' = d1\<lparr>db_faults := fs'\<rparr>" and accounts: "accounts = state_counts d"
    and addresses: "addresses = so_groups ord (address_counts (so_rows ord (ch_accounts d1)))"
    using query_OkD[OF q(1)] query_OkD[OF q(2)] by blast
  let ?latest = "latest_states (so_rows ord (ch_accounts d))"
  have "mset addresses = mset (address_counts (so_rows ord (ch_accounts d)))"
    using assms(2) by (simp add: addresses d orders_ok_def range_order_def)
  then have counts: "count_of (\<lambda>k. P (snd k)) addresses = int (length (filter (\<lambda>a. P (acc_types a)) ?latest))" for P
    using count_of_mset count_of_addresses[of "\<lambda>_. P"] by metis
  have plain: "plain_names (acc_types a)" if "a \<in> set ?latest" for a
    using latest_states_latest(1)[OF that] assms(2,3) by (auto simp: orders_ok_def range_order_set)
  have parsed: "filter (\<lambda>a. unmarshalInterfacesKey (marshalInterfacesKey (acc_types a)) \<noteq> []) ?latest = filter (\<lambda>a. acc_types a \<noteq> []) ?latest"
    by (rule filter_cong) (simp_all add: unmarshal_marshal plain sort_key_Nil_iff)
  have st: "sum_list (map snd (addressStatusCount ord addresses)) = int (length ?latest)"
    using assms(2) counts[of "\<lambda>_. True"] by (simp add: orders_ok_def addressStatusCount_total)
  have tc: "sum_list (map snd (filter (\<lambda>(is, c). is \<noteq> []) (addressTypesCount ord addresses))) = int (length (filter (\<lambda>a. acc_types a \<noteq> []) ?latest))"
    using assms(2) counts[of "\<lambda>is. unmarshalInterfacesKey (marshalInterfacesKey is) \<noteq> []"]
    by (simp add: orders_ok_def addressTypesCount_total parsed)
  show ?thesis
    using assms(1) q by (auto simp: getAccountStatistics_def Let_def st tc d accounts state_counts_sum)
qed

lemma message_counts:
  assumes "range_order ord"
  shows "mset (operation_counts ord d) = mset (map (\<lambda>(k, rs). (k, int (length rs))) (group_by ms_operation_name (ch_messages d)))"
  using assms by (simp add: operation_counts_def by_count_def range_order_def)

lemma operation_count_row:
  assumes "range_order ord"
  shows "(k, c) \<in> set (operation_counts ord d) \<longleftrightarrow> k \<in> ms_operation_name ` set (ch_messages d) \<and> c = int (length (filter (\<lambda>m. ms_operation_name m = k) (ch_messages d)))"
  using arg_cong[OF message_counts[OF assms, of d], of set_mset] by (auto simp: group_by_def)

lemma operation_counts_distinct: "range_order ord \<Longrightarrow> distinct (map fst (operation_counts ord d))"
proof -
  assume "range_order ord"
  from arg_cong[OF message_counts[OF this, of d], of "image_mset fst"]
  have "mset (map fst (operation_counts ord d)) = mset (map fst (map (\<lambda>(k, rs). (k, int (length rs))) (group_by ms_operation_name (ch_messages d))))"
    by (simp only: mset_map)
  also have "map fst (map (\<lambda>(k, rs). (k, int (length rs))) (group_by ms_operation_name (ch_messages d))) = remdups (map ms_operation_name (ch_messages d))"
    unfolding group_by_keys[symmetric] by (simp add: case_prod_unfold)
  finally show ?thesis using mset_eq_imp_distinct_iff distinct_remdups by blast
qed

lemma transaction_statistics:
  assumes "getTransactionStatistics ord S d = (Ok S', d')" and "orders_ok ord"
  shows "(\<exists>fs. d' = d\<lparr>db_faults := fs\<rparr>) \<and> ch_messages d \<noteq> [] \<and>
    S' = S\<lparr>st_MessageCount := st_MessageCount S + int (length (ch_messages d)),
      st_ParsedMessageCount := st_ParsedMessageCount S + int (length (filter (\<lambda>m. ms_operation_name m \<noteq> []) (ch_messages d))),
      st_MessageTypesCount := filter (\<lambda>(k, c). k \<noteq> []) (operation_counts (so_operations ord) d),
      st_TransactionCount := int (length (ch_transactions d))\<rparr>"
proof -
  from assms(1) obtain rows n d1 where q: "query (operation_counts (so_operations ord)) d = (Ok rows, d1)"
    "query (\<lambda>d. int (length (ch_transactions d))) d1 = (Ok n, d')" and u: "\<not> (unknown_index 0 rows = int (length rows) - 1 \<and> unknown_index 0 rows < 0)"
    by (auto simp: getTransactionStatistics_def Let_def split: prod.splits res.splits if_splits)
  obtain fs fs' where d: "d1 = d\<lparr>db_faults := fs\<rparr>" "d' = d1\<lparr>db_faults := fs'\<rparr>" and rows: "rows = operation_counts (so_operations ord) d"
    and n: "n = int (length (ch_transactions d1))"
    using query_OkD[OF q(1)] query_OkD[OF q(2)] by blast
  have ord: "range_order (so_operations ord)" using assms(2) by (simp add: orders_ok_def)
  have ne: "rows \<noteq> []" using u by auto
  then have ch: "ch_messages d \<noteq> []"
    using operation_count_row[OF ord, of _ _ d] rows by (cases rows) fastforce+
  have counts: "count_of P rows = int (length (filter (\<lambda>m. P (ms_operation_name m)) (ch_messages d)))" for P
    using count_of_mset[OF message_counts[OF ord]] by (simp add: rows count_of_groups)
  have "without_unknown rows = filter (\<lambda>(k, c). k \<noteq> []) rows"
    using operation_counts_distinct[OF ord] ne by (intro without_unknown_eq) (simp_all add: rows)
  then have "S' = S\<lparr>st_MessageCount := st_MessageCount S + count_of (\<lambda>_. True) rows,
      st_ParsedMessageCount := st_ParsedMessageCount S + count_of (\<lambda>k. k \<noteq> []) rows,
      st_MessageTypesCount := filter (\<lambda>(k, c). k \<noteq> []) rows, st_TransactionCount := n\<rparr>"
    using assms(1) q u by (auto simp: getTransactionStatistics_def Let_def without_unknown_def count_of_def)
  then show ?thesis using d ch by (auto simp: counts n simp flip: rows)
qed

lemma block_statistics:
  assumes "getBlockStatistics S d = (Ok S', d')"
  shows "\<exists>fs n b e. d' = d\<lparr>db_faults := fs\<rparr> \<and> S' = S\<lparr>st_MasterBlockCount := n, st_FirstBlock := b, st_LastBlock := e\<rparr>"
proof -
  from assms obtain ns where q: "query (\<lambda>d. map bl_seqno (filter (\<lambda>b. bl_workchain b = -1) (ch_blocks d))) d = (Ok ns, d')"
    by (auto simp: getBlockStatistics_def split: prod.splits res.splits)
  with query_OkD[OF q] assms show ?thesis by (auto simp: getBlockStatistics_def)
qed

lemma count_rows_Ok: "count_rows t m g S d = (Ok S', d') \<Longrightarrow> S' = g (int (length (t d))) S \<and> (\<exists>fs. d' = d\<lparr>db_faults := fs\<rparr>)"
  by (auto simp: count_rows_def split: prod.splits res.splits dest: query_OkD)

lemma then_stats_Ok: "then_stats r k = (Ok S', d') \<longleftrightarrow> (\<exists>S d. r = (Ok S, d) \<and> k S d = (Ok S', d'))"
  by (auto simp: then_stats_def split: prod.splits res.splits)

text \<open>
  C22. The statistics are about the latest states: when \<open>GetStatistics\<close> succeeds, the addresses are
  counted once each, those with interfaces by their latest state, the states and messages all, and the operations
  are listed with the number of their messages, the unknown ones left out, whatever order ClickHouse and Go
  take (names of interfaces are not empty and have no comma).
\<close>

theorem statistics_counts:
  assumes "getStatistics ord d = (Ok S, d')" and "orders_ok ord" and "\<forall>a \<in> set (ch_accounts d). plain_names (acc_types a)"
  shows "\<exists>latest. distinct (map acc_address latest) \<and> acc_address ` set latest = acc_address ` set (ch_accounts d) \<and>
    (\<forall>a \<in> set latest. a \<in> set (ch_accounts d) \<and>
      (\<forall>b \<in> set (ch_accounts d). acc_address b = acc_address a \<longrightarrow> acc_last_tx_lt b \<le> acc_last_tx_lt a)) \<and>
    st_AddressCount S = int (length latest) \<and>
    st_ParsedAddressCount S = int (length (filter (\<lambda>a. acc_types a \<noteq> []) latest)) \<and>
    st_AccountCount S = int (length (ch_accounts d)) \<and>
    st_ParsedAccountCount S = int (length (filter (\<lambda>a. acc_types a \<noteq> []) (ch_accounts d))) \<and>
    st_TransactionCount S = int (length (ch_transactions d)) \<and>
    st_MessageCount S = int (length (ch_messages d)) \<and>
    st_ParsedMessageCount S = int (length (filter (\<lambda>m. ms_operation_name m \<noteq> []) (ch_messages d))) \<and>
    distinct (map fst (st_MessageTypesCount S)) \<and>
    (\<forall>k c. (k, c) \<in> set (st_MessageTypesCount S) \<longleftrightarrow>
      k \<noteq> [] \<and> k \<in> ms_operation_name ` set (ch_messages d) \<and> c = int (length (filter (\<lambda>m. ms_operation_name m = k) (ch_messages d))))"
proof -
  let ?latest = "latest_states (so_rows ord (ch_accounts d))"
  from assms(1) obtain S1 S2 S3 S4 d1 d2 d3 d4 where run: "getBlockStatistics statistics_zero d = (Ok S1, d1)"
    "getAccountStatistics ord S1 d1 = (Ok S2, d2)" "getTransactionStatistics ord S2 d2 = (Ok S3, d3)"
    "count_rows pg_interfaces ''contract interface count'' (\<lambda>n S. S\<lparr>st_ContractInterfaceCount := n\<rparr>) S3 d3 = (Ok S4, d4)"
    "count_rows pg_operations ''contract operation count'' (\<lambda>n S. S\<lparr>st_ContractOperationCount := n\<rparr>) S4 d4 = (Ok S, d')"
    unfolding getStatistics_def then_stats_Ok by blast
  obtain fs1 n b e where 1: "d1 = d\<lparr>db_faults := fs1\<rparr>"
    "S1 = statistics_zero\<lparr>st_MasterBlockCount := n, st_FirstBlock := b, st_LastBlock := e\<rparr>"
    using block_statistics[OF run(1)] by blast
  note 2 = account_statistics[OF run(2) assms(2)]
  have plain: "\<forall>a \<in> set (ch_accounts d1). plain_names (acc_types a)" using assms(3) 1 by simp
  obtain fs2 where d2: "d2 = d\<lparr>db_faults := fs2\<rparr>" using 2[OF plain] 1 by (auto simp: Let_def)
  note 3 = transaction_statistics[OF run(3) assms(2)]
  note 4 = count_rows_Ok[OF run(4)] count_rows_Ok[OF run(5)]
  have ord: "range_order (so_rows ord)" "range_order (so_operations ord)" using assms(2) by (simp_all add: orders_ok_def)
  have types: "st_MessageTypesCount S = filter (\<lambda>(k, c). k \<noteq> []) (operation_counts (so_operations ord) d2)" using 3 4 by simp
  have ops: "operation_counts (so_operations ord) d2 = operation_counts (so_operations ord) d"
    by (simp add: operation_counts_def d2)
  have "distinct (map acc_address ?latest) \<and> acc_address ` set ?latest = acc_address ` set (ch_accounts d)"
  proof -
    have "set (map acc_address ?latest) = set (map acc_address (so_rows ord (ch_accounts d)))"
      by (simp only: latest_states_addresses set_remdups)
    then have "acc_address ` set ?latest = acc_address ` set (ch_accounts d)" using ord(1) by (simp add: range_order_set)
    then show ?thesis by (simp add: latest_states_addresses)
  qed
  moreover have "\<forall>a \<in> set ?latest. a \<in> set (ch_accounts d) \<and>
      (\<forall>b \<in> set (ch_accounts d). acc_address b = acc_address a \<longrightarrow> acc_last_tx_lt b \<le> acc_last_tx_lt a)"
    using latest_states_latest[of _ "so_rows ord (ch_accounts d)"] ord(1) by (simp add: range_order_set)
  moreover have "st_AddressCount S = int (length ?latest) \<and>
    st_ParsedAddressCount S = int (length (filter (\<lambda>a. acc_types a \<noteq> []) ?latest)) \<and>
    st_AccountCount S = int (length (ch_accounts d)) \<and>
    st_ParsedAccountCount S = int (length (filter (\<lambda>a. acc_types a \<noteq> []) (ch_accounts d)))"
    using 1 2[OF plain] 3 4 by (auto simp: Let_def statistics_zero_def)
  moreover have "st_TransactionCount S = int (length (ch_transactions d)) \<and>
    st_MessageCount S = int (length (ch_messages d)) \<and>
    st_ParsedMessageCount S = int (length (filter (\<lambda>m. ms_operation_name m \<noteq> []) (ch_messages d)))"
    using 1 2[OF plain] 3 4 d2 by (auto simp: Let_def statistics_zero_def)
  moreover have "distinct (map fst (st_MessageTypesCount S))"
    using operation_counts_distinct[OF ord(2)] by (simp add: types distinct_map_filter)
  ultimately show ?thesis
    by (intro exI[of _ ?latest]) (auto simp: types ops operation_count_row[OF ord(2)])
qed

definition ex_orders :: stat_orders where
  "ex_orders = \<lparr>so_rows = rev, so_groups = rev, so_statuses = rev, so_types = rev, so_operations = rev\<rparr>"

definition ex_typed_state :: "u64 \<Rightarrow> contract_name list \<Rightarrow> account_state" where
  "ex_typed_state lt ts = account_zero\<lparr>acc_last_tx_lt := lt, acc_types := ts\<rparr>"

definition ex_stats_db :: db where
  "ex_stats_db = db_empty\<lparr>ch_accounts := [ex_typed_state 7 [''nft_item''], ex_typed_state 5 []], ch_messages := [message_zero]\<rparr>"

lemmas stats_eval = getStatistics_def then_stats_def getBlockStatistics_def getAccountStatistics_def getTransactionStatistics_def
  count_rows_def query_def Let_def

theorem statistics_counts_witness:
  "\<exists>S d'. getStatistics ex_orders ex_stats_db = (Ok S, d') \<and> st_AccountCount S = 2 \<and> st_ParsedAccountCount S = 1 \<and> st_MessageCount S = 1"
proof -
  have "is_ok (fst (getStatistics ex_orders ex_stats_db))"
    by (simp add: stats_eval ex_orders_def ex_stats_db_def db_empty_def operation_counts_def by_count_def group_by_def message_zero_def)
  then obtain S d' where run: "getStatistics ex_orders ex_stats_db = (Ok S, d')"
    by (metis is_ok.elims(2) prod.collapse)
  have "orders_ok ex_orders" by (simp add: orders_ok_def ex_orders_def range_order_rev)
  moreover have "\<forall>a \<in> set (ch_accounts ex_stats_db). plain_names (acc_types a)"
    by (simp add: ex_stats_db_def ex_typed_state_def plain_names_def)
  ultimately have "st_AccountCount S = int (length (ch_accounts ex_stats_db)) \<and>
    st_ParsedAccountCount S = int (length (filter (\<lambda>a. acc_types a \<noteq> []) (ch_accounts ex_stats_db))) \<and>
    st_MessageCount S = int (length (ch_messages ex_stats_db))"
    using statistics_counts[OF run] by blast
  then show ?thesis using run by (simp add: ex_stats_db_def ex_typed_state_def)
qed

text \<open>Before the first message is indexed the statistics are not an error but a panic.\<close>

lemma statistics_without_messages:
  assumes "db_faults d = []" and "ch_messages d = []" and "range_order (so_operations ord)"
  shows "getStatistics ord d = (Panic ''slice bounds out of range [:-1]'', d)"
proof -
  have "mset (operation_counts (so_operations ord) d) = {#}" using message_counts[OF assms(3), of d] assms(2) by (simp add: group_by_def)
  then show ?thesis using assms(1) by (simp add: stats_eval)
qed

subsection \<open>What a history counts\<close>

text \<open>The intervals that are served, from five minutes to less than a week, and how they are rounded down.\<close>

definition unit_length :: "string \<Rightarrow> int" where
  "unit_length u = (if u = ''minute'' then 60 else if u = ''hour'' then 3600 else 86400)"

lemma div_bounds: "0 < c \<Longrightarrow> i div c * c \<le> i \<and> i < (i div c + 1) * c" for c :: int
  by (simp add: distrib_right flip: minus_mod_eq_div_mult)

lemma div_less_iff:
  fixes c :: int
  assumes c: "0 < c"
  shows "i div c < n \<longleftrightarrow> i < n * c"
proof
  show "i < n * c" if "i div c < n"
    using mult_right_mono[of "i div c + 1" n c] div_bounds[OF c, of i] that c by linarith
  show "i div c < n" if "i < n * c"
    using div_bounds[OF c, of i] that c mult_less_cancel_right_pos[OF c, of "i div c" n] by linarith
qed

lemma rounding_nonneg:
  assumes "0 \<le> i"
  shows "getRoundingFunction i =
    (if i div 60000000000 < 5 then Err (Wrap ErrInvalidArg (''unsupported interval '' @ show_int (i div 1000000000) @ '' seconds''))
     else if i div 60000000000 < 60 then Ok (i div 60000000000, ''minute'')
     else if i div 3600000000000 < 24 then Ok (i div 3600000000000, ''hour'')
     else if i div 86400000000000 < 7 then Ok (i div 86400000000000, ''day'')
     else Err (Wrap ErrInvalidArg (''unsupported interval '' @ show_int (i div 86400000000000) @ '' hours'')))"
proof -
  have sec: "\<not> i < 0" "\<not> i div 1000000000 < 0" using assms by (simp_all add: pos_imp_zdiv_neg_iff)
  have units: "i div 1000000000 div 60 = i div 60000000000" "i div 60000000000 div 60 = i div 3600000000000"
    "i div 3600000000000 div 24 = i div 86400000000000"
    by (simp_all flip: zdiv_zmult2_eq)
  show ?thesis unfolding getRoundingFunction_def Let_def by (simp only: sec units if_False)
qed

lemma rounding_negative: "i < 0 \<Longrightarrow> \<not> is_ok (getRoundingFunction i)"
proof -
  assume i: "i < 0"
  define sec where "sec = - (- i div 1000000000)"
  have "sec \<le> 0" using i by (simp add: sec_def pos_imp_zdiv_nonneg_iff)
  then have "(if sec < 0 then - (- sec div 60) else sec div 60) < 5" by (auto simp: pos_imp_zdiv_nonneg_iff intro: le_less_trans[of _ 0])
  then show ?thesis using i by (simp only: getRoundingFunction_def Let_def if_True sec_def is_ok.simps not_False_eq_True)
qed

lemma rounding_supported:
  "is_ok (getRoundingFunction i) \<longleftrightarrow> 300 * 1000000000 \<le> i \<and> i < 604800 * 1000000000"
proof (cases "i < 0")
  case False
  then show ?thesis by (subst rounding_nonneg) (simp_all add: div_less_iff)
qed (use rounding_negative in auto)

lemma rounding_down:
  assumes "getRoundingFunction i = Ok (n, u)"
  shows "0 < n \<and> n * (unit_length u * 1000000000) \<le> i \<and> i < (n + 1) * (unit_length u * 1000000000)"
proof -
  have "0 \<le> i" using rounding_negative[of i] assms by fastforce
  from assms[unfolded rounding_nonneg[OF this]] have "0 < n" "n = i div (unit_length u * 1000000000)"
    by (auto simp: unit_length_def not_less split: if_splits)
  moreover have "0 < unit_length u * 1000000000" by (simp add: unit_length_def)
  ultimately show ?thesis using div_bounds by blast
qed

lemma history_complete:
  assumes "history_query start p at (\<lambda>rs. int (length rs)) rows d = (Ok res, d')"
  shows "sorted (map snd res) \<and> distinct (map snd res) \<and>
    sum_list (map fst res) = int (length (filter (\<lambda>x. in_period (hp_From p) (hp_To p) (at x)) (rows d)))"
proof -
  let ?in = "filter (\<lambda>x. in_period (hp_From p) (hp_To p) (at x)) (rows d)"
  from assms obtain r where r: "res = map (\<lambda>(t, rs). (int (length rs), t)) (buckets at (start r) ?in)"
    by (auto simp: history_query_def split: res.splits dest: query_OkD)
  have keys: "map snd res = map fst (buckets at (start r) ?in)" by (simp add: r case_prod_unfold)
  have ms: "mset (buckets at (start r) ?in) = mset (group_by (\<lambda>x. start r (at x)) ?in)" by (simp add: buckets_def)
  then have "mset (map fst (buckets at (start r) ?in)) = mset (remdups (map (\<lambda>x. start r (at x)) ?in))"
    by (metis group_by_keys mset_map)
  then have "distinct (map snd res)" unfolding keys using mset_eq_imp_distinct_iff distinct_remdups by blast
  moreover have "sorted (map snd res)" unfolding keys by (simp add: buckets_def)
  moreover have "sum_list (map fst res) = int (length ?in)"
  proof -
    have "sum_list (map fst res) = sum_mset (image_mset (\<lambda>(t, rs). int (length rs)) (mset (buckets at (start r) ?in)))"
      by (simp add: r case_prod_unfold comp_def flip: sum_mset_sum_list mset_map)
    also have "\<dots> = sum_list (map (\<lambda>(t, rs). int (length rs)) (group_by (\<lambda>x. start r (at x)) ?in))"
      by (simp add: ms flip: sum_mset_sum_list mset_map)
    also have "\<dots> = int (length ?in)" using count_groups[of "\<lambda>_. True" "\<lambda>x. start r (at x)" ?in] by simp
    finally show ?thesis .
  qed
  ultimately show ?thesis by blast
qed

lemma transactions_history_complete:
  assumes "aggregateTransactionsHistory start req d = (Ok res, d')"
  shows "sorted (map snd res) \<and> distinct (map snd res) \<and> sum_list (map fst res) = int (length (filter (\<lambda>t.
    transactions_history_matches req t \<and> in_period (hp_From (ht_Params req)) (hp_To (ht_Params req)) (tx_created_at t)) (ch_transactions d)))"
  using assms history_complete[of start "ht_Params req" tx_created_at "\<lambda>d. filter (transactions_history_matches req) (ch_transactions d)" d res d']
  by (auto simp: aggregateTransactionsHistory_def conj_commute split: if_splits)

end
