(* ===== verification/Reads.thy ===== *)
theory Reads
  imports Store Filters AccountFilter
begin

section \<open>The reads of blocks, transactions and messages\<close>

text \<open>
  \<open>filter.go\<close> of \<open>repository/tx\<close>, \<open>repository/msg\<close> and \<open>repository/block\<close>. The rows come from PostgreSQL,
  with the relations a request asks for, the total from ClickHouse. In which order a table is read
  is the argument \<open>re_scan_\<dots>\<close> of the reader, and so is what is left out of an account for excluded columns.
\<close>

record reader =
  re_scan_transactions :: "(bytes \<rightharpoonup> transaction) \<Rightarrow> transaction list"
  re_scan_messages :: "(bytes \<rightharpoonup> message) \<Rightarrow> message list"
  re_scan_blocks :: "block list \<Rightarrow> block list"
  re_exclude :: "string list \<Rightarrow> account_state \<Rightarrow> account_state"

definition order_by :: "string \<Rightarrow> ('a \<Rightarrow> int) \<Rightarrow> 'a list \<Rightarrow> 'a list" where
  "order_by dir key rows =
     (if dir = [] then rows else if to_upper dir = ''DESC'' then sort_key (\<lambda>x. - key x) rows else sort_key key rows)"

definition direction_error :: "string \<Rightarrow> goerr option" where
  "direction_error dir = (if dir = [] \<or> to_upper dir = ''ASC'' \<or> to_upper dir = ''DESC'' then None else Some (ErrExt ''syntax error''))"

text \<open>The direction is compared as it is here, and in upper case for the order.\<close>

definition after_row :: "string \<Rightarrow> 'k option \<Rightarrow> 'k :: linorder \<Rightarrow> bool" where
  "after_row dir after k = opt_cond after (\<lambda>x. if dir = ''ASC'' then x < k else k < x)"

definition select_page :: "string \<Rightarrow> int \<Rightarrow> ('a \<Rightarrow> int) \<Rightarrow> (db \<Rightarrow> 'a list) \<Rightarrow> (db \<Rightarrow> 'a \<Rightarrow> 'b) \<Rightarrow> db \<Rightarrow> 'b list res \<times> db" where
  "select_page dir lim key rows load d =
     (case direction_error dir of
        Some e \<Rightarrow> (Err e, d)
      | None \<Rightarrow> query (\<lambda>d. map (load d) (sql_limit (if lim = 0 then 3 else lim) (order_by dir key (rows d)))) d)"

text \<open>No rows are not counted.\<close>

definition with_total :: "'b list res \<times> db \<Rightarrow> (db \<Rightarrow> int res \<times> db) \<Rightarrow> 'b rows res \<times> db" where
  "with_total r total_of =
     (case r of
        (Ok rs, d) \<Rightarrow> if rs = [] then (Ok \<lparr>rs_total = 0, rs_rows = []\<rparr>, d)
          else (case total_of d of
                  (Ok n, d) \<Rightarrow> (Ok \<lparr>rs_total = n, rs_rows = rs\<rparr>, d)
                | (Err e, d) \<Rightarrow> (Err e, d) | (Panic p, d) \<Rightarrow> (Panic p, d))
      | (Err e, d) \<Rightarrow> (Err e, d) | (Panic p, d) \<Rightarrow> (Panic p, d))"

subsection \<open>Transactions\<close>

definition tx_in_block :: "block_id \<Rightarrow> transaction \<Rightarrow> bool" where
  "tx_in_block b t \<longleftrightarrow> tx_workchain t = bi_workchain b \<and> tx_shard t = bi_shard b \<and> tx_block_seqno t = bi_seqno b"

definition tx_matches :: "transactions_req \<Rightarrow> transaction \<Rightarrow> bool" where
  "tx_matches f t \<longleftrightarrow>
     list_cond (tr_hash f) (\<lambda>h. tx_hash t = h) \<and> list_cond (tr_in_msg_hash f) (\<lambda>h. tx_in_msg_hash t = h) \<and>
     list_cond (tr_addresses f) (\<lambda>as. tx_address t \<in> set as) \<and> opt_cond (tr_workchain f) (\<lambda>w. tx_workchain t = w) \<and>
     opt_cond (tr_block_id f) (\<lambda>b. tx_in_block b t) \<and> opt_cond (tr_created_lt f) (\<lambda>lt. tx_created_lt t = lt)"

text \<open>The relations: the state after the transaction, its incoming message and its outgoing ones.\<close>

definition with_account :: "reader \<Rightarrow> string list \<Rightarrow> db \<Rightarrow> transaction \<Rightarrow> transaction" where
  "with_account E excl d t = t\<lparr>tx_account := map_option (re_exclude E excl) (map_of (pg_accounts d) (tx_address t, tx_created_lt t))\<rparr>"

definition with_messages :: "reader \<Rightarrow> db \<Rightarrow> transaction \<Rightarrow> transaction" where
  "with_messages E d t = t\<lparr>tx_in_msg := pg_messages d (tx_in_msg_hash t),
     tx_out_msg := filter (\<lambda>m. ms_src_address m = tx_address t \<and> ms_src_tx_lt m = tx_created_lt t) (re_scan_messages E (pg_messages d))\<rparr>"

definition load_tx :: "reader \<Rightarrow> bool \<Rightarrow> bool \<Rightarrow> string list \<Rightarrow> db \<Rightarrow> transaction \<Rightarrow> transaction" where
  "load_tx E acc msgs excl d t =
     (let t = (if acc then with_account E excl d t else t) in if msgs then with_messages E d t else t)"

definition filterTx :: "reader \<Rightarrow> transactions_req \<Rightarrow> db \<Rightarrow> transaction list res \<times> db" where
  "filterTx E f = select_page (tr_order f) (tr_limit f) (\<lambda>t. uint (tx_created_lt t))
     (\<lambda>d. filter (\<lambda>t. tx_matches f t \<and> after_row (tr_order f) (tr_after_tx_lt f) (tx_created_lt t)) (re_scan_transactions E (pg_transactions d)))
     (load_tx E (tr_with_account_state f) (tr_with_messages f) (tr_exclude_column f))"

definition countTx :: "transactions_req \<Rightarrow> db \<Rightarrow> int res \<times> db" where
  "countTx f = query (\<lambda>d. int (length (filter (tx_matches f) (ch_transactions d))))"

definition filterTransactions :: "reader \<Rightarrow> transactions_req \<Rightarrow> db \<Rightarrow> transaction rows res \<times> db" where
  "filterTransactions E f d = with_total (filterTx E f d) (countTx f)"

subsection \<open>Messages\<close>

definition msg_matches :: "messages_req \<Rightarrow> message \<Rightarrow> bool" where
  "msg_matches f m \<longleftrightarrow>
     list_cond (mr_hash f) (\<lambda>h. ms_hash m = h) \<and>
     list_cond (mr_src_addresses f) (\<lambda>as. ms_src_address m \<in> set as) \<and>
     list_cond (mr_dst_addresses f) (\<lambda>as. ms_dst_address m \<in> set as) \<and>
     opt_cond (mr_src_workchain f) (\<lambda>w. ms_src_workchain m = w) \<and>
     opt_cond (mr_dst_workchain f) (\<lambda>w. ms_dst_workchain m = w) \<and>
     opt_cond (mr_operation_id f) (\<lambda>i. ms_operation_id m = i) \<and>
     list_cond (mr_src_contracts f) (\<lambda>cs. ms_src_contract m \<in> set cs) \<and>
     list_cond (mr_dst_contracts f) (\<lambda>cs. ms_dst_contract m \<in> set cs) \<and>
     list_cond (mr_operation_names f) (\<lambda>ns. ms_operation_name m \<in> set ns)"

definition filterMsg :: "reader \<Rightarrow> messages_req \<Rightarrow> db \<Rightarrow> message list res \<times> db" where
  "filterMsg E f = select_page (mr_order f) (mr_limit f) (\<lambda>m. uint (ms_created_lt m))
     (\<lambda>d. filter (\<lambda>m. msg_matches f m \<and> after_row (mr_order f) (mr_after_tx_lt f) (ms_created_lt m)) (re_scan_messages E (pg_messages d)))
     (\<lambda>d m. m)"

definition countMsg :: "messages_req \<Rightarrow> db \<Rightarrow> int res \<times> db" where
  "countMsg f = query (\<lambda>d. int (length (filter (msg_matches f) (ch_messages d))))"

definition filterMessages :: "reader \<Rightarrow> messages_req \<Rightarrow> db \<Rightarrow> message rows res \<times> db" where
  "filterMessages E f d = with_total (filterMsg E f d) (countMsg f)"

subsection \<open>Blocks\<close>

text \<open>A block that is read, with the number of its transactions, and its shards likewise.\<close>

datatype block_read = BlockRead (br_block: block) (br_count: int) (br_shards: "block_read list")

definition block_matches :: "blocks_req \<Rightarrow> block \<Rightarrow> bool" where
  "block_matches f b \<longleftrightarrow> opt_cond (br_workchain f) (\<lambda>w. bl_workchain b = w) \<and> opt_cond (br_shard f) (\<lambda>s. bl_shard b = s) \<and>
     opt_cond (br_seqno f) (\<lambda>n. bl_seqno b = n) \<and> list_cond (br_file_hash f) (\<lambda>h. bl_file_hash b = h)"

definition loadTransactions :: "reader \<Rightarrow> blocks_req \<Rightarrow> db \<Rightarrow> block \<Rightarrow> transaction list" where
  "loadTransactions E f d b = map (load_tx E (br_with_tx_account_state f) (br_with_tx_messages f) (br_exclude_column f) d)
     (filter (tx_in_block (block_id_of b)) (re_scan_transactions E (pg_transactions d)))"

definition load_block :: "reader \<Rightarrow> blocks_req \<Rightarrow> db \<Rightarrow> block \<Rightarrow> block list \<Rightarrow> block" where
  "load_block E f d b shards =
     Block (bl_workchain b) (bl_shard b) (bl_seqno b) (bl_file_hash b) (bl_root_hash b) (bl_master b) shards
       (if br_with_transactions f then loadTransactions E f d b else [])
       (if br_with_account_states f then map snd (filter (\<lambda>(k, a). account_block_id a = block_id_of b) (pg_accounts d)) else [])
       (bl_scanned_at b)"

definition load_shards :: "reader \<Rightarrow> blocks_req \<Rightarrow> db \<Rightarrow> block \<Rightarrow> block" where
  "load_shards E f d b =
     load_block E f d b (if br_with_shards f
       then map (\<lambda>s. load_block E f d s []) (filter (\<lambda>s. bl_master s = Some (block_id_of b)) (re_scan_blocks E (map snd (pg_blocks d)))) else [])"

text \<open>One query counts the transactions of all blocks and shards; a block that it does not return has none.\<close>

definition tx_block_id :: "transaction \<Rightarrow> block_id" where
  "tx_block_id t = \<lparr>bi_workchain = tx_workchain t, bi_shard = tx_shard t, bi_seqno = tx_block_seqno t\<rparr>"

definition getCount :: "(block_id \<rightharpoonup> int) \<Rightarrow> block_id \<Rightarrow> int" where
  "getCount counts b = (case counts b of Some n \<Rightarrow> n | None \<Rightarrow> 0)"

definition group_tx :: "block_id set \<Rightarrow> transaction list \<Rightarrow> block_id \<rightharpoonup> int" where
  "group_tx ids ts = fold (\<lambda>t c. if tx_block_id t \<in> ids then c(tx_block_id t \<mapsto> getCount c (tx_block_id t) + 1) else c) ts Map.empty"

definition set_counts :: "(block \<Rightarrow> int) \<Rightarrow> block \<Rightarrow> block_read" where
  "set_counts n m = BlockRead m (n m) (map (\<lambda>s. BlockRead s (n s) []) (bl_shards m))"

definition countTransactions :: "reader \<Rightarrow> block list \<Rightarrow> db \<Rightarrow> block_read list res \<times> db" where
  "countTransactions E ret d =
     (if ret = [] then (Ok [], d)
      else let ids = set (map block_id_of (concat (map (\<lambda>m. bl_shards m @ [m]) ret)))
           in case query (\<lambda>d. group_tx ids (re_scan_transactions E (pg_transactions d))) d of
                (Ok counts, d) \<Rightarrow> (Ok (map (set_counts (\<lambda>b. getCount counts (block_id_of b))) ret), d)
              | (Err e, d) \<Rightarrow> (Err (Wrap e ''count transactions for each block''), d)
              | (Panic p, d) \<Rightarrow> (Panic p, d))"

definition filterBlockRows :: "reader \<Rightarrow> blocks_req \<Rightarrow> db \<Rightarrow> block_read list res \<times> db" where
  "filterBlockRows E f d =
     (case select_page (br_order f) (br_limit f) (\<lambda>b. uint (bl_seqno b))
        (\<lambda>d. filter (\<lambda>b. block_matches f b \<and> after_row (br_order f) (br_after_seqno f) (bl_seqno b)) (re_scan_blocks E (map snd (pg_blocks d))))
        (load_shards E f) d of
        (Ok ret, d) \<Rightarrow> countTransactions E ret d
      | (Err e, d) \<Rightarrow> (Err e, d) | (Panic p, d) \<Rightarrow> (Panic p, d))"

definition countBlocks :: "blocks_req \<Rightarrow> db \<Rightarrow> int res \<times> db" where
  "countBlocks f = query (\<lambda>d. int (length (filter (block_matches f) (ch_blocks d))))"

definition filterBlocks :: "reader \<Rightarrow> blocks_req \<Rightarrow> db \<Rightarrow> block_read rows res \<times> db" where
  "filterBlocks E f d = with_total (filterBlockRows E f d) (countBlocks f)"

subsection \<open>Reading page after page\<close>

text \<open>A client that reads on behind the last row of a page until a page is empty.\<close>

fun pages :: "nat \<Rightarrow> ('a \<Rightarrow> 'k) \<Rightarrow> ('k option \<Rightarrow> 'a list) \<Rightarrow> 'k option \<Rightarrow> 'a list" where
  "pages 0 key page after = []"
| "pages (Suc m) key page after = (case page after of [] \<Rightarrow> [] | r # rs \<Rightarrow> r # rs @ pages m key page (Some (key (last (r # rs)))))"

text \<open>
  The contract of a table that is read backwards in pages: a page is the first \<open>n\<close> rows whose key is smaller
  than the last one seen. With distinct keys no row is lost; a row with the key of the end of a page is.
\<close>

locale descending_pages =
  fixes key :: "'a \<Rightarrow> 'k :: linorder" and rows :: "'a list" and n :: nat and page :: "'k option \<Rightarrow> 'a list"
  assumes positive: "0 < n"
    and descending: "sorted_wrt (\<lambda>x y. key y \<le> key x) rows"
    and page: "page after = take n (filter (\<lambda>x. opt_cond after (\<lambda>k. key x < k)) rows)"
begin

lemma page_behind: "x \<in> set (page (Some k)) \<Longrightarrow> key x < k"
  by (auto simp: page opt_cond_def dest!: in_set_takeD)

lemma pages_behind: "x \<in> set (pages m key page (Some k)) \<Longrightarrow> key x < k"
proof (induction m arbitrary: k)
  case (Suc m)
  show ?case
  proof (cases "page (Some k)")
    case (Cons r rs)
    then have "key (last (r # rs)) < k" using page_behind[of "last (r # rs)" k] last_in_set[of "r # rs"] by simp
    with Suc Cons page_behind[of x k] show ?thesis by fastforce
  qed (use Suc in simp)
qed simp

lemma equal_key_lost:
  assumes "page after \<noteq> []" and "x \<notin> set (page after)" and "key x = key (last (page after))"
  shows "x \<notin> set (pages m key page after)"
proof (cases m)
  case (Suc k)
  then have "pages m key page after = page after @ pages k key page (Some (key (last (page after))))"
    using assms(1) by (cases "page after") simp_all
  with assms(2,3) pages_behind[of x k] show ?thesis by auto
qed simp

lemma strictly_descending:
  assumes "distinct (map key rows)"
  shows "sorted_wrt (\<lambda>x y. key y < key x) rows"
  using descending assms by (induction rows) (auto simp: less_le image_iff)

lemma pages_from:
  assumes "distinct (map key rows)" and "filter (\<lambda>x. opt_cond after (\<lambda>k. key x < k)) rows = rest" and "length rest \<le> m"
  shows "pages m key page after = rest"
  using assms(2,3)
proof (induction m arbitrary: after rest)
  case (Suc m)
  show ?case
  proof (cases rest)
    case Nil
    then show ?thesis using Suc.prems by (simp add: page)
  next
    case (Cons r rs)
    have p: "page after = take n rest" using Suc.prems(1) by (simp add: page)
    let ?k = "key (last (page after))"
    have ne: "page after \<noteq> []" using p Cons positive by simp
    have desc: "sorted_wrt (\<lambda>x y. key y < key x) rest"
      using sorted_wrt_filter[OF strictly_descending[OF assms(1)]] Suc.prems(1) by metis
    have split: "rest = page after @ drop n rest" by (simp add: p)
    have before: "\<not> key x < ?k" if "x \<in> set (page after)" for x
    proof -
      from desc have "sorted_wrt (\<lambda>x y. key y < key x) (page after)" unfolding p by (rule sorted_wrt_take)
      then have "sorted_wrt (\<lambda>x y. key y < key x) (butlast (page after) @ [last (page after)])" using ne by simp
      moreover have "x \<in> set (butlast (page after) @ [last (page after)])" using that ne by simp
      ultimately show ?thesis by (auto simp: sorted_wrt_append)
    qed
    have behind: "key x < ?k" if "x \<in> set (drop n rest)" for x
    proof -
      from desc have "sorted_wrt (\<lambda>x y. key y < key x) (page after @ drop n rest)" using split by simp
      then show ?thesis using that last_in_set[OF ne] by (auto simp: sorted_wrt_append)
    qed
    have smaller: "?k < k" if "after = Some k" for k
      using page_behind[of "last (page after)" k] last_in_set[OF ne] that by simp
    have "filter (\<lambda>x. opt_cond (Some ?k) (\<lambda>k. key x < k)) rows = filter (\<lambda>x. key x < ?k) rest"
    proof -
      have "filter (\<lambda>x. key x < ?k) rest = filter (\<lambda>x. opt_cond after (\<lambda>k. key x < k) \<and> key x < ?k) rows"
        unfolding Suc.prems(1)[symmetric] by simp
      also have "\<dots> = filter (\<lambda>x. key x < ?k) rows"
        by (rule filter_cong) (use smaller in \<open>auto simp: opt_cond_def split: option.splits intro: less_trans\<close>)
      finally show ?thesis by (simp add: opt_cond_def)
    qed
    also have "\<dots> = drop n rest"
      by (subst split) (use before behind in \<open>simp add: filter_empty_conv filter_id_conv\<close>)
    finally have "pages m key page (Some ?k) = drop n rest"
      using Suc.IH[of "Some ?k" "drop n rest"] Suc.prems(2) positive Cons by simp
    then have "pages (Suc m) key page after = page after @ drop n rest" using ne by (cases "page after") simp_all
    then show ?thesis using split by simp
  qed
qed (simp add: assms)

lemma pages_complete: "distinct (map key rows) \<Longrightarrow> length rows \<le> m \<Longrightarrow> pages m key page None = rows"
  by (rule pages_from) (simp_all add: opt_cond_def)

end

subsection \<open>The three tables are such tables\<close>

definition page_size :: "int \<Rightarrow> nat \<Rightarrow> nat" where
  "page_size lim k = (if lim = 0 then 3 else if 0 < lim then nat lim else Suc k)"

lemma sql_limit_take: "length rows \<le> k \<Longrightarrow> sql_limit (if lim = 0 then 3 else lim) rows = take (page_size lim k) rows"
  by (simp add: sql_limit_def page_size_def)

definition descending :: "('a \<Rightarrow> 'w :: len word) \<Rightarrow> 'a list \<Rightarrow> 'a list" where
  "descending key rows = sort_key (\<lambda>x. - uint (key x)) rows"

lemma descending_sorted: "sorted_wrt (\<lambda>x y. key y \<le> key x) (descending key rows)"
proof -
  have "sorted (map (\<lambda>x. - uint (key x)) (descending key rows))" by (simp add: descending_def)
  then show ?thesis by (simp add: sorted_map word_le_def)
qed

lemma mset_descending [simp]: "mset (descending key rows) = mset rows"
  by (simp add: descending_def)

text \<open>What \<open>select_page\<close> answers in descending order.\<close>

lemma select_page_descending:
  assumes "\<And>x. key (load d x) = key x" and "db_faults d = []"
  shows "select_page ''DESC'' lim (\<lambda>x. uint (key x))
      (\<lambda>d. filter (\<lambda>x. P x \<and> after_row ''DESC'' after (key x)) (rows d)) load d
    = (Ok (take (page_size lim (length (rows d))) (filter (\<lambda>x. opt_cond after (\<lambda>k. key x < k))
        (map (load d) (descending key (filter P (rows d)))))), d)"
proof -
  have "descending key (filter (\<lambda>x. P x \<and> after_row ''DESC'' after (key x)) (rows d))
      = filter (\<lambda>x. opt_cond after (\<lambda>k. key x < k)) (descending key (filter P (rows d)))" (is "?l = ?r")
    by (simp add: descending_def filter_sort after_row_def conj_commute)
  moreover have "length ?l \<le> length (rows d)" by (simp add: descending_def)
  ultimately show ?thesis
    using assms by (simp add: select_page_def direction_error_def to_upper_def query_def order_by_def sql_limit_take[of _ "length (rows d)"]
        filter_map comp_def take_map flip: descending_def)
qed

definition page_of :: "'b rows res \<times> db \<Rightarrow> 'b list" where
  "page_of r = (case fst r of Ok r \<Rightarrow> rs_rows r | _ \<Rightarrow> [])"

definition tx_page :: "reader \<Rightarrow> transactions_req \<Rightarrow> db \<Rightarrow> u64 option \<Rightarrow> transaction list" where
  "tx_page E f d after = page_of (filterTransactions E (f\<lparr>tr_order := ''DESC'', tr_after_tx_lt := after\<rparr>) (d\<lparr>db_faults := []\<rparr>))"

definition tx_rows :: "reader \<Rightarrow> transactions_req \<Rightarrow> db \<Rightarrow> transaction list" where
  "tx_rows E f d = map (load_tx E (tr_with_account_state f) (tr_with_messages f) (tr_exclude_column f) (d\<lparr>db_faults := []\<rparr>))
     (descending tx_created_lt (filter (tx_matches f) (re_scan_transactions E (pg_transactions d))))"

lemma page_of_total: "page_of (with_total (Ok rs, d) (query g)) = rs" if "db_faults d = []"
  using that by (simp add: page_of_def with_total_def query_def)

lemma load_tx_lt [simp]: "tx_created_lt (load_tx E a m excl d t) = tx_created_lt t"
  by (simp add: load_tx_def with_account_def with_messages_def Let_def)

lemma tx_page_eq:
  "tx_page E f d after = take (page_size (tr_limit f) (length (re_scan_transactions E (pg_transactions d))))
     (filter (\<lambda>x. opt_cond after (\<lambda>k. tx_created_lt x < k)) (tx_rows E f d))"
proof -
  have matches: "tx_matches (f\<lparr>tr_order := x, tr_after_tx_lt := y\<rparr>) = tx_matches f" for x y
    by (simp add: tx_matches_def fun_eq_iff)
  show ?thesis
    unfolding tx_page_def filterTransactions_def filterTx_def countTx_def
    by (simp add: matches select_page_descending page_of_total tx_rows_def)
qed

interpretation transaction_table: descending_pages tx_created_lt "tx_rows E f d"
    "page_size (tr_limit f) (length (re_scan_transactions E (pg_transactions d)))" "tx_page E f d" for E f d
proof unfold_locales
  show "sorted_wrt (\<lambda>x y. tx_created_lt y \<le> tx_created_lt x) (tx_rows E f d)"
    by (simp add: tx_rows_def sorted_wrt_map descending_sorted)
qed (simp_all add: page_size_def tx_page_eq)

definition msg_page :: "reader \<Rightarrow> messages_req \<Rightarrow> db \<Rightarrow> u64 option \<Rightarrow> message list" where
  "msg_page E f d after = page_of (filterMessages E (f\<lparr>mr_order := ''DESC'', mr_after_tx_lt := after\<rparr>) (d\<lparr>db_faults := []\<rparr>))"

definition msg_rows :: "reader \<Rightarrow> messages_req \<Rightarrow> db \<Rightarrow> message list" where
  "msg_rows E f d = descending ms_created_lt (filter (msg_matches f) (re_scan_messages E (pg_messages d)))"

lemma msg_page_eq:
  "msg_page E f d after = take (page_size (mr_limit f) (length (re_scan_messages E (pg_messages d))))
     (filter (\<lambda>x. opt_cond after (\<lambda>k. ms_created_lt x < k)) (msg_rows E f d))"
proof -
  have matches: "msg_matches (f\<lparr>mr_order := x, mr_after_tx_lt := y\<rparr>) = msg_matches f" for x y
    by (simp add: msg_matches_def fun_eq_iff)
  show ?thesis
    unfolding msg_page_def filterMessages_def filterMsg_def countMsg_def
    by (simp add: matches select_page_descending page_of_total msg_rows_def)
qed

interpretation message_table: descending_pages ms_created_lt "msg_rows E f d"
    "page_size (mr_limit f) (length (re_scan_messages E (pg_messages d)))" "msg_page E f d" for E f d
  by unfold_locales (simp_all add: page_size_def msg_page_eq msg_rows_def descending_sorted)

text \<open>The counts of blocks are those of their transactions, whichever blocks are read with them.\<close>

definition tx_count :: "reader \<Rightarrow> db \<Rightarrow> block \<Rightarrow> int" where
  "tx_count E d b = int (length (filter (tx_in_block (block_id_of b)) (re_scan_transactions E (pg_transactions d))))"

lemma group_tx_counts:
  assumes "b \<in> ids"
  shows "getCount (group_tx ids ts) b = int (length (filter (tx_in_block b) ts))"
proof -
  have same: "tx_block_id t = b \<longleftrightarrow> tx_in_block b t" for t
    by (cases b) (simp add: tx_in_block_def tx_block_id_def)
  have "getCount (fold (\<lambda>t c. if tx_block_id t \<in> ids then c(tx_block_id t \<mapsto> getCount c (tx_block_id t) + 1) else c) ts c) b
      = getCount c b + int (length (filter (tx_in_block b) ts))" for c
  proof (induction ts arbitrary: c)
    case (Cons t ts)
    then show ?case using assms same[of t] by (cases "tx_in_block b t") (auto simp: getCount_def)
  qed simp
  from this[of Map.empty] show ?thesis by (simp add: group_tx_def getCount_def)
qed

lemma countTransactions_eq:
  assumes "countTransactions E ret d = (Ok res, d')"
  shows "res = map (set_counts (tx_count E d)) ret \<and> (\<exists>fs. d' = d\<lparr>db_faults := fs\<rparr>)"
proof (cases "ret = []")
  case False
  define ids where "ids = set (map block_id_of (concat (map (\<lambda>m. bl_shards m @ [m]) ret)))"
  from assms False obtain counts where q: "query (\<lambda>d. group_tx ids (re_scan_transactions E (pg_transactions d))) d = (Ok counts, d')"
    and res: "res = map (set_counts (\<lambda>b. getCount counts (block_id_of b))) ret"
    unfolding countTransactions_def Let_def ids_def by (auto split: prod.splits res.splits)
  note counts = query_OkD[OF q]
  have "getCount counts (block_id_of b) = tx_count E d b" if "block_id_of b \<in> ids" for b
    using that counts by (simp add: tx_count_def group_tx_counts)
  then have "set_counts (\<lambda>b. getCount counts (block_id_of b)) m = set_counts (tx_count E d) m" if "m \<in> set ret" for m
    using that by (auto simp: set_counts_def ids_def)
  then have "res = map (set_counts (tx_count E d)) ret" by (simp add: res)
  with counts show ?thesis by blast
qed (use assms in \<open>auto simp: countTransactions_def intro: exI[of _ "db_faults d"]\<close>)

text \<open>
  C35. A block that is read shows the number of its own transactions, and so does each of its shards,
  whatever other blocks are on the page; the page holds blocks that match the request, behind the given
  one, each with all its shards.
\<close>

theorem blocks_counted:
  assumes "filterBlocks E f d = (Ok r, d')" and "br_with_shards f" and "set (re_scan_blocks E (map snd (pg_blocks d))) = set (map snd (pg_blocks d))"
    and "b \<in> set (rs_rows r)"
  shows "br_count b = tx_count E d (br_block b) \<and>
    (\<forall>s \<in> set (br_shards b). br_count s = tx_count E d (br_block s)) \<and>
    block_id_of ` br_block ` set (br_shards b) = block_id_of ` {s \<in> snd ` set (pg_blocks d). bl_master s = Some (block_id_of (br_block b))} \<and>
    (\<exists>m \<in> snd ` set (pg_blocks d). block_id_of m = block_id_of (br_block b) \<and> block_matches f m \<and>
      after_row (br_order f) (br_after_seqno f) (bl_seqno m))"
proof -
  from assms(1,4) obtain ret d1 d2 where page: "select_page (br_order f) (br_limit f) (\<lambda>b. uint (bl_seqno b))
        (\<lambda>d. filter (\<lambda>b. block_matches f b \<and> after_row (br_order f) (br_after_seqno f) (bl_seqno b)) (re_scan_blocks E (map snd (pg_blocks d))))
        (load_shards E f) d = (Ok ret, d1)"
    and count: "countTransactions E ret d1 = (Ok (rs_rows r), d2)"
    by (auto simp: filterBlocks_def filterBlockRows_def with_total_def split: prod.splits res.splits if_splits)
  let ?rows = "filter (\<lambda>b. block_matches f b \<and> after_row (br_order f) (br_after_seqno f) (bl_seqno b)) (re_scan_blocks E (map snd (pg_blocks d)))"
  have ret: "ret = map (load_shards E f d) (sql_limit (if br_limit f = 0 then 3 else br_limit f) (order_by (br_order f) (\<lambda>b. uint (bl_seqno b)) ?rows))"
    and d1: "\<exists>fs. d1 = d\<lparr>db_faults := fs\<rparr>"
    using page by (auto simp: select_page_def split: option.splits dest!: query_OkD)
  from countTransactions_eq[OF count] assms(4) obtain m where m: "m \<in> set ret" "b = set_counts (tx_count E d1) m" by auto
  from m(1) ret obtain x where x: "x \<in> set ?rows" "m = load_shards E f d x"
    by (auto simp: sql_limit_def order_by_def split: if_splits dest!: in_set_takeD)
  have id: "block_id_of (load_block E f d y zs) = block_id_of y" for y zs by (simp add: load_block_def block_id_of_def)
  have "tx_count E d1 = tx_count E d" using d1 by (auto simp: tx_count_def fun_eq_iff)
  moreover have "x \<in> snd ` set (pg_blocks d)" "block_matches f x" "after_row (br_order f) (br_after_seqno f) (bl_seqno x)"
    using x(1) assms(3) by auto
  moreover have "bl_shards m = map (\<lambda>s. load_block E f d s []) (filter (\<lambda>s. bl_master s = Some (block_id_of x)) (re_scan_blocks E (map snd (pg_blocks d))))"
    using assms(2) by (simp add: x(2) load_shards_def load_block_def)
  ultimately show ?thesis
    using assms(3) by (auto simp: m(2) set_counts_def x(2) load_shards_def id image_image)
qed

text \<open>A reader over tables with the keys \<open>[1]\<close> to \<open>[3]\<close>.\<close>

definition ex_reader :: reader where
  "ex_reader = \<lparr>re_scan_transactions = (\<lambda>t. List.map_filter t [[1], [2], [3]]), re_scan_messages = (\<lambda>t. List.map_filter t [[1], [2], [3]]),
     re_scan_blocks = (\<lambda>bs. bs), re_exclude = (\<lambda>_ a. a)\<rparr>"

definition ex_block :: "i32 \<Rightarrow> u32 \<Rightarrow> block_id option \<Rightarrow> block" where
  "ex_block w n m = Block w 0 n [] [] m [] [] [] time_zero"

definition ex_tx :: "u64 \<Rightarrow> u32 \<Rightarrow> transaction" where
  "ex_tx lt n = transaction_zero\<lparr>tx_hash := [ucast lt, ucast n], tx_created_lt := lt, tx_workchain := 0, tx_block_seqno := n\<rparr>"

definition ex_reads_db :: db where
  "ex_reads_db = db_empty\<lparr>pg_blocks := [([1], ex_block (-1) 5 None), ([2], ex_block 0 8 (Some (block_id_of (ex_block (-1) 5 None))))],
     pg_transactions := [[1] \<mapsto> ex_tx 20 8, [2] \<mapsto> ex_tx 21 8]\<rparr>"

lemmas reads_eval = filterBlocks_def filterBlockRows_def select_page_def direction_error_def with_total_def query_def
  countTransactions_def countBlocks_def sql_limit_def order_by_def blocks_req_zero_def ex_reads_db_def db_empty_def ex_reader_def
  block_matches_def list_cond_def opt_cond_def after_row_def load_shards_def load_block_def ex_block_def block_id_of_def

theorem blocks_counted_witness:
  "\<exists>r d' b. filterBlocks ex_reader (blocks_req_zero\<lparr>br_workchain := Some (-1), br_with_shards := True\<rparr>) ex_reads_db = (Ok r, d') \<and>
    rs_rows r = [b] \<and> br_count b = 0 \<and> map br_count (br_shards b) = [2]"
proof -
  let ?f = "blocks_req_zero\<lparr>br_workchain := Some (-1), br_with_shards := True\<rparr>"
  have "\<exists>b. filterBlocks ex_reader ?f ex_reads_db = (Ok \<lparr>rs_total = 0, rs_rows = [b]\<rparr>, ex_reads_db) \<and>
      bl_workchain (br_block b) = -1 \<and> (\<exists>s. br_shards b = [s] \<and> block_id_of (br_block s) = block_id_of (ex_block 0 8 None)) \<and>
      block_id_of (br_block b) = block_id_of (ex_block (-1) 5 None)"
    by (simp add: reads_eval set_counts_def Let_def)
  then obtain b s where run: "filterBlocks ex_reader ?f ex_reads_db = (Ok \<lparr>rs_total = 0, rs_rows = [b]\<rparr>, ex_reads_db)"
    and b: "block_id_of (br_block b) = block_id_of (ex_block (-1) 5 None)" "br_shards b = [s]"
      "block_id_of (br_block s) = block_id_of (ex_block 0 8 None)" by blast
  have "br_count b = tx_count ex_reader ex_reads_db (br_block b) \<and> (\<forall>s \<in> set (br_shards b). br_count s = tx_count ex_reader ex_reads_db (br_block s))"
    using blocks_counted[OF run, of b] by (simp add: ex_reader_def blocks_req_zero_def)
  moreover have "tx_count ex_reader ex_reads_db (br_block b) = 0" "tx_count ex_reader ex_reads_db (br_block s) = 2"
    unfolding tx_count_def b by (simp_all add: reads_eval tx_in_block_def ex_tx_def transaction_zero_def List.map_filter_def)
  ultimately show ?thesis using run b(2) by auto
qed

text \<open>
  C23. Reading all transactions of a request in pages, newest first and each page behind the last
  transaction of the one before, gives every matching transaction exactly once, whatever the limit, as long as
  no two of them have the same logical time.
\<close>

theorem transaction_pages_complete:
  assumes "set (re_scan_transactions E (pg_transactions d)) = ran (pg_transactions d)"
    and "distinct (map tx_created_lt (filter (tx_matches f) (re_scan_transactions E (pg_transactions d))))"
    and "length (re_scan_transactions E (pg_transactions d)) \<le> m"
  shows "tx_hash ` set (pages m tx_created_lt (tx_page E f d) None) = tx_hash ` {t \<in> ran (pg_transactions d). tx_matches f t} \<and>
    sorted_wrt (\<lambda>s t. tx_created_lt t < tx_created_lt s) (pages m tx_created_lt (tx_page E f d) None)"
proof -
  let ?load = "load_tx E (tr_with_account_state f) (tr_with_messages f) (tr_exclude_column f) (d\<lparr>db_faults := []\<rparr>)"
  have lts: "map tx_created_lt (tx_rows E f d) = map tx_created_lt (descending tx_created_lt (filter (tx_matches f) (re_scan_transactions E (pg_transactions d))))"
    by (simp add: tx_rows_def)
  also have "distinct \<dots>"
    using assms(2) mset_eq_imp_distinct_iff[of "map tx_created_lt (descending tx_created_lt (filter (tx_matches f) (re_scan_transactions E (pg_transactions d))))"
      "map tx_created_lt (filter (tx_matches f) (re_scan_transactions E (pg_transactions d)))"] by simp
  finally have dist: "distinct (map tx_created_lt (tx_rows E f d))" .
  have "length (tx_rows E f d) \<le> m"
    using le_trans[OF length_filter_le assms(3)] by (simp add: tx_rows_def descending_def)
  note all = transaction_table.pages_complete[OF dist this]
  have "tx_hash (?load t) = tx_hash t" for t by (simp add: load_tx_def with_account_def with_messages_def Let_def)
  then have "tx_hash ` set (tx_rows E f d) = tx_hash ` {t \<in> ran (pg_transactions d). tx_matches f t}"
    by (simp add: tx_rows_def image_image descending_def assms(1))
  moreover have "sorted_wrt (\<lambda>s t. tx_created_lt t < tx_created_lt s) (tx_rows E f d)"
    by (rule transaction_table.strictly_descending[OF dist])
  ultimately show ?thesis by (simp only: all)
qed

definition ex_tx_req :: transactions_req where
  "ex_tx_req = transactions_req_zero\<lparr>tr_limit := 1\<rparr>"

lemma ex_tx_req_all: "tx_matches ex_tx_req t"
  by (simp add: ex_tx_req_def tx_matches_def transactions_req_zero_def list_cond_def opt_cond_def)

theorem transaction_pages_complete_witness:
  "tx_hash ` set (pages 3 tx_created_lt (tx_page ex_reader ex_tx_req ex_reads_db) None) = tx_hash ` {ex_tx 20 8, ex_tx 21 8}"
proof -
  have ran: "ran (pg_transactions ex_reads_db) = {ex_tx 20 8, ex_tx 21 8}"
    by (simp add: ex_reads_db_def db_empty_def insert_commute)
  have scan: "re_scan_transactions ex_reader (pg_transactions ex_reads_db) = [ex_tx 20 8, ex_tx 21 8]"
    by (simp add: ex_reader_def ex_reads_db_def db_empty_def List.map_filter_def)
  have match: "{t \<in> {ex_tx 20 8, ex_tx 21 8}. tx_matches ex_tx_req t} = {ex_tx 20 8, ex_tx 21 8}"
    using ex_tx_req_all by blast
  have "distinct (map tx_created_lt (filter (tx_matches ex_tx_req) [ex_tx 20 8, ex_tx 21 8]))"
    by (simp add: ex_tx_req_all) (simp add: ex_tx_def)
  then show ?thesis
    using transaction_pages_complete[of ex_reader ex_reads_db ex_tx_req 3] unfolding scan ran match
    by (simp add: insert_commute)
qed

text \<open>
  Logical times repeat across accounts and shards: a transaction with the time of the last one of a page that
  is not on the page itself is on no later page either.
\<close>

theorem equal_lt_transaction_lost:
  assumes "tx_page E f d after \<noteq> []" and "x \<notin> set (tx_page E f d after)"
    and "tx_created_lt x = tx_created_lt (last (tx_page E f d after))"
  shows "x \<notin> set (pages m tx_created_lt (tx_page E f d) after)"
  by (rule transaction_table.equal_key_lost[OF assms])

definition ex_twins_db :: db where
  "ex_twins_db = db_empty\<lparr>pg_transactions := [[1] \<mapsto> ex_tx 20 8, [2] \<mapsto> ex_tx 20 9]\<rparr>"

theorem equal_lt_transaction_lost_witness:
  "tx_matches ex_tx_req (ex_tx 20 9) \<and> ex_tx 20 9 \<in> ran (pg_transactions ex_twins_db) \<and>
   ex_tx 20 9 \<notin> set (pages 5 tx_created_lt (tx_page ex_reader ex_tx_req ex_twins_db) None)"
proof -
  have scan: "re_scan_transactions ex_reader (pg_transactions ex_twins_db) = [ex_tx 20 8, ex_tx 20 9]"
    by (simp add: ex_reader_def ex_twins_db_def db_empty_def List.map_filter_def)
  have rows: "tx_rows ex_reader ex_tx_req ex_twins_db = [ex_tx 20 8, ex_tx 20 9]"
    by (simp add: tx_rows_def scan ex_tx_req_all) (simp add: descending_def load_tx_def ex_tx_req_def transactions_req_zero_def ex_tx_def)
  have size: "page_size (tr_limit ex_tx_req) k = 1" for k by (simp add: ex_tx_req_def page_size_def)
  have page: "tx_page ex_reader ex_tx_req ex_twins_db None = [ex_tx 20 8]"
    by (simp add: tx_page_eq rows opt_cond_def size)
  have "ex_tx 20 9 \<noteq> ex_tx 20 8" by (simp add: ex_tx_def transaction_zero_def)
  then have "ex_tx 20 9 \<notin> set (pages 5 tx_created_lt (tx_page ex_reader ex_tx_req ex_twins_db) None)"
    by (intro equal_lt_transaction_lost) (simp_all add: page, simp add: ex_tx_def)
  moreover have "ex_tx 20 9 \<in> ran (pg_transactions ex_twins_db)" by (simp add: ex_twins_db_def db_empty_def)
  ultimately show ?thesis using ex_tx_req_all by blast
qed

end
