(* ===== verification/Query.thy ===== *)
theory Query
  imports Reads Stats ContractRepo Fetcher
begin

section \<open>internal/app/query: the service behind the API\<close>

text \<open>
  The service reads the repositories, adds the states of the addresses that the indexer skips, which
  it asks a node for, and fills the descriptions of get methods in. Its state is the database and the cache of the
  contract repository. The orders of the reads and of ranges over maps, the node and the
  libraries are in the environment.
\<close>

record query_env =
  qe_reader :: reader
  qe_states :: "account_state key_order"
  qe_hashes :: "bytes key_order"
  qe_stats :: stat_orders
  qe_messages :: "message key_order"
  qe_other_order :: "string \<Rightarrow> (addr \<times> int \<times> int) list \<Rightarrow> (addr \<times> int \<times> int) list"
  qe_rounding :: rounding
  qe_wallets :: "contract_name list"
  qe_addresses :: "addr key_order"
  qe_interfaces :: "contract_name key_order"
  qe_api :: node_api
  qe_addr :: addr_lib
  qe_cell :: cell_lib
  qe_clock :: clock2

type_synonym query_state = "db \<times> contract_cache"

subsection \<open>Skipped addresses\<close>

text \<open>A pointer to an address in a request may be nil; the database compares it as a value that no row has.\<close>

definition address_arg :: "addr option \<Rightarrow> addr" where
  "address_arg a = (case a of None \<Rightarrow> [] | Some a \<Rightarrow> a)"

definition skipped_addresses :: "query_env \<Rightarrow> addr list \<Rightarrow> account_state list \<Rightarrow> addr list" where
  "skipped_addresses E addrs rows =
     filter (\<lambda>a. a \<notin> acc_address ` set rows \<and> skip_address (qe_addr E) a) (qe_addresses E (remdups addrs))"

definition block_ext_of :: "block \<Rightarrow> block_ext" where
  "block_ext_of b = \<lparr>be_workchain = bl_workchain b, be_shard = bl_shard b, be_seqno = bl_seqno b,
     be_root = bl_root_hash b, be_file = bl_file_hash b\<rparr>"

definition fetch_skipped :: "query_env \<Rightarrow> block_ext \<Rightarrow> addr \<Rightarrow> db \<Rightarrow> account_state res \<times> db" where
  "fetch_skipped E master a d =
     (case to_tonutils (qe_addr E) a of
        Err e \<Rightarrow> (Err (Wrap e ''parse address''), d)
      | Panic p \<Rightarrow> (Panic p, d)
      | Ok tu \<Rightarrow>
        (case na_account (qe_api E) master tu of
           Err e \<Rightarrow> (Err (Wrap e (''get '' @ addr_base64 (qe_addr E) a @ '' account'')), d)
         | Panic p \<Rightarrow> (Panic p, d)
         | Ok acc \<Rightarrow>
           (case map_account (qe_cell E) master acc of
              Err e \<Rightarrow> (Err e, d)
            | Panic p \<Rightarrow> (Panic p, d)
            | Ok parsed \<Rightarrow>
              (case getAddressLabel a d of
                 (Ok l, d) \<Rightarrow> (Ok (parsed\<lparr>acc_label := Some l\<rparr>), d)
               | (Err e, d) \<Rightarrow> if err_is e ErrNotFound then (Ok (parsed\<lparr>acc_label := None\<rparr>), d) else (Err (Wrap e ''get address label''), d)
               | (Panic p, d) \<Rightarrow> (Panic p, d)))))"

fun fetch_all_skipped :: "query_env \<Rightarrow> block_ext \<Rightarrow> addr list \<Rightarrow> account_state rows \<Rightarrow> db \<Rightarrow> account_state rows res \<times> db" where
  "fetch_all_skipped E master [] res d = (Ok res, d)"
| "fetch_all_skipped E master (a # as) res d =
     (case fetch_skipped E master a d of
        (Ok parsed, d) \<Rightarrow> fetch_all_skipped E master as (res\<lparr>rs_total := rs_total res + 1, rs_rows := rs_rows res @ [parsed]\<rparr>) d
      | (Err e, d) \<Rightarrow> (Err e, d)
      | (Panic p, d) \<Rightarrow> (Panic p, d))"

text \<open>Historical states of skipped addresses are not available. Every address of the request is dereferenced.\<close>

definition fetchSkippedAccounts :: "query_env \<Rightarrow> bool \<Rightarrow> addr option list \<Rightarrow> account_state rows \<Rightarrow> db \<Rightarrow> account_state rows res \<times> db" where
  "fetchSkippedAccounts E latest addrs res d =
     (if \<not> latest then (Ok res, d)
      else if None \<in> set addrs then (Panic ''invalid memory address or nil pointer dereference'', d)
      else let skipped = skipped_addresses E (map address_arg addrs) (rs_rows res)
           in if skipped = [] then (Ok res, d)
              else (case getLastMasterBlock d of
                      (Ok b, d) \<Rightarrow> fetch_all_skipped E (block_ext_of b) skipped res d
                    | (Err e, d) \<Rightarrow> (Err (Wrap e ''get last master block''), d)
                    | (Panic p, d) \<Rightarrow> (Panic p, d)))"

subsection \<open>Descriptions of get methods\<close>

fun describe_methods :: "contract_cache \<Rightarrow> contract_name \<Rightarrow> get_method_execution list \<Rightarrow> db \<Rightarrow> get_method_execution list res \<times> db" where
  "describe_methods c name [] d = (Ok [], d)"
| "describe_methods c name (m # ms) d =
     (case getMethodDescription name (ge_name m) c d of
        (Ok desc, d) \<Rightarrow>
          (case describe_methods c name ms d of
             (Ok ms, d) \<Rightarrow> (Ok (m\<lparr>ge_arguments := gm_arguments desc, ge_return_values := gm_returns desc\<rparr> # ms), d)
           | r \<Rightarrow> r)
      | (Err e, d) \<Rightarrow> (Err (Wrap e (''cannot get '' @ ge_name m @ '' get-method description of contract '' @ name)), d)
      | (Panic p, d) \<Rightarrow> (Panic p, d))"

fun describe_interfaces :: "contract_cache \<Rightarrow> (contract_name \<times> get_method_execution list) list \<Rightarrow> db \<Rightarrow>
    (contract_name \<times> get_method_execution list) list res \<times> db" where
  "describe_interfaces c [] d = (Ok [], d)"
| "describe_interfaces c ((name, ms) # rest) d =
     (case describe_methods c name ms d of
        (Ok ms, d) \<Rightarrow> (case describe_interfaces c rest d of (Ok rest, d) \<Rightarrow> (Ok ((name, ms) # rest), d) | r \<Rightarrow> r)
      | (Err e, d) \<Rightarrow> (Err e, d)
      | (Panic p, d) \<Rightarrow> (Panic p, d))"

fun describe_accounts :: "contract_name key_order \<Rightarrow> contract_cache \<Rightarrow> account_state list \<Rightarrow> db \<Rightarrow> account_state list res \<times> db" where
  "describe_accounts ord c [] d = (Ok [], d)"
| "describe_accounts ord c (r # rs) d =
     (case acc_executed r of
        None \<Rightarrow> (case describe_accounts ord c rs d of (Ok rs, d) \<Rightarrow> (Ok (r # rs), d) | x \<Rightarrow> x)
      | Some m \<Rightarrow>
          (case describe_interfaces c (range_map ord m) d of
             (Ok m, d) \<Rightarrow> (case describe_accounts ord c rs d of (Ok rs, d) \<Rightarrow> (Ok (r\<lparr>acc_executed := Some m\<rparr> # rs), d) | x \<Rightarrow> x)
           | (Err e, d) \<Rightarrow> (Err e, d)
           | (Panic p, d) \<Rightarrow> (Panic p, d)))"

definition addGetMethodDescription :: "query_env \<Rightarrow> account_state list \<Rightarrow> query_state \<Rightarrow> account_state list res \<times> query_state" where
  "addGetMethodDescription E rows w =
     (case getInterfaces (qe_clock E) (fst w) (snd w) of
        (Ok _, d, c) \<Rightarrow> (case describe_accounts (qe_interfaces E) c rows d of (r, d) \<Rightarrow> (r, d, c))
      | (Err e, w) \<Rightarrow> (Err (Wrap e ''get contract interfaces''), w)
      | (Panic p, w) \<Rightarrow> (Panic p, w))"

subsection \<open>The operations of the service\<close>

definition query_FilterAccounts :: "query_env \<Rightarrow> accounts_req \<Rightarrow> addr option list \<Rightarrow> query_state \<Rightarrow> account_state rows res \<times> query_state" where
  "query_FilterAccounts E req addrs w =
     (case filterAccounts (qe_states E) (re_exclude (qe_reader E)) (qe_hashes E) (req\<lparr>ar_addresses := map address_arg addrs\<rparr>) (fst w) of
        (Err e, d) \<Rightarrow> (Err e, d, snd w)
      | (Panic p, d) \<Rightarrow> (Panic p, d, snd w)
      | (Ok res, d) \<Rightarrow>
        (case fetchSkippedAccounts E (ar_latest_state req) addrs res d of
           (Err e, d) \<Rightarrow> (Err e, d, snd w)
         | (Panic p, d) \<Rightarrow> (Panic p, d, snd w)
         | (Ok res, d) \<Rightarrow>
           (case addGetMethodDescription E (rs_rows res) (d, snd w) of
              (Ok rows, w) \<Rightarrow> (Ok (res\<lparr>rs_rows := rows\<rparr>), w)
            | (Err e, w) \<Rightarrow> (Err e, w)
            | (Panic p, w) \<Rightarrow> (Panic p, w))))"

text \<open>An operation of a repository that does not use the cache.\<close>

definition on_db :: "(db \<Rightarrow> 'a res \<times> db) \<Rightarrow> query_state \<Rightarrow> 'a res \<times> query_state" where
  "on_db f w = (case f (fst w) of (r, d) \<Rightarrow> (r, d, snd w))"

definition query_GetStatistics :: "query_env \<Rightarrow> query_state \<Rightarrow> statistics res \<times> query_state" where
  "query_GetStatistics E = on_db (getStatistics (qe_stats E))"

definition query_GetDefinitions :: "query_state \<Rightarrow> (tlb_type \<rightharpoonup> tlb_fields) res \<times> query_state" where
  "query_GetDefinitions = on_db getDefinitions"

definition query_GetInterfaces :: "query_env \<Rightarrow> query_state \<Rightarrow> contract_interface list res \<times> query_state" where
  "query_GetInterfaces E w = (case getInterfaces (qe_clock E) (fst w) (snd w) of (r, d, c) \<Rightarrow> (r, d, c))"

definition query_GetOperations :: "query_env \<Rightarrow> query_state \<Rightarrow> contract_operation list res \<times> query_state" where
  "query_GetOperations E w = (case getOperations (qe_clock E) (fst w) (snd w) of (r, d, c) \<Rightarrow> (r, d, c))"

definition query_FilterBlocks :: "query_env \<Rightarrow> blocks_req \<Rightarrow> query_state \<Rightarrow> block_read rows res \<times> query_state" where
  "query_FilterBlocks E req = on_db (filterBlocks (qe_reader E) req)"

definition query_GetLabelCategories :: "string list" where
  "query_GetLabelCategories = [''scam'', ''centralized_exchange'']"

definition query_FilterLabels :: "(db \<Rightarrow> address_label list) \<Rightarrow> labels_req \<Rightarrow> query_state \<Rightarrow> address_label rows res \<times> query_state" where
  "query_FilterLabels rows req = on_db (filterLabels rows req)"

definition query_AggregateAccounts :: "query_env \<Rightarrow> aggregate_accounts_req \<Rightarrow> query_state \<Rightarrow> aggregate_accounts_res res \<times> query_state" where
  "query_AggregateAccounts E req = on_db (aggregateAccounts (qe_states E) req)"

definition query_AggregateAccountsHistory :: "query_env \<Rightarrow> accounts_history_req \<Rightarrow> query_state \<Rightarrow> (int \<times> gotime) list res \<times> query_state" where
  "query_AggregateAccountsHistory E req = on_db (aggregateAccountsHistory (qe_rounding E) (qe_wallets E) req)"

definition query_FilterTransactions :: "query_env \<Rightarrow> transactions_req \<Rightarrow> query_state \<Rightarrow> transaction rows res \<times> query_state" where
  "query_FilterTransactions E req = on_db (filterTransactions (qe_reader E) req)"

definition query_AggregateTransactionsHistory :: "query_env \<Rightarrow> transactions_history_req \<Rightarrow> query_state \<Rightarrow> (int \<times> gotime) list res \<times> query_state" where
  "query_AggregateTransactionsHistory E req = on_db (aggregateTransactionsHistory (qe_rounding E) req)"

definition query_FilterMessages :: "query_env \<Rightarrow> messages_req \<Rightarrow> query_state \<Rightarrow> message rows res \<times> query_state" where
  "query_FilterMessages E req w =
     (if mr_operation_id req \<noteq> None \<and> mr_operation_names req \<noteq> []
      then (Err (Wrap ErrInvalidArg ''filter is available either on operation name or operation id''), w)
      else on_db (filterMessages (qe_reader E) req) w)"

definition query_AggregateMessages :: "query_env \<Rightarrow> aggregate_messages_req \<Rightarrow> query_state \<Rightarrow> aggregate_messages_res res \<times> query_state" where
  "query_AggregateMessages E req = on_db (aggregateMessages (qe_messages E) (qe_other_order E) req)"

definition query_AggregateMessagesHistory :: "query_env \<Rightarrow> messages_history_req \<Rightarrow> query_state \<Rightarrow> (int \<times> gotime) list res \<times> query_state" where
  "query_AggregateMessagesHistory E req = on_db (aggregateMessagesHistory (qe_rounding E) req)"

subsection \<open>What the service adds\<close>

text \<open>The states of skipped addresses come behind the page, and the total counts them.\<close>

lemma fetch_all_skipped_Ok:
  "fetch_all_skipped E master as res d = (Ok res', d') \<Longrightarrow>
    \<exists>xs. rs_rows res' = rs_rows res @ xs \<and> length xs = length as \<and> rs_total res' = rs_total res + int (length as)"
proof (induction as arbitrary: res d)
  case (Cons a as)
  then obtain parsed d1 where "fetch_all_skipped E master as (res\<lparr>rs_total := rs_total res + 1, rs_rows := rs_rows res @ [parsed]\<rparr>) d1 = (Ok res', d')"
    by (auto split: prod.splits res.splits)
  from Cons.IH[OF this] obtain xs where "rs_rows res' = rs_rows res @ parsed # xs \<and> length xs = length as \<and>
      rs_total res' = rs_total res + 1 + int (length as)" by auto
  then show ?case by (intro exI[of _ "parsed # xs"]) simp
qed simp

lemma skipped_accounts_appended:
  assumes "fetchSkippedAccounts E True (map Some addrs) res d = (Ok res', d')"
  shows "\<exists>xs. rs_rows res' = rs_rows res @ xs \<and> rs_total res' = rs_total res + int (length xs) \<and>
    length xs = length (skipped_addresses E addrs (rs_rows res))"
proof -
  have args: "map address_arg (map Some addrs) = addrs" by (simp add: address_arg_def comp_def)
  have "None \<notin> set (map Some addrs)" by auto
  with assms show ?thesis
    unfolding fetchSkippedAccounts_def args Let_def
    by (auto split: if_splits prod.splits res.splits dest!: fetch_all_skipped_Ok intro: exI[of _ "[]"])
qed

text \<open>
  An account whose executed get method is described by no interface any more: every page with this
  account fails until a rescan has removed the execution.
\<close>

definition described :: "contract_cache \<Rightarrow> db \<Rightarrow> contract_name \<Rightarrow> string \<Rightarrow> bool" where
  "described c d name method \<longleftrightarrow> cache_getMethodDesc c name method \<noteq> None \<or>
     (\<exists>i \<in> set (pg_interfaces d). ci_name i = name \<and> (\<exists>g \<in> set (ci_get_methods i). gm_name g = method))"

lemma getMethodDescription_Ok:
  assumes "getMethodDescription name method c d = (Ok desc, d')"
  shows "described c d name method \<and> pg_interfaces d' = pg_interfaces d"
proof (cases "cache_getMethodDesc c name method")
  case None
  obtain found d1 where q: "query (\<lambda>d. find (\<lambda>r. ci_name r = name) (pg_interfaces d)) d = (found, d1)" by fastforce
  with assms None obtain i where i: "found = Ok (Some i)" and g: "find (\<lambda>g. gm_name g = method) (ci_get_methods i) = Some desc" and d': "d' = d1"
    by (cases found) (auto simp: getMethodDescription_def split: option.splits)
  from query_OkD[OF q[unfolded i]] have "find (\<lambda>r. ci_name r = name) (pg_interfaces d) = Some i" "pg_interfaces d1 = pg_interfaces d"
    by auto
  moreover from this g have "i \<in> set (pg_interfaces d)" "ci_name i = name" "desc \<in> set (ci_get_methods i)" "gm_name desc = method"
    by (auto simp: find_Some_iff)
  ultimately show ?thesis using d' by (auto simp: described_def)
qed (use assms in \<open>auto simp: getMethodDescription_def described_def\<close>)

lemma describe_methods_Ok:
  "describe_methods c name ms d = (Ok ms', d') \<Longrightarrow> (\<forall>m \<in> set ms. described c d name (ge_name m)) \<and> pg_interfaces d' = pg_interfaces d"
proof (induction ms arbitrary: ms' d)
  case (Cons m ms)
  then obtain desc d1 ms1 where first: "getMethodDescription name (ge_name m) c d = (Ok desc, d1)"
    and rest: "describe_methods c name ms d1 = (Ok ms1, d')"
    by (auto split: prod.splits res.splits)
  show ?case using getMethodDescription_Ok[OF first] Cons.IH[OF rest] by (simp add: described_def)
qed simp

lemma describe_interfaces_Ok:
  "describe_interfaces c m d = (Ok m', d') \<Longrightarrow>
    (\<forall>(name, ms) \<in> set m. \<forall>g \<in> set ms. described c d name (ge_name g)) \<and> pg_interfaces d' = pg_interfaces d"
proof (induction m arbitrary: m' d)
  case (Cons p m)
  obtain name ms where p: "p = (name, ms)" by (cases p)
  with Cons.prems obtain ms1 d1 m1 where first: "describe_methods c name ms d = (Ok ms1, d1)"
    and rest: "describe_interfaces c m d1 = (Ok m1, d')"
    by (auto split: prod.splits res.splits)
  show ?case using describe_methods_Ok[OF first] Cons.IH[OF rest] by (auto simp: p described_def)
qed simp

lemma describe_accounts_Ok:
  assumes "range_order ord"
  shows "describe_accounts ord c rs d = (Ok rs', d') \<Longrightarrow> r \<in> set rs \<Longrightarrow> acc_executed r = Some m \<Longrightarrow> distinct (map fst m) \<Longrightarrow>
    (name, ms) \<in> set m \<Longrightarrow> g \<in> set ms \<Longrightarrow> described c d name (ge_name g)"
proof (induction rs arbitrary: rs' d)
  case (Cons x rs)
  show ?case
  proof (cases "acc_executed x")
    case None
    then show ?thesis using Cons by (auto split: prod.splits res.splits)
  next
    case (Some mx)
    with Cons.prems(1) obtain m1 d1 rs1 where first: "describe_interfaces c (range_map ord mx) d = (Ok m1, d1)"
      and rest: "describe_accounts ord c rs d1 = (Ok rs1, d')"
      by (auto split: prod.splits res.splits)
    note all = describe_interfaces_Ok[OF first]
    show ?thesis
    proof (cases "r = x")
      case True
      then have "(name, ms) \<in> set (range_map ord mx)" using Cons.prems(3-5) Some by (simp add: set_range_map[OF assms])
      with all Cons.prems(6) show ?thesis by fastforce
    next
      case False
      then have "described c d1 name (ge_name g)" using Cons.IH[OF rest] Cons.prems by simp
      with all show ?thesis by (simp add: described_def)
    qed
  qed
qed simp

lemma undescribed_method_fails:
  assumes "range_order (qe_interfaces E)" and "r \<in> set rows" and "acc_executed r = Some m" and "distinct (map fst m)"
    and "(name, ms) \<in> set m" and "g \<in> set ms"
    and "getInterfaces (qe_clock E) d c = (Ok is, d1, c1)" and "\<not> described c1 d1 name (ge_name g)"
  shows "\<not> is_ok (fst (addGetMethodDescription E rows (d, c)))"
proof
  assume "is_ok (fst (addGetMethodDescription E rows (d, c)))"
  then obtain rs d2 where "describe_accounts (qe_interfaces E) c1 rows d1 = (Ok rs, d2)"
    using assms(7) by (auto simp: addGetMethodDescription_def elim!: is_ok.elims split: prod.splits)
  from describe_accounts_Ok[OF assms(1) this assms(2-6)] assms(8) show False by blast
qed

end
