(* ===== verification/Base64.thy ===== *)
theory Base64
  imports Prelude
begin

section \<open>The standard base64 encoding\<close>

text \<open>
  Decoding as \<open>encoding/base64\<close> of Go's library does it, which the API uses for hashes and the
  contract command for the code of an interface.
\<close>

text \<open>\<open>base64.StdEncoding\<close>: groups of four characters, the last one padded; line ends are skipped.\<close>

definition std64_val :: "char \<Rightarrow> nat option" where
  "std64_val c =
     (let n = of_char c :: nat in
      if 65 \<le> n \<and> n \<le> 90 then Some (n - 65)
      else if 97 \<le> n \<and> n \<le> 122 then Some (n - 71)
      else if 48 \<le> n \<and> n \<le> 57 then Some (n + 4)
      else if n = 43 then Some 62 else if n = 47 then Some 63 else None)"

fun std64_groups :: "string \<Rightarrow> bytes res" where
  "std64_groups [] = Ok []"
| "std64_groups (a # b # c # d # cs) =
     (case (std64_val a, std64_val b, std64_val c, std64_val d) of
        (Some i, Some j, Some k, Some l) \<Rightarrow>
          rbind (std64_groups cs) (\<lambda>bs. Ok (word_of_nat (4 * i + j div 16) # word_of_nat (16 * j + k div 4) # word_of_nat (64 * k + l) # bs))
      | (Some i, Some j, Some k, None) \<Rightarrow>
          if d = CHR ''='' \<and> cs = [] then Ok [word_of_nat (4 * i + j div 16), word_of_nat (16 * j + k div 4)]
          else Err (ErrText ''illegal base64 data'')
      | (Some i, Some j, None, _) \<Rightarrow>
          if c = CHR ''='' \<and> d = CHR ''='' \<and> cs = [] then Ok [word_of_nat (4 * i + j div 16)]
          else Err (ErrText ''illegal base64 data'')
      | _ \<Rightarrow> Err (ErrText ''illegal base64 data''))"
| "std64_groups cs = Err (ErrText ''illegal base64 data'')"

definition std64_decode :: "string \<Rightarrow> bytes res" where
  "std64_decode s = std64_groups (filter (\<lambda>c. c \<noteq> CHR 0x0A \<and> c \<noteq> CHR 0x0D) s)"

end
