(* ===== verification/Api.thy ===== *)
theory Api
  imports Query Base64
begin

section \<open>internal/api/http: the handlers of the API\<close>

text \<open>
  A handler reads its parameters from the query of the URL, calls the service and replies. What gin binds to
  the fields of a request is an argument; the parameters the handlers decode themselves are modelled,
  with the checks of the values.
\<close>

type_synonym url_query = "string \<Rightarrow> string list"

text \<open>A panic of a handler is caught by gin.\<close>

datatype 'a reply = Success 'a | ParamErr string goerr | InternalErr nat goerr | Crash string

definition ctx_query :: "url_query \<Rightarrow> string \<Rightarrow> string" where
  "ctx_query q name = (case q name of [] \<Rightarrow> [] | v # vs \<Rightarrow> v)"

definition internalErr :: "goerr \<Rightarrow> 'a reply" where
  "internalErr e = (if err_is e ErrInvalidArg then InternalErr 400 e else InternalErr 500 e)"

definition answer :: "('a \<Rightarrow> 'b) \<Rightarrow> 'a res \<times> query_state \<Rightarrow> 'b reply \<times> query_state" where
  "answer f r = (case r of (Ok x, w) \<Rightarrow> (Success (f x), w) | (Err e, w) \<Rightarrow> (internalErr e, w) | (Panic p, w) \<Rightarrow> (Crash p, w))"

text \<open>The result of a check or of a decoder, or a reply about a parameter.\<close>

definition param :: "string \<Rightarrow> 'a res \<Rightarrow> ('a \<Rightarrow> query_state \<Rightarrow> 'b reply \<times> query_state) \<Rightarrow> query_state \<Rightarrow> 'b reply \<times> query_state" where
  "param name r k w = (case r of Ok x \<Rightarrow> k x w | Err e \<Rightarrow> (ParamErr name e, w) | Panic p \<Rightarrow> (Crash p, w))"

definition check_limit :: "int \<Rightarrow> int \<Rightarrow> unit res" where
  "check_limit most lim = (if lim > most then Err (Wrap ErrInvalidArg ''limit is too big'') else Ok ())"

subsection \<open>Decoders\<close>

definition unmarshalAddress :: "addr_lib \<Rightarrow> string \<Rightarrow> addr option res" where
  "unmarshalAddress L a =
     (if a = [] then Ok None
      else case addr_unmarshal L a of
             Ok x \<Rightarrow> Ok (Some x)
           | Err e \<Rightarrow> Err (Wrap ErrInvalidArg (''unmarshal '' @ a @ '' address ('' @ err_text e @ '')''))
           | Panic p \<Rightarrow> Panic p)"

fun replace_first :: "string \<Rightarrow> string \<Rightarrow> string" where
  "replace_first [] sub = []"
| "replace_first (c # cs) sub = (if has_prefix (c # cs) sub then drop (length sub) (c # cs) else c # replace_first cs sub)"

definition unmarshalOperationID :: "string \<Rightarrow> u32 res" where
  "unmarshalOperationID op =
     (let s = replace_first op ''0x''
      in case parse_int 10 64 s of
           Ok i \<Rightarrow> Ok (word_of_int i)
         | _ \<Rightarrow> rbind (parse_int 16 64 s) (\<lambda>i. Ok (word_of_int i)))"

definition unmarshalSorting :: "string \<Rightarrow> string res" where
  "unmarshalSorting s =
     (let s = to_upper s
      in if s = [] \<or> s = ''DESC'' then Ok ''DESC'' else if s = ''ASC'' then Ok s
         else Err (Wrap ErrInvalidArg ''only DESC and ASC sorting available''))"

definition unmarshalBytes :: "string \<Rightarrow> bytes res" where
  "unmarshalBytes x =
     (if x = [] then Ok []
      else case hex_decode x of
             Ok ret \<Rightarrow> Ok ret
           | _ \<Rightarrow> (case std64_decode x of
                     Ok ret \<Rightarrow> Ok ret
                   | _ \<Rightarrow> Err (Wrap ErrInvalidArg (''cannot decode bytes '' @ x))))"

text \<open>An empty value is a nil address.\<close>

fun unmarshal_addresses :: "addr_lib \<Rightarrow> string list \<Rightarrow> addr option list res" where
  "unmarshal_addresses L [] = Ok []"
| "unmarshal_addresses L (a # as) = rbind (unmarshalAddress L a) (\<lambda>x. rbind (unmarshal_addresses L as) (\<lambda>xs. Ok (x # xs)))"

definition getAddresses :: "addr_lib \<Rightarrow> url_query \<Rightarrow> string \<Rightarrow> addr option list res" where
  "getAddresses L q name = unmarshal_addresses L (q name)"

subsection \<open>Handlers\<close>

record api_env =
  ae_query :: query_env
  ae_labels :: "db \<Rightarrow> address_label list"
  ae_bind_blocks :: "url_query \<Rightarrow> blocks_req res"
  ae_bind_labels :: "url_query \<Rightarrow> labels_req res"
  ae_bind_accounts :: "accounts_req \<Rightarrow> url_query \<Rightarrow> accounts_req res"
  ae_bind_aggregate_accounts :: "url_query \<Rightarrow> aggregate_accounts_req res"
  ae_bind_accounts_history :: "url_query \<Rightarrow> accounts_history_req res"
  ae_bind_transactions :: "url_query \<Rightarrow> transactions_req res"
  ae_bind_transactions_history :: "url_query \<Rightarrow> transactions_history_req res"
  ae_bind_messages :: "url_query \<Rightarrow> messages_req res"
  ae_bind_aggregate_messages :: "url_query \<Rightarrow> aggregate_messages_req res"
  ae_bind_messages_history :: "url_query \<Rightarrow> messages_history_req res"

definition ae_addr :: "api_env \<Rightarrow> addr_lib" where
  "ae_addr A = qe_addr (ae_query A)"

text \<open>Lists are sent with their length.\<close>

definition with_length :: "'a list \<Rightarrow> int \<times> 'a list" where
  "with_length xs = (int (length xs), xs)"

definition api_GetStatistics :: "api_env \<Rightarrow> query_state \<Rightarrow> statistics reply \<times> query_state" where
  "api_GetStatistics A w = answer id (query_GetStatistics (ae_query A) w)"

definition api_GetInterfaces :: "api_env \<Rightarrow> query_state \<Rightarrow> (int \<times> contract_interface list) reply \<times> query_state" where
  "api_GetInterfaces A w = answer with_length (query_GetInterfaces (ae_query A) w)"

definition api_GetOperations :: "api_env \<Rightarrow> query_state \<Rightarrow> (int \<times> contract_operation list) reply \<times> query_state" where
  "api_GetOperations A w = answer with_length (query_GetOperations (ae_query A) w)"

definition api_GetDefinitions :: "query_state \<Rightarrow> (nat \<times> (tlb_type \<rightharpoonup> tlb_fields)) reply \<times> query_state" where
  "api_GetDefinitions w = answer (\<lambda>m. (card (dom m), m)) (query_GetDefinitions w)"

definition api_GetBlocks :: "api_env \<Rightarrow> url_query \<Rightarrow> query_state \<Rightarrow> block_read rows reply \<times> query_state" where
  "api_GetBlocks A q =
     param ''block_filter'' (ae_bind_blocks A q) (\<lambda>req.
     param ''limit'' (check_limit 100 (br_limit req)) (\<lambda>_ w.
       let req = (if ctx_query q ''workchain'' = [] then req\<lparr>br_workchain := Some (-1)\<rparr> else req);
           req = req\<lparr>br_with_shards := True\<rparr>;
           req = (if br_with_transactions req then req\<lparr>br_with_tx_account_state := True, br_with_tx_messages := True\<rparr> else req)
       in param ''order'' (unmarshalSorting (br_order req)) (\<lambda>order w.
            answer id (query_FilterBlocks (ae_query A) (req\<lparr>br_order := order\<rparr>) w)) w))"

definition api_GetLabelCategories :: "query_state \<Rightarrow> (int \<times> string list) reply \<times> query_state" where
  "api_GetLabelCategories w = (Success (with_length query_GetLabelCategories), w)"

definition api_GetLabels :: "api_env \<Rightarrow> url_query \<Rightarrow> query_state \<Rightarrow> address_label rows reply \<times> query_state" where
  "api_GetLabels A q =
     param ''label_filter'' (ae_bind_labels A q) (\<lambda>req.
     param ''limit'' (check_limit 10000 (lr_limit req)) (\<lambda>_ w.
       answer id (query_FilterLabels (ae_labels A) req w)))"

definition api_GetAccounts :: "api_env \<Rightarrow> url_query \<Rightarrow> query_state \<Rightarrow> account_state rows reply \<times> query_state" where
  "api_GetAccounts A q =
     param ''account_filter'' (ae_bind_accounts A (accounts_req_zero\<lparr>ar_with_code_data := True\<rparr>) q) (\<lambda>req.
     param ''limit'' (check_limit 10000 (ar_limit req)) (\<lambda>_.
     param ''address'' (getAddresses (ae_addr A) q ''address'') (\<lambda>addrs.
     param ''owner_address'' (unmarshalAddress (ae_addr A) (ctx_query q ''owner_address'')) (\<lambda>owner.
     param ''minter_address'' (unmarshalAddress (ae_addr A) (ctx_query q ''minter_address'')) (\<lambda>minter.
     param ''order'' (unmarshalSorting (ar_order req)) (\<lambda>order w.
       answer id (query_FilterAccounts (ae_query A) (req\<lparr>ar_owner := owner, ar_minter := minter, ar_order := order\<rparr>) addrs w)))))))"

definition api_AggregateAccounts :: "api_env \<Rightarrow> url_query \<Rightarrow> query_state \<Rightarrow> aggregate_accounts_res reply \<times> query_state" where
  "api_AggregateAccounts A q =
     param ''account_filter'' (ae_bind_aggregate_accounts A q) (\<lambda>req.
     param ''limit'' (check_limit 1000000 (aq_Limit req)) (\<lambda>_.
     param ''address'' (unmarshalAddress (ae_addr A) (ctx_query q ''address'')) (\<lambda>a.
     param ''minter_address'' (unmarshalAddress (ae_addr A) (ctx_query q ''minter_address'')) (\<lambda>m w.
       answer id (query_AggregateAccounts (ae_query A) (req\<lparr>aq_Address := a, aq_MinterAddress := m\<rparr>) w)))))"

definition api_AggregateAccountsHistory :: "api_env \<Rightarrow> url_query \<Rightarrow> query_state \<Rightarrow> (int \<times> gotime) list reply \<times> query_state" where
  "api_AggregateAccountsHistory A q =
     param ''account_filter'' (ae_bind_accounts_history A q) (\<lambda>req.
     param ''minter_address'' (unmarshalAddress (ae_addr A) (ctx_query q ''minter_address'')) (\<lambda>m w.
       answer id (query_AggregateAccountsHistory (ae_query A) (req\<lparr>ha_MinterAddress := m\<rparr>) w)))"

definition api_GetTransactions :: "api_env \<Rightarrow> url_query \<Rightarrow> query_state \<Rightarrow> transaction rows reply \<times> query_state" where
  "api_GetTransactions A q =
     param ''tx_filter'' (ae_bind_transactions A q) (\<lambda>req.
     param ''limit'' (check_limit 10000 (tr_limit req)) (\<lambda>_.
     param ''hash'' (unmarshalBytes (ctx_query q ''hash'')) (\<lambda>hash.
     param ''in_msg_hash'' (unmarshalBytes (ctx_query q ''in_msg_hash'')) (\<lambda>inMsg.
     param ''address'' (getAddresses (ae_addr A) q ''address'') (\<lambda>addrs.
     param ''order'' (unmarshalSorting (tr_order req)) (\<lambda>order w.
       answer id (query_FilterTransactions (ae_query A) (req\<lparr>tr_hash := hash, tr_in_msg_hash := inMsg,
         tr_with_account_state := True, tr_with_messages := True, tr_addresses := map address_arg addrs, tr_order := order\<rparr>) w)))))))"

definition api_AggregateTransactionsHistory :: "api_env \<Rightarrow> url_query \<Rightarrow> query_state \<Rightarrow> (int \<times> gotime) list reply \<times> query_state" where
  "api_AggregateTransactionsHistory A q =
     param ''tx_filter'' (ae_bind_transactions_history A q) (\<lambda>req.
     param ''address'' (getAddresses (ae_addr A) q ''address'') (\<lambda>addrs w.
       answer id (query_AggregateTransactionsHistory (ae_query A) (req\<lparr>ht_Addresses := map address_arg addrs\<rparr>) w)))"

definition operation_id_param :: "url_query \<Rightarrow> u32 option \<Rightarrow> u32 option res" where
  "operation_id_param q dflt =
     (let op = ctx_query q ''operation_id'' in if op = [] then Ok dflt else rbind (unmarshalOperationID op) (\<lambda>i. Ok (Some i)))"

definition api_GetMessages :: "api_env \<Rightarrow> url_query \<Rightarrow> query_state \<Rightarrow> message rows reply \<times> query_state" where
  "api_GetMessages A q =
     param ''msg_filter'' (ae_bind_messages A q) (\<lambda>req.
     param ''limit'' (check_limit 10000 (mr_limit req)) (\<lambda>_.
     param ''hash'' (unmarshalBytes (ctx_query q ''hash'')) (\<lambda>hash.
     param ''src_address'' (getAddresses (ae_addr A) q ''src_address'') (\<lambda>src.
     param ''dst_address'' (getAddresses (ae_addr A) q ''dst_address'') (\<lambda>dst.
     param ''operation_id'' (operation_id_param q (mr_operation_id req)) (\<lambda>op.
     param ''order'' (unmarshalSorting (mr_order req)) (\<lambda>order w.
       answer id (query_FilterMessages (ae_query A) (req\<lparr>mr_hash := hash, mr_src_addresses := map address_arg src,
         mr_dst_addresses := map address_arg dst, mr_operation_id := op, mr_order := order\<rparr>) w))))))))"

definition api_AggregateMessages :: "api_env \<Rightarrow> url_query \<Rightarrow> query_state \<Rightarrow> aggregate_messages_res reply \<times> query_state" where
  "api_AggregateMessages A q =
     param ''msg_filter'' (ae_bind_aggregate_messages A q) (\<lambda>req.
     param ''limit'' (check_limit 1000000 (mq_Limit req)) (\<lambda>_.
     param ''address'' (unmarshalAddress (ae_addr A) (ctx_query q ''address'')) (\<lambda>a.
     param ''order_by'' (if mq_OrderBy req = ''amount'' \<or> mq_OrderBy req = ''count'' then Ok () else Err (Wrap ErrInvalidArg ''wrong order_by argument'')) (\<lambda>_ w.
       answer id (query_AggregateMessages (ae_query A) (req\<lparr>mq_Address := a\<rparr>) w)))))"

definition api_AggregateMessagesHistory :: "api_env \<Rightarrow> url_query \<Rightarrow> query_state \<Rightarrow> (int \<times> gotime) list reply \<times> query_state" where
  "api_AggregateMessagesHistory A q =
     param ''msg_filter'' (ae_bind_messages_history A q) (\<lambda>req.
     param ''src_address'' (getAddresses (ae_addr A) q ''src_address'') (\<lambda>src.
     param ''dst_address'' (getAddresses (ae_addr A) q ''dst_address'') (\<lambda>dst.
     param ''minter_address'' (unmarshalAddress (ae_addr A) (ctx_query q ''minter_address'')) (\<lambda>m w.
       answer id (query_AggregateMessagesHistory (ae_query A) (req\<lparr>hm_SrcAddresses := map address_arg src,
         hm_DstAddresses := map address_arg dst, hm_MinterAddress := m\<rparr>) w)))))"

subsection \<open>How an operation id is read\<close>

definition digits_value :: "nat \<Rightarrow> nat \<Rightarrow> string \<Rightarrow> nat" where
  "digits_value b n s = foldl (\<lambda>n c. n * b + the (digit_val c)) n s"

definition digits_of :: "nat \<Rightarrow> string \<Rightarrow> bool" where
  "digits_of b s = list_all (\<lambda>c. case digit_val c of Some d \<Rightarrow> d < b | None \<Rightarrow> False) s"

lemma digits_value_bound:
  assumes "digits_of b s"
  shows "digits_value b n s + 1 \<le> (n + 1) * b ^ length s"
  using assms
proof (induction s arbitrary: n)
  case (Cons c s)
  then obtain d where d: "digit_val c = Some d" "d < b" by (auto simp: digits_of_def split: option.splits)
  have "digits_value b (n * b + d) s + 1 \<le> (n * b + d + 1) * b ^ length s"
    using Cons by (simp add: digits_of_def)
  also have "\<dots> \<le> ((n + 1) * b) * b ^ length s" using d(2) by (intro mult_right_mono) simp_all
  finally show ?case using d(1) by (simp add: digits_value_def algebra_simps)
qed (simp add: digits_value_def)

lemma parse_digits_value:
  assumes "digits_of b s" and "(n + 1) * b ^ length s \<le> maxv + 1"
  shows "parse_digits b maxv n s = Ok (digits_value b n s)"
  using assms
proof (induction s arbitrary: n)
  case (Cons c s)
  then obtain d where d: "digit_val c = Some d" "d < b" by (auto simp: digits_of_def split: option.splits)
  have "(n * b + d + 1) * b ^ length s \<le> ((n + 1) * b) * b ^ length s" using d(2) by (intro mult_right_mono) simp_all
  also have "\<dots> \<le> maxv + 1" using Cons.prems(2) by (simp add: algebra_simps)
  finally have le: "(n * b + d + 1) * b ^ length s \<le> maxv + 1" .
  moreover have "1 \<le> b ^ length s" using d(2) by simp
  from mult_le_mono2[OF this, of "n * b + d + 1"] have "n * b + d + 1 \<le> (n * b + d + 1) * b ^ length s" by simp
  ultimately have "n * b + d \<le> maxv" by linarith
  moreover have "parse_digits b maxv (n * b + d) s = Ok (digits_value b (n * b + d) s)"
    using Cons le by (simp add: digits_of_def)
  ultimately show ?case using d by (simp add: digits_value_def)
qed (simp add: digits_value_def)

lemma parse_digits_bad: "\<not> digits_of b s \<Longrightarrow> \<not> is_ok (parse_digits b maxv n s)"
  by (induction s arbitrary: n) (auto simp: digits_of_def split: option.splits)

lemma digits_sign: "digits_of b s \<Longrightarrow> s \<noteq> [] \<Longrightarrow> hd s \<noteq> CHR ''-'' \<and> hd s \<noteq> CHR ''+''"
  by (cases s) (auto simp: digits_of_def digit_val_def)

lemma parse_int_digits:
  assumes "digits_of 16 s" and "s \<noteq> []" and "length s \<le> 8" and "b = 10 \<or> b = 16"
  shows "case parse_int b 64 s of Ok i \<Rightarrow> digits_of b s \<and> i = int (digits_value b 0 s) | _ \<Rightarrow> \<not> digits_of b s"
proof -
  obtain c cs where s: "s = c # cs" "c \<noteq> CHR ''-''" "c \<noteq> CHR ''+''"
    using assms(2) digits_sign[OF assms(1,2)] by (cases s) auto
  show ?thesis
  proof (cases "digits_of b s")
    case True
    have "b ^ length s \<le> 16 ^ length s" using assms(4) by (intro power_mono) auto
    also have "\<dots> \<le> (16::nat) ^ 8" using assms(3) by (intro power_increasing) simp_all
    finally have pow: "b ^ length s \<le> 2 ^ 32" by simp
    have "parse_digits b (2 ^ 64 - 1) 0 s = Ok (digits_value b 0 s)"
      by (rule parse_digits_value[OF True]) (use pow in simp)
    moreover have "digits_value b 0 s < 2 ^ 63" using digits_value_bound[OF True, of 0] pow by simp
    ultimately show ?thesis using s True by (simp add: parse_int_def parse_uint_def)
  next
    case False
    then have "\<not> is_ok (parse_digits b (2 ^ 64 - 1) 0 s)" by (rule parse_digits_bad)
    then show ?thesis using s False by (cases "parse_digits b (2 ^ 64 - 1) 0 s") (simp_all add: parse_int_def parse_uint_def)
  qed
qed

text \<open>
  A hexadecimal operation id of up to eight digits is read as hexadecimal only when one of its digits is a
  letter; an id whose digits happen to be decimal is read as a decimal number, although it has the prefix
  \<open>0x\<close>.
\<close>

theorem operation_id_read:
  assumes "digits_of 16 s" and "s \<noteq> []" and "length s \<le> 8"
  shows "unmarshalOperationID (''0x'' @ s) = Ok (word_of_nat (digits_value (if digits_of 10 s then 10 else 16) 0 s))"
proof -
  have strip: "replace_first (''0x'' @ s) ''0x'' = s" by simp
  note ten = parse_int_digits[OF assms, of 10] and sixteen = parse_int_digits[OF assms, of 16]
  show ?thesis
  proof (cases "digits_of 10 s")
    case True
    with ten show ?thesis by (cases "parse_int 10 64 s") (simp_all add: unmarshalOperationID_def strip)
  next
    case False
    obtain i where "parse_int 16 64 s = Ok i" "i = int (digits_value 16 0 s)"
      using sixteen assms(1) by (cases "parse_int 16 64 s") simp_all
    with ten False show ?thesis by (cases "parse_int 10 64 s") (simp_all add: unmarshalOperationID_def strip)
  qed
qed

theorem operation_id_read_witness:
  "unmarshalOperationID ''0xf8a7ea5'' = Ok 0xf8a7ea5 \<and> unmarshalOperationID ''0x00000595'' = Ok 595"
  using operation_id_read[of "''f8a7ea5''"] operation_id_read[of "''00000595''"]
  by (simp add: digits_of_def digits_value_def digit_val_def)

subsection \<open>An empty address\<close>

text \<open>
  The URL \<open>/accounts?address=&latest=true\<close> crashes its handler, whatever is indexed: the empty value
  becomes a nil address, which the check of the parameters lets through and the service dereferences.
\<close>

theorem empty_address_crashes:
  assumes "ae_bind_accounts A (accounts_req_zero\<lparr>ar_with_code_data := True\<rparr>) q = Ok (accounts_req_zero\<lparr>ar_with_code_data := True, ar_latest_state := True\<rparr>)"
    and "q = (\<lambda>name. if name = ''address'' then [[]] else [])"
    and "db_faults (fst w) = []" and "\<forall>a \<in> set (ch_accounts (fst w)). length (acc_address a) = 33"
  shows "fst (api_GetAccounts A q w) = Crash ''invalid memory address or nil pointer dereference''"
proof -
  let ?req = "accounts_req_zero\<lparr>ar_with_code_data := True, ar_latest_state := True\<rparr>"
  have q: "q ''address'' = [[]]" "ctx_query q ''owner_address'' = []" "ctx_query q ''minter_address'' = []"
    by (simp_all add: assms(2) ctx_query_def)
  have addrs: "getAddresses (ae_addr A) q ''address'' = Ok [None]"
    by (simp add: getAddresses_def q unmarshalAddress_def)
  have "filter (count_matches (?req\<lparr>ar_order := ''DESC'', ar_addresses := [[]], ar_limit := 3\<rparr>)) (ch_accounts (fst w)) = []"
    using assms(4) by (auto simp: filter_empty_conv count_matches_def list_cond_def)
  then have "filterAccounts ord excl hord (?req\<lparr>ar_order := ''DESC'', ar_addresses := [[]]\<rparr>) (fst w) = (Ok \<lparr>rs_total = 0, rs_rows = []\<rparr>, fst w)"
    for ord excl hord
    using assms(3) by (simp add: filterAccounts_def countAccountStates_def query_def Let_def accounts_req_zero_def)
  note page = this
  have order: "unmarshalSorting [] = Ok ''DESC''" by (simp add: unmarshalSorting_def to_upper_def)
  have req: "ar_limit ?req = 0" "ar_order ?req = []" "ar_latest_state ?req"
    "?req\<lparr>ar_owner := None, ar_minter := None, ar_order := ''DESC'', ar_addresses := [[]]\<rparr> = ?req\<lparr>ar_order := ''DESC'', ar_addresses := [[]]\<rparr>"
    by (simp_all add: accounts_req_zero_def)
  have "fst (query_FilterAccounts (ae_query A) (?req\<lparr>ar_owner := None, ar_minter := None, ar_order := ''DESC''\<rparr>) [None] w)
      = Panic ''invalid memory address or nil pointer dereference''"
    using page req(4) by (simp add: query_FilterAccounts_def fetchSkippedAccounts_def address_arg_def)
  then obtain w' where "query_FilterAccounts (ae_query A) (?req\<lparr>ar_owner := None, ar_minter := None, ar_order := ''DESC''\<rparr>) [None] w
      = (Panic ''invalid memory address or nil pointer dereference'', w')" by (metis prod.collapse)
  then show ?thesis
    by (simp add: api_GetAccounts_def param_def assms(1) addrs check_limit_def unmarshalAddress_def q req order answer_def)
qed

text \<open>An environment of the API over empty tables.\<close>

definition ex_query_env :: query_env where
  "ex_query_env = \<lparr>qe_reader = ex_reader, qe_states = rev, qe_hashes = rev, qe_stats = ex_orders, qe_messages = rev,
     qe_other_order = (\<lambda>_ rows. rows), qe_rounding = (\<lambda>_ t. t), qe_wallets = [], qe_addresses = rev, qe_interfaces = rev,
     qe_api = fe_api ex_env, qe_addr = fe_addr ex_env, qe_cell = fe_cell ex_env, qe_clock = (0, 0)\<rparr>"

definition ex_http :: "accounts_req \<Rightarrow> api_env" where
  "ex_http req = \<lparr>ae_query = ex_query_env, ae_labels = (\<lambda>d. ch_labels d), ae_bind_blocks = (\<lambda>_. Ok blocks_req_zero),
     ae_bind_labels = (\<lambda>_. Err (ErrText ''bind'')), ae_bind_accounts = (\<lambda>_ _. Ok req),
     ae_bind_aggregate_accounts = (\<lambda>_. Err (ErrText ''bind'')), ae_bind_accounts_history = (\<lambda>_. Err (ErrText ''bind'')),
     ae_bind_transactions = (\<lambda>_. Ok transactions_req_zero), ae_bind_transactions_history = (\<lambda>_. Err (ErrText ''bind'')),
     ae_bind_messages = (\<lambda>_. Ok messages_req_zero), ae_bind_aggregate_messages = (\<lambda>_. Err (ErrText ''bind'')),
     ae_bind_messages_history = (\<lambda>_. Err (ErrText ''bind''))\<rparr>"

theorem empty_address_crashes_witness:
  "fst (api_GetAccounts (ex_http (accounts_req_zero\<lparr>ar_with_code_data := True, ar_latest_state := True\<rparr>))
     (\<lambda>name. if name = ''address'' then [[]] else []) (db_empty, newContractCache 0)) = Crash ''invalid memory address or nil pointer dereference''"
  by (rule empty_address_crashes[OF _ refl]) (simp_all add: ex_http_def db_empty_def)

end
