(* ===== verification/DataStream.thy ===== *)
theory DataStream
  imports Kafka "HOL-Library.Sublist"
begin

section \<open>The data stream: broadcaster and subscribers\<close>

text \<open>
  \<open>internal/proto/v1/get_data_stream\<close>: the \<open>Broadcaster\<close> with its map from subscription
  ids to channels, the handler of the gRPC method \<open>V1GetDataStream\<close> and the goroutine of
  \<open>StartBroadcasting\<close> that forwards what the Kafka consumer sends. The operations of the
  broadcaster hold its lock, so each of them is one step; the handlers and the goroutine are
  interleaved, and an event is one turn of one of them. A channel is the list of the values that
  are in it, named by the position at which it was made; a handler keeps the values it has sent.
\<close>

subsection \<open>Broadcaster\<close>

record 'a broadcaster =
  bc_subs :: "(string \<times> nat) list"
  bc_chans :: "'a list list"

definition defaultSubChannelSize :: nat where
  "defaultSubChannelSize = 32"

definition newBroadcaster :: "'a broadcaster" where
  "newBroadcaster = \<lparr>bc_subs = [], bc_chans = []\<rparr>"

text \<open>The channel of an id that has one already is replaced in the map, not closed.\<close>

definition subscribe :: "string \<Rightarrow> 'a broadcaster \<Rightarrow> nat \<times> 'a broadcaster" where
  "subscribe sid b =
     (length (bc_chans b),
      b\<lparr>bc_subs := AList.update sid (length (bc_chans b)) (bc_subs b), bc_chans := bc_chans b @ [[]]\<rparr>)"

definition unsubscribe :: "string \<Rightarrow> 'a broadcaster \<Rightarrow> 'a broadcaster" where
  "unsubscribe sid b = b\<lparr>bc_subs := AList.delete sid (bc_subs b)\<rparr>"

text \<open>The \<open>select\<close> with a default: a full channel is skipped.\<close>

definition offer :: "'a \<Rightarrow> nat \<Rightarrow> 'a list list \<Rightarrow> 'a list list" where
  "offer v ch chans =
     (if length (chans ! ch) < defaultSubChannelSize then chans[ch := chans ! ch @ [v]] else chans)"

definition broadcast :: "string key_order \<Rightarrow> 'a \<Rightarrow> 'a broadcaster \<Rightarrow> 'a broadcaster" where
  "broadcast ord v b = b\<lparr>bc_chans := fold (\<lambda>(sid, ch). offer v ch) (range_map ord (bc_subs b)) (bc_chans b)\<rparr>"

subsection \<open>Handlers\<close>

datatype grpc_status = InvalidArgument string | Unavailable string

text \<open>A call of the method: it serves its channel, or it has returned a status.\<close>

datatype 'a stream_call =
    Serving string nat "'a list"
  | Ended grpc_status "'a list"

record 'a stream_sys =
  ss_bc :: "'a broadcaster"
  ss_calls :: "'a stream_call list"
  ss_stopped :: bool

text \<open>
  The two parts of \<open>V1GetDataStream\<close>: its start, and one turn of its loop, where \<open>answer\<close> is
  the error of \<open>stream.Send\<close>, if any. An empty channel blocks. No channel is ever closed, so the
  loop has no other end; the deferred call drops the id, whichever channel it then has.
\<close>

definition V1GetDataStream_open :: "string \<Rightarrow> 'a stream_sys \<Rightarrow> 'a stream_sys" where
  "V1GetDataStream_open sid s =
     (if sid = [] then s\<lparr>ss_calls := ss_calls s @ [Ended (InvalidArgument ''subscription ID is required'') []]\<rparr>
      else (case subscribe sid (ss_bc s) of
        (ch, b) \<Rightarrow> s\<lparr>ss_bc := b, ss_calls := ss_calls s @ [Serving sid ch []]\<rparr>))"

definition V1GetDataStream_next :: "nat \<Rightarrow> goerr option \<Rightarrow> 'a stream_sys \<Rightarrow> 'a stream_sys" where
  "V1GetDataStream_next h answer s =
     (if h < length (ss_calls s) then
        (case ss_calls s ! h of
           Serving sid ch sent \<Rightarrow>
             (case bc_chans (ss_bc s) ! ch of
                [] \<Rightarrow> s
              | v # vs \<Rightarrow>
                  let b = (ss_bc s)\<lparr>bc_chans := (bc_chans (ss_bc s))[ch := vs]\<rparr>
                  in (case answer of
                        None \<Rightarrow> s\<lparr>ss_bc := b, ss_calls := (ss_calls s)[h := Serving sid ch (sent @ [v])]\<rparr>
                      | Some e \<Rightarrow>
                          s\<lparr>ss_bc := unsubscribe sid b,
                            ss_calls := (ss_calls s)[h := Ended (Unavailable (''failed to send data to stream: '' @ err_text e)) sent]\<rparr>))
         | Ended st sent \<Rightarrow> s)
      else s)"

subsection \<open>Forwarding\<close>

text \<open>What the \<open>select\<close> of \<open>StartBroadcasting\<close> chose: a value, or the end of the context.\<close>

datatype 'a selected = FromData 'a | ContextDone

definition StartBroadcasting_turn :: "string key_order \<Rightarrow> 'a selected \<Rightarrow> 'a stream_sys \<Rightarrow> 'a stream_sys" where
  "StartBroadcasting_turn ord sel s =
     (if ss_stopped s then s
      else (case sel of
        FromData v \<Rightarrow> s\<lparr>ss_bc := broadcast ord v (ss_bc s)\<rparr>
      | ContextDone \<Rightarrow> s\<lparr>ss_stopped := True\<rparr>))"

datatype 'a stream_event =
    Opens string
  | Sends nat "goerr option"
  | Turn "'a selected"

fun stream_turn :: "string key_order \<Rightarrow> 'a stream_event \<Rightarrow> 'a stream_sys \<Rightarrow> 'a stream_sys" where
  "stream_turn ord (Opens sid) s = V1GetDataStream_open sid s"
| "stream_turn ord (Sends h answer) s = V1GetDataStream_next h answer s"
| "stream_turn ord (Turn sel) s = StartBroadcasting_turn ord sel s"

definition stream_run :: "string key_order \<Rightarrow> 'a stream_event list \<Rightarrow> 'a stream_sys \<Rightarrow> 'a stream_sys" where
  "stream_run ord es s = fold (stream_turn ord) es s"

definition newStream :: "'a stream_sys" where
  "newStream = \<lparr>ss_bc = newBroadcaster, ss_calls = [], ss_stopped = False\<rparr>"

subsection \<open>What a subscriber is promised\<close>

text \<open>The values that are broadcast, and what a call has sent and still holds.\<close>

fun published :: "'a stream_event list \<Rightarrow> 'a list" where
  "published [] = []"
| "published (Turn (FromData v) # es) = v # published es"
| "published (Turn ContextDone # es) = []"
| "published (e # es) = published es"

fun received :: "'a stream_sys \<Rightarrow> 'a stream_call \<Rightarrow> 'a list" where
  "received s (Serving sid ch sent) = sent @ bc_chans (ss_bc s) ! ch"
| "received s (Ended st sent) = sent"

text \<open>
  A call that has \<open>k\<close> values in its channel keeps up with the events: there is room whenever a
  value is broadcast.
\<close>

fun keeps_up :: "nat \<Rightarrow> nat \<Rightarrow> 'a stream_event list \<Rightarrow> bool" where
  "keeps_up h k [] = True"
| "keeps_up h k (Turn (FromData v) # es) = (k < defaultSubChannelSize \<and> keeps_up h (k + 1) es)"
| "keeps_up h k (Turn ContextDone # es) = True"
| "keeps_up h k (Sends h' answer # es) = keeps_up h (if h' = h then k - 1 else k) es"
| "keeps_up h k (Opens sid # es) = keeps_up h k es"

text \<open>Nobody else subscribes under the id, and no send of the call fails.\<close>

fun undisturbed :: "nat \<Rightarrow> string \<Rightarrow> 'a stream_event list \<Rightarrow> bool" where
  "undisturbed h sid [] = True"
| "undisturbed h sid (Opens sid' # es) = (sid' \<noteq> sid \<and> undisturbed h sid es)"
| "undisturbed h sid (Sends h' answer # es) = ((h' = h \<longrightarrow> answer = None) \<and> undisturbed h sid es)"
| "undisturbed h sid (Turn sel # es) = undisturbed h sid es"

fun call_chan :: "'a stream_call \<Rightarrow> nat option" where
  "call_chan (Serving sid ch sent) = Some ch"
| "call_chan (Ended st sent) = None"

fun call_serves :: "string \<Rightarrow> 'a stream_call \<Rightarrow> bool" where
  "call_serves sid (Serving sid' ch sent) = (sid' = sid)"
| "call_serves sid (Ended st sent) = False"

definition bc_ok :: "'a broadcaster \<Rightarrow> bool" where
  "bc_ok b \<longleftrightarrow>
     distinct (map fst (bc_subs b)) \<and> distinct (map snd (bc_subs b)) \<and>
     (\<forall>(sid, ch) \<in> set (bc_subs b). ch < length (bc_chans b)) \<and>
     (\<forall>q \<in> set (bc_chans b). length q \<le> defaultSubChannelSize)"

definition calls_ok :: "nat \<Rightarrow> 'a stream_call list \<Rightarrow> bool" where
  "calls_ok n calls \<longleftrightarrow>
     (\<forall>h < length calls. \<forall>ch. call_chan (calls ! h) = Some ch \<longrightarrow> ch < n) \<and>
     (\<forall>h < length calls. \<forall>h' < length calls. \<forall>ch.
        call_chan (calls ! h) = Some ch \<longrightarrow> call_chan (calls ! h') = Some ch \<longrightarrow> h = h')"

definition stream_ok :: "'a stream_sys \<Rightarrow> bool" where
  "stream_ok s \<longleftrightarrow> bc_ok (ss_bc s) \<and> calls_ok (length (bc_chans (ss_bc s))) (ss_calls s)"

lemma length_fold_offer [simp]: "length (fold (\<lambda>(sid, ch). offer v ch) subs chans) = length chans"
  by (induction subs arbitrary: chans) (auto simp: offer_def split: prod.splits)

lemma offer_nth:
  assumes "ch < length chans"
  shows "offer v c chans ! ch =
    (if ch = c \<and> length (chans ! ch) < defaultSubChannelSize then chans ! ch @ [v] else chans ! ch)"
  using assms by (simp add: offer_def)

lemma length_offer [simp]: "length (offer v c chans) = length chans"
  by (simp add: offer_def)

lemma fold_offer_nth:
  assumes "distinct (map snd subs)" and "ch < length chans"
  shows "fold (\<lambda>(sid, ch). offer v ch) subs chans ! ch =
    (if ch \<in> snd ` set subs \<and> length (chans ! ch) < defaultSubChannelSize then chans ! ch @ [v] else chans ! ch)"
  using assms
proof (induction subs arbitrary: chans)
  case (Cons p subs)
  obtain sid c where p: "p = (sid, c)" by (cases p)
  have d: "distinct (map snd subs)" "c \<notin> snd ` set subs" using Cons.prems(1) p by auto
  have l: "ch < length (offer v c chans)" using Cons.prems(2) by simp
  show ?case
  proof (cases "ch = c")
    case True
    then show ?thesis
      using Cons.IH[OF d(1) l] d(2) p offer_nth[OF Cons.prems(2), of v c] by simp
  next
    case False
    then show ?thesis
      using Cons.IH[OF d(1) l] p offer_nth[OF Cons.prems(2), of v c] by simp
  qed
qed simp

text \<open>Every channel of the map is offered the value once, in whichever order the map is ranged over.\<close>

lemma broadcast_nth:
  assumes "range_order ord" "distinct (map fst (bc_subs b))" "distinct (map snd (bc_subs b))"
    and "ch < length (bc_chans b)"
  shows "bc_chans (broadcast ord v b) ! ch =
    (if ch \<in> snd ` set (bc_subs b) \<and> length (bc_chans b ! ch) < defaultSubChannelSize
     then bc_chans b ! ch @ [v] else bc_chans b ! ch)"
proof -
  have m: "mset (range_map ord (bc_subs b)) = mset (bc_subs b)"
    using assms(1,2) by (rule mset_range_map)
  then have "distinct (map snd (range_map ord (bc_subs b)))"
    using assms(3) by (metis mset_eq_imp_distinct_iff mset_map)
  from fold_offer_nth[OF this assms(4)] show ?thesis
    by (simp add: broadcast_def mset_eq_setD[OF m])
qed

lemma broadcast_order:
  assumes "range_order ord" "range_order ord'" "distinct (map fst (bc_subs b))" "distinct (map snd (bc_subs b))"
  shows "broadcast ord v b = broadcast ord' v b"
proof -
  have "bc_chans (broadcast ord v b) = bc_chans (broadcast ord' v b)"
    using broadcast_nth[OF assms(1,3,4)] broadcast_nth[OF assms(2,3,4)]
    by (intro nth_equalityI) (simp_all add: broadcast_def)
  then show ?thesis by (simp add: broadcast_def)
qed

subsection \<open>The invariant\<close>

lemma distinct_snd_update:
  "distinct (map snd al) \<Longrightarrow> v \<notin> snd ` set al \<Longrightarrow> distinct (map snd (AList.update k v al))"
proof (induction al)
  case (Cons p al)
  then show ?case using set_update_subset[of k v al] by auto
qed simp

lemma distinct_map_filterI: "distinct (map f al) \<Longrightarrow> distinct (map f (filter P al))"
  by (induction al) auto

lemma bc_ok_subscribe:
  assumes ok: "bc_ok b" and s: "subscribe sid b = (ch, b')"
  shows "bc_ok b'"
proof -
  have fresh: "length (bc_chans b) \<notin> snd ` set (bc_subs b)" using ok by (auto simp: bc_ok_def)
  have sub: "(i, c) \<in> set (AList.update sid (length (bc_chans b)) (bc_subs b)) \<Longrightarrow> c < Suc (length (bc_chans b))" for i c
    using set_update_subset[of sid "length (bc_chans b)" "bc_subs b"] ok by (fastforce simp: bc_ok_def)
  show ?thesis
    using s ok fresh by (auto simp: bc_ok_def subscribe_def distinct_update distinct_snd_update dest: sub)
qed

lemma bc_ok_unsubscribe: "bc_ok b \<Longrightarrow> bc_ok (unsubscribe sid b)"
  by (auto simp: bc_ok_def unsubscribe_def AList.delete_eq distinct_map_filterI)

lemma bc_chans_unsubscribe [simp]: "bc_chans (unsubscribe sid b) = bc_chans b"
  by (simp add: unsubscribe_def)

lemma length_broadcast [simp]: "length (bc_chans (broadcast ord v b)) = length (bc_chans b)"
  by (simp add: broadcast_def)

lemma bc_subs_broadcast [simp]: "bc_subs (broadcast ord v b) = bc_subs b"
  by (simp add: broadcast_def)

lemma bc_ok_broadcast:
  assumes "range_order ord" and ok: "bc_ok b"
  shows "bc_ok (broadcast ord v b)"
proof -
  have "length (bc_chans (broadcast ord v b) ! ch) \<le> defaultSubChannelSize" if "ch < length (bc_chans b)" for ch
    using broadcast_nth[OF assms(1) _ _ that, of v] ok that by (auto simp: bc_ok_def)
  then show ?thesis using ok by (auto simp: bc_ok_def in_set_conv_nth)
qed

lemma bc_ok_take:
  assumes "bc_ok b" and "bc_chans b ! ch = v # vs" and "ch < length (bc_chans b)"
  shows "bc_ok (b\<lparr>bc_chans := (bc_chans b)[ch := vs]\<rparr>)"
proof -
  have "v # vs \<in> set (bc_chans b)" using assms(2) nth_mem[OF assms(3)] by simp
  then have "length (v # vs) \<le> defaultSubChannelSize" using assms(1) unfolding bc_ok_def by blast
  then show ?thesis using assms(1) set_update_subset_insert[of "bc_chans b" ch vs]
    by (fastforce simp: bc_ok_def)
qed

lemma calls_ok_append:
  assumes "calls_ok n calls" and "\<And>ch. call_chan c = Some ch \<Longrightarrow> ch = n"
  shows "calls_ok (Suc n) (calls @ [c])"
  using assms unfolding calls_ok_def
  by (auto simp: nth_append less_Suc_eq dest!: assms(2))

lemma calls_ok_mono: "calls_ok n calls \<Longrightarrow> n \<le> m \<Longrightarrow> calls_ok m calls"
  unfolding calls_ok_def by (meson le_trans not_le order_less_le_trans)

lemma calls_ok_update:
  assumes "calls_ok n calls" and "h < length calls" and "call_chan c = call_chan (calls ! h) \<or> call_chan c = None"
  shows "calls_ok n (calls[h := c])"
proof -
  have c: "call_chan (calls[h := c] ! j) = Some ch \<Longrightarrow> call_chan (calls ! j) = Some ch" if "j < length calls" for j ch
    using assms(2,3) that by (cases "j = h") auto
  show ?thesis using assms(1) c unfolding calls_ok_def by simp
qed

text \<open>The invariant holds after every event.\<close>

lemma stream_ok_turn:
  assumes ord: "range_order ord" and ok: "stream_ok s"
  shows "stream_ok (stream_turn ord e s)"
proof (cases e)
  case (Opens sid)
  show ?thesis
  proof (cases "sid = []")
    case True
    have "calls_ok n (calls @ [Ended st []])" if "calls_ok n calls" for n and calls :: "'a stream_call list" and st
      using that by (simp add: calls_ok_def nth_append less_Suc_eq_le)
    with True show ?thesis
      using ok Opens by (simp add: stream_ok_def V1GetDataStream_open_def)
  next
    case False
    obtain ch b where sb: "subscribe sid (ss_bc s) = (ch, b)" by fastforce
    then have "ch = length (bc_chans (ss_bc s))" "length (bc_chans b) = Suc (length (bc_chans (ss_bc s)))"
      by (auto simp: subscribe_def)
    then show ?thesis
      using Opens False ok sb bc_ok_subscribe[OF _ sb]
      by (simp add: stream_ok_def V1GetDataStream_open_def) (rule calls_ok_append, simp_all)
  qed
next
  case (Sends h answer)
  show ?thesis
  proof (cases "h < length (ss_calls s)")
    case True
    show ?thesis
    proof (cases "ss_calls s ! h")
      case (Serving sid ch sent)
      have ch: "ch < length (bc_chans (ss_bc s))" using ok True Serving by (simp add: stream_ok_def calls_ok_def)
      show ?thesis
        using Sends True Serving ok bc_ok_take[OF _ _ ch] bc_ok_unsubscribe
        by (auto simp: V1GetDataStream_next_def stream_ok_def Let_def calls_ok_update
            split: list.split option.split)
    qed (use Sends True ok in \<open>simp add: V1GetDataStream_next_def\<close>)
  qed (use Sends ok in \<open>simp add: V1GetDataStream_next_def\<close>)
next
  case (Turn sel)
  then show ?thesis
    using ok bc_ok_broadcast[OF ord]
    by (auto simp: StartBroadcasting_turn_def stream_ok_def split: selected.split)
qed

lemma stream_ok_run: "range_order ord \<Longrightarrow> stream_ok s \<Longrightarrow> stream_ok (stream_run ord es s)"
  unfolding stream_run_def by (induction es arbitrary: s) (auto simp: stream_ok_turn)

lemma stream_ok_new [simp]: "stream_ok newStream"
  by (simp add: stream_ok_def bc_ok_def calls_ok_def newStream_def newBroadcaster_def)

subsection \<open>What one event does to one call\<close>

abbreviation the_call :: "'a stream_sys \<Rightarrow> nat \<Rightarrow> 'a stream_call" where
  "the_call s h \<equiv> ss_calls s ! h"

text \<open>The value that an event broadcasts, if any.\<close>

fun value_of :: "bool \<Rightarrow> 'a stream_event \<Rightarrow> 'a list" where
  "value_of stopped (Turn (FromData v)) = (if stopped then [] else [v])"
| "value_of stopped e = []"

definition published_from :: "bool \<Rightarrow> 'a stream_event list \<Rightarrow> 'a list" where
  "published_from stopped es = (if stopped then [] else published es)"

lemma published_from_Cons:
  "published_from (ss_stopped s) (e # es) =
    value_of (ss_stopped s) e @ published_from (ss_stopped (stream_turn ord e s)) es"
proof (cases e)
  case (Opens sid)
  then show ?thesis by (simp add: published_from_def V1GetDataStream_open_def split: prod.split)
next
  case (Sends h answer)
  then show ?thesis
    by (simp add: published_from_def V1GetDataStream_next_def Let_def
        split: stream_call.split list.split option.split)
next
  case (Turn sel)
  then show ?thesis
    by (cases sel) (simp_all add: published_from_def StartBroadcasting_turn_def)
qed

text \<open>A call that has ended stays as it is.\<close>

lemma turn_ended:
  assumes "h < length (ss_calls s)" and "the_call s h = Ended st sent"
  shows "the_call (stream_turn ord e s) h = Ended st sent"
  using assms
  by (cases e) (auto simp: V1GetDataStream_open_def V1GetDataStream_next_def StartBroadcasting_turn_def nth_append
      Let_def nth_list_update split: prod.split stream_call.split list.split option.split selected.split)

lemma turn_length:
  "length (ss_calls s) \<le> length (ss_calls (stream_turn ord e s))"
  by (cases e) (auto simp: V1GetDataStream_open_def V1GetDataStream_next_def StartBroadcasting_turn_def
      Let_def split: prod.split stream_call.split list.split option.split selected.split)

text \<open>
  A call that serves its channel: an event adds the value it broadcasts, when the channel is in
  the map and has room, moves a value from the channel to the stream, or ends the call.
\<close>

definition gets :: "'a stream_sys \<Rightarrow> nat \<Rightarrow> 'a stream_event \<Rightarrow> 'a list" where
  "gets s ch e =
     (if ch \<in> snd ` set (bc_subs (ss_bc s)) \<and> length (bc_chans (ss_bc s) ! ch) < defaultSubChannelSize
      then value_of (ss_stopped s) e else [])"

lemma turn_serving:
  assumes ord: "range_order ord" and ok: "stream_ok s"
    and h: "h < length (ss_calls s)" and c: "the_call s h = Serving sid ch sent"
  shows "(\<exists>sent'. the_call (stream_turn ord e s) h = Serving sid ch sent' \<and>
        sent' @ bc_chans (ss_bc (stream_turn ord e s)) ! ch = (sent @ bc_chans (ss_bc s) ! ch) @ gets s ch e) \<or>
     ((\<exists>st. the_call (stream_turn ord e s) h = Ended st sent) \<and> (\<exists>err. e = Sends h (Some err)))"
proof -
  have ch: "ch < length (bc_chans (ss_bc s))" using ok h c by (simp add: stream_ok_def calls_ok_def)
  have bc: "distinct (map fst (bc_subs (ss_bc s)))" "distinct (map snd (bc_subs (ss_bc s)))"
    using ok by (simp_all add: stream_ok_def bc_ok_def)
  show ?thesis
  proof (cases e)
    case (Opens sid')
    then show ?thesis
      using h c ch by (simp add: V1GetDataStream_open_def subscribe_def gets_def nth_append)
  next
    case (Turn sel)
    then show ?thesis
      using c broadcast_nth[OF ord bc ch]
      by (cases sel) (simp_all add: StartBroadcasting_turn_def gets_def)
  next
    case (Sends h' answer)
    show ?thesis
    proof (cases "h' < length (ss_calls s)")
      case h': True
      show ?thesis
      proof (cases "the_call s h'")
        case (Serving sid' ch' sent')
        have other: "ch' \<noteq> ch" if "h' \<noteq> h"
          using ok h h' c Serving that unfolding stream_ok_def calls_ok_def by (metis call_chan.simps(1))
        show ?thesis
        proof (cases "h' = h")
          case True
          then show ?thesis
            using Sends h c ch
            by (cases "bc_chans (ss_bc s) ! ch"; cases answer)
              (simp_all add: V1GetDataStream_next_def gets_def Let_def)
        next
          case False
          then show ?thesis
            using Sends h' Serving c other
            by (auto simp: V1GetDataStream_next_def gets_def Let_def unsubscribe_def split: list.split option.split)
        qed
      qed (use Sends c h' in \<open>simp add: V1GetDataStream_next_def gets_def\<close>)
    qed (use Sends c in \<open>simp add: V1GetDataStream_next_def gets_def\<close>)
  qed
qed

lemma stream_run_Cons [simp]: "stream_run ord (e # es) s = stream_run ord es (stream_turn ord e s)"
  and stream_run_Nil [simp]: "stream_run ord [] s = s"
  by (simp_all add: stream_run_def)

lemma run_length: "h < length (ss_calls s) \<Longrightarrow> h < length (ss_calls (stream_run ord es s))"
proof (induction es arbitrary: s)
  case (Cons e es)
  have "h < length (ss_calls (stream_turn ord e s))" using Cons.prems turn_length[of s ord e] by linarith
  then show ?case using Cons.IH by simp
qed simp

lemma run_ended:
  "h < length (ss_calls s) \<Longrightarrow> the_call s h = Ended st sent \<Longrightarrow>
    the_call (stream_run ord es s) h = Ended st sent"
proof (induction es arbitrary: s)
  case (Cons e es)
  have "h < length (ss_calls (stream_turn ord e s))" using Cons.prems(1) turn_length[of s ord e] by linarith
  then show ?case using Cons.IH turn_ended[OF Cons.prems] by simp
qed simp

lemma ended_received:
  assumes "range_order ord" "stream_ok s" "h < length (ss_calls s)" "the_call s h = Serving sid ch sent"
    and "the_call (stream_turn ord e s) h = Ended st sent'"
  shows "sent' = sent"
  using turn_serving[OF assms(1-4), of e] assms(5) by auto

text \<open>Whatever happens, a call receives a part of what is broadcast, in its order.\<close>

lemma run_received:
  assumes "range_order ord"
  shows "stream_ok s \<Longrightarrow> h < length (ss_calls s) \<Longrightarrow>
    subseq (received (stream_run ord es s) (the_call (stream_run ord es s) h))
      (received s (the_call s h) @ published_from (ss_stopped s) es)"
proof (induction es arbitrary: s)
  case (Cons e es)
  let ?s = "stream_turn ord e s"
  have ok: "stream_ok ?s" using assms Cons.prems(1) by (rule stream_ok_turn)
  have l: "h < length (ss_calls ?s)" using Cons.prems(2) turn_length[of s ord e] by linarith
  have "subseq (received ?s (the_call ?s h)) (received s (the_call s h) @ value_of (ss_stopped s) e)"
  proof (cases "the_call s h")
    case (Serving sid ch sent)
    from turn_serving[OF assms Cons.prems Serving, of e] show ?thesis
      using Serving by (auto simp: gets_def)
  next
    case (Ended st sent)
    then show ?thesis using turn_ended[OF Cons.prems(2) Ended] by (simp add: prefix_imp_subseq)
  qed
  then have "subseq (received ?s (the_call ?s h) @ published_from (ss_stopped ?s) es)
      ((received s (the_call s h) @ value_of (ss_stopped s) e) @ published_from (ss_stopped ?s) es)"
    by (rule list_emb_append_mono) simp
  with Cons.IH[OF ok l] have "subseq (received (stream_run ord es ?s) (the_call (stream_run ord es ?s) h))
      (received s (the_call s h) @ value_of (ss_stopped s) e @ published_from (ss_stopped ?s) es)"
    by (simp add: subseq_order.trans)
  then show ?case by (simp add: published_from_Cons[where ord = ord])
qed (simp add: published_from_def)

text \<open>The state right after the start of a call.\<close>

lemma open_state:
  assumes "sid \<noteq> []"
  shows "the_call (V1GetDataStream_open sid s) (length (ss_calls s)) = Serving sid (length (bc_chans (ss_bc s))) []"
    and "bc_chans (ss_bc (V1GetDataStream_open sid s)) ! length (bc_chans (ss_bc s)) = []"
    and "length (ss_calls (V1GetDataStream_open sid s)) = Suc (length (ss_calls s))"
    and "ss_stopped (V1GetDataStream_open sid s) = ss_stopped s"
    and "map_of (bc_subs (ss_bc (V1GetDataStream_open sid s))) = (map_of (bc_subs (ss_bc s)))(sid \<mapsto> length (bc_chans (ss_bc s)))"
  using assms by (simp_all add: V1GetDataStream_open_def subscribe_def update_conv')

lemma stream_ok_open: "stream_ok s \<Longrightarrow> stream_ok (V1GetDataStream_open sid s)"
  using stream_ok_turn[OF range_order_id, of s "Opens sid"] by simp

subsection \<open>A subscriber alone with its id\<close>

definition alone :: "nat \<Rightarrow> string \<Rightarrow> nat \<Rightarrow> 'a stream_sys \<Rightarrow> bool" where
  "alone h sid ch s \<longleftrightarrow>
     h < length (ss_calls s) \<and> map_of (bc_subs (ss_bc s)) sid = Some ch \<and>
     (\<exists>sent. the_call s h = Serving sid ch sent) \<and>
     (\<forall>h' < length (ss_calls s). h' \<noteq> h \<longrightarrow> \<not> call_serves sid (the_call s h'))"

lemma alone_turn:
  assumes ord: "range_order ord" and ok: "stream_ok s" and a: "alone h sid ch s" and u: "undisturbed h sid [e]"
  shows "alone h sid ch (stream_turn ord e s)"
proof (cases e)
  case (Opens sid')
  then show ?thesis
    using a u by (auto simp: alone_def V1GetDataStream_open_def subscribe_def update_conv' nth_append less_Suc_eq)
next
  case (Turn sel)
  then show ?thesis using a by (cases sel) (auto simp: alone_def StartBroadcasting_turn_def)
next
  case (Sends h' answer)
  show ?thesis
  proof (cases "h' < length (ss_calls s)")
    case h': True
    show ?thesis
    proof (cases "the_call s h'")
      case (Serving sid' ch' sent')
      have sid: "sid' \<noteq> sid" if "h' \<noteq> h" using a h' Serving that by (auto simp: alone_def)
      then show ?thesis
        using Sends a u h' Serving
        by (auto simp: alone_def V1GetDataStream_next_def Let_def unsubscribe_def AList.delete_conv' nth_list_update
            split: list.split option.split)
    qed (use Sends a in \<open>simp add: V1GetDataStream_next_def\<close>)
  qed (use Sends a in \<open>simp add: V1GetDataStream_next_def\<close>)
qed

lemma undisturbed_Cons: "undisturbed h sid (e # es) \<longleftrightarrow> undisturbed h sid [e] \<and> undisturbed h sid es"
  by (cases e) auto

lemma alone_room:
  assumes ord: "range_order ord" and ok: "stream_ok s" and a: "alone h sid ch s" and u: "undisturbed h sid [e]"
    and k: "keeps_up h (length (bc_chans (ss_bc s) ! ch)) (e # es)" and run: "\<not> ss_stopped s"
  shows "ss_stopped (stream_turn ord e s) \<or>
    keeps_up h (length (bc_chans (ss_bc (stream_turn ord e s)) ! ch)) es"
proof -
  obtain sent where c: "h < length (ss_calls s)" "the_call s h = Serving sid ch sent" using a by (auto simp: alone_def)
  have ch: "ch < length (bc_chans (ss_bc s))" using ok c by (simp add: stream_ok_def calls_ok_def)
  have bc: "distinct (map fst (bc_subs (ss_bc s)))" "distinct (map snd (bc_subs (ss_bc s)))"
    using ok by (simp_all add: stream_ok_def bc_ok_def)
  have mem: "ch \<in> snd ` set (bc_subs (ss_bc s))"
    using a map_of_SomeD[of "bc_subs (ss_bc s)" sid ch] by (force simp: alone_def)
  show ?thesis
  proof (cases e)
    case (Opens sid')
    then show ?thesis
      using k ch by (simp add: V1GetDataStream_open_def subscribe_def nth_append)
  next
    case (Turn sel)
    then show ?thesis
      using k run mem broadcast_nth[OF ord bc ch] by (cases sel) (simp_all add: StartBroadcasting_turn_def)
  next
    case (Sends h' answer)
    show ?thesis
    proof (cases "h' = h")
      case True
      then show ?thesis
        using Sends k c ch u
        by (cases "bc_chans (ss_bc s) ! ch") (simp_all add: V1GetDataStream_next_def Let_def)
    next
      case False
      have other: "ch' \<noteq> ch" if "h' < length (ss_calls s)" "the_call s h' = Serving sid' ch' sent'" for sid' ch' sent'
        using ok c that False unfolding stream_ok_def calls_ok_def by (metis call_chan.simps(1))
      show ?thesis
        using Sends k False other
        by (auto simp: V1GetDataStream_next_def Let_def split: stream_call.split list.split option.split)
    qed
  qed
qed

lemma alone_run:
  assumes ord: "range_order ord"
  shows "stream_ok s \<Longrightarrow> alone h sid ch s \<Longrightarrow> the_call s h = Serving sid ch sent \<Longrightarrow> undisturbed h sid es \<Longrightarrow>
    ss_stopped s \<or> keeps_up h (length (bc_chans (ss_bc s) ! ch)) es \<Longrightarrow>
    \<exists>sent'. the_call (stream_run ord es s) h = Serving sid ch sent' \<and>
      sent' @ bc_chans (ss_bc (stream_run ord es s)) ! ch =
        (sent @ bc_chans (ss_bc s) ! ch) @ published_from (ss_stopped s) es"
proof (induction es arbitrary: s sent)
  case (Cons e es)
  let ?s = "stream_turn ord e s"
  have u: "undisturbed h sid [e]" "undisturbed h sid es" using Cons.prems(4) undisturbed_Cons by blast+
  have ok: "stream_ok ?s" using ord Cons.prems(1) by (rule stream_ok_turn)
  have a: "alone h sid ch ?s" using ord Cons.prems(1,2) u(1) by (rule alone_turn)
  have h: "h < length (ss_calls s)" using Cons.prems(2) by (simp add: alone_def)
  obtain sent1 where s1: "the_call ?s h = Serving sid ch sent1" using a by (auto simp: alone_def)
  with turn_serving[OF ord Cons.prems(1) h Cons.prems(3), of e]
  have eq: "sent1 @ bc_chans (ss_bc ?s) ! ch = (sent @ bc_chans (ss_bc s) ! ch) @ gets s ch e" by auto
  have stop: "ss_stopped s \<Longrightarrow> ss_stopped ?s"
    by (cases e) (auto simp: V1GetDataStream_open_def V1GetDataStream_next_def StartBroadcasting_turn_def Let_def
        split: prod.split stream_call.split list.split option.split)
  have k: "ss_stopped ?s \<or> keeps_up h (length (bc_chans (ss_bc ?s) ! ch)) es"
    using Cons.prems(5) stop alone_room[OF ord Cons.prems(1,2) u(1)] by blast
  have mem: "ch \<in> snd ` set (bc_subs (ss_bc s))"
    using Cons.prems(2) map_of_SomeD[of "bc_subs (ss_bc s)" sid ch] by (force simp: alone_def)
  have "gets s ch e = value_of (ss_stopped s) e"
  proof (cases "ss_stopped s")
    case True
    have "value_of True e = []" by (cases "(True, e)" rule: value_of.cases) auto
    with True show ?thesis by (simp add: gets_def)
  next
    case False
    then have "keeps_up h (length (bc_chans (ss_bc s) ! ch)) (e # es)" using Cons.prems(5) by simp
    then show ?thesis using mem False by (cases "(False, e)" rule: value_of.cases) (simp_all add: gets_def)
  qed
  with Cons.IH[OF ok a s1 u(2) k] eq show ?case by (simp add: published_from_Cons[where ord = ord])
qed (simp add: published_from_def)

subsection \<open>A subscriber whose id is taken\<close>

lemma cut_off_turn:
  assumes ord: "range_order ord" and ok: "stream_ok s" and ch: "ch < length (bc_chans (ss_bc s))"
    and cut: "ch \<notin> snd ` set (bc_subs (ss_bc s))"
  shows "ch < length (bc_chans (ss_bc (stream_turn ord e s)))"
    and "ch \<notin> snd ` set (bc_subs (ss_bc (stream_turn ord e s)))"
proof -
  have up: "ch \<notin> snd ` set (AList.update sid (length (bc_chans (ss_bc s))) (bc_subs (ss_bc s)))" for sid
    using cut ch set_update_subset[of sid "length (bc_chans (ss_bc s))" "bc_subs (ss_bc s)"] by auto
  show "ch < length (bc_chans (ss_bc (stream_turn ord e s)))"
    using ch by (cases e) (auto simp: V1GetDataStream_open_def V1GetDataStream_next_def StartBroadcasting_turn_def
        subscribe_def Let_def split: stream_call.split list.split option.split selected.split)
  show "ch \<notin> snd ` set (bc_subs (ss_bc (stream_turn ord e s)))"
    using cut up by (cases e) (auto simp: V1GetDataStream_open_def V1GetDataStream_next_def StartBroadcasting_turn_def
        subscribe_def unsubscribe_def AList.delete_eq Let_def
        split: stream_call.split list.split option.split selected.split)
qed

lemma cut_off_run:
  assumes ord: "range_order ord"
  shows "stream_ok s \<Longrightarrow> h < length (ss_calls s) \<Longrightarrow> the_call s h = Serving sid ch sent \<Longrightarrow>
    ch \<notin> snd ` set (bc_subs (ss_bc s)) \<Longrightarrow>
    prefix (received (stream_run ord es s) (the_call (stream_run ord es s) h)) (sent @ bc_chans (ss_bc s) ! ch)"
proof (induction es arbitrary: s sent)
  case (Cons e es)
  let ?s = "stream_turn ord e s"
  have ch: "ch < length (bc_chans (ss_bc s))" using Cons.prems by (simp add: stream_ok_def calls_ok_def)
  have ok: "stream_ok ?s" using ord Cons.prems(1) by (rule stream_ok_turn)
  have l: "h < length (ss_calls ?s)" using Cons.prems(2) turn_length[of s ord e] by linarith
  have cut: "ch \<notin> snd ` set (bc_subs (ss_bc ?s))" using cut_off_turn(2)[OF ord Cons.prems(1) ch Cons.prems(4)] .
  have g: "gets s ch e = []" using Cons.prems(4) by (simp add: gets_def)
  from turn_serving[OF ord Cons.prems(1,2,3), of e] show ?case
  proof (elim disjE conjE exE)
    fix sent' assume s': "the_call ?s h = Serving sid ch sent'"
      "sent' @ bc_chans (ss_bc ?s) ! ch = (sent @ bc_chans (ss_bc s) ! ch) @ gets s ch e"
    then show ?thesis using Cons.IH[OF ok l s'(1) cut] g by simp
  next
    fix st assume "the_call ?s h = Ended st sent"
    then show ?thesis using run_ended[OF l] by simp
  qed
qed simp

text \<open>The map never names the channel of a call under another id than the call's.\<close>

definition owned :: "'a stream_sys \<Rightarrow> bool" where
  "owned s \<longleftrightarrow> (\<forall>h < length (ss_calls s). \<forall>sid ch sent sid'. the_call s h = Serving sid ch sent \<longrightarrow>
     (sid', ch) \<in> set (bc_subs (ss_bc s)) \<longrightarrow> sid' = sid)"

lemma owned_turn:
  assumes ok: "stream_ok s" and ow: "owned s"
  shows "owned (stream_turn ord e s)"
proof (cases e)
  case (Opens sid)
  have lt: "h < length (ss_calls s) \<Longrightarrow> the_call s h = Serving i ch sent \<Longrightarrow> ch < length (bc_chans (ss_bc s))" for h i ch sent
    using ok by (simp add: stream_ok_def calls_ok_def)
  have fresh: "(i, length (bc_chans (ss_bc s))) \<notin> set (bc_subs (ss_bc s))" for i
    using ok by (auto simp: stream_ok_def bc_ok_def)
  have up: "(i, ch) \<in> set (AList.update sid (length (bc_chans (ss_bc s))) (bc_subs (ss_bc s))) \<Longrightarrow>
      i = sid \<and> ch = length (bc_chans (ss_bc s)) \<or> (i, ch) \<in> set (bc_subs (ss_bc s))" for i ch
    using set_update_subset[of sid "length (bc_chans (ss_bc s))" "bc_subs (ss_bc s)"] by auto
  show ?thesis
    using Opens ow unfolding owned_def
    by (auto simp: V1GetDataStream_open_def subscribe_def nth_append less_Suc_eq fresh split: if_splits
        dest!: up dest: lt)
next
  case (Turn sel)
  then show ?thesis using ow by (cases sel) (auto simp: owned_def StartBroadcasting_turn_def)
next
  case (Sends h answer)
  then show ?thesis
    using ow unfolding owned_def
    by (auto simp: V1GetDataStream_next_def Let_def unsubscribe_def AList.delete_eq nth_list_update
        split: stream_call.splits list.splits option.splits if_splits)
qed

lemma owned_run: "range_order ord \<Longrightarrow> stream_ok s \<Longrightarrow> owned s \<Longrightarrow> owned (stream_run ord es s)"
  by (induction es arbitrary: s) (auto intro: owned_turn stream_ok_turn)

lemma owned_new [simp]: "owned newStream"
  by (simp add: owned_def newStream_def)

lemma reachable_ok:
  assumes "range_order ord"
  shows "stream_ok (stream_run ord es newStream)" and "owned (stream_run ord es newStream)"
  using stream_ok_run[OF assms stream_ok_new] owned_run[OF assms stream_ok_new owned_new] by blast+

lemma open_cuts_off:
  assumes ok: "stream_ok s" and ow: "owned s" and sid: "sid \<noteq> []"
    and h: "h < length (ss_calls s)" and c: "the_call s h = Serving sid ch sent"
  shows "ch \<notin> snd ` set (bc_subs (ss_bc (V1GetDataStream_open sid s)))"
proof
  let ?n = "length (bc_chans (ss_bc s))"
  assume "ch \<in> snd ` set (bc_subs (ss_bc (V1GetDataStream_open sid s)))"
  then obtain i where i: "(i, ch) \<in> set (AList.update sid ?n (bc_subs (ss_bc s)))"
    using sid by (auto simp: V1GetDataStream_open_def subscribe_def)
  have lt: "ch < ?n" using ok h c by (simp add: stream_ok_def calls_ok_def)
  then have "(i, ch) \<in> set (bc_subs (ss_bc s))"
    using i set_update_subset[of sid ?n "bc_subs (ss_bc s)"] by auto
  then have "i = sid" using ow h c unfolding owned_def by blast
  moreover have "distinct (map fst (AList.update sid ?n (bc_subs (ss_bc s))))"
    using ok by (simp add: stream_ok_def bc_ok_def distinct_update)
  ultimately have "map_of (AList.update sid ?n (bc_subs (ss_bc s))) sid = Some ch"
    using i by (simp add: map_of_is_SomeI)
  then show False using lt by (simp add: update_conv')
qed

text \<open>A failed send of one call drops its id, and with it the channel of the other one.\<close>

lemma unsubscribe_cuts_off:
  assumes ok: "stream_ok s" and ow: "owned s" and h: "h < length (ss_calls s)" "the_call s h = Serving sid ch sent"
    and pending: "bc_chans (ss_bc s) ! ch \<noteq> []"
    and h2: "h2 < length (ss_calls s)" "the_call s h2 = Serving sid ch2 sent2" "h2 \<noteq> h"
  shows "ch2 \<notin> snd ` set (bc_subs (ss_bc (V1GetDataStream_next h (Some err) s)))"
    and "the_call (V1GetDataStream_next h (Some err) s) h2 = Serving sid ch2 sent2"
    and "bc_chans (ss_bc (V1GetDataStream_next h (Some err) s)) ! ch2 = bc_chans (ss_bc s) ! ch2"
proof -
  obtain v vs where q: "bc_chans (ss_bc s) ! ch = v # vs" using pending by (cases "bc_chans (ss_bc s) ! ch") auto
  have "ch2 \<noteq> ch" using ok h h2 unfolding stream_ok_def calls_ok_def by (metis call_chan.simps(1))
  have eq: "V1GetDataStream_next h (Some err) s =
      s\<lparr>ss_bc := unsubscribe sid ((ss_bc s)\<lparr>bc_chans := (bc_chans (ss_bc s))[ch := vs]\<rparr>),
        ss_calls := (ss_calls s)[h := Ended (Unavailable (''failed to send data to stream: '' @ err_text err)) sent]\<rparr>"
    using h q by (simp add: V1GetDataStream_next_def Let_def)
  show "the_call (V1GetDataStream_next h (Some err) s) h2 = Serving sid ch2 sent2"
    using h2 by (simp add: eq)
  show "bc_chans (ss_bc (V1GetDataStream_next h (Some err) s)) ! ch2 = bc_chans (ss_bc s) ! ch2"
    using \<open>ch2 \<noteq> ch\<close> by (simp add: eq)
  have own: "i = sid" if "(i, ch2) \<in> set (bc_subs (ss_bc s))" for i
    using ow h2 that unfolding owned_def by blast
  show "ch2 \<notin> snd ` set (bc_subs (ss_bc (V1GetDataStream_next h (Some err) s)))"
    using own by (auto simp: eq unsubscribe_def AList.delete_eq)
qed

subsection \<open>The theorems\<close>

text \<open>
  C34. Whatever the interleaving of subscribers, sends and broadcasts, a call has sent and
  still holds values that were broadcast after it subscribed, in their order and none of them twice, and
  no channel ever holds more than 32 values.
\<close>

theorem stream_in_order:
  assumes "range_order ord" and "s = stream_run ord es0 newStream" and "sid \<noteq> []"
    and "s' = stream_run ord es (V1GetDataStream_open sid s)"
  shows "subseq (received s' (ss_calls s' ! length (ss_calls s))) (published_from (ss_stopped s) es) \<and>
    (\<forall>q \<in> set (bc_chans (ss_bc s')). length q \<le> defaultSubChannelSize)"
proof -
  have ok: "stream_ok (V1GetDataStream_open sid s)"
    using stream_ok_open[OF reachable_ok(1)[OF assms(1)]] assms(2) by simp
  have "stream_ok s'" using stream_ok_run[OF assms(1) ok] assms(4) by simp
  moreover have "length (ss_calls s) < length (ss_calls (V1GetDataStream_open sid s))"
    using open_state(3)[OF assms(3), of s] by simp
  note run_received[OF assms(1) ok this, of es]
  ultimately show ?thesis
    using assms(4) open_state[OF assms(3), of s] by (simp add: stream_ok_def bc_ok_def)
qed

theorem stream_in_order_witness:
  "subseq [1 :: nat, 3] [1, 2, 3] \<and>
   received (stream_run id [Turn (FromData 1), Sends 0 None] (V1GetDataStream_open ''a'' newStream)) (Serving ''a'' 0 [1]) = [1 :: nat] \<and>
   subseq (received (stream_run id [Turn (FromData 1), Sends 0 None] (V1GetDataStream_open ''a'' newStream))
       (ss_calls (stream_run id [Turn (FromData 1), Sends 0 None] (V1GetDataStream_open ''a'' newStream)) ! 0)) [1 :: nat]"
proof -
  let ?es = "[Turn (FromData (1 :: nat)), Sends 0 None]"
  have ord: "range_order (id :: string key_order)" by (simp add: range_order_def)
  have "received (stream_run id ?es (V1GetDataStream_open ''a'' newStream)) (Serving ''a'' 0 [1]) = [1]"
    by (simp add: V1GetDataStream_open_def V1GetDataStream_next_def StartBroadcasting_turn_def subscribe_def
        newStream_def newBroadcaster_def broadcast_def range_map_def offer_def defaultSubChannelSize_def Let_def)
  with stream_in_order[OF ord, of newStream "[]" "''a''" _ ?es] show ?thesis
    by (simp add: published_from_def newStream_def)
qed

text \<open>
  C17. Accounts that were produced into the topic reach a subscriber: when a batch was produced,
  the pod's consumer forwards its records, and a subscriber that is alone with its id keeps up with them
  (its 32 places never overflow) and its sends succeed, then what it has sent and still holds is the
  conversion of every account of the batch, in their order.
\<close>

theorem stream_delivers:
  assumes "range_order ord" and "s = stream_run ord es0 newStream" and "\<not> ss_stopped s"
    and "sid \<noteq> []" and "\<not> (\<exists>c \<in> set (ss_calls s). call_serves sid c)"
    and "codec_ok K" and "produceAccounts K None accounts topic = (Ok (), topic')"
    and "published es = consumed K (drop (length topic) topic')"
    and "keeps_up (length (ss_calls s)) 0 es" and "undisturbed (length (ss_calls s)) sid es"
    and "s' = stream_run ord es (V1GetDataStream_open sid s)"
  shows "\<exists>ch sent. ss_calls s' ! length (ss_calls s) = Serving sid ch sent \<and>
    map Ok (sent @ bc_chans (ss_bc s') ! ch) = map (account_to_proto \<circ> Some) accounts"
proof -
  let ?s = "V1GetDataStream_open sid s" and ?h = "length (ss_calls s)" and ?ch = "length (bc_chans (ss_bc s))"
  have ok: "stream_ok ?s" using stream_ok_open[OF reachable_ok(1)[OF assms(1)]] assms(2) by simp
  note st = open_state[OF assms(4), of s]
  have "the_call ?s h' = the_call s h'" if "h' < ?h" for h'
    using that assms(4) by (simp add: V1GetDataStream_open_def subscribe_def nth_append)
  then have a: "alone ?h sid ?ch ?s"
    using assms(5) st by (auto simp: alone_def less_Suc_eq)
  from alone_run[OF assms(1) ok a st(1) assms(10)] obtain sent' where
    r: "ss_calls s' ! ?h = Serving sid ?ch sent'" "sent' @ bc_chans (ss_bc s') ! ?ch = published es"
    using assms(3,9,11) st by (auto simp: published_from_def)
  have "map Ok (published es) = map (account_to_proto \<circ> Some) accounts"
    using produced_consumed[OF assms(6,7)] assms(8) by auto
  then show ?thesis using r by metis
qed

definition ex_events :: "proto_account option list \<Rightarrow> proto_account option stream_event list" where
  "ex_events vs = map (Turn \<circ> FromData) vs @ [Sends 0 None]"

theorem stream_delivers_witness:
  "\<exists>ch sent p. ss_calls (stream_run id (ex_events [p]) (V1GetDataStream_open ''pod'' newStream)) ! 0 =
      Serving ''pod'' ch sent \<and>
    map Ok (sent @ bc_chans (ss_bc (stream_run id (ex_events [p]) (V1GetDataStream_open ''pod'' newStream))) ! ch) =
      [account_to_proto (Some account_zero)]"
proof -
  obtain p where p: "account_to_proto (Some account_zero) = Ok p"
    by (simp add: account_to_proto_def label_to_proto_def account_zero_def)
  have ok: "codec_ok ex_account_codec" by (simp add: codec_ok_def ex_account_codec_def)
  have pr: "produceAccounts ex_account_codec None [account_zero] [] = (Ok (), [[7]])"
    using p by (simp add: produceAccounts_def encode_account_def ex_account_codec_def)
  have c: "consumed ex_account_codec [[7]] = [p]" using p by (simp add: ex_account_codec_def)
  have ord: "range_order (id :: string key_order)" by (simp add: range_order_def)
  from stream_delivers[OF ord, of newStream "[]" "''pod''" ex_account_codec "[account_zero]" "[]" "[[7]]" "ex_events [p]"] ok pr c
  show ?thesis by (auto simp: newStream_def ex_events_def defaultSubChannelSize_def)
qed

text \<open>
  C40. Two subscribers with one id: once a second call opens under the id of a call that is still
  being served, the first call receives nothing that is broadcast from then on. And if a send of the first
  call then fails, its deferred unsubscription removes the second call's channel, which receives nothing either.
\<close>

theorem same_id_cuts_off:
  assumes "range_order ord" and "s = stream_run ord es0 newStream"
    and "h < length (ss_calls s)" and "ss_calls s ! h = Serving sid ch sent" and "sid \<noteq> []"
    and "s1 = V1GetDataStream_open sid s"
  shows "prefix (received (stream_run ord es s1) (ss_calls (stream_run ord es s1) ! h)) (sent @ bc_chans (ss_bc s) ! ch) \<and>
    (bc_chans (ss_bc s) ! ch \<noteq> [] \<longrightarrow>
      received (stream_run ord es (V1GetDataStream_next h (Some err) s1))
        (ss_calls (stream_run ord es (V1GetDataStream_next h (Some err) s1)) ! length (ss_calls s)) = [])"
proof (intro conjI impI)
  have s: "stream_ok s" "owned s" using reachable_ok[OF assms(1)] assms(2) by auto
  have s1: "stream_ok s1" "owned s1"
    using stream_ok_open[OF s(1)] owned_turn[OF s, of id "Opens sid"] assms(6) by auto
  note st = open_state[OF assms(5), of s, folded assms(6)]
  have c: "the_call s1 h = Serving sid ch sent" "h < length (ss_calls s1)" "h \<noteq> length (ss_calls s)"
    using assms(3-6) by (auto simp: V1GetDataStream_open_def subscribe_def nth_append)
  have lt: "ch < length (bc_chans (ss_bc s))" using s(1) assms(3,4) by (simp add: stream_ok_def calls_ok_def)
  then have q: "bc_chans (ss_bc s1) ! ch = bc_chans (ss_bc s) ! ch"
    using assms(5,6) by (simp add: V1GetDataStream_open_def subscribe_def nth_append)
  have cut: "ch \<notin> snd ` set (bc_subs (ss_bc s1))"
    using open_cuts_off[OF s assms(5,3,4)] assms(6) by simp
  show "prefix (received (stream_run ord es s1) (ss_calls (stream_run ord es s1) ! h)) (sent @ bc_chans (ss_bc s) ! ch)"
    using cut_off_run[OF assms(1) s1(1) c(2,1) cut] q by simp
  assume pending: "bc_chans (ss_bc s) ! ch \<noteq> []"
  let ?s2 = "V1GetDataStream_next h (Some err) s1" and ?h2 = "length (ss_calls s)"
  have h2: "?h2 < length (ss_calls s1)" using st(3) by simp
  note u = unsubscribe_cuts_off[OF s1 c(2,1) _ h2 st(1) not_sym[OF c(3)], of err]
  have ok2: "stream_ok ?s2" using stream_ok_turn[OF assms(1) s1(1), of "Sends h (Some err)"] by simp
  have l2: "?h2 < length (ss_calls ?s2)"
    using turn_length[of s1 ord "Sends h (Some err)"] h2 by simp
  have "prefix (received (stream_run ord es ?s2) (the_call (stream_run ord es ?s2) ?h2))
      ([] @ bc_chans (ss_bc ?s2) ! length (bc_chans (ss_bc s)))"
    using cut_off_run[OF assms(1) ok2 l2] u pending q by simp
  then show "received (stream_run ord es ?s2) (the_call (stream_run ord es ?s2) ?h2) = []"
    using u(3) pending q st(2) by simp
qed

theorem same_id_cuts_off_witness:
  "prefix (received (stream_run id [Turn (FromData 2)] (V1GetDataStream_open ''a'' (stream_run id [Opens ''a'', Turn (FromData 1)] newStream)))
      (ss_calls (stream_run id [Turn (FromData 2)] (V1GetDataStream_open ''a'' (stream_run id [Opens ''a'', Turn (FromData 1)] newStream))) ! 0)) [1 :: nat]"
proof -
  define s :: "nat stream_sys" where "s = stream_run id [Opens ''a'', Turn (FromData 1)] newStream"
  have ord: "range_order (id :: string key_order)" by (simp add: range_order_def)
  have e: "s = \<lparr>ss_bc = \<lparr>bc_subs = [(''a'', 0)], bc_chans = [[1]]\<rparr>, ss_calls = [Serving ''a'' 0 []], ss_stopped = False\<rparr>"
    by (simp add: s_def V1GetDataStream_open_def StartBroadcasting_turn_def subscribe_def
        newStream_def newBroadcaster_def broadcast_def range_map_def offer_def defaultSubChannelSize_def)
  have "ss_calls s ! 0 = Serving ''a'' 0 []" "0 < length (ss_calls s)" "bc_chans (ss_bc s) ! 0 = [1]"
    by (simp_all add: e)
  with same_id_cuts_off[OF ord s_def _ _ _ refl, of 0 "''a''" 0 "[]" "[Turn (FromData 2)]"]
  have "prefix (received (stream_run id [Turn (FromData 2)] (V1GetDataStream_open ''a'' s))
      (ss_calls (stream_run id [Turn (FromData 2)] (V1GetDataStream_open ''a'' s)) ! 0)) [1]"
    by (simp del: stream_run_Cons)
  then show ?thesis by (simp only: s_def)
qed

end
