(* ===== verification/CodeTransfer.thy ===== *)
theory CodeTransfer
  imports Store
begin

section \<open>cmd/db: moving code and data of account states\<close>

text \<open>
  The commands \<open>transferCodeData\<close> and \<open>clearCodeData\<close> of \<open>cmd/db/db.go\<close>. The first copies
  the code and the data of the account states of ClickHouse into its two key-value tables, the second
  clears both in the account states of PostgreSQL. Both work in batches of logical times: the next batch starts at the
  time of the row that is \<open>limit\<close> places behind the start of this one. The loop is a partial
  function, as it need not end; every theorem says when it does.
\<close>

subsection \<open>One batch\<close>

text \<open>
  The query of the next logical time: sorted, from \<open>lastTxLT\<close> on, after an offset of \<open>limit\<close>
  rows. Without such a row the batch is the last one, which the code marks with 0.
\<close>

definition batch_times :: "u64 \<Rightarrow> db \<Rightarrow> u64 list" where
  "batch_times lt d = sort (filter (\<lambda>x. lt \<le> x) (map acc_last_tx_lt (ch_accounts d)))"

definition nextTxLT :: "nat \<Rightarrow> u64 \<Rightarrow> db \<Rightarrow> u64 res \<times> db" where
  "nextTxLT limit lt d =
     (case query (\<lambda>d. drop limit (batch_times lt d)) d of
        (Ok [], d) \<Rightarrow> (Ok 0, d)
      | (Ok (x # xs), d) \<Rightarrow> (Ok x, d)
      | (Err e, d) \<Rightarrow> (if err_is e ErrNoRows then (Ok 0, d) else (Err (Wrap e ''get next tx lt''), d))
      | (Panic p, d) \<Rightarrow> (Panic p, d))"

definition in_batch :: "u64 \<Rightarrow> u64 \<Rightarrow> account_state \<Rightarrow> bool" where
  "in_batch lt next a \<longleftrightarrow> lt \<le> acc_last_tx_lt a \<and> (next \<noteq> 0 \<longrightarrow> acc_last_tx_lt a < next)"

text \<open>
  \<open>SELECT hash, any(content) ... GROUP BY hash\<close> inserted into a key-value table. \<open>any\<close> is
  ClickHouse's choice of one of the values of a group.
\<close>

definition group_contents :: "(bytes list \<Rightarrow> bytes) \<Rightarrow> (account_state \<Rightarrow> bytes) \<Rightarrow> (account_state \<Rightarrow> bytes) \<Rightarrow>
    account_state list \<Rightarrow> (bytes \<times> bytes) list" where
  "group_contents any hash content rows =
     map (\<lambda>h. (h, any (map content (filter (\<lambda>a. hash a = h) rows)))) (remdups (map hash rows))"

definition any_ok :: "(bytes list \<Rightarrow> bytes) \<Rightarrow> bool" where
  "any_ok any \<longleftrightarrow> (\<forall>xs. xs \<noteq> [] \<longrightarrow> any xs \<in> set xs)"

definition transfer_batch :: "(bytes list \<Rightarrow> bytes) \<Rightarrow> u64 \<Rightarrow> u64 \<Rightarrow> db \<Rightarrow> goerr option \<times> db" where
  "transfer_batch any lt next d =
     then_exec (wrap_exec ''transfer code'' (exec (\<lambda>d. d\<lparr>ch_code := upsert_all fst snd
         (group_contents any acc_code_hash acc_code (filter (\<lambda>a. in_batch lt next a \<and> acc_code a \<noteq> []) (ch_accounts d)))
         (ch_code d)\<rparr>) d))
       (\<lambda>d. wrap_exec ''transfer data'' (exec (\<lambda>d. d\<lparr>ch_data := upsert_all fst snd
         (group_contents any acc_data_hash acc_data (filter (\<lambda>a. in_batch lt next a \<and> acc_data a \<noteq> []) (ch_accounts d)))
         (ch_data d)\<rparr>) d))"

definition clear_rows :: "(account_state \<Rightarrow> bool) \<Rightarrow> (account_state \<Rightarrow> account_state) \<Rightarrow> db \<Rightarrow> db" where
  "clear_rows P f d = d\<lparr>pg_accounts := map (\<lambda>(k, a). (k, if P a then f a else a)) (pg_accounts d)\<rparr>"

definition clear_batch :: "u64 \<Rightarrow> u64 \<Rightarrow> db \<Rightarrow> goerr option \<times> db" where
  "clear_batch lt next d =
     then_exec (wrap_exec ''clear code'' (exec (clear_rows (in_batch lt next) (\<lambda>a. a\<lparr>acc_code := []\<rparr>)) d))
       (\<lambda>d. wrap_exec ''clear data'' (exec (clear_rows (in_batch lt next) (\<lambda>a. a\<lparr>acc_data := []\<rparr>)) d))"

subsection \<open>The loop\<close>

partial_function (option) code_batches :: "(u64 \<Rightarrow> db \<Rightarrow> u64 res \<times> db) \<Rightarrow> (u64 \<Rightarrow> u64 \<Rightarrow> db \<Rightarrow> goerr option \<times> db) \<Rightarrow>
    u64 \<Rightarrow> db \<Rightarrow> (unit res \<times> db) option" where
  "code_batches nxt body lt d =
     (case nxt lt d of
        (Ok n, d) \<Rightarrow>
          (case body lt n d of
             (None, d) \<Rightarrow> (if n = 0 then Some (Ok (), d) else code_batches nxt body n d)
           | (Some e, d) \<Rightarrow> Some (Err e, d))
      | (Err e, d) \<Rightarrow> Some (Err e, d)
      | (Panic p, d) \<Rightarrow> Some (Panic p, d))"

definition transferCodeData :: "(bytes list \<Rightarrow> bytes) \<Rightarrow> nat \<Rightarrow> u64 \<Rightarrow> db \<Rightarrow> (unit res \<times> db) option" where
  "transferCodeData any limit startFrom d = code_batches (nextTxLT limit) (transfer_batch any) startFrom d"

definition clearCodeData :: "nat \<Rightarrow> u64 \<Rightarrow> db \<Rightarrow> (unit res \<times> db) option" where
  "clearCodeData limit startFrom d = code_batches (nextTxLT limit) clear_batch startFrom d"

subsection \<open>Where the next batch starts\<close>

definition states_at :: "u64 \<Rightarrow> db \<Rightarrow> nat" where
  "states_at lt d = length (filter (\<lambda>a. acc_last_tx_lt a = lt) (ch_accounts d))"

lemma batch_times_props:
  "sorted (batch_times lt d)" "x \<in> set (batch_times lt d) \<longleftrightarrow> lt \<le> x \<and> x \<in> acc_last_tx_lt ` set (ch_accounts d)"
  by (auto simp: batch_times_def)

lemma length_filter_batch_times:
  assumes "lt \<le> x"
  shows "length (filter (\<lambda>y. y = x) (batch_times lt d)) = states_at x d"
proof -
  have "length (filter (\<lambda>y. y = x) (batch_times lt d)) =
      length (filter (\<lambda>y. y = x) (filter (\<lambda>x. lt \<le> x) (map acc_last_tx_lt (ch_accounts d))))"
    unfolding batch_times_def by (metis mset_filter mset_sort size_mset)
  also have "\<dots> = length (filter (\<lambda>y. y = x) (map acc_last_tx_lt (ch_accounts d)))"
    using assms by (intro arg_cong[where f = length]) (induction "ch_accounts d", auto intro: filter_cong)
  finally show ?thesis by (simp add: states_at_def filter_map comp_def)
qed

text \<open>Smaller values of a sorted list stand before the place of a larger one.\<close>

lemma sorted_smaller_before:
  assumes "sorted xs" and "i < length xs" and "x < (xs ! i :: 'a :: linorder)"
  shows "length (filter (\<lambda>y. y = x) xs) \<le> i"
proof -
  have ge: "xs ! i \<le> y" if "y \<in> set (drop i xs)" for y
    using that assms(1,2) by (auto simp: in_set_conv_nth intro: sorted_nth_mono)
  have "filter (\<lambda>y. y = x) (drop i xs) = []"
    using ge[of x] assms(3) by (auto simp: filter_empty_conv)
  then have "length (filter (\<lambda>y. y = x) xs) = length (filter (\<lambda>y. y = x) (take i xs))"
    by (metis append.right_neutral append_take_drop_id filter_append)
  also have "\<dots> \<le> i" by (metis length_filter_le length_take min.bounded_iff)
  finally show ?thesis .
qed

lemma sorted_all_least:
  assumes "sorted xs" and "i < length xs" and "\<forall>y \<in> set xs. xs ! i \<le> (y :: 'a :: linorder)"
  shows "i < length (filter (\<lambda>y. y = xs ! i) xs)"
proof -
  have "y = xs ! i" if y: "y \<in> set (take (Suc i) xs)" for y
  proof -
    obtain j where "j < length (take (Suc i) xs)" "take (Suc i) xs ! j = y" using y by (auto simp: in_set_conv_nth)
    then have j: "j \<le> i" "xs ! j = y" by auto
    then have "y \<le> xs ! i" using assms(1,2) by (auto intro: sorted_nth_mono)
    moreover have "y \<in> set xs" using y by (rule in_set_takeD)
    ultimately show ?thesis using assms(3) by force
  qed
  then have "filter (\<lambda>y. y = xs ! i) (take (Suc i) xs) = take (Suc i) xs" by (simp add: filter_id_conv)
  then have "Suc i \<le> length (filter (\<lambda>y. y = xs ! i) (take (Suc i) xs @ drop (Suc i) xs))"
    using assms(2) by (simp del: append_take_drop_id)
  then show ?thesis by simp
qed

text \<open>The place where the next batch starts, when no row has the time 0.\<close>

definition times_nonzero :: "db \<Rightarrow> bool" where
  "times_nonzero d \<longleftrightarrow> (\<forall>a \<in> set (ch_accounts d). acc_last_tx_lt a \<noteq> 0)"

lemma nextTxLT_cases:
  assumes "db_faults d = []" and "times_nonzero d"
  obtains (finish) "nextTxLT limit lt d = (Ok 0, d)" "length (batch_times lt d) \<le> limit"
    | (more_rows) "nextTxLT limit lt d = (Ok (batch_times lt d ! limit), d)" "limit < length (batch_times lt d)"
        "batch_times lt d ! limit \<noteq> 0" "lt \<le> batch_times lt d ! limit"
proof (cases "limit < length (batch_times lt d)")
  case True
  then obtain xs where dr: "drop limit (batch_times lt d) = batch_times lt d ! limit # xs"
    by (metis Cons_nth_drop_Suc)
  have "batch_times lt d ! limit \<in> set (batch_times lt d)" using True by simp
  then have "lt \<le> batch_times lt d ! limit" "batch_times lt d ! limit \<noteq> 0"
    using assms(2) by (auto simp: batch_times_props times_nonzero_def)
  with more_rows True dr show ?thesis using assms(1) by (simp add: nextTxLT_def query_def)
next
  case False
  with finish show ?thesis using assms(1) by (simp add: nextTxLT_def query_def)
qed

lemma next_later:
  assumes "limit < length (batch_times lt d)" and "states_at lt d \<le> limit" and "lt \<le> batch_times lt d ! limit"
  shows "lt < batch_times lt d ! limit"
proof (rule ccontr)
  assume "\<not> lt < batch_times lt d ! limit"
  then have eq: "batch_times lt d ! limit = lt" using assms(3) by simp
  have "limit < length (filter (\<lambda>y. y = batch_times lt d ! limit) (batch_times lt d))"
    by (rule sorted_all_least) (auto simp: batch_times_props assms(1) eq)
  then show False using assms(2) length_filter_batch_times[of lt lt d] eq by simp
qed

text \<open>
  A body that always succeeds, as a function of the state: it leaves the rows of ClickHouse alone.
\<close>

definition plain_body :: "(u64 \<Rightarrow> u64 \<Rightarrow> db \<Rightarrow> goerr option \<times> db) \<Rightarrow> (u64 \<Rightarrow> u64 \<Rightarrow> db \<Rightarrow> db) \<Rightarrow> bool" where
  "plain_body body F \<longleftrightarrow> (\<forall>lt n d. db_faults d = [] \<longrightarrow> body lt n d = (None, F lt n d) \<and>
     db_faults (F lt n d) = [] \<and> ch_accounts (F lt n d) = ch_accounts d)"

lemma states_at_cong: "ch_accounts d' = ch_accounts d \<Longrightarrow> states_at x d' = states_at x d"
  and times_nonzero_cong: "ch_accounts d' = ch_accounts d \<Longrightarrow> times_nonzero d' = times_nonzero d"
  by (simp_all add: states_at_def times_nonzero_def)

text \<open>
  The loop ends when no logical time has more rows than a batch, with the composition of the
  batches as its effect.
\<close>

lemma batches_end:
  assumes body: "plain_body body F"
    and base: "\<And>lt d. Q lt d (F lt 0 d)"
    and step: "\<And>lt n d d'. lt < n \<Longrightarrow> n \<noteq> 0 \<Longrightarrow> Q n (F lt n d) d' \<Longrightarrow> Q lt d d'"
  shows "db_faults d = [] \<Longrightarrow> times_nonzero d \<Longrightarrow> (\<And>x. lt \<le> x \<Longrightarrow> states_at x d \<le> limit) \<Longrightarrow>
    \<exists>d'. code_batches (nextTxLT limit) body lt d = Some (Ok (), d') \<and> db_faults d' = [] \<and> Q lt d d'"
proof (induction "2 ^ 64 - unat lt" arbitrary: lt d rule: less_induct)
  case less
  have F: "body lt n d = (None, F lt n d)" "db_faults (F lt n d) = []" "ch_accounts (F lt n d) = ch_accounts d" for n
    using body less.prems(1) by (auto simp: plain_body_def)
  from less.prems(1,2) show ?case
  proof (cases rule: nextTxLT_cases[where limit = limit and lt = lt])
    case finish
    then show ?thesis using F base by (subst code_batches.simps) simp
  next
    case more_rows
    let ?n = "batch_times lt d ! limit"
    have lt: "lt < ?n" using next_later more_rows less.prems(3)[of lt] by blast
    have "2 ^ 64 - unat ?n < 2 ^ 64 - unat lt"
      using lt unsigned_less[of ?n, where ?'a = nat] by (simp add: word_less_nat_alt)
    moreover have "states_at x (F lt ?n d) \<le> limit" if "?n \<le> x" for x
      using less.prems(3)[of x] that lt states_at_cong[OF F(3)] by fastforce
    moreover have "times_nonzero (F lt ?n d)" using less.prems(2) times_nonzero_cong[OF F(3)] by simp
    ultimately obtain d' where d': "code_batches (nextTxLT limit) body ?n (F lt ?n d) = Some (Ok (), d')"
        "db_faults d' = []" "Q ?n (F lt ?n d) d'"
      using less.hyps[OF _ F(2)] by blast
    have "code_batches (nextTxLT limit) body lt d = Some (Ok (), d')"
      using more_rows F(1) d'(1) by (subst code_batches.simps) simp
    then show ?thesis using d' step[OF lt more_rows(3)] by blast
  qed
qed

text \<open>Conversely, a loop that ends has met no logical time with more rows than a batch.\<close>

lemma batches_ended:
  assumes "code_batches nxt body lt d = Some r" and "nxt = nextTxLT limit" and "plain_body body F"
    and "db_faults d = []" and "times_nonzero d" and "lt \<le> x"
  shows "states_at x d \<le> limit"
proof -
  let ?P = "\<lambda>nxt body lt d r. nxt = nextTxLT limit \<longrightarrow> plain_body body F \<longrightarrow> db_faults d = [] \<longrightarrow>
    times_nonzero d \<longrightarrow> (\<forall>x \<ge> lt. states_at x d \<le> limit)"
  have "?P nxt body lt d r" using assms(1)
  proof (rule code_batches.raw_induct[where P = ?P, rotated], intro impI allI)
    fix bs nxt body lt d r x
    assume IH: "\<And>nxt body lt d r. bs nxt body lt d = Some r \<Longrightarrow> ?P nxt body lt d r"
      and run: "(case nxt lt d of
        (Ok n, d) \<Rightarrow> (case body lt n d of
             (None, d) \<Rightarrow> (if n = 0 then Some (Ok (), d) else bs nxt body n d)
           | (Some e, d) \<Rightarrow> Some (Err e, d))
      | (Err e, d) \<Rightarrow> Some (Err e, d)
      | (Panic p, d) \<Rightarrow> Some (Panic p, d)) = Some r"
      and nxt: "nxt = nextTxLT limit" and body: "plain_body body F" and ok: "db_faults d = []" "times_nonzero d"
      and x: "lt \<le> x"
    have F: "body lt n d = (None, F lt n d)" "db_faults (F lt n d) = []" "ch_accounts (F lt n d) = ch_accounts d" for n
      using body ok(1) by (auto simp: plain_body_def)
    from ok show "states_at x d \<le> limit"
    proof (cases rule: nextTxLT_cases[where limit = limit and lt = lt])
      case finish
      have "states_at x d = length (filter (\<lambda>y. y = x) (batch_times lt d))"
        using length_filter_batch_times[OF x] by simp
      also have "\<dots> \<le> limit" using finish(2) length_filter_le le_trans by blast
      finally show ?thesis .
    next
      case more_rows
      let ?n = "batch_times lt d ! limit"
      show ?thesis
      proof (cases "x < ?n")
        case True
        have "states_at x d = length (filter (\<lambda>y. y = x) (batch_times lt d))"
          using length_filter_batch_times[OF x] by simp
        also have "\<dots> \<le> limit" by (rule sorted_smaller_before[OF batch_times_props(1) more_rows(2) True])
        finally show ?thesis .
      next
        case False
        have "bs nxt body ?n (F lt ?n d) = Some r" using run nxt more_rows F by simp
        from IH[OF this] have "states_at x (F lt ?n d) \<le> limit"
          using nxt body F(2) times_nonzero_cong[OF F(3)] ok(2) False by auto
        then show ?thesis using states_at_cong[OF F(3)] by simp
      qed
    qed
  qed
  then show ?thesis using assms by simp
qed

subsection \<open>What the batches do\<close>

text \<open>The contents of the rows are in the table under their hashes, and nothing else has changed.\<close>

definition kv_moved :: "(account_state \<Rightarrow> bytes) \<Rightarrow> (account_state \<Rightarrow> bytes) \<Rightarrow> (account_state \<Rightarrow> bool) \<Rightarrow>
    account_state list \<Rightarrow> (bytes \<rightharpoonup> bytes) \<Rightarrow> (bytes \<rightharpoonup> bytes) \<Rightarrow> bool" where
  "kv_moved hash content P rows t t' \<longleftrightarrow>
     (\<forall>a \<in> set rows. P a \<longrightarrow> content a \<noteq> [] \<longrightarrow> t' (hash a) = Some (content a)) \<and>
     (\<forall>h. (\<forall>a \<in> set rows. P a \<longrightarrow> content a \<noteq> [] \<longrightarrow> hash a \<noteq> h) \<longrightarrow> t' h = t h)"

lemma kv_moved_group:
  assumes any: "any_ok any" and inj: "\<And>a b. a \<in> set rows \<Longrightarrow> b \<in> set rows \<Longrightarrow> hash a = hash b \<Longrightarrow> content a = content b"
  shows "kv_moved hash content P rows t
    (upsert_all fst snd (group_contents any hash content (filter (\<lambda>a. P a \<and> content a \<noteq> []) rows)) t)"
proof -
  let ?rows = "filter (\<lambda>a. P a \<and> content a \<noteq> []) rows"
  let ?g = "group_contents any hash content ?rows"
  have val: "any (map content (filter (\<lambda>b. hash b = hash a) ?rows)) = content a" if a: "a \<in> set ?rows" for a
  proof -
    have "map content (filter (\<lambda>b. hash b = hash a) ?rows) \<noteq> []" using a by (auto simp: filter_empty_conv)
    then have "any (map content (filter (\<lambda>b. hash b = hash a) ?rows)) \<in> set (map content (filter (\<lambda>b. hash b = hash a) ?rows))"
      using any unfolding any_ok_def by blast
    then obtain b where "b \<in> set rows" "hash b = hash a"
      "any (map content (filter (\<lambda>b. hash b = hash a) ?rows)) = content b" by auto
    with inj[of b a] a show ?thesis by auto
  qed
  have keys: "fst ` set ?g = hash ` set ?rows" by (auto simp: group_contents_def image_image)
  have "upsert_all fst snd ?g t (hash a) = Some (content a)" if a: "a \<in> set ?rows" for a
  proof -
    have "(hash a, content a) \<in> set ?g" using a val[OF a] by (force simp: group_contents_def)
    moreover have "snd y = snd (hash a, content a)" if "y \<in> set ?g" "fst y = fst (hash a, content a)" for y
      using that val[OF a] by (auto simp: group_contents_def)
    ultimately show ?thesis using upsert_all_in[of "(hash a, content a)" ?g fst snd t] by simp
  qed
  moreover have "upsert_all fst snd ?g t h = t h" if "\<forall>a \<in> set rows. P a \<longrightarrow> content a \<noteq> [] \<longrightarrow> hash a \<noteq> h" for h
    using that keys by (intro upsert_all_other) auto
  ultimately show ?thesis by (auto simp: kv_moved_def)
qed

lemma kv_moved_trans:
  assumes "kv_moved hash content P rows t t1" and "kv_moved hash content Q rows t1 t'"
    and "\<And>a b. a \<in> set rows \<Longrightarrow> b \<in> set rows \<Longrightarrow> hash a = hash b \<Longrightarrow> content a = content b"
  shows "kv_moved hash content (\<lambda>a. P a \<or> Q a) rows t t'"
proof -
  have "t' (hash a) = Some (content a)" if a: "a \<in> set rows" "P a \<or> Q a" "content a \<noteq> []" for a
  proof (cases "\<exists>b \<in> set rows. Q b \<and> content b \<noteq> [] \<and> hash b = hash a")
    case True
    then obtain b where b: "b \<in> set rows" "Q b" "content b \<noteq> []" "hash b = hash a" by blast
    then have "t' (hash b) = Some (content b)" using assms(2) unfolding kv_moved_def by blast
    then show ?thesis using assms(3)[OF b(1) a(1) b(4)] b(4) by simp
  next
    case False
    then have "P a" using a by blast
    then have "t1 (hash a) = Some (content a)" using assms(1) a unfolding kv_moved_def by blast
    moreover have "t' (hash a) = t1 (hash a)" using assms(2) False unfolding kv_moved_def by blast
    ultimately show ?thesis by simp
  qed
  moreover have "t' h = t h" if "\<forall>a \<in> set rows. P a \<or> Q a \<longrightarrow> content a \<noteq> [] \<longrightarrow> hash a \<noteq> h" for h
    using assms(1,2) that unfolding kv_moved_def by metis
  ultimately show ?thesis unfolding kv_moved_def by blast
qed

text \<open>Two updates of rows in one.\<close>

lemma clear_rows_comp:
  "clear_rows P f (clear_rows Q g d) =
    clear_rows (\<lambda>a. True) (\<lambda>a. let b = (if Q a then g a else a) in if P b then f b else b) d"
proof -
  have "(\<lambda>(k, a). (k, if P a then f a else a)) \<circ> (\<lambda>(k, a). (k, if Q a then g a else a)) =
      (\<lambda>(k :: addr \<times> u64, a). (k, let b = (if Q a then g a else a) in if P b then f b else b))"
    by (simp add: fun_eq_iff Let_def)
  then show ?thesis by (simp add: clear_rows_def)
qed

lemma clear_rows_cong:
  assumes "\<And>a. (if P a then f a else a) = (if Q a then g a else a)"
  shows "clear_rows P f d = clear_rows Q g d"
  using assms by (simp add: clear_rows_def)

text \<open>Both bodies as functions of the state.\<close>

definition transfer_effect :: "(bytes list \<Rightarrow> bytes) \<Rightarrow> u64 \<Rightarrow> u64 \<Rightarrow> db \<Rightarrow> db" where
  "transfer_effect any lt n d = d\<lparr>
     ch_code := upsert_all fst snd
       (group_contents any acc_code_hash acc_code (filter (\<lambda>a. in_batch lt n a \<and> acc_code a \<noteq> []) (ch_accounts d))) (ch_code d),
     ch_data := upsert_all fst snd
       (group_contents any acc_data_hash acc_data (filter (\<lambda>a. in_batch lt n a \<and> acc_data a \<noteq> []) (ch_accounts d))) (ch_data d)\<rparr>"

lemma plain_transfer: "plain_body (transfer_batch any) (transfer_effect any)"
  by (simp add: plain_body_def transfer_batch_def transfer_effect_def then_exec_def wrap_exec_def exec_def)

lemma plain_clear: "plain_body clear_batch (\<lambda>lt n. clear_rows (in_batch lt n) clear_code_data)"
proof -
  have "clear_rows P (\<lambda>a. a\<lparr>acc_data := []\<rparr>) (clear_rows P (\<lambda>a. a\<lparr>acc_code := []\<rparr>) d) = clear_rows P clear_code_data d"
    if "\<And>a. P (a\<lparr>acc_code := []\<rparr>) = P a" for P d
    unfolding clear_rows_comp by (rule clear_rows_cong) (simp add: that clear_code_data_def Let_def)
  then have "clear_batch lt n d = (None, clear_rows (in_batch lt n) clear_code_data d)" if "db_faults d = []" for lt n d
    using that by (simp add: clear_batch_def then_exec_def wrap_exec_def exec_def in_batch_def clear_rows_def)
  then show ?thesis by (simp add: plain_body_def clear_rows_def)
qed

definition transferred :: "u64 \<Rightarrow> db \<Rightarrow> db \<Rightarrow> bool" where
  "transferred lt d d' \<longleftrightarrow> d' = d\<lparr>ch_code := ch_code d', ch_data := ch_data d'\<rparr> \<and>
     kv_moved acc_code_hash acc_code (\<lambda>a. lt \<le> acc_last_tx_lt a) (ch_accounts d) (ch_code d) (ch_code d') \<and>
     kv_moved acc_data_hash acc_data (\<lambda>a. lt \<le> acc_last_tx_lt a) (ch_accounts d) (ch_data d) (ch_data d')"

lemma content_hashedD:
  assumes "content_hashed as" "a \<in> set as" "b \<in> set as"
  shows "acc_code_hash a = acc_code_hash b \<Longrightarrow> acc_code a = acc_code b"
    and "acc_data_hash a = acc_data_hash b \<Longrightarrow> acc_data a = acc_data b"
    and "length (acc_code_hash a) \<noteq> 32 \<Longrightarrow> acc_code a = []"
    and "length (acc_data_hash a) \<noteq> 32 \<Longrightarrow> acc_data a = []"
  using assms unfolding content_hashed_def by blast+

lemma transfer_effect_moved:
  assumes "any_ok any" and "content_hashed (ch_accounts d)"
  shows "kv_moved acc_code_hash acc_code (in_batch lt n) (ch_accounts d) (ch_code d) (ch_code (transfer_effect any lt n d))"
    and "kv_moved acc_data_hash acc_data (in_batch lt n) (ch_accounts d) (ch_data d) (ch_data (transfer_effect any lt n d))"
    and "transfer_effect any lt n d =
      d\<lparr>ch_code := ch_code (transfer_effect any lt n d), ch_data := ch_data (transfer_effect any lt n d)\<rparr>"
proof -
  have sel: "ch_code (transfer_effect any lt n d) = upsert_all fst snd
       (group_contents any acc_code_hash acc_code (filter (\<lambda>a. in_batch lt n a \<and> acc_code a \<noteq> []) (ch_accounts d))) (ch_code d)"
    "ch_data (transfer_effect any lt n d) = upsert_all fst snd
       (group_contents any acc_data_hash acc_data (filter (\<lambda>a. in_batch lt n a \<and> acc_data a \<noteq> []) (ch_accounts d))) (ch_data d)"
    by (simp_all add: transfer_effect_def)
  show "kv_moved acc_code_hash acc_code (in_batch lt n) (ch_accounts d) (ch_code d) (ch_code (transfer_effect any lt n d))"
    unfolding sel by (rule kv_moved_group[OF assms(1)]) (rule content_hashedD(1)[OF assms(2)])
  show "kv_moved acc_data_hash acc_data (in_batch lt n) (ch_accounts d) (ch_data d) (ch_data (transfer_effect any lt n d))"
    unfolding sel by (rule kv_moved_group[OF assms(1)]) (rule content_hashedD(2)[OF assms(2)])
  show "transfer_effect any lt n d =
      d\<lparr>ch_code := ch_code (transfer_effect any lt n d), ch_data := ch_data (transfer_effect any lt n d)\<rparr>"
    by (simp add: transfer_effect_def)
qed

lemma tables_frame:
  "d1 = d\<lparr>ch_code := x, ch_data := y\<rparr> \<Longrightarrow> d' = d1\<lparr>ch_code := u, ch_data := w\<rparr> \<Longrightarrow> d' = d\<lparr>ch_code := u, ch_data := w\<rparr>"
  by simp

lemma transferredD:
  assumes "transferred lt d d'"
  shows "d' = d\<lparr>ch_code := ch_code d', ch_data := ch_data d'\<rparr>"
    and "kv_moved acc_code_hash acc_code (\<lambda>a. lt \<le> acc_last_tx_lt a) (ch_accounts d) (ch_code d) (ch_code d')"
    and "kv_moved acc_data_hash acc_data (\<lambda>a. lt \<le> acc_last_tx_lt a) (ch_accounts d) (ch_data d) (ch_data d')"
  using assms[unfolded transferred_def] by (blast dest: conjunct1 conjunct2)+

lemma transferredI:
  assumes "d' = d\<lparr>ch_code := ch_code d', ch_data := ch_data d'\<rparr>"
    and "kv_moved acc_code_hash acc_code (\<lambda>a. lt \<le> acc_last_tx_lt a) (ch_accounts d) (ch_code d) (ch_code d')"
    and "kv_moved acc_data_hash acc_data (\<lambda>a. lt \<le> acc_last_tx_lt a) (ch_accounts d) (ch_data d) (ch_data d')"
  shows "transferred lt d d'"
  unfolding transferred_def by (intro conjI assms)

lemma tables_only:
  "d' = d\<lparr>ch_code := u, ch_data := w\<rparr> \<Longrightarrow> ch_accounts d' = ch_accounts d"
  "d' = d\<lparr>ch_code := u, ch_data := w\<rparr> \<Longrightarrow> pg_accounts d' = pg_accounts d"
  by simp_all

lemma transferCodeData_ok:
  assumes "any_ok any" and "content_hashed (ch_accounts d)" and "db_faults d = []" and "times_nonzero d"
    and "\<And>x. startFrom \<le> x \<Longrightarrow> states_at x d \<le> limit"
  shows "\<exists>d'. transferCodeData any limit startFrom d = Some (Ok (), d') \<and> db_faults d' = [] \<and> transferred startFrom d d'"
proof -
  let ?Q = "\<lambda>lt d d'. content_hashed (ch_accounts d) \<longrightarrow> transferred lt d d'"
  have all: "in_batch lt 0 = (\<lambda>a. lt \<le> acc_last_tx_lt a)" for lt by (simp add: in_batch_def fun_eq_iff)
  have split: "(\<lambda>a. in_batch lt n a \<or> n \<le> acc_last_tx_lt a) = (\<lambda>a. lt \<le> acc_last_tx_lt a)"
    if "lt < n" "n \<noteq> 0" for lt n :: u64
    using that by (auto simp: in_batch_def fun_eq_iff)
  have "\<exists>d'. code_batches (nextTxLT limit) (transfer_batch any) startFrom d = Some (Ok (), d') \<and> db_faults d' = [] \<and> ?Q startFrom d d'"
  proof (rule batches_end[OF plain_transfer _ _ assms(3-5)])
    show "?Q lt d (transfer_effect any lt 0 d)" for lt d
    proof
      assume h: "content_hashed (ch_accounts d)"
      show "transferred lt d (transfer_effect any lt 0 d)"
        unfolding transferred_def
        by (intro conjI transfer_effect_moved(3)[OF assms(1) h] transfer_effect_moved(1,2)[OF assms(1) h, of lt 0, unfolded all])
    qed
    show "?Q lt d d'" if lt: "lt < n" "n \<noteq> 0" and IH: "?Q n (transfer_effect any lt n d) d'" for lt n d d'
    proof
      assume h: "content_hashed (ch_accounts d)"
      let ?e = "transfer_effect any lt n d"
      note e = transfer_effect_moved[OF assms(1) h, of lt n]
      have rows: "ch_accounts ?e = ch_accounts d" by (simp add: transfer_effect_def)
      have tr: "transferred n ?e d'" using IH h rows by simp
      show "transferred lt d d'"
      proof (rule transferredI)
        show "d' = d\<lparr>ch_code := ch_code d', ch_data := ch_data d'\<rparr>"
          by (rule tables_frame[OF e(3) transferredD(1)[OF tr]])
        show "kv_moved acc_code_hash acc_code (\<lambda>a. lt \<le> acc_last_tx_lt a) (ch_accounts d) (ch_code d) (ch_code d')"
          by (rule kv_moved_trans[OF e(1) transferredD(2)[OF tr, unfolded rows] content_hashedD(1)[OF h], unfolded split[OF lt]])
        show "kv_moved acc_data_hash acc_data (\<lambda>a. lt \<le> acc_last_tx_lt a) (ch_accounts d) (ch_data d) (ch_data d')"
          by (rule kv_moved_trans[OF e(2) transferredD(3)[OF tr, unfolded rows] content_hashedD(2)[OF h], unfolded split[OF lt]])
      qed
    qed
  qed
  then show ?thesis using assms(2) by (simp add: transferCodeData_def)
qed

lemma clear_rows_clear_rows:
  assumes "lt < n" "n \<noteq> 0"
  shows "clear_rows (\<lambda>a. n \<le> acc_last_tx_lt a) clear_code_data (clear_rows (in_batch lt n) clear_code_data d) =
    clear_rows (\<lambda>a. lt \<le> acc_last_tx_lt a) clear_code_data d"
  unfolding clear_rows_comp
proof (rule clear_rows_cong)
  fix a
  show "(if True then let b = if in_batch lt n a then clear_code_data a else a
          in if n \<le> acc_last_tx_lt b then clear_code_data b else b else a) =
        (if lt \<le> acc_last_tx_lt a then clear_code_data a else a)"
    using assms by (auto simp: in_batch_def clear_code_data_def Let_def)
qed

lemma clearCodeData_ok:
  assumes "db_faults d = []" and "times_nonzero d" and "\<And>x. startFrom \<le> x \<Longrightarrow> states_at x d \<le> limit"
  shows "clearCodeData limit startFrom d = Some (Ok (), clear_rows (\<lambda>a. startFrom \<le> acc_last_tx_lt a) clear_code_data d)"
proof -
  have all: "in_batch lt 0 = (\<lambda>a. lt \<le> acc_last_tx_lt a)" for lt by (simp add: in_batch_def fun_eq_iff)
  have "\<exists>d'. code_batches (nextTxLT limit) clear_batch startFrom d = Some (Ok (), d') \<and> db_faults d' = [] \<and>
      d' = clear_rows (\<lambda>a. startFrom \<le> acc_last_tx_lt a) clear_code_data d"
    by (rule batches_end[OF plain_clear _ _ assms]) (simp_all add: all clear_rows_clear_rows)
  then show ?thesis by (simp add: clearCodeData_def)
qed

subsection \<open>The theorems\<close>

text \<open>
  C25. The batches end exactly when no logical time has more rows than a batch: if the statements
  succeed and no row has the time 0, transferring and clearing from \<open>startFrom\<close> on both run forever as soon
  as one logical time from there on has more than \<open>limit\<close> account states in ClickHouse, and otherwise both
  end without an error.
\<close>

theorem batches_terminate:
  assumes "db_faults d = []" and "times_nonzero d"
  shows "(transferCodeData any limit startFrom d = None \<longleftrightarrow> (\<exists>x. startFrom \<le> x \<and> limit < states_at x d)) \<and>
    (clearCodeData limit startFrom d = None \<longleftrightarrow> (\<exists>x. startFrom \<le> x \<and> limit < states_at x d))"
proof -
  have iff: "code_batches (nextTxLT limit) body startFrom d = None \<longleftrightarrow> (\<exists>x. startFrom \<le> x \<and> limit < states_at x d)"
    if body: "plain_body body F" for body F
  proof
    assume none: "code_batches (nextTxLT limit) body startFrom d = None"
    show "\<exists>x. startFrom \<le> x \<and> limit < states_at x d"
    proof (rule ccontr)
      assume "\<not> ?thesis"
      then have le: "\<And>x. startFrom \<le> x \<Longrightarrow> states_at x d \<le> limit" by (meson not_le)
      show False using batches_end[OF body, of "\<lambda>_ _ _. True" d startFrom limit] assms le none by auto
    qed
  next
    assume "\<exists>x. startFrom \<le> x \<and> limit < states_at x d"
    then obtain x where x: "startFrom \<le> x" "\<not> states_at x d \<le> limit" by auto
    show "code_batches (nextTxLT limit) body startFrom d = None"
    proof (cases "code_batches (nextTxLT limit) body startFrom d")
      case (Some r)
      from batches_ended[OF this refl body assms x(1)] x(2) show ?thesis by simp
    qed
  qed
  show ?thesis
    using iff[OF plain_transfer] iff[OF plain_clear] by (simp add: transferCodeData_def clearCodeData_def)
qed

text \<open>Two account states of one block with the same logical time.\<close>

definition ex_twins :: db where
  "ex_twins = db_empty\<lparr>ch_accounts := [ex_state, ex_state\<lparr>acc_address := replicate 33 1\<rparr>]\<rparr>"

theorem batches_terminate_witness:
  "transferCodeData hd 1 0 ex_twins = None \<and> clearCodeData 1 0 ex_twins = None"
proof -
  have "db_faults ex_twins = []" "times_nonzero ex_twins" "1 < states_at 7 ex_twins"
    by (simp_all add: ex_twins_def db_empty_def times_nonzero_def states_at_def)
  then show ?thesis using batches_terminate[of ex_twins hd 1 0] by (metis word_zero_le)
qed


definition ex_before :: db where
  "ex_before = db_empty\<lparr>ch_accounts := [ex_state], pg_accounts := [(account_key ex_state, ex_state)]\<rparr>"


end
