(* ===== verification/Contracts.thy ===== *)
theory Contracts
  imports Tlb Schema AbiGet ContractRepo AccountFilter Rescan Base64
begin

section \<open>cmd/contract: the command that manages contract interfaces\<close>

text \<open>
  \<open>cmd/contract/interface.go\<close>: reading interface descriptions, turning them into interfaces and
  operations of the database, comparing them with what is stored, and the three subcommands with the
  rescan tasks they leave for the rescan service. \<open>json.Unmarshal\<close> is a parameter that
  gives no null elements; a nil slice is the empty list. Text that is no message type stands as
  \<open>MsgTypeUnset\<close>. The outer option is the bound \<open>n\<close> on the expansion of definitions (see \<open>Tlb\<close>).
\<close>

record interface_desc =
  if_name :: contract_name
  if_addresses :: "addr list"
  if_code_boc :: string
  if_definitions :: registry
  if_in_messages :: "operation_desc list"
  if_out_messages :: "operation_desc list"
  if_get_methods :: "get_method_desc list"
  if_contract_data :: tlb_fields

subsection \<open>Reading descriptions\<close>

definition readStdin :: "(bytes \<Rightarrow> interface_desc list res) \<Rightarrow> bytes res \<Rightarrow> interface_desc list res" where
  "readStdin unmarshal stdin = rbind stdin (\<lambda>j. rwrap ''unmarshal json'' (unmarshal j))"

fun readFiles :: "(bytes \<Rightarrow> interface_desc list res) \<Rightarrow> (string \<Rightarrow> bytes res) \<Rightarrow> string list \<Rightarrow> interface_desc list res" where
  "readFiles unmarshal readFile [] = Ok []"
| "readFiles unmarshal readFile (fn # fns) =
     rbind (rwrap ''read'' (readFile fn)) (\<lambda>j.
     rbind (rwrap ''unmarshal json'' (unmarshal j)) (\<lambda>interfaces.
     rbind (readFiles unmarshal readFile fns) (\<lambda>ret. Ok (interfaces @ ret))))"

subsection \<open>Parsing descriptions\<close>

text \<open>
  \<open>big.Int.SetString(s, 16)\<close>: an optional sign and at least one digit; \<open>Uint64\<close> gives the
  low 64 bits of the magnitude.
\<close>

fun hex_digits :: "nat \<Rightarrow> string \<Rightarrow> nat option" where
  "hex_digits k [] = Some k"
| "hex_digits k (c # cs) = (case hex_val c of None \<Rightarrow> None | Some x \<Rightarrow> hex_digits (16 * k + x) cs)"

definition bigint_hex :: "string \<Rightarrow> int option" where
  "bigint_hex s =
     (let neg = (s \<noteq> [] \<and> hd s = CHR ''-'');
          digits = (if s \<noteq> [] \<and> (hd s = CHR ''-'' \<or> hd s = CHR ''+'') then tl s else s)
      in if digits = [] then None
         else map_option (\<lambda>k. if neg then - int k else int k) (hex_digits 0 digits))"

definition bigint_Uint64 :: "int \<Rightarrow> u64" where
  "bigint_Uint64 k = word_of_int \<bar>k\<bar>"

definition message_type_of :: "string \<Rightarrow> message_type" where
  "message_type_of s =
     (if s = ''INTERNAL'' then Internal else if s = ''EXTERNAL_IN'' then ExternalIn
      else if s = ''EXTERNAL_OUT'' then ExternalOut else MsgTypeUnset)"

definition operation_id_of :: "string \<Rightarrow> u32 res" where
  "operation_id_of c =
     (if has_prefix c ''0x''
      then (case bigint_hex (drop 2 c) of
              None \<Rightarrow> Err (ErrText ''wrong hex operation id format'')
            | Some k \<Rightarrow> Ok (ucast (bigint_Uint64 k)))
      else rbind (rwrap ''parse operation id'' (parse_uint 10 32 c)) (\<lambda>k. Ok (word_of_nat k)))"

definition parseOperationDesc :: "case_lib \<Rightarrow> registry \<Rightarrow> nat \<Rightarrow> contract_name \<Rightarrow> operation_desc \<Rightarrow> contract_operation res option" where
  "parseOperationDesc C R n t d =
     obind (Some (operation_id_of (od_code d))) (\<lambda>opId.
     obind (owrap ''creating new operation structure'' (operation_New C R n d False)) (\<lambda>x.
     obind (Some (rwrap ''creating new operation descriptor'' (newOperationDesc C [] (TyPtr x)))) (\<lambda>_.
     let d = (if od_type d = [] then d\<lparr>od_type := ''INTERNAL''\<rparr> else d)
     in Some (Ok \<lparr>co_operation_name = od_name d, co_contract_name = t, co_message_type = message_type_of (to_upper (od_type d)),
          co_outgoing = False, co_operation_id = opId, co_schema = d\<rparr>))))"

fun parseOperations :: "case_lib \<Rightarrow> registry \<Rightarrow> nat \<Rightarrow> contract_name \<Rightarrow> bool \<Rightarrow> operation_desc list \<Rightarrow>
    contract_operation list res option" where
  "parseOperations C R n t outgoing [] = Some (Ok [])"
| "parseOperations C R n t outgoing (d # ds) =
     obind (parseOperationDesc C R n t d) (\<lambda>op.
     obind (parseOperations C R n t outgoing ds) (\<lambda>ops. Some (Ok (op\<lparr>co_outgoing := outgoing\<rparr> # ops))))"

definition parseInterfaceDesc :: "case_lib \<Rightarrow> (bytes \<Rightarrow> u16) \<Rightarrow> registry \<Rightarrow> nat \<Rightarrow> interface_desc \<Rightarrow>
    contract_interface res option" where
  "parseInterfaceDesc C crc R n d =
     obind (Some (rwrap ''decode code boc from base64'' (std64_decode (if_code_boc d)))) (\<lambda>code.
     obind (parseOperations C R n (if_name d) False (if_in_messages d)) (\<lambda>ins.
     obind (parseOperations C R n (if_name d) True (if_out_messages d)) (\<lambda>outs.
     Some (Ok \<lparr>ci_name = if_name d, ci_addresses = if_addresses d, ci_code = code, ci_get_methods = if_get_methods d,
       ci_get_method_hashes = map (\<lambda>g. method_name_hash crc (gm_name g)) (if_get_methods d), ci_operations = ins @ outs\<rparr>))))"

fun registerAll :: "case_lib \<Rightarrow> nat \<Rightarrow> (nat \<Rightarrow> tlb_type key_order) \<Rightarrow> interface_desc list \<Rightarrow> registry \<Rightarrow> tlb_state \<Rightarrow>
    (registry \<times> tlb_state) res option" where
  "registerAll C n ord [] retD S = Some (Ok (retD, S))"
| "registerAll C n ord (desc # ds) retD S =
     (case registerDefinitions C n ord (if_definitions desc) S of
        None \<Rightarrow> None
      | Some (Err e, S) \<Rightarrow> Some (Err e)
      | Some (Panic p, S) \<Rightarrow> Some (Panic p)
      | Some (Ok _, S) \<Rightarrow> registerAll C n ord ds (fold (\<lambda>(dn, d). AList.update dn d) (if_definitions desc) retD) S)"

fun parseInterfaces :: "case_lib \<Rightarrow> (bytes \<Rightarrow> u16) \<Rightarrow> registry \<Rightarrow> nat \<Rightarrow> interface_desc list \<Rightarrow> contract_interface list res option" where
  "parseInterfaces C crc R n [] = Some (Ok [])"
| "parseInterfaces C crc R n (d # ds) =
     obind (parseInterfaceDesc C crc R n d) (\<lambda>i.
     obind (parseInterfaces C crc R n ds) (\<lambda>is. Some (Ok (i # is))))"

text \<open>The definitions and the interfaces; the operations are those of the interfaces, one after another.\<close>

definition parseInterfacesDesc :: "case_lib \<Rightarrow> (bytes \<Rightarrow> u16) \<Rightarrow> nat \<Rightarrow> (nat \<Rightarrow> tlb_type key_order) \<Rightarrow> tlb_state \<Rightarrow>
    interface_desc list \<Rightarrow> (registry \<times> contract_interface list \<times> contract_operation list) res option" where
  "parseInterfacesDesc C crc n ord S descriptors =
     obind (registerAll C n ord descriptors [] S) (\<lambda>(retD, S).
     obind (parseInterfaces C crc (ts_defs S) n descriptors) (\<lambda>retI.
     Some (Ok (retD, retI, concat (map ci_operations retI)))))"

subsection \<open>Comparing\<close>

definition diffDefinitions :: "registry \<Rightarrow> db \<Rightarrow> (registry \<times> registry) res \<times> db" where
  "diffDefinitions current d =
     (case getDefinitions d of
        (Ok old, d) \<Rightarrow>
          (Ok (filter (\<lambda>(dt, x). old dt = None) current, filter (\<lambda>(dt, x). old dt \<noteq> None \<and> old dt \<noteq> Some x) current), d)
      | (Err e, d) \<Rightarrow> (Err (Wrap e ''get definitions''), d)
      | (Panic p, d) \<Rightarrow> (Panic p, d))"

text \<open>Both lists become maps by name, which are ranged over: added and changed, then deleted.\<close>

definition name_map :: "('v \<Rightarrow> string) \<Rightarrow> 'v list \<Rightarrow> (string \<times> 'v) list" where
  "name_map nm vs = fold (\<lambda>v. AList.update (nm v) v) vs []"

definition diffSlices :: "string key_order \<Rightarrow> ('v \<Rightarrow> string) \<Rightarrow> 'v list \<Rightarrow> 'v list \<Rightarrow> 'v list \<times> 'v list \<times> 'v list" where
  "diffSlices ord nm oldS newS =
     (let oldM = name_map nm oldS; newM = name_map nm newS
      in (map snd (filter (\<lambda>(vn, v). map_of oldM vn = None) (range_map ord newM)),
          map snd (filter (\<lambda>(vn, v). map_of oldM vn \<noteq> None \<and> map_of oldM vn \<noteq> Some v) (range_map ord newM)),
          map snd (filter (\<lambda>(vn, v). map_of newM vn = None) (range_map ord oldM))))"

definition diffInterface :: "string key_order \<Rightarrow> contract_interface \<Rightarrow> contract_interface \<Rightarrow>
    bool \<times> get_method_desc list \<times> get_method_desc list \<times> get_method_desc list" where
  "diffInterface ord old new =
     (ci_addresses new \<noteq> ci_addresses old \<or> ci_code new \<noteq> ci_code old \<or>
        ci_get_method_hashes new \<noteq> ci_get_method_hashes old,
      diffSlices ord gm_name (ci_get_methods old) (ci_get_methods new))"

definition diffOperations :: "string key_order \<Rightarrow> contract_operation list \<Rightarrow> contract_operation list \<Rightarrow>
    contract_operation list \<times> contract_operation list \<times> contract_operation list" where
  "diffOperations ord old new = diffSlices ord co_operation_name old new"

definition getGetMethodNames :: "get_method_desc list \<Rightarrow> string list" where
  "getGetMethodNames desc = map gm_name (filter (\<lambda>g. gm_arguments g = []) desc)"

subsection \<open>Rescan tasks\<close>

definition task_new :: "rescan_type \<Rightarrow> contract_name \<Rightarrow> rescan_task" where
  "task_new t c = \<lparr>rt_id = 0, rt_finished = False, rt_type = t, rt_contract_name = c, rt_contract = None,
     rt_changed_methods = [], rt_message_type = MsgTypeUnset, rt_outgoing = False, rt_operation_id = 0,
     rt_operation = None, rt_last_address = None, rt_last_tx_lt = 0\<rparr>"

definition rescanInterface_task :: "contract_name \<Rightarrow> rescan_type \<Rightarrow> db \<Rightarrow> goerr option \<times> db" where
  "rescanInterface_task c t d = wrap_exec ''add rescan task for contract interface'' (addRescanTask (task_new t c) d)"

definition rescanGetMethod_task :: "contract_name \<Rightarrow> rescan_type \<Rightarrow> string list \<Rightarrow> db \<Rightarrow> goerr option \<times> db" where
  "rescanGetMethod_task c t getMethods d =
     (if getMethods = [] then (None, d)
      else wrap_exec ''add rescan task for get-method''
        (addRescanTask ((task_new t c)\<lparr>rt_changed_methods := getMethods\<rparr>) d))"

definition rescanOperation_task :: "rescan_type \<Rightarrow> contract_operation \<Rightarrow> db \<Rightarrow> goerr option \<times> db" where
  "rescanOperation_task t op d = wrap_exec ''add rescan task for operation''
     (addRescanTask ((task_new t (co_contract_name op))\<lparr>rt_message_type := co_message_type op,
        rt_outgoing := co_outgoing op, rt_operation_id := co_operation_id op\<rparr>) d)"

subsection \<open>The subcommands\<close>

text \<open>A loop that returns the first error, and one that logs errors and goes on.\<close>

fun exec_each :: "('a \<Rightarrow> db \<Rightarrow> goerr option \<times> db) \<Rightarrow> 'a list \<Rightarrow> db \<Rightarrow> goerr option \<times> db" where
  "exec_each f [] d = (None, d)"
| "exec_each f (x # xs) d = then_exec (f x d) (exec_each f xs)"

definition log_each :: "('a \<Rightarrow> db \<Rightarrow> goerr option \<times> db) \<Rightarrow> 'a list \<Rightarrow> db \<Rightarrow> db" where
  "log_each f xs d = fold (\<lambda>x d. snd (f x d)) xs d"

definition storeDefinitions :: "tlb_type key_order \<Rightarrow> registry \<Rightarrow> registry \<Rightarrow> db \<Rightarrow> goerr option \<times> db" where
  "storeDefinitions ord added changed d =
     then_exec (exec_each (\<lambda>(dn, x) d. wrap_exec ''cannot update contract definition'' (updateDefinition dn x d))
         (range_map ord changed) d)
       (exec_each (\<lambda>(dn, x) d. wrap_exec ''cannot insert contract definition'' (addDefinition dn x d)) (range_map ord added))"

text \<open>\<open>addInterfaces\<close>, behind reading the descriptions; \<open>connect\<close> is the outcome of the connection.\<close>

record command_env =
  cm_case :: case_lib
  cm_crc :: "bytes \<Rightarrow> u16"
  cm_bound :: nat
  cm_register_order :: "nat \<Rightarrow> tlb_type key_order"
  cm_definition_order :: "tlb_type key_order"
  cm_name_order :: "string key_order"
  cm_connect :: "goerr option"

definition cmd_addInterfaces :: "command_env \<Rightarrow> interface_desc list res \<Rightarrow> db \<Rightarrow> (unit res \<times> db) option" where
  "cmd_addInterfaces E descs d =
     (case obind (Some descs) (parseInterfacesDesc (cm_case E) (cm_crc E) (cm_bound E) (cm_register_order E) tlb_empty) of
        None \<Rightarrow> None
      | Some (Err e) \<Rightarrow> Some (Err e, d)
      | Some (Panic p) \<Rightarrow> Some (Panic p, d)
      | Some (Ok (definitions, interfaces, operations)) \<Rightarrow>
          (case cm_connect E of
             Some e \<Rightarrow> Some (Err e, d)
           | None \<Rightarrow>
               (case diffDefinitions definitions d of
                  (Err e, d) \<Rightarrow> Some (Err e, d)
                | (Panic p, d) \<Rightarrow> Some (Panic p, d)
                | (Ok (added, changed), d) \<Rightarrow>
                    (case storeDefinitions (cm_definition_order E) added changed d of
                       (Some e, d) \<Rightarrow> Some (Err e, d)
                     | (None, d) \<Rightarrow>
                         let d = log_each (\<lambda>i d. then_exec (addInterface i d) (rescanInterface_task (ci_name i) AddInterface)) interfaces d;
                             d = log_each (\<lambda>op d. then_exec (addOperation op d) (rescanOperation_task UpdOperation op)) operations d
                         in Some (Ok (), d)))))"

definition changeOperations :: "contract_operation list \<Rightarrow> contract_operation list \<Rightarrow> contract_operation list \<Rightarrow> db \<Rightarrow>
    goerr option \<times> db" where
  "changeOperations added changed deleted d =
     then_exec (exec_each (\<lambda>op d. wrap_exec ''cannot delete contract operation'' (deleteOperation (co_operation_name op) d)) deleted d) (\<lambda>d.
     then_exec (exec_each (\<lambda>op d. wrap_exec ''cannot update contract operation'' (updateOperation op d)) changed d)
       (exec_each (\<lambda>op d. wrap_exec ''cannot insert contract operation'' (addOperation op d)) added))"

definition scheduleRescans :: "contract_name \<Rightarrow> bool \<times> get_method_desc list \<times> get_method_desc list \<times> get_method_desc list \<Rightarrow>
    contract_operation list \<times> contract_operation list \<times> contract_operation list \<Rightarrow> db \<Rightarrow> goerr option \<times> db" where
  "scheduleRescans c idiff opdiff d =
     (case (idiff, opdiff) of ((iChanged, addedGm, changedGm, deletedGm), (addedOp, changedOp, deletedOp)) \<Rightarrow>
        then_exec (if iChanged then rescanInterface_task c UpdInterface d else (None, d)) (\<lambda>d.
        then_exec (rescanGetMethod_task c AddGetMethod (getGetMethodNames addedGm) d) (\<lambda>d.
        then_exec (rescanGetMethod_task c UpdGetMethod (getGetMethodNames changedGm) d) (\<lambda>d.
        then_exec (rescanGetMethod_task c DelGetMethod (getGetMethodNames deletedGm) d) (\<lambda>d.
        then_exec (exec_each (rescanOperation_task DelOperation) deletedOp d)
          (exec_each (rescanOperation_task UpdOperation) (addedOp @ changedOp)))))))"

text \<open>\<open>updateInterface\<close> once the stored interface and the definitions are known.\<close>

definition installInterface :: "string key_order \<Rightarrow> contract_interface \<Rightarrow> contract_interface \<Rightarrow> db \<Rightarrow> goerr option \<times> db" where
  "installInterface ord old new d =
     (case diffInterface ord old new of (iChanged, addedGm, changedGm, deletedGm) \<Rightarrow>
        case diffOperations ord (ci_operations old) (ci_operations new) of (addedOp, changedOp, deletedOp) \<Rightarrow>
          then_exec (if iChanged \<or> addedGm \<noteq> [] \<or> changedGm \<noteq> [] \<or> deletedGm \<noteq> []
                     then wrap_exec ''cannot update contract interface'' (updateInterface new d) else (None, d)) (\<lambda>d.
          then_exec (changeOperations addedOp changedOp deletedOp d)
            (scheduleRescans (ci_name new) (iChanged, addedGm, changedGm, deletedGm) (addedOp, changedOp, deletedOp))))"

definition cmd_updateInterface :: "command_env \<Rightarrow> interface_desc list res \<Rightarrow> contract_name \<Rightarrow> db \<Rightarrow> (unit res \<times> db) option" where
  "cmd_updateInterface E descs contractName d =
     (case obind (Some descs) (parseInterfacesDesc (cm_case E) (cm_crc E) (cm_bound E) (cm_register_order E) tlb_empty) of
        None \<Rightarrow> None
      | Some (Err e) \<Rightarrow> Some (Err e, d)
      | Some (Panic p) \<Rightarrow> Some (Panic p, d)
      | Some (Ok (definitions, interfaces, _)) \<Rightarrow>
          if contractName = [] then Some (Err (Wrap ErrInvalidArg ''contract interface name is not set''), d)
          else (case rev (filter (\<lambda>i. ci_name i = contractName) interfaces) of
             [] \<Rightarrow> Some (Err (Wrap ErrInvalidArg ''contract interface is found in abi description''), d)
           | new # _ \<Rightarrow>
               (case cm_connect E of
                  Some e \<Rightarrow> Some (Err e, d)
                | None \<Rightarrow>
                    (case getInterface contractName d of
                       (Err e, d) \<Rightarrow> Some (Err (Wrap e ''get interface''), d)
                     | (Panic p, d) \<Rightarrow> Some (Panic p, d)
                     | (Ok old, d) \<Rightarrow>
                         (case diffDefinitions definitions d of
                            (Err e, d) \<Rightarrow> Some (Err e, d)
                          | (Panic p, d) \<Rightarrow> Some (Panic p, d)
                          | (Ok (added, changed), d) \<Rightarrow>
                              (case storeDefinitions (cm_definition_order E) added changed d of
                                 (Some e, d) \<Rightarrow> Some (Err e, d)
                               | (None, d) \<Rightarrow>
                                   (case installInterface (cm_name_order E) old new d of
                                      (Some e, d) \<Rightarrow> Some (Err e, d)
                                    | (None, d) \<Rightarrow> Some (Ok (), d)))))))) "

definition cmd_deleteInterface :: "goerr option \<Rightarrow> contract_name \<Rightarrow> db \<Rightarrow> unit res \<times> db" where
  "cmd_deleteInterface connect contractName d =
     (if contractName = [] then (Err (Wrap ErrInvalidArg ''contract interface name is not set''), d)
      else (case connect of
        Some e \<Rightarrow> (Err e, d)
      | None \<Rightarrow>
          (case getInterface contractName d of
             (Err e, d) \<Rightarrow> (Err (Wrap e ''get interface''), d)
           | (Panic p, d) \<Rightarrow> (Panic p, d)
           | (Ok old, d) \<Rightarrow>
               (case then_exec (wrap_exec ''cannot delete interface'' (deleteInterface contractName d)) (\<lambda>d.
                       then_exec (exec_each (rescanOperation_task DelOperation) (ci_operations old) d)
                         (rescanInterface_task contractName DelInterface)) of
                  (Some e, d) \<Rightarrow> (Err e, d)
                | (None, d) \<Rightarrow> (Ok (), d)))))"

subsection \<open>Operation codes\<close>

lemma hex_digits_parse:
  assumes "hex_digits a s = Some k" and "k \<le> M"
  shows "parse_digits 16 M a s = Ok k"
  using assms
proof (induction s arbitrary: a)
  case (Cons c s)
  from Cons.prems(1) obtain x where x: "hex_val c = Some x" "hex_digits (16 * a + x) s = Some k"
    by (auto split: option.splits)
  have mono: "hex_digits b s = Some k \<Longrightarrow> b \<le> k" for b
    by (induction s arbitrary: b) (auto split: option.splits, fastforce)
  have "digit_val c = Some x" "x < 16" using x(1) by (auto simp: hex_val_def split: option.splits if_splits)
  with x(2) mono[OF x(2)] Cons.IH[OF x(2) Cons.prems(2)] Cons.prems(2) show ?case
    by (simp add: mult.commute)
qed simp

lemma parse_digits_mono: "parse_digits b M a s = Ok k \<Longrightarrow> M \<le> M' \<Longrightarrow> parse_digits b M' a s = Ok k"
  by (induction s arbitrary: a) (auto split: option.splits if_splits)

lemma hex_digits_no_x:
  "hex_digits a s = Some k \<Longrightarrow> CHR ''x'' \<notin> set s"
proof (induction s arbitrary: a)
  case (Cons c s)
  have "hex_val (CHR ''x'') = None" by (simp add: hex_val_def digit_val_def)
  with Cons show ?case by (auto split: option.splits)
qed simp

lemma parse_digits_no_x:
  "parse_digits 10 M a s = Ok k \<Longrightarrow> CHR ''x'' \<notin> set s"
proof (induction s arbitrary: a)
  case (Cons c s)
  have "digit_val (CHR ''x'') = Some 33" by (simp add: digit_val_def)
  with Cons show ?case by (auto split: option.splits if_splits)
qed simp

lemma parse_digits_ge: "parse_digits 10 M a s = Ok k \<Longrightarrow> (if s = [] then a \<le> k else 10 * a \<le> k)"
proof (induction s arbitrary: a)
  case (Cons c s)
  then obtain x where "parse_digits 10 M (a * 10 + x) s = Ok k" by (auto split: option.splits if_splits)
  from Cons.IH[OF this] show ?case by (auto split: if_splits)
qed simp

lemma small_decimal_is_hex:
  "parse_digits 10 M 0 s = Ok k \<Longrightarrow> k < 10 \<Longrightarrow> parse_digits 16 M' 0 s = Ok m \<Longrightarrow> k = m"
proof (induction s)
  case (Cons c s)
  obtain x where x: "parse_digits 10 M x s = Ok k" "parse_digits 16 M' x s = Ok m"
    using Cons.prems by (auto split: option.splits if_splits)
  show ?case
  proof (cases "s = [] \<or> x = 0")
    case True
    then show ?thesis using x Cons.IH Cons.prems(2) by auto
  next
    case False
    then show ?thesis using parse_digits_ge[OF x(1)] Cons.prems(2) by simp
  qed
qed simp

text \<open>Decimal digits read as hexadecimal ones give a larger number, from the second digit on.\<close>

lemma decimal_below_hex:
  assumes "parse_digits 10 M a s = Ok k" and "parse_digits 16 M b s = Ok h"
  shows "(a < b \<longrightarrow> k < h) \<and> (a = b \<longrightarrow> k < h \<or> (k = h \<and> (k < 10 \<or> s = [])))"
  using assms
proof (induction s arbitrary: a b)
  case (Cons c s)
  from Cons.prems(1) obtain x where x: "digit_val c = Some x" "x < 10" "parse_digits 10 M (a * 10 + x) s = Ok k"
    by (auto split: option.splits if_splits)
  with Cons.prems(2) have h: "parse_digits 16 M (b * 16 + x) s = Ok h" by (auto split: if_splits)
  note IH = Cons.IH[OF x(3) h]
  show ?case
  proof (cases "a = 0 \<and> b = 0")
    case True
    with IH x show ?thesis by (cases s) auto
  next
    case False
    then have "a \<le> b \<Longrightarrow> a * 10 + x < b * 16 + x" by auto
    with IH show ?thesis by auto
  qed
qed simp

lemma obind_Ok_iff: "obind r f = Some (Ok y) \<longleftrightarrow> (\<exists>x. r = Some (Ok x) \<and> f x = Some (Ok y))"
  by (cases "(r, f)" rule: obind.cases) auto

lemma owrap_Ok_iff: "owrap m r = Some (Ok y) \<longleftrightarrow> r = Some (Ok y)"
  by (auto simp: owrap_def)

lemma operation_New_shape:
  assumes "operation_New C R n d False = Some (Ok x)"
  shows "\<exists>gs. x = TyStruct (op_field (od_code d) # gs)"
  using assms
  by (auto simp: operation_New_def tlbParseDesc_def struct_of_def elim!: obind.elims split: if_splits)

lemma operationID_tag:
  assumes "operationID (TyStruct (op_field code # gs)) = Ok tag"
  shows "length (drop_0x code) \<le> 8 \<and> (\<exists>k. parse_digits 16 (2 ^ 32 - 1) 0 (drop_0x code) = Ok k \<and> tag = word_of_nat k)"
proof -
  have len: "length (pad8 (drop_0x code)) = 8" using assms by (auto simp: operationID_def op_field_def split: if_splits)
  then have ne: "pad8 (drop_0x code) \<noteq> []" by auto
  obtain k where "parse_uint 16 32 (pad8 (drop_0x code)) = Ok k" "tag = word_of_nat k"
    using assms len by (auto simp: operationID_def op_field_def rwrap_Ok_iff)
  then have "parse_digits 16 (2 ^ 32 - 1) 0 (pad8 (drop_0x code)) = Ok k"
    using ne unfolding parse_uint_def by (simp only: if_False)
  then have "parse_digits 16 (2 ^ 32 - 1) 0 (drop_0x code) = Ok k"
    unfolding pad8_def by (subst (asm) parse_digits_zeros) simp_all
  with len \<open>tag = word_of_nat k\<close> show ?thesis by (auto simp: pad8_def)
qed

lemma hex_id:
  assumes "bigint_hex s = Some k" and "parse_digits 16 (2 ^ 32 - 1) 0 (drop_0x (CHR ''0'' # CHR ''x'' # s)) = Ok m"
  shows "(ucast (bigint_Uint64 k) :: u32) = word_of_nat m"
proof -
  have m: "parse_digits 16 (2 ^ 32 - 1) 0 (drop_0x s) = Ok m" using assms(2) by simp
  have sign: "digit_val (CHR ''-'') = None" "digit_val (CHR ''+'') = None" by (simp_all add: digit_val_def)
  have first: "s \<noteq> [] \<and> (hd s = CHR ''-'' \<or> hd s = CHR ''+'') \<Longrightarrow> False"
    using m sign by (cases s; cases "tl s") (auto split: if_splits)
  then obtain i where i: "hex_digits 0 s = Some i" "k = int i"
    using assms(1) by (auto simp: bigint_hex_def Let_def split: if_splits)
  have d: "drop_0x s = s" using drop_0x_id[OF hex_digits_no_x[OF i(1)]] .
  have "i = m"
  proof -
    have "parse_digits 16 (max i (2 ^ 32 - 1)) 0 s = Ok i" using hex_digits_parse[OF i(1)] by simp
    moreover have "parse_digits 16 (max i (2 ^ 32 - 1)) 0 s = Ok m" using parse_digits_mono[OF m[unfolded d]] by simp
    ultimately show ?thesis by simp
  qed
  then have "k = int m" using i(2) by simp
  moreover have "m < 2 ^ 32" using parse_digits_bound[OF m[unfolded d]] by simp
  ultimately show ?thesis
    by (simp add: bigint_Uint64_def unsigned_of_nat take_bit_nat_eq_self)
qed

text \<open>
  The id of an operation and the tag its cells are read with: a description that is accepted has a
  type whose tag is the hexadecimal number of its code. The id stored for the operation is that tag when the
  code is written with the prefix 0x; for a code without it, which is read as a decimal number, id and tag agree for the numbers
  below ten only, so messages with such an id are never parsed by the schema.
\<close>

theorem operation_id_and_tag:
  assumes "parseOperationDesc C R n t d = Some (Ok op)"
  shows "\<exists>x tag. operation_New C R n d False = Some (Ok x) \<and> operationID x = Ok tag \<and>
    (co_operation_id op = tag \<longleftrightarrow> has_prefix (od_code d) ''0x'' \<or> unat (co_operation_id op) < 10)"
proof -
  obtain i x y where st: "operation_id_of (od_code d) = Ok i" "operation_New C R n d False = Some (Ok x)"
      "newOperationDesc C [] (TyPtr x) = Ok y" "co_operation_id op = i"
    using assms by (auto simp: parseOperationDesc_def owrap_Ok_iff obind_Ok_iff Let_def)
  obtain gs where x: "x = TyStruct (op_field (od_code d) # gs)" using operation_New_shape[OF st(2)] by auto
  obtain tag where tag: "operationID x = Ok tag" using st(3) by (auto simp: newOperationDesc_def)
  obtain m where m: "parse_digits 16 (2 ^ 32 - 1) 0 (drop_0x (od_code d)) = Ok m" "tag = word_of_nat m"
      "length (drop_0x (od_code d)) \<le> 8"
    using operationID_tag tag x by blast
  have "i = tag \<longleftrightarrow> has_prefix (od_code d) ''0x'' \<or> unat i < 10"
  proof (cases "has_prefix (od_code d) ''0x''")
    case True
    then obtain s where s: "od_code d = CHR ''0'' # CHR ''x'' # s" by (auto simp: has_prefix_iff)
    obtain k where k: "bigint_hex s = Some k" "i = ucast (bigint_Uint64 k)"
      using st(1) True by (auto simp: operation_id_of_def s split: option.splits)
    then show ?thesis using hex_id[OF k(1)] m True by (simp add: s)
  next
    case False
    then obtain k where k: "parse_digits 10 (2 ^ 32 - 1) 0 (od_code d) = Ok k" "i = word_of_nat k" "od_code d \<noteq> []"
      using st(1) by (auto simp: operation_id_of_def parse_uint_def split: if_splits)
    have h: "parse_digits 16 (2 ^ 32 - 1) 0 (od_code d) = Ok m"
      using m(1) drop_0x_id[OF parse_digits_no_x[OF k(1)]] by simp
    have "k < 2 ^ 32" "m < 2 ^ 32" using parse_digits_bound[OF k(1)] parse_digits_bound[OF h] by simp_all
    then have u: "unat i = k" "i = tag \<longleftrightarrow> k = m"
      using k(2) m(2) by (auto simp: unsigned_of_nat word_of_nat_eq_iff take_bit_nat_eq_self)
    have "k < 10 \<Longrightarrow> k = m" using small_decimal_is_hex[OF k(1) _ h] by simp
    moreover have "k = m \<Longrightarrow> k < 10" using decimal_below_hex[OF k(1) h] k(3) by auto
    ultimately show ?thesis using u False by auto
  qed
  then show ?thesis using st(2,4) tag by blast
qed

definition ex_decimal :: operation_desc where
  "ex_decimal = \<lparr>od_name = ''ping'', od_code = ''1234'', od_type = [], od_body = []\<rparr>"

theorem operation_id_and_tag_witness:
  "\<exists>op x tag. parseOperationDesc plain_case [] 0 ''wallet'' ex_decimal = Some (Ok op) \<and> co_operation_id op = 1234 \<and>
    operation_New plain_case [] 0 ex_decimal False = Some (Ok x) \<and> operationID x = Ok tag \<and> tag \<noteq> 1234"
proof -
  have four: "replicate 4 c = [c, c, c, c :: char]" for c by (simp add: numeral_eq_Suc)
  obtain op where op: "parseOperationDesc plain_case [] 0 ''wallet'' ex_decimal = Some (Ok op)" "co_operation_id op = 1234"
    by (simp add: parseOperationDesc_def ex_decimal_def operation_id_of_def parse_uint_def digit_val_def owrap_def
        operation_New_def tlbParseDesc_def struct_of_def op_field_def exported_name_def ident_char_def pad8_def
        newOperationDesc_def operationID_def tlbMakeDesc_def four Let_def)
  have "\<not> has_prefix (od_code ex_decimal) ''0x''" by (simp add: ex_decimal_def)
  with operation_id_and_tag[OF op(1)] op show ?thesis by auto
qed

subsection \<open>Maps by name\<close>

lemma name_map_snoc: "name_map nm (vs @ [v]) = AList.update (nm v) v (name_map nm vs)"
  by (simp add: name_map_def)

lemma name_map_keys: "distinct (map fst (name_map nm vs))"
proof (induction vs rule: rev_induct)
  case Nil
  show ?case by (simp add: name_map_def)
qed (simp add: name_map_snoc distinct_update)

lemma filter_named:
  assumes "set ps = (\<lambda>v. (nm v, v)) ` A"
  shows "set (map snd (filter (\<lambda>(k, v). P k v) ps)) = {v \<in> A. P (nm v) v}"
proof -
  have "set (map snd (filter (\<lambda>(k, v). P k v) ps)) = snd ` {p \<in> (\<lambda>v. (nm v, v)) ` A. case p of (k, v) \<Rightarrow> P k v}"
    by (simp add: assms)
  also have "\<dots> = {v \<in> A. P (nm v) v}" by force
  finally show ?thesis .
qed

lemma name_map_distinct:
  assumes "distinct (map nm vs)"
  shows "set (name_map nm vs) = (\<lambda>v. (nm v, v)) ` set vs"
    and "map_of (name_map nm vs) k = Some v \<longleftrightarrow> v \<in> set vs \<and> nm v = k"
proof -
  have set: "distinct (map nm vs) \<Longrightarrow> set (name_map nm vs) = (\<lambda>v. (nm v, v)) ` set vs"
  proof (induction vs rule: rev_induct)
    case Nil
    show ?case by (simp add: name_map_def)
  next
    case (snoc v vs)
    then have "nm v \<notin> fst ` set (name_map nm vs)" by auto
    then have "AList.update (nm v) v (name_map nm vs) = name_map nm vs @ [(nm v, v)]"
      by (rule alist_update_new)
    with snoc show ?case by (simp add: name_map_snoc)
  qed
  show "set (name_map nm vs) = (\<lambda>v. (nm v, v)) ` set vs" using set[OF assms] .
  then show "map_of (name_map nm vs) k = Some v \<longleftrightarrow> v \<in> set vs \<and> nm v = k"
    using map_of_eq_Some_iff[OF name_map_keys[of nm vs]] by auto
qed

text \<open>The differences of two lists of named values, when the names of each are different.\<close>

lemma diffSlices_sets:
  assumes "range_order ord" and "distinct (map nm old)" and "distinct (map nm new)"
    and "diffSlices ord nm old new = (added, changed, deleted)"
  shows "set added = {v \<in> set new. nm v \<notin> nm ` set old}"
    and "set changed = {v \<in> set new. nm v \<in> nm ` set old \<and> v \<notin> set old}"
    and "set deleted = {v \<in> set old. nm v \<notin> nm ` set new}"
    and "distinct (map nm added)" "distinct (map nm changed)" "distinct (map nm deleted)"
proof -
  have ranged: "set (range_map ord (name_map nm vs)) = (\<lambda>v. (nm v, v)) ` set vs" "distinct (map fst (range_map ord (name_map nm vs)))"
    if "distinct (map nm vs)" for vs
    using mset_range_map[OF assms(1) name_map_keys[of nm vs]] name_map_distinct(1)[OF that] name_map_keys[of nm vs]
    by (metis mset_eq_setD, metis mset_eq_imp_distinct_iff mset_map)
  note new = ranged[OF assms(3)] and old = ranged[OF assms(2)]
  have none: "map_of (name_map nm vs) k = None \<longleftrightarrow> k \<notin> nm ` set vs" if "distinct (map nm vs)" for vs k
    using name_map_distinct[OF that] by (auto simp: map_of_eq_None_iff image_image)
  have parts: "added = map snd (filter (\<lambda>(vn, v). map_of (name_map nm old) vn = None) (range_map ord (name_map nm new)))"
    "changed = map snd (filter (\<lambda>(vn, v). map_of (name_map nm old) vn \<noteq> None \<and> map_of (name_map nm old) vn \<noteq> Some v) (range_map ord (name_map nm new)))"
    "deleted = map snd (filter (\<lambda>(vn, v). map_of (name_map nm new) vn = None) (range_map ord (name_map nm old)))"
    using assms(4) by (auto simp: diffSlices_def Let_def)
  show "set added = {v \<in> set new. nm v \<notin> nm ` set old}"
    unfolding parts filter_named[OF new(1)] using none[OF assms(2)] by auto
  show "set changed = {v \<in> set new. nm v \<in> nm ` set old \<and> v \<notin> set old}"
    unfolding parts filter_named[OF new(1)] using none[OF assms(2)] name_map_distinct(2)[OF assms(2)] by auto
  show "set deleted = {v \<in> set old. nm v \<notin> nm ` set new}"
    unfolding parts filter_named[OF old(1)] using none[OF assms(3)] by auto
  have inj: "distinct (map nm (map snd (filter P ps)))" if "distinct (map fst ps)" "\<forall>(k, v) \<in> set ps. nm v = k" for P ps
    using that by (induction ps) (auto, force)
  have inj_new: "distinct (map nm (map snd (filter P (range_map ord (name_map nm new)))))" for P
    by (rule inj) (use new in auto)
  have inj_old: "distinct (map nm (map snd (filter P (range_map ord (name_map nm old)))))" for P
    by (rule inj) (use old in auto)
  show "distinct (map nm added)" "distinct (map nm changed)" "distinct (map nm deleted)"
    unfolding parts by (rule inj_new inj_old)+
qed

subsection \<open>Changing operations\<close>

lemma exec_each_keeps:
  assumes "\<And>x d. g (snd (f x d)) = g d"
  shows "g (snd (exec_each f xs d)) = g d"
proof (induction xs arbitrary: d)
  case (Cons x xs)
  have "g (snd (then_exec (f x d) (exec_each f xs))) = g d"
    by (rule then_exec_keeps) (use assms Cons.IH in auto)
  then show ?case by simp
qed simp

lemma snd_affected [simp]: "snd (affected none rows d r) = snd r"
  by (auto simp: affected_def split: option.split)

lemma snd_already_exists [simp]: "snd (already_exists r) = snd r"
  by (auto simp: already_exists_def split: option.split)

lemma exec_unless_keeps:
  assumes "\<And>d. g (f d) = g d" and "\<And>d fs. g (d\<lparr>db_faults := fs\<rparr>) = g d"
  shows "g (snd (exec_unless c f d)) = g d"
  using exec_keeps[of g f d] assms by (simp add: exec_unless_def)

lemma exec_unless_None: "exec_unless c f d = (None, d') \<longleftrightarrow> \<not> c d \<and> exec f d = (None, d')"
  by (auto simp: exec_unless_def)

lemma already_exists_None: "already_exists r = (None, d') \<longleftrightarrow> r = (None, d')"
  by (cases r) (auto simp: already_exists_def split: option.splits if_splits)

lemma affected_None: "affected none rows d r = (None, d') \<longleftrightarrow> r = (None, d') \<and> rows d"
  by (cases r) (auto simp: affected_def split: option.splits)

text \<open>Deleting, updating and inserting when every statement succeeds.\<close>

lemma deleteOperation_Ok:
  assumes "deleteOperation nm d = (None, d')"
  shows "pg_operations d' = filter (\<lambda>r. co_operation_name r \<noteq> nm) (pg_operations d)"
proof -
  have "exec (\<lambda>d. d\<lparr>pg_operations := filter (\<lambda>r. co_operation_name r \<noteq> nm) (pg_operations d)\<rparr>) d = (None, d')"
    using assms by (simp add: deleteOperation_def affected_None)
  then show ?thesis by (rule exec_Ok_field) simp_all
qed

lemma updateOperation_Ok:
  assumes "updateOperation op d = (None, d')"
  shows "pg_operations d' = map (\<lambda>r. if operation_key r = operation_key op then op else r) (pg_operations d)"
    and "operation_key op \<in> operation_key ` set (pg_operations d)"
    and "\<And>r. r \<in> set (pg_operations d) \<Longrightarrow> operation_names_key r = operation_names_key op \<Longrightarrow> operation_key r = operation_key op"
proof -
  have st: "exec (\<lambda>d. d\<lparr>pg_operations := map (\<lambda>r. if operation_key r = operation_key op then op else r) (pg_operations d)\<rparr>) d = (None, d')"
    "operation_key op \<in> operation_key ` set (pg_operations d)"
    "\<not> (\<exists>r \<in> set (pg_operations d). operation_key r \<noteq> operation_key op \<and> operation_names_key r = operation_names_key op)"
    using assms by (auto simp: updateOperation_def affected_None exec_unless_None)
  show "pg_operations d' = map (\<lambda>r. if operation_key r = operation_key op then op else r) (pg_operations d)"
    using st(1) by (rule exec_Ok_field) simp_all
  show "operation_key op \<in> operation_key ` set (pg_operations d)" by (rule st(2))
  show "\<And>r. r \<in> set (pg_operations d) \<Longrightarrow> operation_names_key r = operation_names_key op \<Longrightarrow> operation_key r = operation_key op"
    using st(3) by blast
qed

lemma addOperation_Ok:
  assumes "addOperation op d = (None, d')"
  shows "pg_operations d' = pg_operations d @ [op]"
proof -
  have "exec (\<lambda>d. d\<lparr>pg_operations := pg_operations d @ [op]\<rparr>) d = (None, d')"
    using assms by (simp add: addOperation_def already_exists_None exec_unless_None)
  then show ?thesis by (rule exec_Ok_field) simp_all
qed

lemma deletes_Ok:
  "exec_each (\<lambda>op d. wrap_exec m (deleteOperation (co_operation_name op) d)) ops d = (None, d') \<Longrightarrow>
    pg_operations d' = filter (\<lambda>r. co_operation_name r \<notin> co_operation_name ` set ops) (pg_operations d)"
proof (induction ops arbitrary: d)
  case (Cons op ops)
  from Cons.prems obtain d1 where "deleteOperation (co_operation_name op) d = (None, d1)"
    "exec_each (\<lambda>op d. wrap_exec m (deleteOperation (co_operation_name op) d)) ops d1 = (None, d')"
    by (auto elim!: then_exec_None)
  with Cons.IH[OF this(2)] deleteOperation_Ok[OF this(1)] show ?case by (auto intro: filter_cong)
qed simp

lemma adds_Ok:
  "exec_each (\<lambda>op d. wrap_exec m (addOperation op d)) ops d = (None, d') \<Longrightarrow> pg_operations d' = pg_operations d @ ops"
proof (induction ops arbitrary: d)
  case (Cons op ops)
  from Cons.prems obtain d1 where "addOperation op d = (None, d1)"
    "exec_each (\<lambda>op d. wrap_exec m (addOperation op d)) ops d1 = (None, d')"
    by (auto elim!: then_exec_None)
  with Cons.IH[OF this(2)] addOperation_Ok[OF this(1)] show ?case by simp
qed simp

text \<open>
  Updates succeed for operations that keep their key only, and replace the row of their name.
\<close>

lemma update_by_name:
  assumes "distinct (map operation_key T)" and "distinct (map operation_names_key T)"
    and "o1 \<in> set T" "operation_names_key o1 = operation_names_key op" "operation_key o1 = operation_key op"
  shows "map (\<lambda>r. if operation_key r = operation_key op then op else r) T =
    map (\<lambda>r. if operation_names_key r = operation_names_key op then op else r) T"
proof (rule map_cong[OF refl])
  fix r assume r: "r \<in> set T"
  have "operation_key r = operation_key op \<longleftrightarrow> r = o1"
    using assms(1,3,5) r unfolding distinct_map by (metis inj_onD)
  moreover have "operation_names_key r = operation_names_key op \<longleftrightarrow> r = o1"
    using assms(2-4) r unfolding distinct_map by (metis inj_onD)
  ultimately show "(if operation_key r = operation_key op then op else r) =
      (if operation_names_key r = operation_names_key op then op else r)" by simp
qed

lemma updates_Ok:
  "distinct (map operation_names_key ops) \<Longrightarrow>
   distinct (map operation_key (pg_operations d)) \<Longrightarrow> distinct (map operation_names_key (pg_operations d)) \<Longrightarrow>
   operation_names_key ` set ops \<subseteq> operation_names_key ` set (pg_operations d) \<Longrightarrow>
   exec_each (\<lambda>op d. wrap_exec m (updateOperation op d)) ops d = (None, d') \<Longrightarrow>
   set (pg_operations d') = set ops \<union> {r \<in> set (pg_operations d). operation_names_key r \<notin> operation_names_key ` set ops} \<and>
   (\<forall>op \<in> set ops. \<forall>r \<in> set (pg_operations d). operation_names_key r = operation_names_key op \<longrightarrow> operation_key r = operation_key op)"
proof (induction ops arbitrary: d)
  case (Cons op ops)
  let ?T = "pg_operations d"
  from Cons.prems(5) obtain d1 where u: "updateOperation op d = (None, d1)"
    and rest: "exec_each (\<lambda>op d. wrap_exec m (updateOperation op d)) ops d1 = (None, d')"
    by (auto elim!: then_exec_None)
  obtain o1 where o1: "o1 \<in> set ?T" "operation_names_key o1 = operation_names_key op" using Cons.prems(4) by auto
  note same = updateOperation_Ok(3)[OF u]
  let ?f = "\<lambda>r. if operation_names_key r = operation_names_key op then op else r"
  have T1: "pg_operations d1 = map ?f ?T"
    using updateOperation_Ok(1)[OF u] update_by_name[OF Cons.prems(2,3) o1 same[OF o1]] by simp
  have names: "map operation_names_key (map ?f ?T) = map operation_names_key ?T" by simp
  have keys: "map operation_key (map ?f ?T) = map operation_key ?T" using same by simp
  have op: "operation_names_key op \<notin> operation_names_key ` set ops" using Cons.prems(1) by simp
  have sub: "operation_names_key ` set ops \<subseteq> operation_names_key ` set (map ?f ?T)"
    using Cons.prems(4) names by (metis (no_types, lifting) insert_subset list.set_map list.simps(15) image_insert)
  from Cons.IH[of d1] Cons.prems(1-3) rest sub names keys T1
  have IH: "set (pg_operations d') = set ops \<union> {r \<in> set (map ?f ?T). operation_names_key r \<notin> operation_names_key ` set ops}"
    "\<forall>op \<in> set ops. \<forall>r \<in> set (map ?f ?T). operation_names_key r = operation_names_key op \<longrightarrow> operation_key r = operation_key op"
    by (simp_all only: T1) auto
  have "{r \<in> set (map ?f ?T). operation_names_key r \<notin> operation_names_key ` set ops} =
      insert op {r \<in> set ?T. operation_names_key r \<notin> operation_names_key ` set (op # ops)}"
    using o1 op by auto
  moreover have "operation_key r = operation_key op'"
    if "op' \<in> set (op # ops)" "r \<in> set ?T" "operation_names_key r = operation_names_key op'" for op' r
  proof (cases "op' = op")
    case True
    then show ?thesis using same[OF that(2)] that(3) by simp
  next
    case False
    then have "op' \<in> set ops" using that(1) by simp
    moreover from this have "operation_names_key r \<noteq> operation_names_key op" using op that(3) by (metis image_eqI)
    then have "r \<in> set (map ?f ?T)" using that(2) by force
    ultimately show ?thesis using IH(2) that(3) by blast
  qed
  ultimately show ?case using IH(1) by auto
qed simp

text \<open>The operations of one contract have different names.\<close>

lemma same_operation:
  assumes "distinct (map operation_names_key ops)" and "r \<in> set ops" "q \<in> set ops"
    and "co_contract_name r = co_contract_name q" "co_operation_name r = co_operation_name q"
  shows "r = q"
proof -
  have "operation_names_key r = operation_names_key q" using assms(4,5) by (simp add: operation_names_key_def)
  then show ?thesis using assms(1-3) unfolding distinct_map by (metis inj_onD)
qed

lemma old_names_distinct:
  assumes "distinct (map operation_key ops)" and "distinct (map operation_names_key ops)"
  shows "distinct (map co_operation_name (filter (\<lambda>r. co_contract_name r = c) ops))"
proof -
  have "distinct ops" using assms(1) by (simp add: distinct_map)
  then show ?thesis using same_operation[OF assms(2)] by (auto simp: distinct_map inj_on_def)
qed

text \<open>What a successful change leaves in the table of operations.\<close>

lemma changeOperations_Ok:
  assumes ord: "range_order ord"
    and keys: "distinct (map operation_key (pg_operations d))" "distinct (map operation_names_key (pg_operations d))"
    and old: "old = filter (\<lambda>r. co_contract_name r = c) (pg_operations d)"
    and new: "\<forall>op \<in> set new. co_contract_name op = c" "distinct (map co_operation_name new)"
    and diff: "diffOperations ord old new = (added, changed, deleted)"
    and run: "changeOperations added changed deleted d = (None, d')"
  shows "{r \<in> set (pg_operations d'). co_contract_name r = c} = set new"
    and "{r \<in> set (pg_operations d'). co_contract_name r \<noteq> c} =
      {r \<in> set (pg_operations d). co_contract_name r \<noteq> c \<and> co_operation_name r \<notin> co_operation_name ` set deleted}"
    and "\<And>op r. op \<in> set new \<Longrightarrow> r \<in> set old \<Longrightarrow> co_operation_name r = co_operation_name op \<Longrightarrow> operation_key r = operation_key op"
proof -
  let ?T = "filter (\<lambda>r. co_operation_name r \<notin> co_operation_name ` set deleted) (pg_operations d)"
  have inj: "r = r'" if "r \<in> set old" "r' \<in> set old" "co_operation_name r = co_operation_name r'" for r r'
    using same_operation[OF keys(2), of r r'] that old by simp
  have dold: "distinct (map co_operation_name old)" unfolding old by (rule old_names_distinct[OF keys])
  note diffs = diffSlices_sets[OF ord dold new(2) diff[unfolded diffOperations_def]]
  obtain d1 d2 where st:
    "exec_each (\<lambda>op d. wrap_exec ''cannot delete contract operation'' (deleteOperation (co_operation_name op) d)) deleted d = (None, d1)"
    "exec_each (\<lambda>op d. wrap_exec ''cannot update contract operation'' (updateOperation op d)) changed d1 = (None, d2)"
    "exec_each (\<lambda>op d. wrap_exec ''cannot insert contract operation'' (addOperation op d)) added d2 = (None, d')"
    using run unfolding changeOperations_def by (elim then_exec_None)
  have T: "pg_operations d1 = ?T" using deletes_Ok[OF st(1)] .
  have nk: "operation_names_key x = operation_names_key y \<longleftrightarrow> co_operation_name x = co_operation_name y"
    if "co_contract_name x = c" "co_contract_name y = c" for x y
    using that by (simp add: operation_names_key_def)
  have cc: "\<forall>op \<in> set changed. co_contract_name op = c" using diffs(2) new(1) by auto
  have "distinct changed" using diffs(5) by (simp add: distinct_map)
  then have dc: "distinct (map operation_names_key changed)"
    using diffs(5) cc nk by (auto simp: distinct_map inj_on_def)
  have sub: "operation_names_key ` set changed \<subseteq> operation_names_key ` set ?T"
  proof
    fix k assume "k \<in> operation_names_key ` set changed"
    then obtain op where op: "op \<in> set changed" "k = operation_names_key op" by auto
    then obtain r where r: "r \<in> set old" "co_operation_name r = co_operation_name op" using diffs(2) by auto
    have "co_operation_name r \<in> co_operation_name ` set new" using op(1) r(2) diffs(2) by auto
    then have "r \<in> set ?T" using r(1) diffs(3) old inj by auto
    moreover have "operation_names_key r = k" using r op cc old by (simp add: operation_names_key_def)
    ultimately show "k \<in> operation_names_key ` set ?T" by blast
  qed
  have dT: "distinct (map operation_key ?T)" "distinct (map operation_names_key ?T)"
    using keys by (auto simp: distinct_map intro: inj_on_subset)
  from updates_Ok[OF dc, of d1 _ d2] dT sub st(2) T
  have u: "set (pg_operations d2) = set changed \<union> {r \<in> set ?T. operation_names_key r \<notin> operation_names_key ` set changed}"
    "\<forall>op \<in> set changed. \<forall>r \<in> set ?T. operation_names_key r = operation_names_key op \<longrightarrow> operation_key r = operation_key op"
    by (simp_all only: T) blast+
  have a: "pg_operations d' = pg_operations d2 @ added" using adds_Ok[OF st(3)] .
  have cn: "\<And>r. r \<in> set old \<longleftrightarrow> r \<in> set (pg_operations d) \<and> co_contract_name r = c" using old by auto
  have upd: "v \<in> set changed" if "v \<in> set new" "v \<notin> set old" "r \<in> set old" "co_operation_name r = co_operation_name v" for v r
    using that diffs(2) by (metis (mono_tags, lifting) image_eqI mem_Collect_eq)
  have unew: "v = w" if "v \<in> set new" "w \<in> set new" "co_operation_name v = co_operation_name w" for v w
    using new(2) that unfolding distinct_map by (metis inj_onD)
  show "operation_key r = operation_key op"
    if o: "op \<in> set new" "r \<in> set old" "co_operation_name r = co_operation_name op" for op r
  proof (cases "op \<in> set old")
    case True
    then show ?thesis using inj[OF o(2) True o(3)] by simp
  next
    case False
    then have ch: "op \<in> set changed" using upd[OF o(1) False o(2,3)] by simp
    have "co_operation_name r \<notin> co_operation_name ` set deleted" using o diffs(3) by force
    then have "r \<in> set ?T" using o(2) cn by simp
    then show ?thesis using u(2) ch nk[of r op] o cn new(1) by blast
  qed
  show "{r \<in> set (pg_operations d'). co_contract_name r = c} = set new"
  proof (intro equalityI subsetI)
    fix r assume "r \<in> {r \<in> set (pg_operations d'). co_contract_name r = c}"
    then have r: "r \<in> set added \<or> r \<in> set changed \<or> (r \<in> set ?T \<and> operation_names_key r \<notin> operation_names_key ` set changed)"
      "co_contract_name r = c" using a u(1) by auto
    show "r \<in> set new"
    proof (cases "r \<in> set added \<or> r \<in> set changed")
      case True
      then show ?thesis using diffs(1,2) by auto
    next
      case False
      with r have t: "r \<in> set old" "co_operation_name r \<notin> co_operation_name ` set deleted"
        "operation_names_key r \<notin> operation_names_key ` set changed" using cn by auto
      then obtain v where v: "v \<in> set new" "co_operation_name v = co_operation_name r" using diffs(3) by force
      have "v \<in> set old"
      proof (rule ccontr)
        assume "v \<notin> set old"
        then have "v \<in> set changed" using upd v t(1) by metis
        moreover have "operation_names_key v = operation_names_key r" using v r(2) new(1) by (simp add: operation_names_key_def)
        ultimately show False using t(3) by (metis image_eqI)
      qed
      then show ?thesis using inj[OF t(1)] v by metis
    qed
  next
    fix v assume v: "v \<in> set new"
    have "v \<in> set (pg_operations d')"
    proof (cases "v \<in> set old")
      case True
      have "co_operation_name v \<notin> co_operation_name ` set deleted"
        using v diffs(3) by (metis (mono_tags, lifting) image_iff mem_Collect_eq)
      moreover have "operation_names_key v \<notin> operation_names_key ` set changed"
      proof
        assume "operation_names_key v \<in> operation_names_key ` set changed"
        then obtain w where w: "w \<in> set changed" "operation_names_key w = operation_names_key v" by auto
        then have "w = v" using unew v diffs(2) by (auto simp: operation_names_key_def)
        then show False using w(1) True diffs(2) by auto
      qed
      ultimately show ?thesis using True cn a u(1) by auto
    next
      case False
      then show ?thesis using v a u(1) diffs(1,2) by auto
    qed
    then show "v \<in> {r \<in> set (pg_operations d'). co_contract_name r = c}" using v new(1) by simp
  qed
  have other: "operation_names_key r \<notin> operation_names_key ` set changed" if "co_contract_name r \<noteq> c" for r
    using that cc by (auto simp: operation_names_key_def)
  show "{r \<in> set (pg_operations d'). co_contract_name r \<noteq> c} =
      {r \<in> set (pg_operations d). co_contract_name r \<noteq> c \<and> co_operation_name r \<notin> co_operation_name ` set deleted}"
  proof (rule set_eqI)
    fix r
    have "r \<notin> set changed" "r \<notin> set added" if "co_contract_name r \<noteq> c"
      using that cc diffs(1) new(1) by auto
    moreover have "set (pg_operations d') = set (pg_operations d2) \<union> set added" using a by simp
    ultimately show "r \<in> {r \<in> set (pg_operations d'). co_contract_name r \<noteq> c} \<longleftrightarrow>
      r \<in> {r \<in> set (pg_operations d). co_contract_name r \<noteq> c \<and> co_operation_name r \<notin> co_operation_name ` set deleted}"
      using u(1) other[of r] unfolding mem_Collect_eq set_filter by blast
  qed
qed

subsection \<open>What the subcommands change\<close>

text \<open>Statements on definitions, and those of the tasks, leave the other tables alone.\<close>

lemma storeDefinitions_keeps:
  assumes "\<And>d x. g (d\<lparr>pg_definitions := x\<rparr>) = g d" and "\<And>d fs. g (d\<lparr>db_faults := fs\<rparr>) = g d"
  shows "g (snd (storeDefinitions ord added changed d)) = g d"
proof -
  have "g (snd (updateDefinition dn x d)) = g d" "g (snd (addDefinition dn x d)) = g d" for dn x d
    using assms by (simp_all add: updateDefinition_def addDefinition_def exec_keeps exec_unless_keeps)
  then have "g (snd (exec_each (\<lambda>(dn, x) d. wrap_exec m (updateDefinition dn x d)) ps d)) = g d"
    "g (snd (exec_each (\<lambda>(dn, x) d. wrap_exec m (addDefinition dn x d)) ps d)) = g d" for m ps d
    by (intro exec_each_keeps; simp add: split_def)+
  then show ?thesis unfolding storeDefinitions_def by (intro then_exec_keeps)
qed

lemma addRescanTask_keeps:
  assumes "\<And>d x y. g (d\<lparr>pg_tasks := x, pg_task_seq := y\<rparr>) = g d" and "\<And>d fs. g (d\<lparr>db_faults := fs\<rparr>) = g d"
  shows "g (snd (addRescanTask t d)) = g d"
  using assms by (simp add: addRescanTask_def exec_keeps)

lemma scheduleRescans_keeps:
  assumes "\<And>d x y. g (d\<lparr>pg_tasks := x, pg_task_seq := y\<rparr>) = g d" and "\<And>d fs. g (d\<lparr>db_faults := fs\<rparr>) = g d"
  shows "g (snd (scheduleRescans c idiff opdiff d)) = g d"
proof -
  note t = addRescanTask_keeps[of g, OF assms]
  have ops: "g (snd (exec_each (rescanOperation_task ty) ops d)) = g d" for ty ops d
    by (rule exec_each_keeps) (simp add: rescanOperation_task_def t)
  have gm: "g (snd (rescanGetMethod_task c ty ms d)) = g d" for ty ms d by (simp add: rescanGetMethod_task_def t)
  have i: "g (snd (rescanInterface_task c ty d)) = g d" for ty d by (simp add: rescanInterface_task_def t)
  show ?thesis unfolding scheduleRescans_def
    by (auto split: prod.split intro!: then_exec_keeps simp: ops gm i)
qed

lemma changeOperations_keeps:
  assumes "\<And>d x. g (d\<lparr>pg_operations := x\<rparr>) = g d" and "\<And>d fs. g (d\<lparr>db_faults := fs\<rparr>) = g d"
  shows "g (snd (changeOperations added changed deleted d)) = g d"
proof -
  have "g (snd (deleteOperation nm d)) = g d" "g (snd (updateOperation op d)) = g d" "g (snd (addOperation op d)) = g d" for nm op d
    using assms by (simp_all add: deleteOperation_def updateOperation_def addOperation_def exec_keeps exec_unless_keeps)
  then show ?thesis unfolding changeOperations_def
    by (intro then_exec_keeps exec_each_keeps) simp_all
qed

lemma updateInterface_keeps:
  assumes "\<And>d x. g (d\<lparr>pg_interfaces := x\<rparr>) = g d" and "\<And>d fs. g (d\<lparr>db_faults := fs\<rparr>) = g d"
  shows "g (snd (updateInterface i d)) = g d"
  using assms by (simp add: updateInterface_def exec_unless_keeps)

lemma getInterface_Ok:
  assumes "getInterface c d = (Ok i, d1)"
  shows "\<exists>fs r. d1 = d\<lparr>db_faults := fs\<rparr> \<and> r \<in> set (pg_interfaces d) \<and> ci_name r = c \<and>
    i = r\<lparr>ci_operations := filter (\<lambda>r. co_contract_name r = c) (pg_operations d)\<rparr>"
proof -
  obtain r where q: "query (\<lambda>d. map_option (\<lambda>i. i\<lparr>ci_operations := filter (\<lambda>r. co_contract_name r = c) (pg_operations d)\<rparr>)
      (find (\<lambda>r. ci_name r = c) (pg_interfaces d))) d = (Ok (Some i), d1)"
    using assms by (auto simp: getInterface_def split: prod.splits res.splits option.splits if_splits)
  from query_OkD[OF q] obtain fs r where r: "d1 = d\<lparr>db_faults := fs\<rparr>" "find (\<lambda>r. ci_name r = c) (pg_interfaces d) = Some r"
    "i = r\<lparr>ci_operations := filter (\<lambda>r. co_contract_name r = c) (pg_operations d)\<rparr>"
    by (metis (no_types, lifting) map_option_eq_Some)
  from r(2) have "r \<in> set (pg_interfaces d)" "ci_name r = c" by (auto simp: find_Some_iff in_set_conv_nth)
  with r(1,3) show ?thesis by blast
qed

lemma diffDefinitions_frame:
  assumes "diffDefinitions defs d = (Ok x, d1)"
  shows "\<exists>fs. d1 = d\<lparr>db_faults := fs\<rparr>"
proof -
  obtain y where "query (\<lambda>d. upsert_all fst snd (pg_definitions d) Map.empty) d = (Ok y, d1)"
    using assms by (auto simp: diffDefinitions_def getDefinitions_def split: prod.splits res.splits)
  from query_OkD[OF this] show ?thesis by blast
qed

text \<open>The description of a contract, when the input describes it.\<close>

definition described :: "command_env \<Rightarrow> interface_desc list res \<Rightarrow> contract_name \<Rightarrow> contract_interface option" where
  "described E descs c =
     (case obind (Some descs) (parseInterfacesDesc (cm_case E) (cm_crc E) (cm_bound E) (cm_register_order E) tlb_empty) of
        Some (Ok (definitions, interfaces, _)) \<Rightarrow>
          (case rev (filter (\<lambda>i. ci_name i = c) interfaces) of [] \<Rightarrow> None | i # _ \<Rightarrow> Some i)
      | _ \<Rightarrow> None)"

lemma parseOperations_contract:
  "parseOperations C R n t out ds = Some (Ok ops) \<Longrightarrow> \<forall>op \<in> set ops. co_contract_name op = t"
proof (induction ds arbitrary: ops)
  case (Cons x ds)
  then obtain op rest where p: "parseOperationDesc C R n t x = Some (Ok op)"
    "parseOperations C R n t out ds = Some (Ok rest)" "ops = op\<lparr>co_outgoing := out\<rparr> # rest"
    by (auto simp: obind_Ok_iff)
  have "co_contract_name op = t"
    using p(1) by (auto simp: parseOperationDesc_def owrap_Ok_iff obind_Ok_iff Let_def)
  with p(3) Cons.IH[OF p(2)] show ?case by simp
qed simp

lemma parseInterfaces_contract:
  "parseInterfaces C crc R n ds = Some (Ok is) \<Longrightarrow> i \<in> set is \<Longrightarrow> \<forall>op \<in> set (ci_operations i). co_contract_name op = ci_name i"
proof (induction ds arbitrary: "is")
  case (Cons x ds)
  then obtain j rest where p: "parseInterfaceDesc C crc R n x = Some (Ok j)"
    "parseInterfaces C crc R n ds = Some (Ok rest)" "is = j # rest"
    by (auto simp: obind_Ok_iff)
  have "\<forall>op \<in> set (ci_operations j). co_contract_name op = ci_name j"
    using p(1) parseOperations_contract by (auto simp: parseInterfaceDesc_def owrap_Ok_iff obind_Ok_iff)
  with p(3) Cons.IH[OF p(2)] Cons.prems(2) show ?case by auto
qed simp

lemma described_contract:
  assumes "described E descs c = Some new"
  shows "ci_name new = c" and "\<forall>op \<in> set (ci_operations new). co_contract_name op = c"
proof -
  obtain defs ints ops where p: "obind (Some descs) (parseInterfacesDesc (cm_case E) (cm_crc E) (cm_bound E) (cm_register_order E) tlb_empty) =
      Some (Ok (defs, ints, ops))" and new: "rev (filter (\<lambda>i. ci_name i = c) ints) \<noteq> []" "hd (rev (filter (\<lambda>i. ci_name i = c) ints)) = new"
    using assms by (auto simp: described_def split: option.splits res.splits prod.splits list.splits)
  have "new \<in> set ints \<and> ci_name new = c" using hd_in_set[OF new(1)] new(2) by auto
  moreover obtain retD and S :: tlb_state where "parseInterfaces (cm_case E) (cm_crc E) (ts_defs S) (cm_bound E) retD = Some (Ok ints)"
    using p by (auto simp: obind_Ok_iff parseInterfacesDesc_def)
  ultimately show "ci_name new = c" "\<forall>op \<in> set (ci_operations new). co_contract_name op = c"
    using parseInterfaces_contract by blast+
qed

definition contract_tables :: "db \<Rightarrow> contract_operation list \<times> contract_interface list \<times> rescan_task list" where
  "contract_tables d = (pg_operations d, pg_interfaces d, pg_tasks d)"

lemma query_frame: "query f d = (r, d') \<Longrightarrow> contract_tables d' = contract_tables d"
  by (auto simp: query_def contract_tables_def split: list.splits option.splits)

lemma getInterface_frame: "getInterface c d = (r, d') \<Longrightarrow> contract_tables d' = contract_tables d"
  by (auto simp: getInterface_def split: prod.splits res.splits option.splits if_splits dest!: query_frame)

lemma diffDefinitions_tables: "diffDefinitions defs d = (r, d') \<Longrightarrow> contract_tables d' = contract_tables d"
  by (auto simp: diffDefinitions_def getDefinitions_def split: prod.splits res.splits dest!: query_frame)

lemma storeDefinitions_tables:
  "storeDefinitions ord added changed d = (r, d') \<Longrightarrow> contract_tables d' = contract_tables d"
  using storeDefinitions_keeps[of contract_tables ord added changed d] by (simp add: contract_tables_def)

text \<open>The update stops before it changes an interface or an operation, or it installs the description.\<close>

lemma cmd_updateInterface_cases:
  assumes "described E descs c = Some new" and "cmd_updateInterface E descs c d = Some (r, d')"
  obtains (stopped) "r \<noteq> Ok ()" "contract_tables d' = contract_tables d"
    | (installed) d3 row where "contract_tables d3 = contract_tables d" "row \<in> set (pg_interfaces d)" "ci_name row = c"
        "installInterface (cm_name_order E) (row\<lparr>ci_operations := filter (\<lambda>r. co_contract_name r = c) (pg_operations d)\<rparr>) new d3 =
          (case r of Ok _ \<Rightarrow> None | Err e \<Rightarrow> Some e | Panic p \<Rightarrow> Some (ErrText p), d')" "\<And>p. r \<noteq> Panic p"
proof -
  obtain defs ints ops rest where p: "obind (Some descs) (parseInterfacesDesc (cm_case E) (cm_crc E) (cm_bound E) (cm_register_order E) tlb_empty) =
      Some (Ok (defs, ints, ops))" and new: "rev (filter (\<lambda>i. ci_name i = c) ints) = new # rest"
    using assms(1) by (auto simp: described_def split: option.splits res.splits prod.splits list.splits)
  let ?rest = "(case cm_connect E of
      Some e \<Rightarrow> Some (Err e, d)
    | None \<Rightarrow>
        (case getInterface c d of
           (Err e, d) \<Rightarrow> Some (Err (Wrap e ''get interface''), d)
         | (Panic p, d) \<Rightarrow> Some (Panic p, d)
         | (Ok old, d) \<Rightarrow>
             (case diffDefinitions defs d of
                (Err e, d) \<Rightarrow> Some (Err e, d)
              | (Panic p, d) \<Rightarrow> Some (Panic p, d)
              | (Ok (added, changed), d) \<Rightarrow>
                  (case storeDefinitions (cm_definition_order E) added changed d of
                     (Some e, d) \<Rightarrow> Some (Err e, d)
                   | (None, d) \<Rightarrow>
                       (case installInterface (cm_name_order E) old new d of
                          (Some e, d) \<Rightarrow> Some (Err e, d)
                        | (None, d) \<Rightarrow> Some (Ok (), d))))))"
  have run: "(if c = [] then Some (Err (Wrap ErrInvalidArg ''contract interface name is not set''), d) else ?rest) = Some (r, d')"
    using assms(2) unfolding cmd_updateInterface_def by (simp only: p new option.case res.case prod.case list.case)
  show ?thesis
  proof (cases "c = [] \<or> cm_connect E \<noteq> None")
    case True
    with run show ?thesis by (intro stopped) (auto split: if_splits)
  next
    case False
    obtain g d1 where g: "getInterface c d = (g, d1)" by (cases "getInterface c d")
    have rest: "?rest = Some (r, d')" using run False by simp
    show ?thesis
    proof (cases g)
      case (Ok old)
      obtain row where row: "row \<in> set (pg_interfaces d)" "ci_name row = c"
        "old = row\<lparr>ci_operations := filter (\<lambda>r. co_contract_name r = c) (pg_operations d)\<rparr>"
        using getInterface_Ok[of c d old d1] g Ok by blast
      obtain f d2 where f: "diffDefinitions defs d1 = (f, d2)" by (cases "diffDefinitions defs d1")
      have t2: "contract_tables d2 = contract_tables d"
        using getInterface_frame[OF g] diffDefinitions_tables[OF f] by simp
      show ?thesis
      proof (cases f)
        case ok2: (Ok ac)
        obtain added changed where ac: "ac = (added, changed)" by (cases ac)
        obtain s d3 where s: "storeDefinitions (cm_definition_order E) added changed d2 = (s, d3)"
          by (cases "storeDefinitions (cm_definition_order E) added changed d2")
        have t3: "contract_tables d3 = contract_tables d" using storeDefinitions_tables[OF s] t2 by simp
        show ?thesis
        proof (cases s)
          case None
          obtain q d4 where q: "installInterface (cm_name_order E) old new d3 = (q, d4)"
            by (cases "installInterface (cm_name_order E) old new d3")
          have "(case q of Some e \<Rightarrow> (Err e, d4) | None \<Rightarrow> (Ok (), d4)) = (r, d')"
            using rest False g Ok f ok2 ac s None q by (cases q) simp_all
          then show ?thesis
            using installed[OF t3 row(1,2)] q row(3) by (cases q) auto
        next
          case (Some e)
          then show ?thesis using rest False g Ok f ok2 ac s t3 by (intro stopped) auto
        qed
      qed (use rest False g Ok f t2 in \<open>auto intro: stopped\<close>)
    qed (use rest False g getInterface_frame[OF g] in \<open>auto intro: stopped\<close>)
  qed
qed

text \<open>Interfaces that are installed, and the state of the tables that PostgreSQL's keys guarantee.\<close>

definition contracts_ok :: "db \<Rightarrow> bool" where
  "contracts_ok d \<longleftrightarrow> distinct (map operation_key (pg_operations d)) \<and>
     distinct (map operation_names_key (pg_operations d)) \<and> distinct (map ci_name (pg_interfaces d)) \<and>
     (\<forall>i \<in> set (pg_interfaces d). distinct (map gm_name (ci_get_methods i)))"

definition names_distinct :: "contract_interface \<Rightarrow> bool" where
  "names_distinct i \<longleftrightarrow> distinct (map co_operation_name (ci_operations i)) \<and> distinct (map gm_name (ci_get_methods i))"

definition interface_matches :: "contract_interface \<Rightarrow> contract_interface \<Rightarrow> bool" where
  "interface_matches new i \<longleftrightarrow> ci_addresses i = ci_addresses new \<and> ci_code i = ci_code new \<and>
     ci_get_method_hashes i = ci_get_method_hashes new \<and> set (ci_get_methods i) = set (ci_get_methods new)"

lemma updateInterface_Ok:
  assumes "updateInterface i d = (None, d')"
  shows "pg_interfaces d' = map (\<lambda>r. if ci_name r = ci_name i then interface_row i else r) (pg_interfaces d)"
proof -
  have "exec (\<lambda>d. d\<lparr>pg_interfaces := map (\<lambda>r. if ci_name r = ci_name i then interface_row i else r) (pg_interfaces d)\<rparr>) d = (None, d')"
    using assms by (simp add: updateInterface_def exec_unless_None)
  then show ?thesis by (rule exec_Ok_field) simp_all
qed

text \<open>Without a difference the stored interface matches already.\<close>

lemma no_difference:
  assumes "range_order ord" and "distinct (map gm_name (ci_get_methods old))" "distinct (map gm_name (ci_get_methods new))"
    and "diffInterface ord old new = (False, [], [], [])"
  shows "interface_matches new old"
proof -
  have d: "diffSlices ord gm_name (ci_get_methods old) (ci_get_methods new) = ([], [], [])"
    and eq: "ci_addresses new = ci_addresses old" "ci_code new = ci_code old" "ci_get_method_hashes new = ci_get_method_hashes old"
    using assms(4) by (auto simp: diffInterface_def)
  note s = diffSlices_sets[OF assms(1-3) d]
  have "v \<in> set (ci_get_methods old)" if "v \<in> set (ci_get_methods new)" for v
    using s(1,2) that by (metis (mono_tags, lifting) empty_iff list.set(1) mem_Collect_eq)
  moreover have "v \<in> set (ci_get_methods new)" if v: "v \<in> set (ci_get_methods old)" for v
  proof -
    have "gm_name v \<in> gm_name ` set (ci_get_methods new)"
      using s(3) v by (metis (mono_tags, lifting) empty_iff list.set(1) mem_Collect_eq)
    then obtain w where w: "w \<in> set (ci_get_methods new)" "gm_name w = gm_name v" by auto
    with calculation[OF w(1)] v assms(2) have "w = v" unfolding distinct_map by (metis inj_onD)
    with w show ?thesis by simp
  qed
  ultimately show ?thesis using eq by (auto simp: interface_matches_def)
qed

text \<open>The first two steps of the installation, and what the second one needs.\<close>

definition storeInterface :: "string key_order \<Rightarrow> contract_interface \<Rightarrow> contract_interface \<Rightarrow> db \<Rightarrow> goerr option \<times> db" where
  "storeInterface ord old new d =
     (if diffInterface ord old new \<noteq> (False, [], [], [])
      then wrap_exec ''cannot update contract interface'' (updateInterface new d) else (None, d))"

lemma installInterface_unfold:
  "installInterface ord old new d =
    (case diffOperations ord (ci_operations old) (ci_operations new) of (addedOp, changedOp, deletedOp) \<Rightarrow>
      then_exec (storeInterface ord old new d) (\<lambda>d.
      then_exec (changeOperations addedOp changedOp deletedOp d)
        (scheduleRescans (ci_name new) (diffInterface ord old new) (addedOp, changedOp, deletedOp))))"
proof (cases "diffInterface ord old new")
  case (fields iChanged addedGm changedGm deletedGm)
  have "(iChanged, addedGm, changedGm, deletedGm) \<noteq> (False, [], [], []) \<longleftrightarrow>
      iChanged \<or> addedGm \<noteq> [] \<or> changedGm \<noteq> [] \<or> deletedGm \<noteq> []" by auto
  then show ?thesis by (simp only: installInterface_def storeInterface_def fields prod.case)
qed

lemma storeInterface_keeps:
  assumes "\<And>d x. g (d\<lparr>pg_interfaces := x\<rparr>) = g d" and "\<And>d fs. g (d\<lparr>db_faults := fs\<rparr>) = g d"
  shows "g (snd (storeInterface ord old new d)) = g d"
  using updateInterface_keeps[of g new d, OF assms] by (simp add: storeInterface_def)

lemma then_exec_Some:
  "then_exec r k = (Some e, d') \<Longrightarrow> r = (Some e, d') \<or> (\<exists>d. r = (None, d) \<and> k d = (Some e, d'))"
  by (cases r) (auto simp: then_exec_def split: option.splits)

subsection \<open>The theorems on updates\<close>

text \<open>
  C19. An update that succeeds installs the description: the stored interface has the addresses,
  the code and the get methods of the description, and the operations stored for the contract are exactly the described
  ones. Of the operations of other contracts it keeps those whose names are not names of operations that
  the description has dropped: the others are deleted with them.
\<close>

theorem update_installs_description:
  assumes "range_order (cm_name_order E)" and "contracts_ok d" and "described E descs c = Some new" and "names_distinct new"
    and "cmd_updateInterface E descs c d = Some (Ok (), d')"
  shows "(\<exists>i \<in> set (pg_interfaces d'). ci_name i = c \<and> interface_matches new i) \<and>
    {r \<in> set (pg_operations d'). co_contract_name r = c} = set (ci_operations new) \<and>
    {r \<in> set (pg_operations d'). co_contract_name r \<noteq> c} =
      {r \<in> set (pg_operations d). co_contract_name r \<noteq> c \<and>
        \<not> (\<exists>q \<in> set (pg_operations d). co_contract_name q = c \<and> co_operation_name q = co_operation_name r \<and>
          co_operation_name r \<notin> co_operation_name ` set (ci_operations new))}"
  using assms(3,5)
proof (cases rule: cmd_updateInterface_cases)
  case (installed d3 row)
  note new = described_contract[OF assms(3)]
  let ?old = "row\<lparr>ci_operations := filter (\<lambda>r. co_contract_name r = c) (pg_operations d)\<rparr>"
  have t3: "pg_operations d3 = pg_operations d" "pg_interfaces d3 = pg_interfaces d"
    using installed(1) by (simp_all add: contract_tables_def)
  have keys: "distinct (map operation_key (pg_operations d))" "distinct (map operation_names_key (pg_operations d))"
    "distinct (map gm_name (ci_get_methods ?old))" "distinct (map gm_name (ci_get_methods new))"
    "distinct (map co_operation_name (ci_operations new))"
    using assms(2,4) installed(2) by (auto simp: contracts_ok_def names_distinct_def)
  obtain addedOp changedOp deletedOp where diff: "diffOperations (cm_name_order E) (ci_operations ?old) (ci_operations new) = (addedOp, changedOp, deletedOp)"
    by (cases "diffOperations (cm_name_order E) (ci_operations ?old) (ci_operations new)") auto
  obtain d1 d2 where st: "storeInterface (cm_name_order E) ?old new d3 = (None, d1)"
    "changeOperations addedOp changedOp deletedOp d1 = (None, d2)"
    "scheduleRescans (ci_name new) (diffInterface (cm_name_order E) ?old new) (addedOp, changedOp, deletedOp) d2 = (None, d')"
    using installed(4) unfolding installInterface_unfold diff prod.case res.case by (elim then_exec_None)
  have t1: "pg_operations d1 = pg_operations d"
    using storeInterface_keeps[of pg_operations "cm_name_order E" ?old new d3] st(1) t3 by simp
  have t2: "pg_interfaces d2 = pg_interfaces d1"
    using changeOperations_keeps[of pg_interfaces addedOp changedOp deletedOp d1] st(2) by simp
  have t': "pg_operations d' = pg_operations d2" "pg_interfaces d' = pg_interfaces d2"
    using scheduleRescans_keeps[of pg_operations "ci_name new" "diffInterface (cm_name_order E) ?old new" "(addedOp, changedOp, deletedOp)" d2]
      scheduleRescans_keeps[of pg_interfaces "ci_name new" "diffInterface (cm_name_order E) ?old new" "(addedOp, changedOp, deletedOp)" d2]
      st(3) by simp_all
  have ops: "ci_operations ?old = filter (\<lambda>r. co_contract_name r = c) (pg_operations d)" by simp
  note ch = changeOperations_Ok[OF assms(1) keys(1,2)[folded t1] ops[folded t1] new(2) keys(5) diff[folded t1] st(2)]
  have dold: "distinct (map co_operation_name (ci_operations ?old))"
    using old_names_distinct[OF keys(1,2)] by simp
  have sd: "set deletedOp = {v \<in> set (ci_operations ?old). co_operation_name v \<notin> co_operation_name ` set (ci_operations new)}"
    using diffSlices_sets(3)[OF assms(1) dold keys(5) diff[unfolded diffOperations_def]] .
  have deleted: "co_operation_name r \<in> co_operation_name ` set deletedOp \<longleftrightarrow>
      (\<exists>q \<in> set (pg_operations d). co_contract_name q = c \<and> co_operation_name q = co_operation_name r \<and>
        co_operation_name r \<notin> co_operation_name ` set (ci_operations new))" for r
    unfolding sd ops by (simp add: image_iff) metis
  have "\<exists>i \<in> set (pg_interfaces d1). ci_name i = c \<and> interface_matches new i"
  proof (cases "diffInterface (cm_name_order E) ?old new = (False, [], [], [])")
    case True
    have "interface_matches new ?old" by (rule no_difference[OF assms(1) keys(3,4) True])
    then have "interface_matches new row" by (simp add: interface_matches_def)
    moreover have "pg_interfaces d1 = pg_interfaces d" using st(1) True t3 by (simp add: storeInterface_def)
    ultimately show ?thesis using installed(2,3) by auto
  next
    case False
    then have "updateInterface new d3 = (None, d1)" using st(1) by (simp add: storeInterface_def)
    from updateInterface_Ok[OF this] have "interface_row new \<in> set (pg_interfaces d1)"
      using installed(2,3) t3 new(1) by force
    then show ?thesis using new(1)
      by (intro bexI[of _ "interface_row new"]) (simp_all add: interface_row_def interface_matches_def)
  qed
  then show ?thesis using ch(1,2) t' t2 t1 unfolding deleted by simp
qed simp

text \<open>
  The id of an operation cannot be changed: when the description gives a stored operation another
  id (or direction) under its name, the update returns an error, because it looks for the row to update by the new id. What
  it has done until then stays, among it the new interface, and no rescan task is added for any of it.
\<close>

theorem changed_operation_id_fails:
  assumes "range_order (cm_name_order E)" and "contracts_ok d" and "described E descs c = Some new" and "names_distinct new"
    and "op \<in> set (ci_operations new)" and "r \<in> set (pg_operations d)" "co_contract_name r = c"
    and "co_operation_name r = co_operation_name op" and "operation_key r \<noteq> operation_key op"
    and "cmd_updateInterface E descs c d = Some (res, d')"
  shows "res \<noteq> Ok () \<and> pg_tasks d' = pg_tasks d"
  using assms(3,10)
proof (cases rule: cmd_updateInterface_cases)
  case stopped
  then show ?thesis by (simp add: contract_tables_def)
next
  case (installed d3 row)
  note new = described_contract[OF assms(3)]
  let ?old = "row\<lparr>ci_operations := filter (\<lambda>r. co_contract_name r = c) (pg_operations d)\<rparr>"
  have t3: "pg_operations d3 = pg_operations d" "pg_tasks d3 = pg_tasks d"
    using installed(1) by (simp_all add: contract_tables_def)
  have keys: "distinct (map operation_key (pg_operations d))" "distinct (map operation_names_key (pg_operations d))"
    "distinct (map co_operation_name (ci_operations new))"
    using assms(2,4) by (auto simp: contracts_ok_def names_distinct_def)
  obtain addedOp changedOp deletedOp where diff: "diffOperations (cm_name_order E) (ci_operations ?old) (ci_operations new) = (addedOp, changedOp, deletedOp)"
    by (cases "diffOperations (cm_name_order E) (ci_operations ?old) (ci_operations new)") auto
  have fails: "fst (changeOperations addedOp changedOp deletedOp d1) \<noteq> None" if t1: "pg_operations d1 = pg_operations d" for d1
  proof
    assume "fst (changeOperations addedOp changedOp deletedOp d1) = None"
    then obtain d2 where run: "changeOperations addedOp changedOp deletedOp d1 = (None, d2)" by (metis prod.collapse)
    have ops: "ci_operations ?old = filter (\<lambda>r. co_contract_name r = c) (pg_operations d)" by simp
    have "operation_key r = operation_key op"
      by (rule changeOperations_Ok(3)[OF assms(1) keys(1,2)[folded t1] ops[folded t1] new(2) keys(3) diff[folded t1] run assms(5) _ assms(8)])
        (use assms(6,7) t1 in simp)
    with assms(9) show False by simp
  qed
  obtain u d1 where st: "storeInterface (cm_name_order E) ?old new d3 = (u, d1)"
    by (cases "storeInterface (cm_name_order E) ?old new d3")
  have t1: "pg_operations d1 = pg_operations d" "pg_tasks d1 = pg_tasks d"
    using storeInterface_keeps[of pg_operations "cm_name_order E" ?old new d3]
      storeInterface_keeps[of pg_tasks "cm_name_order E" ?old new d3] st t3 by simp_all
  obtain v d2 where co: "changeOperations addedOp changedOp deletedOp d1 = (Some v, d2)"
    using fails[OF t1(1)] by (cases "changeOperations addedOp changedOp deletedOp d1") auto
  have t2: "pg_tasks d2 = pg_tasks d"
    using changeOperations_keeps[of pg_tasks addedOp changedOp deletedOp d1] co t1(2) by simp
  have "installInterface (cm_name_order E) ?old new d3 = (case u of Some e \<Rightarrow> (Some e, d1) | None \<Rightarrow> (Some v, d2))"
    unfolding installInterface_unfold diff prod.case st by (cases u) (simp_all add: then_exec_def co)
  with installed(4) show ?thesis using t1(2) t2 by (cases u; cases res) auto
qed

subsection \<open>Deleting an interface\<close>

text \<open>New tasks come behind the old ones and have larger ids.\<close>

definition tasks_added :: "db \<Rightarrow> db \<Rightarrow> bool" where
  "tasks_added d d' \<longleftrightarrow> (\<exists>added. pg_tasks d' = pg_tasks d @ added \<and> (\<forall>k \<in> set added. pg_task_seq d \<le> rt_id k)) \<and>
     pg_task_seq d \<le> pg_task_seq d' \<and> pg_interfaces d' = pg_interfaces d"

lemma tasks_added_refl: "tasks_added d d"
  by (simp add: tasks_added_def)

lemma tasks_added_trans:
  assumes "tasks_added d d1" "tasks_added d1 d2"
  shows "tasks_added d d2"
proof -
  obtain a b where "pg_tasks d1 = pg_tasks d @ a" "\<forall>k \<in> set a. pg_task_seq d \<le> rt_id k"
    "pg_tasks d2 = pg_tasks d1 @ b" "\<forall>k \<in> set b. pg_task_seq d1 \<le> rt_id k"
    using assms unfolding tasks_added_def by blast
  then have "pg_tasks d2 = pg_tasks d @ a @ b \<and> (\<forall>k \<in> set (a @ b). pg_task_seq d \<le> rt_id k)"
    using assms by (auto simp: tasks_added_def)
  then show ?thesis using assms unfolding tasks_added_def by fastforce
qed

lemma addRescanTask_added: "tasks_added d (snd (addRescanTask t d))"
  by (auto simp: tasks_added_def addRescanTask_def exec_def split: list.split option.split)

lemma exec_each_added:
  assumes "\<And>x d. tasks_added d (snd (f x d))"
  shows "tasks_added d (snd (exec_each f xs d))"
proof (induction xs arbitrary: d)
  case (Cons x xs)
  show ?case
  proof (cases "f x d")
    case (Pair r d1)
    then have "tasks_added d d1" using assms[of d x] by simp
    then show ?thesis using Pair Cons.IH[of d1] tasks_added_trans by (cases r) (auto simp: then_exec_def)
  qed
qed (simp add: tasks_added_refl)

lemma cmd_deleteInterface_Ok:
  assumes "cmd_deleteInterface connect c d = (Ok (), d')"
  shows "c \<notin> ci_name ` set (pg_interfaces d')"
    and "\<exists>added. pg_tasks d' = pg_tasks d @ added \<and> (\<forall>k \<in> set added. pg_task_seq d \<le> rt_id k)"
proof -
  obtain old d0 where g: "getInterface c d = (Ok old, d0)"
    and run: "then_exec (wrap_exec ''cannot delete interface'' (deleteInterface c d0)) (\<lambda>d.
        then_exec (exec_each (rescanOperation_task DelOperation) (ci_operations old) d) (rescanInterface_task c DelInterface)) = (None, d')"
    using assms by (auto simp: cmd_deleteInterface_def split: if_splits option.splits prod.splits res.splits)
  from run obtain d1 d2 where st: "deleteInterface c d0 = (None, d1)"
    "exec_each (rescanOperation_task DelOperation) (ci_operations old) d1 = (None, d2)" "rescanInterface_task c DelInterface d2 = (None, d')"
    by (auto elim!: then_exec_None)
  from st(1) obtain d3 where x: "exec (\<lambda>d. d\<lparr>pg_operations := filter (\<lambda>r. co_contract_name r \<noteq> c) (pg_operations d)\<rparr>) d0 = (None, d3)"
    "exec (\<lambda>d. d\<lparr>pg_interfaces := filter (\<lambda>r. ci_name r \<noteq> c) (pg_interfaces d)\<rparr>) d3 = (None, d1)"
    unfolding deleteInterface_def by (auto elim!: then_exec_None simp: affected_None)
  have i: "pg_interfaces d1 = filter (\<lambda>r. ci_name r \<noteq> c) (pg_interfaces d3)"
    using exec_Ok_field[OF x(2), of pg_interfaces "filter (\<lambda>r. ci_name r \<noteq> c)"] by simp
  obtain fs where d0: "d0 = d\<lparr>db_faults := fs\<rparr>" using getInterface_Ok[OF g] by blast
  have t: "pg_tasks d1 = pg_tasks d" "pg_task_seq d1 = pg_task_seq d"
    using exec_Ok_keeps[OF x(1), of pg_tasks] exec_Ok_keeps[OF x(2), of pg_tasks]
      exec_Ok_keeps[OF x(1), of pg_task_seq] exec_Ok_keeps[OF x(2), of pg_task_seq] d0 by simp_all
  have "tasks_added d1 d2"
    using exec_each_added[of "rescanOperation_task DelOperation" d1 "ci_operations old"] st(2) addRescanTask_added
    by (simp add: rescanOperation_task_def)
  moreover have "tasks_added d2 d'"
    using addRescanTask_added[of d2 "task_new DelInterface c"] st(3) by (simp add: rescanInterface_task_def wrap_exec_def prod_eq_iff)
  ultimately have "tasks_added d1 d'" by (rule tasks_added_trans)
  then show "c \<notin> ci_name ` set (pg_interfaces d')"
    and "\<exists>added. pg_tasks d' = pg_tasks d @ added \<and> (\<forall>k \<in> set added. pg_task_seq d \<le> rt_id k)"
    using i t by (auto simp: tasks_added_def)
qed

lemma unfinished_append:
  assumes "\<forall>k \<in> set (pg_tasks d). rt_id k < n" and "pg_tasks d' = pg_tasks d @ added" and "\<forall>k \<in> set added. n \<le> rt_id k"
  shows "unfinished_tasks d' = unfinished_tasks d @ sort_key rt_id (filter (\<lambda>k. \<not> rt_finished k) added)"
proof -
  let ?xs = "filter (\<lambda>k. \<not> rt_finished k) (pg_tasks d)" and ?ys = "filter (\<lambda>k. \<not> rt_finished k) added"
  have "sort_key rt_id (?xs @ ?ys) = sort_key rt_id ?xs @ sort_key rt_id ?ys"
  proof (rule properties_for_sort_key)
    show "sorted (map rt_id (sort_key rt_id ?xs @ sort_key rt_id ?ys))"
      using assms by (fastforce simp: sorted_append)
    show "filter (\<lambda>x. rt_id k = rt_id x) (sort_key rt_id ?xs @ sort_key rt_id ?ys) = filter (\<lambda>x. rt_id k = rt_id x) (?xs @ ?ys)" for k
      by (simp only: filter_append eq_commute[of "rt_id k"] sort_key_stable)
  qed simp
  then show ?thesis using assms(2) by (simp add: unfinished_tasks_def)
qed

text \<open>The rescan loop asks for the oldest unfinished task; when its interface is gone, so is every round.\<close>

definition blocked :: "db \<Rightarrow> bool" where
  "blocked d \<longleftrightarrow> (case unfinished_tasks d of [] \<Rightarrow> False | task # _ \<Rightarrow>
     rt_type task \<noteq> DelInterface \<and> rt_type task \<noteq> DelOperation \<and> rt_contract_name task \<notin> ci_name ` set (pg_interfaces d))"

lemma blocked_round:
  assumes "blocked d" and "getUnfinishedRescanTask d = (r, d')"
  shows "(\<exists>e. r = Err e) \<and> contract_tables d' = contract_tables d"
proof -
  obtain task ts where b: "unfinished_tasks d = task # ts" "rt_type task \<noteq> DelInterface" "rt_type task \<noteq> DelOperation"
    "rt_contract_name task \<notin> ci_name ` set (pg_interfaces d)"
    using assms(1) by (auto simp: blocked_def split: list.splits)
  have none: "find (\<lambda>r. ci_name r = rt_contract_name task) (pg_interfaces d) = None"
    using b(4) unfolding find_None_iff by (metis image_eqI)
  have exec: "\<exists>fs. e1 = d\<lparr>db_faults := fs\<rparr>" if "exec (\<lambda>d. d) d = (x, e1)" for x e1
    using that by (auto simp: exec_def split: list.splits option.splits) (metis db.surjective db.update_convs(19))
  obtain x e1 where x: "exec (\<lambda>d. d) d = (x, e1)" by (cases "exec (\<lambda>d. d) d")
  obtain fs where e1: "e1 = d\<lparr>db_faults := fs\<rparr>" using exec[OF x] by blast
  have same: "unfinished_tasks e1 = task # ts" "pg_interfaces e1 = pg_interfaces d" "contract_tables e1 = contract_tables d"
    using b(1) by (simp_all add: e1 unfinished_tasks_def contract_tables_def)
  obtain q e2 where q: "query unfinished_tasks e1 = (q, e2)" by (cases "query unfinished_tasks e1")
  have t2: "contract_tables e2 = contract_tables d" using query_frame[OF q] same(3) by simp
  show ?thesis
  proof (cases x)
    case (Some e)
    then show ?thesis using assms(2) x same(3) by (auto simp: getUnfinishedRescanTask_def)
  next
    case None
    show ?thesis
    proof (cases q)
      case (Ok tasks)
      then have tasks: "tasks = task # ts" using query_OkD[of unfinished_tasks e1 tasks e2] q same(1) by simp
      have i2: "pg_interfaces e2 = pg_interfaces d" using t2 by (simp add: contract_tables_def)
      obtain u e3 where u: "query (\<lambda>d. find (\<lambda>r. ci_name r = rt_contract_name task) (pg_interfaces d)) e2 = (u, e3)"
        by (cases "query (\<lambda>d. find (\<lambda>r. ci_name r = rt_contract_name task) (pg_interfaces d)) e2")
      have t3: "contract_tables e3 = contract_tables d" using query_frame[OF u] t2 by simp
      have "u = Ok None \<or> (\<exists>e. u = Err e)"
        using u none i2 by (auto simp: query_def split: list.splits option.splits)
      then show ?thesis
        using assms(2) x None q Ok tasks b(2,3) u t3
        by (auto simp: getUnfinishedRescanTask_def task_contract_def query_one_def)
    next
      case (Err e)
      then show ?thesis using assms(2) x None q t2 by (auto simp: getUnfinishedRescanTask_def split: if_splits)
    next
      case (Panic p)
      then show ?thesis using q by (auto simp: query_def split: list.splits option.splits)
    qed
  qed
qed

lemma blocked_cong: "contract_tables d' = contract_tables d \<Longrightarrow> blocked d' = blocked d"
  by (simp add: blocked_def unfinished_tasks_def contract_tables_def split: list.split)

lemma blocked_loop:
  "blocked (rw_db w) \<Longrightarrow> \<exists>w'. rescanLoop Es w = (Ok (), w') \<and> contract_tables (rw_db w') = contract_tables (rw_db w)"
proof (induction Es arbitrary: w)
  case (Cons E Es)
  obtain r d' where g: "getUnfinishedRescanTask (rw_db w) = (r, d')" by (cases "getUnfinishedRescanTask (rw_db w)")
  then obtain e where e: "r = Err e" "contract_tables d' = contract_tables (rw_db w)"
    using blocked_round[OF Cons.prems] by blast
  have "blocked (rw_db (w\<lparr>rw_db := d'\<rparr>))" using Cons.prems blocked_cong[OF e(2)] by simp
  from Cons.IH[OF this] show ?case using g e by (simp add: rescan_round_def)
qed simp

text \<open>
  Deleting an interface can block the rescan service: when the oldest unfinished task is one of this
  interface that is not itself a deletion (it was added or updated, and the task waits or is being worked on),
  the deletion makes its interface unreadable, so every later round of the rescan loop, in whatever
  environment, fails at this task: no task changes any more, among them those that the deletion
  has just added to remove the interface from the accounts.
\<close>

theorem deletion_blocks_rescans:
  assumes "cmd_deleteInterface connect c d = (Ok (), d')" and "\<forall>k \<in> set (pg_tasks d). rt_id k < pg_task_seq d"
    and "unfinished_tasks d = task # tasks" and "rt_contract_name task = c"
    and "rt_type task \<noteq> DelInterface" "rt_type task \<noteq> DelOperation" and "rw_db w = d'"
  shows "\<exists>w'. rescanLoop Es w = (Ok (), w') \<and> pg_tasks (rw_db w') = pg_tasks d' \<and>
    unfinished_tasks (rw_db w') = unfinished_tasks d' \<and> task \<in> set (unfinished_tasks d')"
proof -
  obtain added where "pg_tasks d' = pg_tasks d @ added" "\<forall>k \<in> set added. pg_task_seq d \<le> rt_id k"
    using cmd_deleteInterface_Ok(2)[OF assms(1)] by blast
  from unfinished_append[OF assms(2) this] obtain rest where u: "unfinished_tasks d' = task # rest" using assms(3) by simp
  then have "blocked (rw_db w)"
    using cmd_deleteInterface_Ok(1)[OF assms(1)] assms(4-7) by (simp add: blocked_def)
  from blocked_loop[OF this, of Es] u show ?thesis
    using assms(7) by (auto simp: contract_tables_def unfinished_tasks_def)
qed

subsection \<open>Witnesses\<close>

definition ex_cmd :: command_env where
  "ex_cmd = \<lparr>cm_case = plain_case, cm_crc = (\<lambda>x. 0), cm_bound = 0, cm_register_order = (\<lambda>k. rev),
     cm_definition_order = rev, cm_name_order = rev, cm_connect = None\<rparr>"

definition ex_ping :: operation_desc where
  "ex_ping = \<lparr>od_name = ''ping'', od_code = ''0x5f'', od_type = ''INTERNAL'', od_body = []\<rparr>"

definition ex_described :: interface_desc where
  "ex_described = \<lparr>if_name = ''wallet'', if_addresses = [], if_code_boc = [], if_definitions = [], if_in_messages = [ex_ping],
     if_out_messages = [], if_get_methods = [], if_contract_data = []\<rparr>"

definition ex_op :: "string \<Rightarrow> contract_name \<Rightarrow> u32 \<Rightarrow> contract_operation" where
  "ex_op nm cn i = \<lparr>co_operation_name = nm, co_contract_name = cn, co_message_type = Internal, co_outgoing = False,
     co_operation_id = i, co_schema = ex_ping\<rparr>"

definition ex_wallet :: "contract_operation list \<Rightarrow> contract_interface" where
  "ex_wallet ops = \<lparr>ci_name = ''wallet'', ci_addresses = [], ci_code = [], ci_get_methods = [], ci_get_method_hashes = [],
     ci_operations = ops\<rparr>"

definition ex_tables :: "contract_operation list \<Rightarrow> db" where
  "ex_tables ops = db_empty\<lparr>pg_interfaces := [ex_wallet []], pg_operations := ops\<rparr>"

lemma ex_parse_ping: "parseOperationDesc plain_case [] 0 ''wallet'' ex_ping = Some (Ok (ex_op ''ping'' ''wallet'' 0x5f))"
proof -
  have six: "replicate 6 c = [c, c, c, c, c, c :: char]" for c by (simp add: numeral_eq_Suc)
  show ?thesis
    by (simp add: parseOperationDesc_def ex_ping_def ex_op_def operation_id_of_def bigint_hex_def bigint_Uint64_def hex_val_def
        digit_val_def owrap_def operation_New_def tlbParseDesc_def struct_of_def op_field_def exported_name_def ident_char_def
        pad8_def newOperationDesc_def operationID_def tlbMakeDesc_def parse_uint_def six Let_def message_type_of_def to_upper_def)
qed

lemma ex_parse:
  "parseInterfacesDesc plain_case (\<lambda>x. 0) 0 (\<lambda>k. rev) tlb_empty [ex_described] =
    Some (Ok ([], [ex_wallet [ex_op ''ping'' ''wallet'' 0x5f]], [ex_op ''ping'' ''wallet'' 0x5f]))"
proof -
  have "registerDefinitions plain_case 0 (\<lambda>k. rev) [] tlb_empty = Some (Ok (), tlb_empty)"
    by (subst registerDefinitions_def, subst register_from.simps) (simp add: range_map_def)
  moreover have "ex_op ''ping'' ''wallet'' 0x5f\<lparr>co_outgoing := False\<rparr> = ex_op ''ping'' ''wallet'' 0x5f"
    by (simp add: ex_op_def)
  ultimately show ?thesis
    by (simp add: parseInterfacesDesc_def ex_described_def parseInterfaceDesc_def ex_parse_ping std64_decode_def
        ex_wallet_def tlb_empty_def)
qed

lemma ex_described_wallet:
  "described ex_cmd (Ok [ex_described]) ''wallet'' = Some (ex_wallet [ex_op ''ping'' ''wallet'' 0x5f])"
  by (simp add: described_def ex_cmd_def ex_parse) (simp add: ex_wallet_def)

text \<open>With plain interfaces and no definitions the command is the installation.\<close>

lemma ex_cmd_update:
  assumes "cm_run = installInterface rev (ex_wallet (filter (\<lambda>r. co_contract_name r = ''wallet'') ops))
      (ex_wallet [ex_op ''ping'' ''wallet'' 0x5f]) (ex_tables ops)"
  shows "cmd_updateInterface ex_cmd (Ok [ex_described]) ''wallet'' (ex_tables ops) =
    Some (case fst cm_run of Some e \<Rightarrow> Err e | None \<Rightarrow> Ok (), snd cm_run)"
proof -
  let ?d = "ex_tables ops" and ?new = "ex_wallet [ex_op ''ping'' ''wallet'' 0x5f]"
  have d: "getInterface ''wallet'' ?d = (Ok (ex_wallet (filter (\<lambda>r. co_contract_name r = ''wallet'') ops)), ?d)"
    "diffDefinitions [] ?d = (Ok ([], []), ?d)" "storeDefinitions rev [] [] ?d = (None, ?d)"
    by (simp_all add: getInterface_def query_def ex_tables_def db_empty_def ex_wallet_def diffDefinitions_def getDefinitions_def
        storeDefinitions_def range_map_def then_exec_def)
  have n: "rev (filter (\<lambda>i. ci_name i = ''wallet'') [?new]) = [?new]" by (simp add: ex_wallet_def)
  have "cmd_updateInterface ex_cmd (Ok [ex_described]) ''wallet'' ?d =
      (case cm_run of (Some e, d) \<Rightarrow> Some (Err e, d) | (None, d) \<Rightarrow> Some (Ok (), d))"
    unfolding cmd_updateInterface_def assms ex_cmd_def command_env.simps obind.simps ex_parse option.case res.case prod.case n list.case d
    by simp
  then show ?thesis by (cases cm_run; cases "fst cm_run") auto
qed

lemmas install_eval = installInterface_def diffInterface_def diffOperations_def diffSlices_def name_map_def range_map_def
  changeOperations_def scheduleRescans_def rescanGetMethod_task_def getGetMethodNames_def rescanOperation_task_def addRescanTask_def
  deleteOperation_def updateOperation_def addOperation_def affected_def already_exists_def exec_unless_def exec_def
  then_exec_def wrap_exec_def

theorem update_installs_description_witness:
  "\<exists>d'. cmd_updateInterface ex_cmd (Ok [ex_described]) ''wallet'' (ex_tables [ex_op ''pong'' ''wallet'' 7, ex_op ''pong'' ''dex'' 9]) = Some (Ok (), d') \<and>
    {r \<in> set (pg_operations d'). co_contract_name r = ''wallet''} = {ex_op ''ping'' ''wallet'' 0x5f} \<and>
    {r \<in> set (pg_operations d'). co_contract_name r \<noteq> ''wallet''} = {}"
proof -
  let ?ops = "[ex_op ''pong'' ''wallet'' 7, ex_op ''pong'' ''dex'' 9]" and ?new = "ex_wallet [ex_op ''ping'' ''wallet'' 0x5f]"
  define i where "i = installInterface rev (ex_wallet (filter (\<lambda>r. co_contract_name r = ''wallet'') ?ops)) ?new (ex_tables ?ops)"
  have "fst i = None"
    unfolding i_def by (simp add: install_eval ex_tables_def db_empty_def ex_wallet_def ex_op_def ex_ping_def)
  then have run: "cmd_updateInterface ex_cmd (Ok [ex_described]) ''wallet'' (ex_tables ?ops) = Some (Ok (), snd i)"
    using ex_cmd_update[OF i_def] by simp
  have ok: "range_order (cm_name_order ex_cmd)" "contracts_ok (ex_tables ?ops)" "names_distinct ?new"
    by (simp_all add: ex_cmd_def range_order_rev contracts_ok_def ex_tables_def ex_wallet_def ex_op_def operation_key_def
        operation_names_key_def names_distinct_def)
  have o: "co_contract_name (ex_op nm cn k) = cn" "co_operation_name (ex_op nm cn k) = nm" for nm cn k
    by (simp_all add: ex_op_def)
  have w: "ci_operations (ex_wallet ops) = ops" "pg_operations (ex_tables ops) = ops" for ops
    by (simp_all add: ex_wallet_def ex_tables_def)
  have none: "{r \<in> set (pg_operations (ex_tables ?ops)). co_contract_name r \<noteq> ''wallet'' \<and>
        \<not> (\<exists>q \<in> set (pg_operations (ex_tables ?ops)). co_contract_name q = ''wallet'' \<and> co_operation_name q = co_operation_name r \<and>
          co_operation_name r \<notin> co_operation_name ` set (ci_operations ?new))} = {}"
    unfolding w by (rule equals0I) (simp add: o, elim conjE disjE, simp_all add: o)
  note u = update_installs_description[OF ok(1,2) ex_described_wallet ok(3) run]
  have "{r \<in> set (pg_operations (snd i)). co_contract_name r = ''wallet''} = {ex_op ''ping'' ''wallet'' 0x5f}"
    using u[THEN conjunct2, THEN conjunct1] by (simp only: w list.set)
  moreover have "{r \<in> set (pg_operations (snd i)). co_contract_name r \<noteq> ''wallet''} = {}"
    using u[THEN conjunct2, THEN conjunct2] none by (rule trans)
  ultimately show ?thesis using run by blast
qed

theorem changed_operation_id_fails_witness:
  "\<exists>e d'. cmd_updateInterface ex_cmd (Ok [ex_described]) ''wallet'' (ex_tables [ex_op ''ping'' ''wallet'' 7]) = Some (Err e, d') \<and>
    pg_tasks d' = []"
proof -
  let ?ops = "[ex_op ''ping'' ''wallet'' 7]" and ?new = "ex_wallet [ex_op ''ping'' ''wallet'' 0x5f]"
  define i where "i = installInterface rev (ex_wallet (filter (\<lambda>r. co_contract_name r = ''wallet'') ?ops)) ?new (ex_tables ?ops)"
  obtain r where run: "cmd_updateInterface ex_cmd (Ok [ex_described]) ''wallet'' (ex_tables ?ops) = Some (r, snd i)"
      "r = (case fst i of Some e \<Rightarrow> Err e | None \<Rightarrow> Ok ())"
    using ex_cmd_update[OF i_def] by simp
  have ok: "range_order (cm_name_order ex_cmd)" "contracts_ok (ex_tables ?ops)" "names_distinct ?new"
    "ex_op ''ping'' ''wallet'' 0x5f \<in> set (ci_operations ?new)" "ex_op ''ping'' ''wallet'' 7 \<in> set (pg_operations (ex_tables ?ops))"
    "operation_key (ex_op ''ping'' ''wallet'' 7) \<noteq> operation_key (ex_op ''ping'' ''wallet'' 0x5f)"
    by (simp_all add: ex_cmd_def range_order_rev contracts_ok_def ex_tables_def ex_wallet_def ex_op_def operation_key_def
        operation_names_key_def names_distinct_def)
  have "r \<noteq> Ok () \<and> pg_tasks (snd i) = pg_tasks (ex_tables ?ops)"
    by (rule changed_operation_id_fails[OF ok(1,2) ex_described_wallet ok(3,4,5) _ _ ok(6) run(1)]) (simp_all add: ex_op_def)
  then show ?thesis using run by (auto simp: ex_tables_def db_empty_def split: option.splits)
qed

definition ex_pending :: db where
  "ex_pending = (ex_tables [])\<lparr>pg_tasks := [(task_new AddInterface ''wallet'')\<lparr>rt_id := 1\<rparr>], pg_task_seq := 2\<rparr>"

theorem deletion_blocks_rescans_witness:
  "\<forall>Es m l. \<exists>d' w'. cmd_deleteInterface None ''wallet'' ex_pending = (Ok (), d') \<and>
    rescanLoop Es \<lparr>rw_db = d', rw_minters = m, rw_interfaces = l\<rparr> = (Ok (), w') \<and>
    length (unfinished_tasks (rw_db w')) = 2"
proof (intro allI)
  fix Es :: "rescan_env list" and m l
  define d' where "d' = snd (cmd_deleteInterface None ''wallet'' ex_pending)"
  have run: "cmd_deleteInterface None ''wallet'' ex_pending = (Ok (), d')"
    and u: "length (unfinished_tasks d') = 2"
    unfolding d'_def
    by (simp_all add: cmd_deleteInterface_def getInterface_def query_def ex_pending_def ex_tables_def db_empty_def ex_wallet_def
        deleteInterface_def install_eval rescanInterface_task_def task_new_def unfinished_tasks_def task_row_def)
  have t: "\<forall>k \<in> set (pg_tasks ex_pending). rt_id k < pg_task_seq ex_pending"
    "unfinished_tasks ex_pending = [(task_new AddInterface ''wallet'')\<lparr>rt_id := 1\<rparr>]"
    by (simp_all add: ex_pending_def unfinished_tasks_def task_new_def)
  have "\<exists>w'. rescanLoop Es \<lparr>rw_db = d', rw_minters = m, rw_interfaces = l\<rparr> = (Ok (), w') \<and> pg_tasks (rw_db w') = pg_tasks d' \<and>
    unfinished_tasks (rw_db w') = unfinished_tasks d' \<and> (task_new AddInterface ''wallet'')\<lparr>rt_id := 1\<rparr> \<in> set (unfinished_tasks d')"
    by (rule deletion_blocks_rescans[OF run t]) (simp_all add: task_new_def)
  then show "\<exists>d' w'. cmd_deleteInterface None ''wallet'' ex_pending = (Ok (), d') \<and>
    rescanLoop Es \<lparr>rw_db = d', rw_minters = m, rw_interfaces = l\<rparr> = (Ok (), w') \<and> length (unfinished_tasks (rw_db w')) = 2"
    using run u by auto
qed

end
