(* ===== verification/Migrate.thy ===== *)
theory Migrate
  imports Prelude
begin

section \<open>cmd/db: the migrations of the two databases\<close>

text \<open>
  The subcommands of \<open>cmd/db/db.go\<close> that run the migrations. The migrators of \<open>bun\<close> and
  \<open>go-clickhouse\<close> are the argument: a record of functions on the state of one database, with what they document as
  named hypotheses. A group is the list of the names of its migrations, empty for a group that \<open>IsZero\<close>.
  What is printed is left out.
\<close>

record 'm migrator =
  mg_Init :: "'m \<Rightarrow> goerr option \<times> 'm"
  mg_Lock :: "'m \<Rightarrow> goerr option \<times> 'm"
  mg_Unlock :: "'m \<Rightarrow> goerr option \<times> 'm"
  mg_Migrate :: "'m \<Rightarrow> string list res \<times> 'm"
  mg_MigrateNop :: "'m \<Rightarrow> string list res \<times> 'm"
  mg_Rollback :: "'m \<Rightarrow> string list res \<times> 'm"
  mg_CreateSQL :: "string \<Rightarrow> 'm \<Rightarrow> string list res \<times> 'm"
  mg_Status :: "'m \<Rightarrow> string list res \<times> 'm"

text \<open>A step on the first or the second database; an error ends the command.\<close>

type_synonym ('p, 'c) migration_step = "'p \<times> 'c \<Rightarrow> unit res \<times> ('p \<times> 'c)"

definition on_pg :: "('p \<Rightarrow> goerr option \<times> 'p) \<Rightarrow> ('p, 'c) migration_step" where
  "on_pg f w = (case f (fst w) of (None, p) \<Rightarrow> (Ok (), (p, snd w)) | (Some e, p) \<Rightarrow> (Err e, (p, snd w)))"

definition on_ch :: "('c \<Rightarrow> goerr option \<times> 'c) \<Rightarrow> ('p, 'c) migration_step" where
  "on_ch f w = (case f (snd w) of (None, c) \<Rightarrow> (Ok (), (fst w, c)) | (Some e, c) \<Rightarrow> (Err e, (fst w, c)))"

definition ask_pg :: "('p \<Rightarrow> 'a res \<times> 'p) \<Rightarrow> ('a \<Rightarrow> ('p, 'c) migration_step) \<Rightarrow> ('p, 'c) migration_step" where
  "ask_pg f k w = (case f (fst w) of
     (Ok x, p) \<Rightarrow> k x (p, snd w) | (Err e, p) \<Rightarrow> (Err e, (p, snd w)) | (Panic m, p) \<Rightarrow> (Panic m, (p, snd w)))"

definition ask_ch :: "('c \<Rightarrow> 'a res \<times> 'c) \<Rightarrow> ('a \<Rightarrow> ('p, 'c) migration_step) \<Rightarrow> ('p, 'c) migration_step" where
  "ask_ch f k w = (case f (snd w) of
     (Ok x, c) \<Rightarrow> k x (fst w, c) | (Err e, c) \<Rightarrow> (Err e, (fst w, c)) | (Panic m, c) \<Rightarrow> (Panic m, (fst w, c)))"

definition next_step :: "('p, 'c) migration_step \<Rightarrow> ('p, 'c) migration_step \<Rightarrow> ('p, 'c) migration_step" where
  "next_step f g w = (case f w of (Ok _, w) \<Rightarrow> g w | r \<Rightarrow> r)"

definition finish :: "('p, 'c) migration_step" where
  "finish w = (Ok (), w)"

text \<open>
  \<open>Lock\<close> and the deferred unlocking, which runs however the rest ends and whose error is logged only
  (\<open>pgUnlock\<close>, \<open>chUnlock\<close>).
\<close>

definition pg_locked :: "'p migrator \<Rightarrow> ('p, 'c) migration_step \<Rightarrow> ('p, 'c) migration_step" where
  "pg_locked P body = next_step (on_pg (mg_Lock P)) (\<lambda>w.
     case body w of (r, w) \<Rightarrow> (r, (snd (mg_Unlock P (fst w)), snd w)))"

definition ch_locked :: "'c migrator \<Rightarrow> ('p, 'c) migration_step \<Rightarrow> ('p, 'c) migration_step" where
  "ch_locked C body = next_step (on_ch (mg_Lock C)) (\<lambda>w.
     case body w of (r, w) \<Rightarrow> (r, (fst w, snd (mg_Unlock C (snd w)))))"

text \<open>\<open>newMigrators\<close>: \<open>connect\<close> is the outcome of the connection.\<close>

definition newMigrators :: "goerr option \<Rightarrow> ('p, 'c) migration_step \<Rightarrow> ('p, 'c) migration_step" where
  "newMigrators connect k w = (case connect of Some e \<Rightarrow> (Err (Wrap e ''cannot connect to the databases''), w) | None \<Rightarrow> k w)"

definition migrate_init :: "'p migrator \<Rightarrow> 'c migrator \<Rightarrow> goerr option \<Rightarrow> ('p, 'c) migration_step" where
  "migrate_init P C connect = newMigrators connect (next_step (on_pg (mg_Init P)) (on_ch (mg_Init C)))"

definition join_words :: "string list \<Rightarrow> string" where
  "join_words ws = (case ws of [] \<Rightarrow> [] | w # ws \<Rightarrow> w @ concat (map (\<lambda>x. CHR ''_'' # x) ws))"

definition migrate_create :: "'p migrator \<Rightarrow> 'c migrator \<Rightarrow> string list \<Rightarrow> ('p, 'c) migration_step" where
  "migrate_create P C args = ask_pg (mg_CreateSQL P (join_words args)) (\<lambda>_.
     ask_ch (mg_CreateSQL C (join_words args)) (\<lambda>_. finish))"

definition migrate_up :: "'p migrator \<Rightarrow> 'c migrator \<Rightarrow> goerr option \<Rightarrow> bool \<Rightarrow> ('p, 'c) migration_step" where
  "migrate_up P C connect ini = newMigrators connect
     (next_step (if ini then next_step (on_pg (mg_Init P)) (on_ch (mg_Init C)) else finish)
       (pg_locked P (ask_pg (mg_Migrate P) (\<lambda>_. ch_locked C (ask_ch (mg_Migrate C) (\<lambda>_. finish))))))"

definition migrate_down :: "'p migrator \<Rightarrow> 'c migrator \<Rightarrow> goerr option \<Rightarrow> ('p, 'c) migration_step" where
  "migrate_down P C connect = newMigrators connect
     (pg_locked P (ask_pg (mg_Rollback P) (\<lambda>_. ch_locked C (ask_ch (mg_Rollback C) (\<lambda>_. finish)))))"

definition migrate_status :: "'p migrator \<Rightarrow> 'c migrator \<Rightarrow> goerr option \<Rightarrow> ('p, 'c) migration_step" where
  "migrate_status P C connect = newMigrators connect (ask_pg (mg_Status P) (\<lambda>_. ask_ch (mg_Status C) (\<lambda>_. finish)))"

definition migrate_lock :: "'p migrator \<Rightarrow> 'c migrator \<Rightarrow> goerr option \<Rightarrow> ('p, 'c) migration_step" where
  "migrate_lock P C connect = newMigrators connect (next_step (on_pg (mg_Lock P)) (on_ch (mg_Lock C)))"

definition migrate_unlock :: "'p migrator \<Rightarrow> 'c migrator \<Rightarrow> goerr option \<Rightarrow> ('p, 'c) migration_step" where
  "migrate_unlock P C connect = newMigrators connect (next_step (on_pg (mg_Unlock P)) (on_ch (mg_Unlock C)))"

text \<open>Without a new migration of PostgreSQL the command returns before it looks at ClickHouse.\<close>

definition migrate_markApplied :: "'p migrator \<Rightarrow> 'c migrator \<Rightarrow> goerr option \<Rightarrow> ('p, 'c) migration_step" where
  "migrate_markApplied P C connect = newMigrators connect
     (ask_pg (mg_MigrateNop P) (\<lambda>pgGroup.
        if pgGroup = [] then finish else ask_ch (mg_MigrateNop C) (\<lambda>_. finish)))"

subsection \<open>What the migrators document\<close>

text \<open>
  \<open>held m\<close>: the lock of the database is taken; \<open>pending m\<close>: its migrations that are not applied.
  Locking fails on a taken lock and takes it when it succeeds, unlocking frees it, nothing else touches it; a migration that succeeds
  leaves nothing pending and returns what was pending. Only this is assumed.
\<close>

definition lock_ok :: "'m migrator \<Rightarrow> ('m \<Rightarrow> bool) \<Rightarrow> bool" where
  "lock_ok M held \<longleftrightarrow>
     (\<forall>m. if fst (mg_Lock M m) = None then \<not> held m \<and> held (snd (mg_Lock M m)) else held (snd (mg_Lock M m)) = held m) \<and>
     (\<forall>m. fst (mg_Unlock M m) = None \<and> \<not> held (snd (mg_Unlock M m))) \<and>
     (\<forall>m. held (snd (mg_Init M m)) = held m \<and> held (snd (mg_Migrate M m)) = held m \<and> held (snd (mg_Rollback M m)) = held m)"

definition migrate_ok :: "'m migrator \<Rightarrow> ('m \<Rightarrow> string list) \<Rightarrow> bool" where
  "migrate_ok M pending \<longleftrightarrow>
     (\<forall>m g. fst (mg_Migrate M m) = Ok g \<longrightarrow> g = pending m \<and> pending (snd (mg_Migrate M m)) = []) \<and>
     (\<forall>m g. fst (mg_MigrateNop M m) = Ok g \<longrightarrow> g = pending m \<and> pending (snd (mg_MigrateNop M m)) = []) \<and>
     (\<forall>m. pending (snd (mg_Lock M m)) = pending m \<and> pending (snd (mg_Unlock M m)) = pending m)"

text \<open>A lock that a command takes is free when it returns, whatever its body does with other parts.\<close>

lemma pg_locked_release:
  assumes "lock_ok P held" and "\<not> held (fst w)"
  shows "\<not> held (fst (snd (pg_locked P body w)))"
proof -
  have "fst (mg_Lock P (fst w)) \<noteq> None \<Longrightarrow> \<not> held (snd (mg_Lock P (fst w)))" using assms by (auto simp: lock_ok_def)
  moreover have "\<not> held (snd (mg_Unlock P m))" for m using assms(1) by (simp add: lock_ok_def)
  ultimately show ?thesis by (cases "mg_Lock P (fst w)") (auto simp: pg_locked_def next_step_def on_pg_def split: option.split prod.split)
qed

lemma ch_locked_release:
  assumes "lock_ok C held" and "\<not> held (snd w)"
  shows "\<not> held (snd (snd (ch_locked C body w)))"
proof -
  have "fst (mg_Lock C (snd w)) \<noteq> None \<Longrightarrow> \<not> held (snd (mg_Lock C (snd w)))" using assms by (auto simp: lock_ok_def)
  moreover have "\<not> held (snd (mg_Unlock C m))" for m using assms(1) by (simp add: lock_ok_def)
  ultimately show ?thesis by (cases "mg_Lock C (snd w)") (auto simp: ch_locked_def next_step_def on_ch_def split: option.split prod.split)
qed

text \<open>What a command on PostgreSQL's lock leaves of ClickHouse.\<close>

lemma pg_locked_other:
  assumes "\<And>w. Q (snd w) \<Longrightarrow> Q (snd (snd (body w)))" and "Q (snd w)"
  shows "Q (snd (snd (pg_locked P body w)))"
proof (cases "mg_Lock P (fst w)")
  case (Pair r p)
  show ?thesis
  proof (cases r)
    case None
    then show ?thesis using Pair assms(1)[of "(p, snd w)"] assms(2)
      by (cases "body (p, snd w)") (simp add: pg_locked_def next_step_def on_pg_def)
  qed (use Pair assms(2) in \<open>simp add: pg_locked_def next_step_def on_pg_def\<close>)
qed

lemma ask_pg_other:
  assumes "\<And>x w. Q (snd w) \<Longrightarrow> Q (snd (snd (k x w)))" and "Q (snd w)"
  shows "Q (snd (snd (ask_pg f k w)))"
proof (cases "f (fst w)")
  case (Pair r p)
  then show ?thesis using assms(1)[of "(p, snd w)"] assms(2) by (cases r) (simp_all add: ask_pg_def)
qed

lemma init_keeps:
  assumes "lock_ok P heldp" "lock_ok C heldc" and "\<not> heldp (fst w)" "\<not> heldc (snd w)"
  shows "\<not> heldp (fst (snd (next_step (on_pg (mg_Init P)) (on_ch (mg_Init C)) w))) \<and>
    \<not> heldc (snd (snd (next_step (on_pg (mg_Init P)) (on_ch (mg_Init C)) w)))"
proof (cases "mg_Init P (fst w)")
  case (Pair r p)
  have "heldp p = heldp (fst w)" "heldc (snd (mg_Init C (snd w))) = heldc (snd w)"
    using assms(1,2) Pair unfolding lock_ok_def by (metis snd_conv, metis)
  then show ?thesis using Pair assms(3,4)
    by (cases r; cases "mg_Init C (snd w)") (auto simp: next_step_def on_pg_def on_ch_def split: option.split)
qed

text \<open>A step that succeeded: what its parts returned.\<close>

lemma pg_locked_OkE:
  assumes "pg_locked P body w = (Ok u, w')"
  obtains p w1 where "mg_Lock P (fst w) = (None, p)" "body (p, snd w) = (Ok u, w1)" "w' = (snd (mg_Unlock P (fst w1)), snd w1)"
proof (cases "mg_Lock P (fst w)")
  case (Pair r p)
  then show ?thesis using assms that by (cases r; cases "body (p, snd w)") (auto simp: pg_locked_def next_step_def on_pg_def)
qed

lemma ch_locked_OkE:
  assumes "ch_locked C body w = (Ok u, w')"
  obtains c w1 where "mg_Lock C (snd w) = (None, c)" "body (fst w, c) = (Ok u, w1)" "w' = (fst w1, snd (mg_Unlock C (snd w1)))"
proof (cases "mg_Lock C (snd w)")
  case (Pair r c)
  then show ?thesis using assms that by (cases r; cases "body (fst w, c)") (auto simp: ch_locked_def next_step_def on_ch_def)
qed

lemma ask_pg_OkE:
  assumes "ask_pg f k w = (Ok u, w')"
  obtains x p where "f (fst w) = (Ok x, p)" "k x (p, snd w) = (Ok u, w')"
proof (cases "f (fst w)")
  case (Pair r p)
  then show ?thesis using assms that by (cases r) (auto simp: ask_pg_def)
qed

lemma ask_ch_OkE:
  assumes "ask_ch f k w = (Ok u, w')"
  obtains x c where "f (snd w) = (Ok x, c)" "k x (fst w, c) = (Ok u, w')"
proof (cases "f (snd w)")
  case (Pair r c)
  then show ?thesis using assms that by (cases r) (auto simp: ask_ch_def)
qed

lemma unlocked_pending:
  assumes "migrate_ok M pend" "mg_Migrate M m = (Ok g, m')"
  shows "pend (snd (mg_Unlock M m')) = []"
  using assms unfolding migrate_ok_def by (metis fst_conv snd_conv)

lemma up_leaves_none:
  assumes "migrate_ok P pendp" "migrate_ok C pendc"
    and "pg_locked P (ask_pg (mg_Migrate P) (\<lambda>_. ch_locked C (ask_ch (mg_Migrate C) (\<lambda>_. finish)))) w = (Ok u, (p1, c1))"
  shows "pendp p1 = [] \<and> pendc c1 = []"
  using assms(3)
  by (elim pg_locked_OkE ask_pg_OkE ch_locked_OkE ask_ch_OkE)
    (auto simp: finish_def intro: unlocked_pending[OF assms(1)] unlocked_pending[OF assms(2)])

subsection \<open>The theorems\<close>


text \<open>
  \<open>markApplied\<close> can leave ClickHouse out: when PostgreSQL has no new migration the command
  succeeds without marking any of ClickHouse, whatever is pending there.
\<close>

theorem mark_applied_skips_clickhouse:
  assumes "migrate_ok P pendp" and "pendp p = []" and "is_ok (fst (mg_MigrateNop P p))"
  shows "fst (migrate_markApplied P C None (p, c)) = Ok () \<and> snd (snd (migrate_markApplied P C None (p, c))) = c"
proof -
  obtain g p' where g: "mg_MigrateNop P p = (Ok g, p')" using assms(3) by (cases "mg_MigrateNop P p"; cases "fst (mg_MigrateNop P p)") auto
  then have "g = []" using assms(1,2) by (auto simp: migrate_ok_def)
  with g show ?thesis by (simp add: migrate_markApplied_def newMigrators_def ask_pg_def finish_def)
qed

subsection \<open>A migrator that is as documented\<close>

record ex_base =
  eb_pending :: "string list"
  eb_locked :: bool

definition ex_migrator :: "ex_base migrator" where
  "ex_migrator = \<lparr>mg_Init = (\<lambda>m. (None, m)),
     mg_Lock = (\<lambda>m. if eb_locked m then (Some (ErrText ''migrations table is already locked''), m) else (None, m\<lparr>eb_locked := True\<rparr>)),
     mg_Unlock = (\<lambda>m. (None, m\<lparr>eb_locked := False\<rparr>)),
     mg_Migrate = (\<lambda>m. (Ok (eb_pending m), m\<lparr>eb_pending := []\<rparr>)), mg_MigrateNop = (\<lambda>m. (Ok (eb_pending m), m\<lparr>eb_pending := []\<rparr>)),
     mg_Rollback = (\<lambda>m. (Ok [], m)), mg_CreateSQL = (\<lambda>s m. (Ok [s], m)), mg_Status = (\<lambda>m. (Ok [], m))\<rparr>"

lemma ex_migrator_ok: "lock_ok ex_migrator eb_locked" "migrate_ok ex_migrator eb_pending"
  by (simp_all add: lock_ok_def migrate_ok_def ex_migrator_def)

definition ex_empty :: "string list \<Rightarrow> ex_base" where
  "ex_empty ms = \<lparr>eb_pending = ms, eb_locked = False\<rparr>"


theorem mark_applied_skips_clickhouse_witness:
  "eb_pending (snd (snd (migrate_markApplied ex_migrator ex_migrator None (ex_empty [], ex_empty [''b''])))) = [''b'']"
proof -
  have "eb_pending (ex_empty []) = []" "is_ok (fst (mg_MigrateNop ex_migrator (ex_empty [])))"
    by (simp_all add: ex_empty_def ex_migrator_def)
  from mark_applied_skips_clickhouse[OF ex_migrator_ok(2) this, of ex_migrator "ex_empty [''b'']"] show ?thesis
    by (simp add: ex_empty_def)
qed

end
