(* ===== verification/Benchmark.thy ===== *)
theory Benchmark
  imports Prelude Core
begin

section \<open>internal/benchmark: the statistics and the signals of a measured run\<close>

text \<open>
  The counters of \<open>internal/benchmark/stats.go\<close>, which all workers of the process update with atomic operations
  and without a lock, and the signals of \<open>internal/benchmark/benchmark.go\<close> and \<open>cmd/benchmark/benchmark.go\<close>,
  which go through Redis. A worker that counts a block is the list of the atomic operations it has left; a step of the
  machine is one operation of one worker, so that every interleaving is a sequence of steps.
\<close>

subsection \<open>The counters\<close>

record bench_stats =
  bs_MasterBlockCount :: i64
  bs_ShardBlockCount :: i64
  bs_MasterTxsCount :: i64
  bs_ShardTxsCount :: i64
  bs_MinMasterTxs :: i64
  bs_MaxMasterTxs :: i64
  bs_MinShardTxs :: i64
  bs_MaxShardTxs :: i64

definition max_int64 :: i64 where
  "max_int64 = drop_bit 1 (NOT 0)"

definition NewStats :: bench_stats where
  "NewStats = \<lparr>bs_MasterBlockCount = 0, bs_ShardBlockCount = 0, bs_MasterTxsCount = 0, bs_ShardTxsCount = 0,
     bs_MinMasterTxs = max_int64, bs_MaxMasterTxs = 0, bs_MinShardTxs = max_int64, bs_MaxShardTxs = 0\<rparr>"

datatype counter = MasterBlocks | ShardBlocks | MasterTxs | ShardTxs

datatype extremum = MinMaster | MaxMaster | MinShard | MaxShard

fun counter_value :: "counter \<Rightarrow> bench_stats \<Rightarrow> i64" where
  "counter_value MasterBlocks s = bs_MasterBlockCount s"
| "counter_value ShardBlocks s = bs_ShardBlockCount s"
| "counter_value MasterTxs s = bs_MasterTxsCount s"
| "counter_value ShardTxs s = bs_ShardTxsCount s"

fun add_counter :: "counter \<Rightarrow> i64 \<Rightarrow> bench_stats \<Rightarrow> bench_stats" where
  "add_counter MasterBlocks n s = s\<lparr>bs_MasterBlockCount := bs_MasterBlockCount s + n\<rparr>"
| "add_counter ShardBlocks n s = s\<lparr>bs_ShardBlockCount := bs_ShardBlockCount s + n\<rparr>"
| "add_counter MasterTxs n s = s\<lparr>bs_MasterTxsCount := bs_MasterTxsCount s + n\<rparr>"
| "add_counter ShardTxs n s = s\<lparr>bs_ShardTxsCount := bs_ShardTxsCount s + n\<rparr>"

fun extremum_value :: "extremum \<Rightarrow> bench_stats \<Rightarrow> i64" where
  "extremum_value MinMaster s = bs_MinMasterTxs s"
| "extremum_value MaxMaster s = bs_MaxMasterTxs s"
| "extremum_value MinShard s = bs_MinShardTxs s"
| "extremum_value MaxShard s = bs_MaxShardTxs s"

fun set_extremum :: "extremum \<Rightarrow> i64 \<Rightarrow> bench_stats \<Rightarrow> bench_stats" where
  "set_extremum MinMaster v s = s\<lparr>bs_MinMasterTxs := v\<rparr>"
| "set_extremum MaxMaster v s = s\<lparr>bs_MaxMasterTxs := v\<rparr>"
| "set_extremum MinShard v s = s\<lparr>bs_MinShardTxs := v\<rparr>"
| "set_extremum MaxShard v s = s\<lparr>bs_MaxShardTxs := v\<rparr>"

fun is_min :: "extremum \<Rightarrow> bool" where
  "is_min e = (e = MinMaster \<or> e = MinShard)"

text \<open>\<open>val < currentMin\<close> and \<open>val > currentMax\<close>.\<close>

definition improves :: "extremum \<Rightarrow> i64 \<Rightarrow> i64 \<Rightarrow> bool" where
  "improves e v cur = (if is_min e then sint v < sint cur else sint cur < sint v)"

subsection \<open>Atomic operations\<close>

text \<open>
  \<open>AddInt\<close> is \<open>Add\<close>; \<open>LoadFor e v\<close> is the head of a loop of \<open>updateMinMax\<close> for
  the value \<open>v\<close>: it loads the extremum and leaves the loop or goes on to \<open>CompareAndSwap e cur v\<close>, which
  ends the loop when the extremum is still \<open>cur\<close> and starts it again when it is not.
\<close>

datatype atomic_op = AddInt counter i64 | LoadFor extremum i64 | CompareAndSwap extremum i64 i64

fun atomic_step :: "atomic_op \<Rightarrow> bench_stats \<Rightarrow> bench_stats \<times> atomic_op list" where
  "atomic_step (AddInt c n) s = (add_counter c n s, [])"
| "atomic_step (LoadFor e v) s =
     (s, if improves e v (extremum_value e s) then [CompareAndSwap e (extremum_value e s) v] else [])"
| "atomic_step (CompareAndSwap e cur v) s =
     (if extremum_value e s = cur then (set_extremum e v s, []) else (s, [LoadFor e v]))"

definition updateMinMax :: "extremum \<Rightarrow> extremum \<Rightarrow> i64 \<Rightarrow> atomic_op list" where
  "updateMinMax mn mx v = [LoadFor mn v, LoadFor mx v]"

definition int64_len :: "'a list \<Rightarrow> i64" where
  "int64_len xs = word_of_nat (length xs)"

definition ProcessMasterBlock :: "block \<Rightarrow> atomic_op list" where
  "ProcessMasterBlock b =
     [AddInt MasterBlocks 1, AddInt MasterTxs (int64_len (bl_transactions b))] @
     updateMinMax MinMaster MaxMaster (int64_len (bl_transactions b)) @
     [AddInt ShardBlocks (int64_len (bl_shards b))] @
     concat (map (\<lambda>sh. AddInt ShardTxs (int64_len (bl_transactions sh)) #
       updateMinMax MinShard MaxShard (int64_len (bl_transactions sh))) (bl_shards b))"

text \<open>Any worker with an operation left may run it next.\<close>

inductive stats_step :: "bench_stats \<times> atomic_op list list \<Rightarrow> bench_stats \<times> atomic_op list list \<Rightarrow> bool" where
  turn: "atomic_step a s = (s', todo) \<Longrightarrow> stats_step (s, xs @ (a # ops) # ys) (s', xs @ (todo @ ops) # ys)"

abbreviation stats_run :: "bench_stats \<times> atomic_op list list \<Rightarrow> bench_stats \<times> atomic_op list list \<Rightarrow> bool" where
  "stats_run \<equiv> stats_step\<^sup>*\<^sup>*"

inductive_cases stats_stepE: "stats_step (s, ts) (s', ts')"

definition all_counted :: "atomic_op list list \<Rightarrow> bool" where
  "all_counted ts = (\<forall>t \<in> set ts. t = [])"

subsection \<open>What a state of the machine amounts to\<close>

text \<open>
  \<open>owed\<close> and \<open>offered\<close>: what the operations that are left will add to a counter and the values they hold for an extremum.
  The counters and extrema the machine will end with do not change in a step.
\<close>

fun op_adds :: "counter \<Rightarrow> atomic_op \<Rightarrow> i64" where
  "op_adds c (AddInt d n) = (if d = c then n else 0)"
| "op_adds c a = 0"

fun op_offers :: "extremum \<Rightarrow> atomic_op \<Rightarrow> i64 set" where
  "op_offers e (LoadFor f v) = (if f = e then {v} else {})"
| "op_offers e (CompareAndSwap f cur v) = (if f = e then {v} else {})"
| "op_offers e (AddInt c n) = {}"

definition owed :: "counter \<Rightarrow> atomic_op list \<Rightarrow> i64" where
  "owed c ops = sum_list (map (op_adds c) ops)"

definition offered :: "extremum \<Rightarrow> atomic_op list \<Rightarrow> i64 set" where
  "offered e ops = \<Union> (set (map (op_offers e) ops))"

definition best_of :: "extremum \<Rightarrow> i64 set \<Rightarrow> int" where
  "best_of e V = (if is_min e then Min (sint ` V) else Max (sint ` V))"

definition final_count :: "bench_stats \<times> atomic_op list list \<Rightarrow> counter \<Rightarrow> i64" where
  "final_count w c = counter_value c (fst w) + owed c (concat (snd w))"

definition final_extremum :: "bench_stats \<times> atomic_op list list \<Rightarrow> extremum \<Rightarrow> int" where
  "final_extremum w e = best_of e (insert (extremum_value e (fst w)) (offered e (concat (snd w))))"

fun swap_ok :: "atomic_op \<Rightarrow> bool" where
  "swap_ok (CompareAndSwap e cur v) = improves e v cur"
| "swap_ok a = True"

lemma owed_simps [simp]: "owed c [] = 0" "owed c (a # ops) = op_adds c a + owed c ops" "owed c (as @ bs) = owed c as + owed c bs"
  by (simp_all add: owed_def)

lemma offered_simps [simp]: "offered e [] = {}" "offered e (a # ops) = op_offers e a \<union> offered e ops"
    "offered e (as @ bs) = offered e as \<union> offered e bs"
  by (simp_all add: offered_def)

lemma finite_offered [simp]: "finite (offered e ops)"
proof -
  have "finite (op_offers e a)" for a by (cases a) auto
  then show ?thesis by (induction ops) auto
qed

lemma counter_value_add [simp]: "counter_value c (add_counter d n s) = counter_value c s + (if d = c then n else 0)"
  by (cases c; cases d) auto

lemma extremum_value_add [simp]: "extremum_value e (add_counter d n s) = extremum_value e s"
  by (cases e; cases d) auto

lemma extremum_value_set [simp]: "extremum_value e (set_extremum f v s) = (if e = f then v else extremum_value e s)"
  by (cases e; cases f) auto

lemma counter_value_set [simp]: "counter_value c (set_extremum f v s) = counter_value c s"
  by (cases c; cases f) auto

lemma best_drop:
  assumes "finite V" and "\<not> improves e v x"
  shows "best_of e (insert x (insert v V)) = best_of e (insert x V)"
proof (cases "is_min e")
  case True
  then have "sint x \<le> sint v" using assms(2) by (simp add: improves_def)
  then show ?thesis using True assms(1) by (cases "V = {}") (auto simp: best_of_def min_def)
next
  case False
  then have "sint v \<le> sint x" using assms(2) by (simp add: improves_def)
  then show ?thesis using False assms(1) by (cases "V = {}") (auto simp: best_of_def max_def)
qed

lemma best_swap:
  assumes "finite V" and "improves e v x"
  shows "best_of e (insert x (insert v V)) = best_of e (insert v V)"
  using best_drop[OF assms(1), of e x v] assms(2) by (auto simp: improves_def insert_commute split: if_splits)

subsection \<open>Every step keeps the outcome\<close>

lemma atomic_step_keeps:
  assumes "atomic_step a s = (s', todo)" and "swap_ok a" and "finite V"
  shows "(\<forall>b \<in> set todo. swap_ok b) \<and> counter_value c s' + owed c todo = counter_value c s + op_adds c a \<and>
    best_of e (insert (extremum_value e s') (offered e todo \<union> V)) =
    best_of e (insert (extremum_value e s) (op_offers e a \<union> V))"
proof (cases a)
  case (LoadFor f v)
  then show ?thesis using assms best_drop[OF assms(3), of e v "extremum_value e s"] by (auto split: if_splits)
next
  case (CompareAndSwap f cur v)
  then show ?thesis using assms best_swap[OF assms(3), of e v cur] by (auto split: if_splits)
qed (use assms in auto)

lemma stats_step_keeps:
  assumes "stats_step w w'" and "\<forall>a \<in> set (concat (snd w)). swap_ok a"
  shows "(\<forall>a \<in> set (concat (snd w')). swap_ok a) \<and> final_count w' = final_count w \<and> final_extremum w' = final_extremum w"
  using assms
proof (induction rule: stats_step.induct)
  case (turn a s s' todo xs ops ys)
  let ?rest = "concat xs @ ops @ concat ys"
  have ok: "swap_ok a" using turn(2) by simp
  have cnt: "final_count (s', xs @ (todo @ ops) # ys) c = final_count (s, xs @ (a # ops) # ys) c" for c
    using atomic_step_keeps[OF turn(1) ok finite.emptyI, of c] by (simp add: final_count_def algebra_simps)
  have ext: "final_extremum (s', xs @ (todo @ ops) # ys) e = final_extremum (s, xs @ (a # ops) # ys) e" for e
    using atomic_step_keeps[OF turn(1) ok finite_offered[of e ?rest], of undefined e]
    by (simp add: final_extremum_def Un_ac)
  show ?case using turn(2) atomic_step_keeps[OF turn(1) ok finite.emptyI] cnt ext by (auto simp: fun_eq_iff)
qed

lemma stats_run_keeps:
  assumes "stats_run w w'" and "\<forall>a \<in> set (concat (snd w)). swap_ok a"
  shows "(\<forall>a \<in> set (concat (snd w')). swap_ok a) \<and> final_count w' = final_count w \<and> final_extremum w' = final_extremum w"
  using assms
proof (induction rule: rtranclp_induct)
  case (step w1 w2)
  have "(\<forall>a \<in> set (concat (snd w1)). swap_ok a) \<and> final_count w1 = final_count w \<and> final_extremum w1 = final_extremum w"
    by (rule step.IH[OF step.prems])
  note IH = this and next_keeps = stats_step_keeps[OF step.hyps(2) conjunct1[OF this]]
  show ?case
  proof (intro conjI)
    show "\<forall>a \<in> set (concat (snd w2)). swap_ok a" using next_keeps by blast
    show "final_count w2 = final_count w" by (rule trans[OF conjunct1[OF conjunct2[OF next_keeps]] conjunct1[OF conjunct2[OF IH]]])
    show "final_extremum w2 = final_extremum w" by (rule trans[OF conjunct2[OF conjunct2[OF next_keeps]] conjunct2[OF conjunct2[OF IH]]])
  qed
qed blast

subsection \<open>The loops end\<close>

text \<open>
  A step removes an operation, or brings one nearer to its end: a loop that loads a fresh value may swap, a swap that has been
  overtaken loads again. Other operations are only set back by a successful swap, which removes one.
\<close>

fun op_delay :: "bench_stats \<Rightarrow> atomic_op \<Rightarrow> nat" where
  "op_delay s (AddInt c n) = 0"
| "op_delay s (LoadFor e v) = 1"
| "op_delay s (CompareAndSwap e cur v) = (if extremum_value e s = cur then 0 else 2)"

definition ops_left :: "bench_stats \<times> atomic_op list list \<Rightarrow> nat" where
  "ops_left w = length (concat (snd w))"

definition delays :: "bench_stats \<times> atomic_op list list \<Rightarrow> nat" where
  "delays w = sum_list (map (op_delay (fst w)) (concat (snd w)))"

lemma stats_step_less:
  assumes "stats_step w w'"
  shows "(w', w) \<in> measures [ops_left, delays]"
  using assms
proof (induction rule: stats_step.induct)
  case (turn a s s' todo xs ops ys)
  then show ?case by (cases a) (auto simp: ops_left_def delays_def split: if_splits)
qed

lemma no_endless_schedule: "\<not> (\<exists>f. \<forall>i. stats_step (f i) (f (Suc i)))"
proof
  assume "\<exists>f. \<forall>i. stats_step (f i) (f (Suc i))"
  then obtain f where "\<forall>i. (f (Suc i), f i) \<in> measures [ops_left, delays]" using stats_step_less by blast
  then show False using wf_measures[of "[ops_left, delays]"] by (auto simp: wf_iff_no_infinite_down_chain)
qed

lemma worker_can_move:
  assumes "\<not> all_counted ts"
  shows "\<exists>w. stats_step (s, ts) w"
proof -
  obtain t where "t \<in> set ts" "t \<noteq> []" using assms by (auto simp: all_counted_def)
  then obtain a ops xs ys where "ts = xs @ (a # ops) # ys" by (metis neq_Nil_conv split_list)
  moreover obtain s' todo where "atomic_step a s = (s', todo)" by (cases "atomic_step a s")
  ultimately show ?thesis using turn by blast
qed

subsection \<open>The statistics of a run\<close>

text \<open>The reference: what one worker would count over all blocks in order.\<close>

definition least_int :: "i64 list \<Rightarrow> i64" where
  "least_int vs = fold (\<lambda>v x. if sint v < sint x then v else x) vs max_int64"

definition greatest_int :: "i64 list \<Rightarrow> i64" where
  "greatest_int vs = fold (\<lambda>v x. if sint x < sint v then v else x) vs 0"

definition tally :: "block list \<Rightarrow> bench_stats" where
  "tally bs = (let shards = concat (map bl_shards bs); txs = (\<lambda>b. int64_len (bl_transactions b)) in
     \<lparr>bs_MasterBlockCount = int64_len bs, bs_ShardBlockCount = int64_len shards,
      bs_MasterTxsCount = int64_len (concat (map bl_transactions bs)), bs_ShardTxsCount = int64_len (concat (map bl_transactions shards)),
      bs_MinMasterTxs = least_int (map txs bs), bs_MaxMasterTxs = greatest_int (map txs bs),
      bs_MinShardTxs = least_int (map txs shards), bs_MaxShardTxs = greatest_int (map txs shards)\<rparr>)"

lemma int64_len_simps [simp]: "int64_len [] = 0" "int64_len (x # xs) = 1 + int64_len xs"
    "int64_len (xs @ ys) = int64_len xs + int64_len ys"
  by (simp_all add: int64_len_def)

lemma fold_best:
  fixes vs :: "i64 list"
  shows "sint (fold (\<lambda>v x. if sint v < sint x then v else x) vs x) = Min (sint ` insert x (set vs))"
  "sint (fold (\<lambda>v x. if sint x < sint v then v else x) vs x) = Max (sint ` insert x (set vs))"
proof (induction vs arbitrary: x)
  case (Cons v vs)
  { case 1
    have "best_of MinMaster (insert x (insert v (set vs))) = best_of MinMaster (insert (if sint v < sint x then v else x) (set vs))"
      using best_swap[of "set vs" MinMaster v x] best_drop[of "set vs" MinMaster v x] by (simp add: improves_def)
    then show ?case using Cons.IH(1)[of "if sint v < sint x then v else x"] by (simp add: best_of_def)
  next
    case 2
    have "best_of MaxMaster (insert x (insert v (set vs))) = best_of MaxMaster (insert (if sint x < sint v then v else x) (set vs))"
      using best_swap[of "set vs" MaxMaster v x] best_drop[of "set vs" MaxMaster v x] by (simp add: improves_def)
    then show ?case using Cons.IH(2)[of "if sint x < sint v then v else x"] by (simp add: best_of_def) }
qed simp_all

lemma owed_shards:
  "owed c (concat (map (\<lambda>sh. AddInt ShardTxs (int64_len (bl_transactions sh)) # updateMinMax MinShard MaxShard (int64_len (bl_transactions sh))) shs)) =
   (if c = ShardTxs then int64_len (concat (map bl_transactions shs)) else 0)"
  by (induction shs) (auto simp: updateMinMax_def)

lemma offered_shards:
  "offered e (concat (map (\<lambda>sh. AddInt ShardTxs (int64_len (bl_transactions sh)) # updateMinMax MinShard MaxShard (int64_len (bl_transactions sh))) shs)) =
   (if e = MinShard \<or> e = MaxShard then (\<lambda>sh. int64_len (bl_transactions sh)) ` set shs else {})"
  by (induction shs) (auto simp: updateMinMax_def)

lemma owed_block: "owed c (ProcessMasterBlock b) = (case c of MasterBlocks \<Rightarrow> 1 | MasterTxs \<Rightarrow> int64_len (bl_transactions b)
    | ShardBlocks \<Rightarrow> int64_len (bl_shards b) | ShardTxs \<Rightarrow> int64_len (concat (map bl_transactions (bl_shards b))))"
  unfolding ProcessMasterBlock_def owed_simps owed_shards by (cases c) (simp_all add: updateMinMax_def)

lemma owed_blocks: "owed c (concat (map ProcessMasterBlock bs)) = (case c of MasterBlocks \<Rightarrow> int64_len bs
    | MasterTxs \<Rightarrow> int64_len (concat (map bl_transactions bs)) | ShardBlocks \<Rightarrow> int64_len (concat (map bl_shards bs))
    | ShardTxs \<Rightarrow> int64_len (concat (map bl_transactions (concat (map bl_shards bs)))))"
  by (induction bs) (cases c; simp add: owed_block)+

lemma final_count_start: "final_count (NewStats, map ProcessMasterBlock bs) c = counter_value c (tally bs)"
  unfolding final_count_def snd_conv fst_conv owed_blocks by (cases c) (simp_all add: NewStats_def tally_def Let_def)

lemma offered_block: "offered e (ProcessMasterBlock b) =
    (if e = MinShard \<or> e = MaxShard then (\<lambda>sh. int64_len (bl_transactions sh)) ` set (bl_shards b) else {int64_len (bl_transactions b)})"
  unfolding ProcessMasterBlock_def offered_simps offered_shards by (cases e) (simp_all add: updateMinMax_def)

lemma offered_blocks:
  "offered e (concat (map ProcessMasterBlock bs)) =
   (\<lambda>b. int64_len (bl_transactions b)) ` set (if e = MinShard \<or> e = MaxShard then concat (map bl_shards bs) else bs)"
  by (induction bs) (auto simp: offered_block)

lemma final_extremum_start: "final_extremum (NewStats, map ProcessMasterBlock bs) e = sint (extremum_value e (tally bs))"
  unfolding final_extremum_def best_of_def snd_conv offered_blocks
  by (cases e) (simp_all add: tally_def Let_def NewStats_def least_int_def greatest_int_def fold_best image_image)

lemma blocks_swap_ok: "\<forall>a \<in> set (concat (map ProcessMasterBlock bs)). swap_ok a"
  by (auto simp: ProcessMasterBlock_def updateMinMax_def)

lemma all_counted_concat: "all_counted ts \<Longrightarrow> concat ts = []"
  by (simp add: all_counted_def)

lemma stats_eqI:
  assumes "\<And>c. counter_value c s = counter_value c t" and "\<And>e. extremum_value e s = extremum_value e t"
  shows "s = (t :: bench_stats)"
  using assms(1)[of MasterBlocks] assms(1)[of ShardBlocks] assms(1)[of MasterTxs] assms(1)[of ShardTxs]
    assms(2)[of MinMaster] assms(2)[of MaxMaster] assms(2)[of MinShard] assms(2)[of MaxShard]
  by simp

text \<open>
  C18. The statistics of a measured run are exact whatever the interleaving: workers that count their blocks with atomic
  additions and compare-and-swap loops cannot go on forever, one of them can always move until every block is counted, and then
  the counters, minima and maxima are those of one worker that counts all blocks in order.
\<close>

theorem benchmark_stats_exact:
  assumes "stats_run (NewStats, map ProcessMasterBlock bs) (s, ts)"
  shows "\<not> (\<exists>f. f 0 = (s, ts) \<and> (\<forall>i. stats_step (f i) (f (Suc i)))) \<and>
    (all_counted ts \<or> (\<exists>w. stats_step (s, ts) w)) \<and>
    (all_counted ts \<longrightarrow> s = tally bs)"
proof -
  have "s = tally bs" if "all_counted ts"
  proof (rule stats_eqI)
    have keep: "final_count (s, ts) = final_count (NewStats, map ProcessMasterBlock bs)"
        "final_extremum (s, ts) = final_extremum (NewStats, map ProcessMasterBlock bs)"
      using stats_run_keeps[OF assms] blocks_swap_ok by simp_all
    show "counter_value c s = counter_value c (tally bs)" for c
      using fun_cong[OF keep(1), of c] all_counted_concat[OF that] unfolding final_count_start by (simp add: final_count_def)
    have "sint (extremum_value e s) = sint (extremum_value e (tally bs))" for e
      using fun_cong[OF keep(2), of e] all_counted_concat[OF that] unfolding final_extremum_start
      by (simp add: final_extremum_def best_of_def split: if_splits)
    then show "extremum_value e s = extremum_value e (tally bs)" for e by (rule signed_word_eqI)
  qed
  then show ?thesis using no_endless_schedule worker_can_move by blast
qed

subsection \<open>An interleaving of two workers\<close>

text \<open>The machine under a schedule: the number of the worker that moves next.\<close>

fun worker_turn :: "nat \<Rightarrow> bench_stats \<times> atomic_op list list \<Rightarrow> bench_stats \<times> atomic_op list list" where
  "worker_turn i (s, ts) =
     (if i < length ts
      then (case ts ! i of [] \<Rightarrow> (s, ts) | a # ops \<Rightarrow> (case atomic_step a s of (s', todo) \<Rightarrow> (s', ts[i := todo @ ops])))
      else (s, ts))"

lemma worker_turn_run: "stats_run w (worker_turn i w)"
proof (cases w)
  case (Pair s ts)
  show ?thesis
  proof (cases "i < length ts \<and> ts ! i \<noteq> []")
    case True
    then obtain a ops where a: "ts ! i = a # ops" by (cases "ts ! i") auto
    obtain s' todo where t: "atomic_step a s = (s', todo)" by (cases "atomic_step a s")
    have "ts = take i ts @ (a # ops) # drop (Suc i) ts" using True a id_take_nth_drop by metis
    moreover have "ts[i := todo @ ops] = take i ts @ (todo @ ops) # drop (Suc i) ts" using True by (simp add: upd_conv_take_nth_drop)
    ultimately show ?thesis using turn[OF t, of "take i ts" ops "drop (Suc i) ts"] Pair a t True by auto
  qed (use Pair in \<open>auto split: list.split\<close>)
qed

lemma schedule_run: "stats_run w (fold worker_turn is w)"
proof (induction "is" arbitrary: w)
  case (Cons i "is")
  then show ?case using rtranclp_trans[OF worker_turn_run Cons.IH] by simp
qed simp

definition ex_counted :: "block list \<Rightarrow> transaction list \<Rightarrow> block" where
  "ex_counted shs txs = Block 0 0 0 [] [] None shs txs [] 0"

lemma max_int64_eq: "max_int64 = 0x7FFFFFFFFFFFFFFF"
  by (simp add: max_int64_def mask_eq_exp_minus_1)

text \<open>Both workers load the same minimum; the second swap fails and is tried again.\<close>

theorem benchmark_stats_exact_witness:
  "\<forall>t. \<exists>s ts. stats_run (NewStats, map ProcessMasterBlock [ex_counted [] [t, t], ex_counted [] [t]]) (s, ts) \<and>
    all_counted ts \<and> bs_MasterBlockCount s = 2 \<and> bs_MasterTxsCount s = 3 \<and> bs_MinMasterTxs s = 1 \<and> bs_MaxMasterTxs s = 2 \<and>
    bs_ShardBlockCount s = 0"
proof
  fix t :: transaction
  let ?bs = "[ex_counted [] [t, t], ex_counted [] [t]]"
  let ?w = "fold worker_turn [0, 0, 1, 1, 0, 1, 0, 1, 1, 1, 1, 0, 0, 1, 1, 0, 0, 1] (NewStats, map ProcessMasterBlock ?bs)"
  obtain s ts where w: "?w = (s, ts)" by (cases ?w)
  have run: "stats_run (NewStats, map ProcessMasterBlock ?bs) (s, ts)" using schedule_run w by metis
  have "all_counted ts"
    using w by (auto simp: ex_counted_def ProcessMasterBlock_def updateMinMax_def NewStats_def max_int64_eq improves_def all_counted_def)
  moreover from this have s: "s = tally ?bs" using benchmark_stats_exact[OF run] by blast
  have "bs_MasterBlockCount s = 2 \<and> bs_MasterTxsCount s = 3 \<and> bs_MinMasterTxs s = 1 \<and> bs_MaxMasterTxs s = 2 \<and> bs_ShardBlockCount s = 0"
    unfolding s by (simp add: tally_def ex_counted_def least_int_def greatest_int_def max_int64_eq)
  ultimately show "\<exists>s ts. stats_run (NewStats, map ProcessMasterBlock ?bs) (s, ts) \<and>
      all_counted ts \<and> bs_MasterBlockCount s = 2 \<and> bs_MasterTxsCount s = 3 \<and> bs_MinMasterTxs s = 1 \<and> bs_MaxMasterTxs s = 2 \<and>
      bs_ShardBlockCount s = 0"
    using run by blast
qed

subsection \<open>The statistics of the process, and the report\<close>

text \<open>
  \<open>GetStats\<close> allocates the statistics at its first call, without a lock: \<open>GetStats_rest\<close> is what follows its
  comparison of the global pointer with nil, which another worker may come before.
\<close>

record stats_world =
  sw_heap :: "bench_stats list"
  sw_stats :: "nat option"

definition GetStats_rest :: "bool \<Rightarrow> stats_world \<Rightarrow> nat option \<times> stats_world" where
  "GetStats_rest isNil w =
     (let w = (if isNil then w\<lparr>sw_heap := sw_heap w @ [NewStats], sw_stats := Some (length (sw_heap w))\<rparr> else w)
      in (sw_stats w, w))"

definition GetStats :: "stats_world \<Rightarrow> nat option \<times> stats_world" where
  "GetStats w = GetStats_rest (sw_stats w = None) w"

text \<open>Called one after another, every caller gets the same statistics.\<close>

lemma GetStats_shared:
  assumes "GetStats w = (p, w')"
  shows "p \<noteq> None \<and> GetStats w' = (p, w')"
  using assms by (auto simp: GetStats_def GetStats_rest_def Let_def split: if_splits)

text \<open>
  Two first callers that both find the pointer nil do not: what the first has counted since is in statistics that no later
  \<open>GetStats\<close> returns.
\<close>

lemma first_counts_lost:
  assumes "sw_stats w = None" and "GetStats_rest True w = (Some p, w1)"
    and "GetStats_rest True (w1\<lparr>sw_heap := (sw_heap w1)[p := s]\<rparr>) = (Some q, w2)"
  shows "q \<noteq> p \<and> sw_heap w2 ! p = s \<and> sw_heap w2 ! q = NewStats \<and> fst (GetStats w2) = Some q"
  using assms by (auto simp: GetStats_def GetStats_rest_def Let_def nth_append)

text \<open>\<open>quot2 a b\<close> is \<open>float64(a)/float64(b)\<close> printed with two digits.\<close>

definition show_int64 :: "i64 \<Rightarrow> string" where
  "show_int64 n = show_int (sint n)"

definition newline :: string where
  "newline = [CHR 0x0A]"

definition stats_String :: "(i64 \<Rightarrow> i64 \<Rightarrow> string) \<Rightarrow> bench_stats \<Rightarrow> string" where
  "stats_String quot2 s =
     ''========== TON Chain Statistics =========='' @ newline @
     ''Total Master Blocks: '' @ show_int64 (bs_MasterBlockCount s) @ newline @
     ''Total Shard Blocks: '' @ show_int64 (bs_ShardBlockCount s) @ newline @
     (if 0 < sint (bs_MasterBlockCount s)
      then ''Avg Transactions per Master Block: '' @ quot2 (bs_MasterTxsCount s) (bs_MasterBlockCount s) @ newline
      else ''No master blocks to compute averages.'' @ newline) @
     (if 0 < sint (bs_ShardBlockCount s)
      then ''Avg Shards per Master Block: '' @ quot2 (bs_ShardBlockCount s) (bs_MasterBlockCount s) @ newline @
        ''Avg Transactions per Shard: '' @ quot2 (bs_ShardTxsCount s) (bs_ShardBlockCount s) @ newline
      else ''No shard blocks to compute averages.'' @ newline) @
     ''Total Transactions in Master Blocks: '' @ show_int64 (bs_MasterTxsCount s) @ newline @
     ''Total Transactions in Shards: '' @ show_int64 (bs_ShardTxsCount s) @ newline @
     ''Min/Max Transactions per Master Block: '' @ show_int64 (bs_MinMasterTxs s) @ '' / '' @ show_int64 (bs_MaxMasterTxs s) @ newline @
     ''Min/Max Transactions per Shard Block: '' @ show_int64 (bs_MinShardTxs s) @ '' / '' @ show_int64 (bs_MaxShardTxs s) @ newline @
     ''=========================================='' @ newline"

subsection \<open>The signals of a run\<close>

text \<open>\<open>getInt name default\<close> is \<open>env.GetInt\<close>; the conversion to \<open>uint32\<close> keeps the low bits.\<close>

definition TargetBlockID :: "(string \<Rightarrow> int \<Rightarrow> int) \<Rightarrow> u32 res" where
  "TargetBlockID getInt = (let target = word_of_int (getInt ''BENCHMARK_TARGET_BLOCK_ID'' 0)
     in if target = 0 then Panic ''no value for target block ID'' else Ok target)"

definition TargetBlocksNumber :: "(string \<Rightarrow> int \<Rightarrow> int) \<Rightarrow> u32 res" where
  "TargetBlocksNumber getInt = (let target = word_of_int (getInt ''BENCHMARK_TARGET_BLOCKS_NUMBER'' 0)
     in if target = 0 then Panic ''no value for target block ID'' else Ok target)"

definition FinishedWorkersTarget :: "(string \<Rightarrow> int \<Rightarrow> int) \<Rightarrow> int res" where
  "FinishedWorkersTarget getInt = (let workers = getInt ''BENCHMARK_FINISHED_WORKERS_TARGET'' 0
     in if workers = 0 then Panic ''no value for target finished workers number'' else Ok workers)"

definition benchmark_Enabled :: "(string \<Rightarrow> bool \<Rightarrow> bool) \<Rightarrow> bool" where
  "benchmark_Enabled getBool = getBool ''BENCHMARK_ENABLED'' False"

text \<open>The commands of Redis the package uses, on the state \<open>'r\<close> of the server; a missing key is \<open>redis.Nil\<close>.\<close>

datatype redis_reply = RedisNil | RedisFailed goerr | RedisValue string

record 'r bench_redis =
  br_Get :: "string \<Rightarrow> 'r \<Rightarrow> redis_reply"
  br_Incr :: "string \<Rightarrow> 'r \<Rightarrow> goerr option \<times> 'r"
  br_Set :: "string \<Rightarrow> string \<Rightarrow> 'r \<Rightarrow> goerr option \<times> 'r"
  br_Del :: "string list \<Rightarrow> 'r \<Rightarrow> goerr option \<times> 'r"

definition StartBenchmarkKey :: string where
  "StartBenchmarkKey = ''BENCHMARK_Start''"

definition FinishedWorkersKey :: string where
  "FinishedWorkersKey = ''BENCHMARK_FinishedWorkers''"

text \<open>
  \<open>backoff.Retry\<close> over a server that others change between the attempts: \<open>fs\<close> are those changes, as many as
  attempts after the first are left in the time that is given.
\<close>

fun poll :: "('r \<Rightarrow> unit res) \<Rightarrow> ('r \<Rightarrow> 'r) list \<Rightarrow> 'r \<Rightarrow> unit res \<times> 'r" where
  "poll check [] r = (check r, r)"
| "poll check (f # fs) r = (case check r of Err e \<Rightarrow> poll check fs (f r) | x \<Rightarrow> (x, r))"

definition start_signal :: "'r bench_redis \<Rightarrow> 'r \<Rightarrow> unit res" where
  "start_signal R r = (case br_Get R StartBenchmarkKey r of
     RedisNil \<Rightarrow> Err (ErrText ''benchmark signal wasn't set'')
   | RedisFailed e \<Rightarrow> Err (Wrap e ''failed to get start benchmark key'')
   | RedisValue val \<Rightarrow> if val \<noteq> ''true'' then Err (ErrText ''benchmark signal not true'') else Ok ())"

definition WaitForStart :: "'r bench_redis \<Rightarrow> ('r \<Rightarrow> 'r) list \<Rightarrow> 'r \<Rightarrow> unit res \<times> 'r" where
  "WaitForStart R fs = poll (start_signal R) fs"

definition workers_finished :: "'r bench_redis \<Rightarrow> int \<Rightarrow> 'r \<Rightarrow> unit res" where
  "workers_finished R target r = (case br_Get R FinishedWorkersKey r of
     RedisNil \<Rightarrow> Err (Wrap (ErrExt ''redis: nil'') ''failed to get finished workers count from Redis'')
   | RedisFailed e \<Rightarrow> Err (Wrap e ''failed to get finished workers count from Redis'')
   | RedisValue s \<Rightarrow> (case parse_int 10 64 s of
       Ok val \<Rightarrow> if val < target then Err (ErrText ''not enough succeed workers'') else Ok ()
     | Err e \<Rightarrow> Err (Wrap e ''failed to get finished workers count from Redis'')
     | Panic m \<Rightarrow> Panic m))"

definition WaitForWorkers :: "'r bench_redis \<Rightarrow> (string \<Rightarrow> int \<Rightarrow> int) \<Rightarrow> ('r \<Rightarrow> 'r) list \<Rightarrow> 'r \<Rightarrow> unit res \<times> 'r" where
  "WaitForWorkers R getInt fs r = (case FinishedWorkersTarget getInt of
     Ok target \<Rightarrow> poll (workers_finished R target) fs r | Err e \<Rightarrow> (Err e, r) | Panic m \<Rightarrow> (Panic m, r))"

text \<open>\<open>isFinished\<close> is set before the counter is incremented, by the first caller only.\<close>

definition IncrementFinishedWorkersCount :: "'r bench_redis \<Rightarrow> bool \<times> 'r \<Rightarrow> goerr option \<times> (bool \<times> 'r)" where
  "IncrementFinishedWorkersCount R w = (case w of (isFinished, r) \<Rightarrow>
     if isFinished then (None, w)
     else case br_Incr R FinishedWorkersKey r of (e, r) \<Rightarrow> (e, (True, r)))"

text \<open>Redis counts a worker once at most, and a worker whose increment failed never.\<close>

lemma increment_once:
  assumes "IncrementFinishedWorkersCount R (False, r) = (e, w)"
  shows "fst w \<and> snd w = snd (br_Incr R FinishedWorkersKey r) \<and> IncrementFinishedWorkersCount R w = (None, w)"
  using assms by (auto simp: IncrementFinishedWorkersCount_def split: prod.splits res.splits)

lemma poll_Ok: "poll check fs r = (Ok (), r') \<Longrightarrow> check r' = Ok ()"
  by (induction check fs r rule: poll.induct) (auto split: res.splits)

text \<open>\<open>cmd/benchmark\<close>: the signal, the wait, and the reset that runs however the wait ends.\<close>

definition benchmark_Reset :: "'r bench_redis \<Rightarrow> 'r \<Rightarrow> 'r" where
  "benchmark_Reset R r = snd (br_Del R [StartBenchmarkKey, FinishedWorkersKey] r)"

definition benchmark_main :: "'r bench_redis \<Rightarrow> (string \<Rightarrow> int \<Rightarrow> int) \<Rightarrow> goerr option \<Rightarrow> ('r \<Rightarrow> 'r) list \<Rightarrow> 'r \<Rightarrow> unit res \<times> 'r" where
  "benchmark_main R getInt connect fs r = (case connect of
     Some e \<Rightarrow> (Panic (err_text e), r)
   | None \<Rightarrow> (case WaitForWorkers R getInt fs (snd (br_Set R StartBenchmarkKey ''true'' r)) of
       (Err e, r) \<Rightarrow> (Panic (err_text e), benchmark_Reset R r)
     | (x, r) \<Rightarrow> (x, benchmark_Reset R r)))"

text \<open>A run that ends well was ended by enough workers: the counter, read as a number, had reached the target.\<close>

lemma benchmark_enough_workers:
  assumes "benchmark_main R getInt connect fs r = (Ok (), r')"
  shows "\<exists>r1 s n. r' = benchmark_Reset R r1 \<and> br_Get R FinishedWorkersKey r1 = RedisValue s \<and> parse_int 10 64 s = Ok n \<and>
    getInt ''BENCHMARK_FINISHED_WORKERS_TARGET'' 0 \<le> n"
proof -
  obtain r1 where w: "WaitForWorkers R getInt fs (snd (br_Set R StartBenchmarkKey ''true'' r)) = (Ok (), r1)"
      and r: "r' = benchmark_Reset R r1"
    using assms by (auto simp: benchmark_main_def split: option.splits prod.splits res.splits)
  then have "workers_finished R (getInt ''BENCHMARK_FINISHED_WORKERS_TARGET'' 0) r1 = Ok ()"
    by (auto simp: WaitForWorkers_def FinishedWorkersTarget_def Let_def dest!: poll_Ok split: if_splits)
  then show ?thesis using r by (auto simp: workers_finished_def not_less split: redis_reply.splits res.splits if_splits)
qed

end
