(* ===== verification/Startup.thy ===== *)
theory Startup
  imports Contracts
begin

section \<open>cmd/indexer and cmd/web: the startup\<close>

text \<open>
  The commands \<open>indexer\<close> and \<open>web\<close>: connecting to the databases, storing the descriptions of the known
  contracts in one transaction when no interface is stored, registering the stored definitions, and the chain of constructors up to
  the start of the services. The file system, JSON, the environment variables and the outcomes of the constructors are arguments; the
  services that the commands build are the models of the other theories.
\<close>

subsection \<open>The databases\<close>

text \<open>\<open>ConnectDB\<close> pings each database up to eight times: \<open>pings\<close> are the answers, the first of them nil ends the loop.\<close>

fun ping_loop :: "nat \<Rightarrow> (nat \<Rightarrow> goerr option) \<Rightarrow> nat \<Rightarrow> goerr option \<Rightarrow> goerr option" where
  "ping_loop 0 pings i err = err"
| "ping_loop (Suc n) pings i err = (case pings i of None \<Rightarrow> None | Some e \<Rightarrow> ping_loop n pings (Suc i) (Some e))"

definition connectDB :: "(nat \<Rightarrow> goerr option) \<Rightarrow> (nat \<Rightarrow> goerr option) \<Rightarrow> goerr option" where
  "connectDB pingCH pingPG =
     (case ping_loop 8 pingCH 0 None of
        Some e \<Rightarrow> Some (Wrap e ''cannot ping ch'')
      | None \<Rightarrow> wrap_err (ping_loop 8 pingPG 0 None) ''cannot ping pg'')"

lemma ping_loop_None: "ping_loop n pings i err = None \<longleftrightarrow> n = 0 \<and> err = None \<or> (\<exists>j < n. pings (i + j) = None)"
proof (induction n arbitrary: i err)
  case (Suc n)
  show ?case
  proof (cases "pings i")
    case None
    then have "\<exists>j < Suc n. pings (i + j) = None" by (intro exI[of _ 0]) simp
    then show ?thesis using None by simp
  next
    case (Some e)
    have "(\<exists>j < Suc n. pings (i + j) = None) \<longleftrightarrow> (\<exists>j < n. pings (Suc i + j) = None)"
      using Some by (auto simp: less_Suc_eq_0_disj)
    then show ?thesis using Suc.IH[of "Suc i" "Some e"] Some by simp
  qed
qed simp

text \<open>The connection is made exactly when each database answers one of its eight pings.\<close>

lemma connectDB_ok: "connectDB pingCH pingPG = None \<longleftrightarrow> (\<exists>i < 8. pingCH i = None) \<and> (\<exists>i < 8. pingPG i = None)"
  unfolding connectDB_def using ping_loop_None[of 8 pingCH 0 None] ping_loop_None[of 8 pingPG 0 None]
  by (auto split: option.splits)

subsection \<open>The known contracts\<close>

record startup_env =
  su_case :: case_lib
  su_crc :: "bytes \<Rightarrow> u16"
  su_bound :: nat
  su_register_order :: "nat \<Rightarrow> tlb_type key_order"
  su_order :: "tlb_type key_order"
  su_ReadDir :: "string list res"
  su_ReadFile :: "string \<Rightarrow> bytes res"
  su_unmarshal :: "bytes \<Rightarrow> interface_desc list res"
  su_Begin :: "goerr option"
  su_Commit :: "goerr option"

definition getAllKnownContractFilenames :: "string list res \<Rightarrow> string list res" where
  "getAllKnownContractFilenames entries =
     rbind (rwrap ''read directory'' entries) (\<lambda>es. Ok (filter (\<lambda>e. has_suffix e ''.json'') es))"

text \<open>
  \<open>ParseInterfacesDesc\<close> with the registered definitions it leaves, which the next file is parsed with.
\<close>

type_synonym parsed_file = "registry \<times> contract_interface list \<times> contract_operation list"

definition parse_next :: "startup_env \<Rightarrow> tlb_state \<Rightarrow> interface_desc list \<Rightarrow> (tlb_state \<times> parsed_file) res option" where
  "parse_next E S ds =
     obind (registerAll (su_case E) (su_bound E) (su_register_order E) ds [] S) (\<lambda>(retD, S).
     obind (parseInterfaces (su_case E) (su_crc E) (ts_defs S) (su_bound E) ds) (\<lambda>retI.
     Some (Ok (S, retD, retI, concat (map ci_operations retI)))))"

lemma parse_next_parses:
  "parse_next E S ds = Some (Ok (S', f)) \<Longrightarrow>
   parseInterfacesDesc (su_case E) (su_crc E) (su_bound E) (su_register_order E) S ds = Some (Ok f)"
  by (auto simp: parse_next_def parseInterfacesDesc_def obind_Ok_iff)

definition read_description :: "startup_env \<Rightarrow> string \<Rightarrow> interface_desc list res" where
  "read_description E fn = rbind (rwrap ''read file'' (su_ReadFile E fn)) (\<lambda>j. rwrap ''unmarshal json'' (su_unmarshal E j))"

text \<open>The inserts of the transaction, which do not translate the errors as the repository does.\<close>

definition insert_definition :: "tlb_type \<times> tlb_fields \<Rightarrow> db \<Rightarrow> goerr option \<times> db" where
  "insert_definition x d = wrap_exec ''cannot insert definition'' (exec_unless (\<lambda>d. map_of (pg_definitions d) (fst x) \<noteq> None)
     (\<lambda>d. d\<lparr>pg_definitions := pg_definitions d @ [x]\<rparr>) d)"

definition insert_interface :: "contract_interface \<Rightarrow> db \<Rightarrow> goerr option \<times> db" where
  "insert_interface i d = wrap_exec ''cannot insert interface''
     (exec_unless (\<lambda>d. \<exists>r \<in> set (pg_interfaces d). ci_name r = ci_name i \<or> interface_clash i r)
       (\<lambda>d. d\<lparr>pg_interfaces := pg_interfaces d @ [interface_row i]\<rparr>) d)"

definition insert_operation :: "contract_operation \<Rightarrow> db \<Rightarrow> goerr option \<times> db" where
  "insert_operation op d = wrap_exec ''cannot insert operation''
     (exec_unless (\<lambda>d. \<exists>r \<in> set (pg_operations d). operation_key r = operation_key op \<or>
         operation_names_key r = operation_names_key op)
       (\<lambda>d. d\<lparr>pg_operations := pg_operations d @ [op]\<rparr>) d)"

definition insert_file :: "startup_env \<Rightarrow> parsed_file \<Rightarrow> db \<Rightarrow> goerr option \<times> db" where
  "insert_file E f d = (case f of (definitions, interfaces, operations) \<Rightarrow>
     then_exec (exec_each insert_definition (range_map (su_order E) definitions) d) (\<lambda>d.
     then_exec (exec_each insert_interface interfaces d)
       (exec_each insert_operation operations)))"

fun add_files :: "startup_env \<Rightarrow> string list \<Rightarrow> tlb_state \<Rightarrow> db \<Rightarrow> (tlb_state res \<times> db) option" where
  "add_files E [] S d = Some (Ok S, d)"
| "add_files E (fn # fns) S d =
     (case obind (Some (read_description E fn)) (parse_next E S) of
        None \<Rightarrow> None
      | Some (Err e) \<Rightarrow> Some (Err e, d)
      | Some (Panic p) \<Rightarrow> Some (Panic p, d)
      | Some (Ok (S, f)) \<Rightarrow>
          (case insert_file E f d of (Some e, d) \<Rightarrow> Some (Err e, d) | (None, d) \<Rightarrow> add_files E fns S d))"

text \<open>
  The transaction: the deferred \<open>Rollback\<close> drops what was written unless the commit came first; the outcomes of the
  statements (\<open>db_faults\<close>) are used up either way.
\<close>

definition rolled_back :: "db \<Rightarrow> db \<Rightarrow> db" where
  "rolled_back d d' = d\<lparr>db_faults := db_faults d'\<rparr>"

definition addKnownContracts :: "startup_env \<Rightarrow> tlb_state \<Rightarrow> db \<Rightarrow> (tlb_state res \<times> db) option" where
  "addKnownContracts E S d =
     (case getAllKnownContractFilenames (su_ReadDir E) of
        Err e \<Rightarrow> Some (Err e, d)
      | Panic p \<Rightarrow> Some (Panic p, d)
      | Ok filenames \<Rightarrow>
          if filenames = [] then Some (Err (ErrText ''json files are not found inside contracts directory''), d)
          else (case su_Begin E of
             Some e \<Rightarrow> Some (Err (Wrap e ''begin postgresql transaction''), d)
           | None \<Rightarrow>
               (case add_files E filenames S d of
                  None \<Rightarrow> None
                | Some (Ok S, d') \<Rightarrow>
                    (case su_Commit E of
                       Some e \<Rightarrow> Some (Err (Wrap e ''commit postgresql transaction''), rolled_back d d')
                     | None \<Rightarrow> Some (Ok S, d'))
                | Some (r, d') \<Rightarrow> Some (r, rolled_back d d'))))"

subsection \<open>The stored definitions\<close>

text \<open>The rows of \<open>GetDefinitions\<close>, registered in the order of the map they are returned in.\<close>

definition register_stored :: "startup_env \<Rightarrow> tlb_state \<Rightarrow> db \<Rightarrow> (tlb_state res \<times> db) option" where
  "register_stored E S d =
     (case getDefinitions d of
        (Ok m, d') \<Rightarrow>
          (case registerDefinitions (su_case E) (su_bound E) (su_register_order E)
                  (map (\<lambda>k. (k, the (m k))) (remdups (map fst (pg_definitions d)))) S of
             None \<Rightarrow> None
           | Some (Ok _, S) \<Rightarrow> Some (Ok S, d')
           | Some (Err e, S) \<Rightarrow> Some (Err (Wrap e ''get definitions''), d')
           | Some (Panic p, S) \<Rightarrow> Some (Panic p, d'))
      | (Err e, d') \<Rightarrow> Some (Err (Wrap e ''get definitions''), d')
      | (Panic p, d') \<Rightarrow> Some (Panic p, d'))"

text \<open>The first part of both commands; only the indexer adds known contracts.\<close>

definition load_contracts :: "startup_env \<Rightarrow> clock2 \<Rightarrow> gotime \<Rightarrow> db \<Rightarrow> (tlb_state res \<times> db) option" where
  "load_contracts E t now d =
     (case getInterfaces t d (newContractCache now) of
        (Err e, d, _) \<Rightarrow> Some (Err (Wrap e ''get interfaces''), d)
      | (Panic p, d, _) \<Rightarrow> Some (Panic p, d)
      | (Ok interfaces, d, _) \<Rightarrow>
          (case (if interfaces = [] then addKnownContracts E tlb_empty d else Some (Ok tlb_empty, d)) of
             None \<Rightarrow> None
           | Some (Ok S, d) \<Rightarrow> register_stored E S d
           | Some (r, d) \<Rightarrow> Some (r, d)))"

subsection \<open>The constructors\<close>

text \<open>\<open>LITESERVERS\<close>: a list of \<open>host|key\<close>, connected one after another.\<close>

fun add_liteservers :: "(string \<Rightarrow> string \<Rightarrow> goerr option) \<Rightarrow> string list \<Rightarrow> (string \<times> string) list res" where
  "add_liteservers connect [] = Ok []"
| "add_liteservers connect (address # rest) =
     (case str_split (CHR ''|'') address of
        [host, key] \<Rightarrow>
          (case connect host key of
             Some e \<Rightarrow> Err (Wrap e ''cannot add connection'')
           | None \<Rightarrow> rbind (add_liteservers connect rest) (\<lambda>cs. Ok ((host, key) # cs)))
      | _ \<Rightarrow> Err (ErrText ''wrong server address format''))"

definition liteservers :: "(string \<Rightarrow> string \<Rightarrow> goerr option) \<Rightarrow> string \<Rightarrow> (string \<times> string) list res" where
  "liteservers connect s = add_liteservers connect (str_split (CHR '','') s)"

definition outcome :: "goerr option \<Rightarrow> unit res" where
  "outcome e = (case e of None \<Rightarrow> Ok () | Some e \<Rightarrow> Err e)"

text \<open>\<open>redisutils.New\<close>.\<close>

definition redis_New :: "goerr option \<Rightarrow> goerr option" where
  "redis_New ping = wrap_err ping ''couldn't connect to Redis''"

record service_env =
  sv_pingCH :: "nat \<Rightarrow> goerr option"
  sv_pingPG :: "nat \<Rightarrow> goerr option"
  sv_liteservers :: string
  sv_AddConnection :: "string \<Rightarrow> string \<Rightarrow> goerr option"
  sv_config :: "goerr option"
  sv_from_block :: int
  sv_unseen :: "goerr option"
  sv_broadcast :: "goerr option"
  sv_redis :: "goerr option"
  sv_kafka :: "goerr option"
  sv_Start :: "goerr option"
  sv_Listen :: "goerr option"

text \<open>
  What the indexer starts, in order: the election runs from before the first block is asked for, the server of the stream is up
  only once \<open>Start\<close> has returned.
\<close>

datatype started = ElectionRunning | IndexerStarted | StreamServed

definition indexer_services :: "service_env \<Rightarrow> unit res \<times> started list" where
  "indexer_services V =
     (case rbind (rbind (liteservers (sv_AddConnection V) (sv_liteservers V)) (\<lambda>_. outcome (wrap_err (sv_config V) ''cannot get blockchain config'')))
             (\<lambda>_. rbind (outcome (sv_unseen V)) (\<lambda>_. rbind (outcome (sv_broadcast V)) (\<lambda>_.
             rbind (outcome (redis_New (sv_redis V))) (\<lambda>_. outcome (sv_kafka V))))) of
        Ok _ \<Rightarrow>
          (case sv_Start V of
             Some e \<Rightarrow> (Err e, [ElectionRunning])
           | None \<Rightarrow>
               (case sv_Listen V of
                  Some e \<Rightarrow> (Err e, [ElectionRunning, IndexerStarted])
                | None \<Rightarrow> (Ok (), [ElectionRunning, IndexerStarted, StreamServed])))
      | Err e \<Rightarrow> (Err e, [])
      | Panic p \<Rightarrow> (Panic p, []))"

definition fromBlock :: "service_env \<Rightarrow> u32" where
  "fromBlock V = word_of_int (sv_from_block V)"

definition indexer_Action :: "startup_env \<Rightarrow> service_env \<Rightarrow> clock2 \<Rightarrow> gotime \<Rightarrow> db \<Rightarrow> (unit res \<times> started list \<times> db) option" where
  "indexer_Action E V t now d =
     (case connectDB (sv_pingCH V) (sv_pingPG V) of
        Some e \<Rightarrow> Some (Err (Wrap e ''cannot connect to a database''), [], d)
      | None \<Rightarrow>
          (case load_contracts E t now d of
             None \<Rightarrow> None
           | Some (Err e, d) \<Rightarrow> Some (Err e, [], d)
           | Some (Panic p, d) \<Rightarrow> Some (Panic p, [], d)
           | Some (Ok S, d) \<Rightarrow> (case indexer_services V of (r, ss) \<Rightarrow> Some (r, ss, d))))"

text \<open>\<open>web\<close>: \<open>run\<close> is how \<open>srv.Run\<close> ends, \<open>newQuery\<close> the outcome of the query service's constructor.\<close>

definition web_Action :: "startup_env \<Rightarrow> service_env \<Rightarrow> goerr option \<Rightarrow> goerr option \<Rightarrow> db \<Rightarrow> (unit res \<times> db) option" where
  "web_Action E V newQuery run d =
     (case connectDB (sv_pingCH V) (sv_pingPG V) of
        Some e \<Rightarrow> Some (Err (Wrap e ''cannot connect to a database''), d)
      | None \<Rightarrow>
          (case register_stored E tlb_empty d of
             None \<Rightarrow> None
           | Some (Err e, d) \<Rightarrow> Some (Err e, d)
           | Some (Panic p, d) \<Rightarrow> Some (Panic p, d)
           | Some (Ok S, d) \<Rightarrow>
               Some (rbind (liteservers (sv_AddConnection V) (sv_liteservers V)) (\<lambda>_.
                 rbind (outcome newQuery) (\<lambda>_. outcome run)), d)))"

subsection \<open>Starting and stopping the services\<close>

text \<open>
  The flag \<open>run\<close> of a service, its goroutines, and how many of them its wait group counts. The loop of the rescan service ends at the
  first round that finds the flag false, and \<open>Stop\<close> waits for it. The indexer's consumer does not read the flag and is not in the
  wait group.
\<close>

record service =
  se_run :: bool
  se_loops :: nat
  se_waited :: nat

definition service_idle :: service where
  "service_idle = \<lparr>se_run = False, se_loops = 0, se_waited = 0\<rparr>"

definition indexer_Start :: "service \<Rightarrow> service" where
  "indexer_Start s = s\<lparr>se_run := True, se_loops := se_loops s + 1\<rparr>"

definition indexer_Stop :: "service \<Rightarrow> service" where
  "indexer_Stop s = s\<lparr>se_run := False, se_loops := se_loops s - se_waited s, se_waited := 0\<rparr>"

definition rescan_Start :: "service \<Rightarrow> service" where
  "rescan_Start s = s\<lparr>se_run := True, se_loops := se_loops s + 1, se_waited := se_waited s + 1\<rparr>"

definition rescan_Stop :: "service \<Rightarrow> service" where
  "rescan_Stop s = s\<lparr>se_run := False, se_loops := se_loops s - se_waited s, se_waited := 0\<rparr>"

lemma rescan_stops: "rescan_Stop (rescan_Start service_idle) = service_idle"
  by (simp add: rescan_Start_def rescan_Stop_def service_idle_def)

text \<open>After the indexer's \<open>Stop\<close>, when the connections are closed, its consumer still runs.\<close>

lemma indexer_consumes_on: "se_loops (indexer_Stop (indexer_Start service_idle)) = 1"
  by (simp add: indexer_Start_def indexer_Stop_def service_idle_def)

subsection \<open>What the inserts do\<close>

definition appended :: "registry \<Rightarrow> contract_interface list \<Rightarrow> contract_operation list \<Rightarrow> db \<Rightarrow> db \<Rightarrow> bool" where
  "appended defs is ops d d' \<longleftrightarrow>
     d' = d\<lparr>pg_definitions := pg_definitions d @ defs, pg_interfaces := pg_interfaces d @ map interface_row is,
       pg_operations := pg_operations d @ ops, db_faults := db_faults d'\<rparr>"

lemma appendedI: "d' = d\<lparr>pg_definitions := pg_definitions d @ defs, pg_interfaces := pg_interfaces d @ map interface_row is,
       pg_operations := pg_operations d @ ops, db_faults := fs\<rparr> \<Longrightarrow> appended defs is ops d d'"
  unfolding appended_def by simp

lemma appendedE:
  assumes "appended defs is ops d d'"
  obtains fs where "d' = d\<lparr>pg_definitions := pg_definitions d @ defs, pg_interfaces := pg_interfaces d @ map interface_row is,
       pg_operations := pg_operations d @ ops, db_faults := fs\<rparr>"
  using assms unfolding appended_def by blast

lemma appended_trans:
  assumes "appended a b c d d1" and "appended a' b' c' d1 d2"
  shows "appended (a @ a') (b @ b') (c @ c') d d2"
  using assms by (elim appendedE) (rule appendedI, simp)

lemma appended_refl: "appended [] [] [] d d"
  by (rule appendedI[where fs = "db_faults d"]) simp

lemma insert_appended:
  "insert_definition x d = (None, d') \<Longrightarrow> appended [x] [] [] d d'"
  "insert_interface i d = (None, d') \<Longrightarrow> appended [] [i] [] d d'"
  "insert_operation op d = (None, d') \<Longrightarrow> appended [] [] [op] d d'"
  by (cases d; auto simp: insert_definition_def insert_interface_def insert_operation_def exec_unless_None appended_def dest!: exec_None)+

lemma concat_nils: "concat (map (\<lambda>x. []) xs) = []"
  by (induction xs) auto

lemma exec_each_appended:
  assumes "\<And>x d d'. f x d = (None, d') \<Longrightarrow> appended (a x) (b x) (c x) d d'" and "exec_each f xs d = (None, d')"
  shows "appended (concat (map a xs)) (concat (map b xs)) (concat (map c xs)) d d'"
  using assms(2)
proof (induction xs arbitrary: d)
  case (Cons x xs)
  then obtain d1 where "f x d = (None, d1)" "exec_each f xs d1 = (None, d')" by (auto elim: then_exec_None)
  then show ?case using appended_trans[OF assms(1) Cons.IH] by simp
qed (auto intro: appended_refl)

lemma insert_file_appended:
  assumes "insert_file E (defs, is, ops) d = (None, d')"
  shows "appended (range_map (su_order E) defs) is ops d d'"
proof -
  obtain d1 d2 where "exec_each insert_definition (range_map (su_order E) defs) d = (None, d1)"
      "exec_each insert_interface is d1 = (None, d2)" "exec_each insert_operation ops d2 = (None, d')"
    using assms by (auto simp: insert_file_def elim!: then_exec_None)
  note steps = exec_each_appended[where a = "\<lambda>x. [x]" and b = "\<lambda>x. []" and c = "\<lambda>x. []", OF insert_appended(1) this(1)]
    exec_each_appended[where a = "\<lambda>x. []" and b = "\<lambda>x. [x]" and c = "\<lambda>x. []", OF insert_appended(2) this(2)]
    exec_each_appended[where a = "\<lambda>x. []" and b = "\<lambda>x. []" and c = "\<lambda>x. [x]", OF insert_appended(3) this(3)]
  show ?thesis using appended_trans[OF appended_trans[OF steps(1,2)] steps(3)] by (simp add: concat_nils)
qed

text \<open>What the files describe: each is parsed with the definitions that the files before it registered.\<close>

fun parse_files :: "startup_env \<Rightarrow> string list \<Rightarrow> tlb_state \<Rightarrow> (tlb_state \<times> parsed_file list) res option" where
  "parse_files E [] S = Some (Ok (S, []))"
| "parse_files E (fn # fns) S =
     obind (obind (Some (read_description E fn)) (parse_next E S)) (\<lambda>(S, f).
     obind (parse_files E fns S) (\<lambda>(S, fs). Some (Ok (S, f # fs))))"

definition rows_of_files :: "startup_env \<Rightarrow> parsed_file list \<Rightarrow> registry \<times> contract_interface list \<times> contract_operation list" where
  "rows_of_files E fs = (concat (map (\<lambda>(defs, is, ops). range_map (su_order E) defs) fs),
     concat (map (\<lambda>(defs, is, ops). is) fs), concat (map (\<lambda>(defs, is, ops). ops) fs))"

lemma add_files_Ok:
  assumes "add_files E fns S d = Some (Ok S', d')"
  shows "\<exists>fs D I Q. parse_files E fns S = Some (Ok (S', fs)) \<and> rows_of_files E fs = (D, I, Q) \<and> appended D I Q d d'"
  using assms
proof (induction fns arbitrary: S d)
  case Nil
  then show ?case by (auto simp: rows_of_files_def appended_refl)
next
  case (Cons fn fns)
  then obtain S1 f where f: "obind (Some (read_description E fn)) (parse_next E S) = Some (Ok (S1, f))"
    by (auto split: option.splits res.splits prod.splits)
  then obtain d1 where d1: "insert_file E f d = (None, d1)" "add_files E fns S1 d1 = Some (Ok S', d')"
    using Cons.prems by (auto split: option.splits prod.splits)
  obtain fs D I Q where fs: "parse_files E fns S1 = Some (Ok (S', fs))" "rows_of_files E fs = (D, I, Q)" "appended D I Q d1 d'"
    using Cons.IH[OF d1(2)] by blast
  obtain defs "is" ops where fp: "f = (defs, is, ops)" by (cases f)
  have "parse_files E (fn # fns) S = Some (Ok (S', f # fs))" using f fs(1) by simp
  moreover have "rows_of_files E (f # fs) = (range_map (su_order E) defs @ D, is @ I, ops @ Q)"
    using fs(2) fp by (simp add: rows_of_files_def)
  moreover note appended_trans[OF insert_file_appended[OF d1(1)[unfolded fp]] fs(3)]
  ultimately show ?case by blast
qed

subsection \<open>Registering\<close>

definition registers :: "registry \<Rightarrow> registry \<Rightarrow> registry \<Rightarrow> registry \<Rightarrow> bool" where
  "registers defs nd R R' \<longleftrightarrow> set nd \<subseteq> set defs \<and> distinct (map fst nd) \<and>
     (\<forall>dn d. (dn, d) \<in> set defs \<longrightarrow> (dn, d) \<notin> set nd \<longrightarrow> map_of R' dn = Some d) \<and>
     (\<forall>dn. dn \<notin> fst ` set defs \<longrightarrow> map_of R' dn = map_of R dn)"

lemma registersD:
  assumes "registers defs nd R R'"
  shows "set nd \<subseteq> set defs" "distinct (map fst nd)" "(dn, d) \<in> set defs \<Longrightarrow> (dn, d) \<notin> set nd \<Longrightarrow> map_of R' dn = Some d"
    "dn \<notin> fst ` set defs \<Longrightarrow> map_of R' dn = map_of R dn"
  using assms unfolding registers_def by blast+

lemma registers_skip:
  assumes "registers defs nd R R'" and "dn \<notin> fst ` set defs"
  shows "registers ((dn, d) # defs) ((dn, d) # nd) R R'"
proof -
  have "dn \<notin> fst ` set nd" using registersD(1)[OF assms(1)] assms(2) by blast
  then show ?thesis using assms unfolding registers_def by auto
qed

lemma registers_new:
  assumes "registers defs nd R1 R'" and "dn \<notin> fst ` set defs" and "map_of R1 = (map_of R)(dn \<mapsto> d)"
  shows "registers ((dn, d) # defs) nd R R'"
proof -
  have "map_of R' dn = Some d" using registersD(4)[OF assms(1,2)] assms(3) by simp
  then show ?thesis using assms unfolding registers_def by auto
qed

lemma register_pass_registers:
  assumes "register_pass C n defs S = Some (Ok nd, S')" and "distinct (map fst defs)"
  shows "registers defs nd (ts_defs S) (ts_defs S')"
  using assms
proof (induction C n defs S arbitrary: nd rule: register_pass.induct)
  case (2 C n dn d defs S)
  note IH = "2.IH"
  have dist: "dn \<notin> fst ` set defs" "distinct (map fst defs)" using "2.prems"(2) by auto
  consider e nd' where "tlbParseDesc C (ts_defs S) n False [] d = Some (Err e)" "str_contains (err_text e) ''cannot find definition''"
        "register_pass C n defs S = Some (Ok nd', S')" "nd = (dn, d) # nd'"
      | dt S1 where "tlbParseDesc C (ts_defs S) n False [] d = Some (Ok dt)" "register_definition dn d dt S = Ok S1"
        "register_pass C n defs S1 = Some (Ok nd, S')"
    using "2.prems"(1) by (auto split: option.splits res.splits prod.splits if_splits)
  then show ?case
  proof cases
    case 1
    show ?thesis unfolding 1(4) by (rule registers_skip[OF IH(2)[OF 1(1) refl 1(2,3) dist(2)] dist(1)])
  next
    case 2
    have "map_of (ts_defs S1) = (map_of (ts_defs S))(dn \<mapsto> d)"
      using register_definition_Ok[OF 2(2)] by (simp add: update_conv')
    then show ?thesis by (rule registers_new[OF IH(1)[OF 2(1) refl 2(2,3) dist(2)] dist(1)])
  qed
qed (simp add: registers_def)

lemma registers_trans:
  assumes "registers defs nd R R1" and "registers nd nd' R1 R'" and "distinct (map fst defs)"
  shows "registers defs nd' R R'"
proof -
  note a = registersD[OF assms(1)] and b = registersD[OF assms(2)]
  have "map_of R' dn = Some d" if d: "(dn, d) \<in> set defs" "(dn, d) \<notin> set nd'" for dn d
  proof (cases "(dn, d) \<in> set nd")
    case True
    then show ?thesis using b(3) d(2) by blast
  next
    case False
    have "dn \<notin> fst ` set nd"
    proof
      assume "dn \<in> fst ` set nd"
      then obtain d' where "(dn, d') \<in> set nd" by auto
      then have "d' = d" using a(1) d(1) assms(3) by (metis eq_key_imp_eq_value subsetD)
      with \<open>(dn, d') \<in> set nd\<close> False show False by simp
    qed
    then show ?thesis using b(4) a(3)[OF d(1) False] by simp
  qed
  moreover have "map_of R' dn = map_of R dn" if "dn \<notin> fst ` set defs" for dn
    using a(1,4) b(4) that by (metis (no_types, lifting) image_mono subsetD)
  ultimately show ?thesis unfolding registers_def using a(1) b(1,2) by blast
qed

lemma register_from_registers:
  assumes "register_from C n ord depth maxDepth defs S = Some (Ok u, S')" and "distinct (map fst defs)" and "\<forall>k. range_order (ord k)"
  shows "registers defs [] (ts_defs S) (ts_defs S')"
  using assms
proof (induction C n ord depth maxDepth defs S rule: register_from.induct)
  case (1 C n ord depth maxDepth defs S)
  let ?ds = "range_map (ord depth) defs"
  obtain nd S1 where pass: "register_pass C n ?ds S = Some (Ok nd, S1)"
    using 1(2) by (subst (asm) register_from.simps) (auto split: option.splits res.splits prod.splits)
  have same: "set ?ds = set defs" by (rule set_range_map[OF spec[OF 1(4)] 1(3)])
  have "distinct (map fst ?ds)" using names_range_map[OF spec[OF 1(4), of depth] 1(3)] by simp
  then have first: "registers defs nd (ts_defs S) (ts_defs S1)"
    using register_pass_registers[OF pass] unfolding registers_def same by blast
  show ?case
  proof (cases "nd = []")
    case True
    then show ?thesis using 1(2) pass first by (subst (asm) register_from.simps) simp
  next
    case False
    moreover from this have deep: "\<not> maxDepth < depth"
      using 1(2) pass by (subst (asm) register_from.simps) (auto split: if_splits)
    ultimately have "register_from C n ord (Suc depth) maxDepth nd S1 = Some (Ok u, S')"
      using 1(2) pass by (subst (asm) register_from.simps) simp
    then have "registers nd [] (ts_defs S1) (ts_defs S')"
      using 1(1)[OF pass refl refl False deep] registersD(2)[OF first] 1(4) by blast
    then show ?thesis by (rule registers_trans[OF first _ 1(3)])
  qed
qed

subsection \<open>A start\<close>

text \<open>The tables are as they were, or hold all that the files describe in addition.\<close>

definition unchanged :: "db \<Rightarrow> db \<Rightarrow> bool" where
  "unchanged d d' \<longleftrightarrow> d' = d\<lparr>db_faults := db_faults d'\<rparr>"

definition all_stored :: "startup_env \<Rightarrow> db \<Rightarrow> db \<Rightarrow> bool" where
  "all_stored E d d' \<longleftrightarrow> (\<exists>fns S fs D I Q. getAllKnownContractFilenames (su_ReadDir E) = Ok fns \<and> fns \<noteq> [] \<and>
     parse_files E fns tlb_empty = Some (Ok (S, fs)) \<and> rows_of_files E fs = (D, I, Q) \<and> appended D I Q d d')"

lemma unchangedI: "unchanged d (d\<lparr>db_faults := fs\<rparr>)"
  by (simp add: unchanged_def)

lemma unchanged_refl: "unchanged d d"
  by (simp add: unchanged_def)

lemma unchanged_definitions:
  assumes "unchanged d d'"
  shows "pg_definitions d' = pg_definitions d"
proof -
  obtain fs where "d' = d\<lparr>db_faults := fs\<rparr>" using assms unfolding unchanged_def by blast
  then show ?thesis by simp
qed

lemma unchanged_trans: "unchanged d d1 \<Longrightarrow> unchanged d1 d2 \<Longrightarrow> unchanged d d2"
proof -
  assume "unchanged d d1" "unchanged d1 d2"
  then obtain f1 f2 where f: "d1 = d\<lparr>db_faults := f1\<rparr>" "d2 = d1\<lparr>db_faults := f2\<rparr>" unfolding unchanged_def by blast
  show ?thesis unfolding f by (simp add: unchanged_def)
qed

lemma all_stored_faults:
  assumes "unchanged d d1" and "all_stored E d1 d2" and "unchanged d2 d3"
  shows "all_stored E d d3"
proof -
  obtain f1 f3 where f: "d1 = d\<lparr>db_faults := f1\<rparr>" "d3 = d2\<lparr>db_faults := f3\<rparr>"
    using assms(1,3) unfolding unchanged_def by blast
  have "appended D I Q d d3" if "appended D I Q d1 d2" for D I Q
    using that unfolding f by (elim appendedE) (rule appendedI[where fs = f3], simp)
  then show ?thesis using assms(2) unfolding all_stored_def by blast
qed

lemma addKnownContracts_cases:
  assumes "addKnownContracts E tlb_empty d = Some (r, d')"
  shows "unchanged d d' \<and> \<not> is_ok r \<or> is_ok r \<and> all_stored E d d'"
proof (cases "\<exists>fns S d1. getAllKnownContractFilenames (su_ReadDir E) = Ok fns \<and> fns \<noteq> [] \<and> su_Begin E = None \<and>
    add_files E fns tlb_empty d = Some (Ok S, d1) \<and> su_Commit E = None")
  case True
  then obtain fns S d1 where c: "getAllKnownContractFilenames (su_ReadDir E) = Ok fns" "fns \<noteq> []" "su_Begin E = None"
      "add_files E fns tlb_empty d = Some (Ok S, d1)" "su_Commit E = None" by blast
  then have "r = Ok S \<and> d' = d1" using assms by (simp add: addKnownContracts_def)
  moreover have "all_stored E d d1" using add_files_Ok[OF c(4)] c(1,2) unfolding all_stored_def by blast
  ultimately show ?thesis by simp
next
  case False
  then show ?thesis using assms
    by (auto simp: addKnownContracts_def rolled_back_def unchanged_refl unchangedI split: res.splits option.splits prod.splits if_splits)
qed

lemma getInterfaces_fresh:
  assumes "getInterfaces t d (newContractCache now) = (r, d1, c)"
  shows "unchanged d d1 \<and> (r = Ok is \<longrightarrow> is = pg_interfaces d)"
  using assms query_OkD[of pg_interfaces d]
  by (auto simp: getInterfaces_def cache_getInterfaces_def contract_clearCaches_def newContractCache_def query_def
      unchanged_refl unchangedI split: if_splits list.splits option.splits)

lemma register_stored_keeps:
  assumes "register_stored E S d = Some (r, d')"
  shows "unchanged d d'"
proof -
  have "unchanged d (snd (getDefinitions d))"
    by (auto simp: getDefinitions_def query_def unchanged_refl unchangedI split: list.splits option.splits)
  then show ?thesis using assms by (auto simp: register_stored_def split: prod.splits res.splits option.splits)
qed

lemma register_stored_registers:
  assumes "register_stored E S d = Some (Ok S', d')" and "\<forall>k. range_order (su_register_order E k)" and "distinct (map fst (pg_definitions d))"
  shows "\<forall>dn x. (dn, x) \<in> set (pg_definitions d') \<longrightarrow> map_of (ts_defs S') dn = Some x"
proof -
  obtain m d1 u where m: "getDefinitions d = (Ok m, d1)"
      "registerDefinitions (su_case E) (su_bound E) (su_register_order E)
        (map (\<lambda>k. (k, the (m k))) (remdups (map fst (pg_definitions d)))) S = Some (Ok u, S')"
    using assms(1) by (auto simp: register_stored_def split: prod.splits res.splits option.splits)
  have "m = upsert_all fst snd (pg_definitions d) Map.empty" 
    by (rule conjunct1[OF query_OkD[OF m(1)[unfolded getDefinitions_def]]])
  moreover have "upsert_all fst snd R Map.empty = map_of R" if "distinct (map fst R)" for R :: registry
  proof -
    have "upsert_all fst snd R f = f ++ map_of R" if "distinct (map fst R)" for f :: "tlb_type \<rightharpoonup> tlb_fields"
      using that by (induction R arbitrary: f) (auto simp: map_add_upd_left dom_map_of_conv_image_fst)
    then show ?thesis using that by simp
  qed
  ultimately have "map (\<lambda>k. (k, the (m k))) (remdups (map fst (pg_definitions d))) = pg_definitions d"
    using assms(3) map_the_map_of[OF assms(3)] by (simp add: distinct_remdups_id)
  then have "register_from (su_case E) (su_bound E) (su_register_order E) 0 16 (pg_definitions d) S = Some (Ok u, S')"
    using m(2) unfolding registerDefinitions_def by simp
  from register_from_registers[OF this assms(3,2)] have "registers (pg_definitions d) [] (ts_defs S) (ts_defs S')" .
  moreover have "pg_definitions d' = pg_definitions d"
    by (rule unchanged_definitions[OF register_stored_keeps[OF assms(1)]])
  ultimately show ?thesis using registersD(3) by fastforce
qed

text \<open>Inserts keep the key of the definitions, so what a transaction appends has no name twice.\<close>

lemma exec_each_inv:
  assumes "\<And>x d d'. f x d = (None, d') \<Longrightarrow> Q d \<Longrightarrow> Q d'" and "exec_each f xs d = (None, d')" and "Q d"
  shows "Q d'"
  using assms(2,3) by (induction xs arbitrary: d) (auto elim!: then_exec_None intro: assms(1))

definition definitions_keyed :: "db \<Rightarrow> bool" where
  "definitions_keyed d \<longleftrightarrow> distinct (map fst (pg_definitions d))"

lemma insert_keyed:
  "insert_definition x d = (None, d') \<Longrightarrow> definitions_keyed d \<Longrightarrow> definitions_keyed d'"
  "insert_interface i d = (None, d') \<Longrightarrow> definitions_keyed d \<Longrightarrow> definitions_keyed d'"
  "insert_operation op d = (None, d') \<Longrightarrow> definitions_keyed d \<Longrightarrow> definitions_keyed d'"
  by (auto simp: insert_definition_def insert_interface_def insert_operation_def exec_unless_None definitions_keyed_def
      map_of_eq_None_iff dest!: exec_None)

lemma insert_file_keyed:
  assumes "insert_file E f d = (None, d')" and "definitions_keyed d"
  shows "definitions_keyed d'"
proof (cases f)
  case (fields defs "is" ops)
  then obtain d1 d2 where e: "exec_each insert_definition (range_map (su_order E) defs) d = (None, d1)"
      "exec_each insert_interface is d1 = (None, d2)" "exec_each insert_operation ops d2 = (None, d')"
    using assms(1) by (auto simp: insert_file_def elim!: then_exec_None)
  note inv = exec_each_inv[where Q = definitions_keyed]
  show ?thesis by (rule inv[OF insert_keyed(3) e(3) inv[OF insert_keyed(2) e(2) inv[OF insert_keyed(1) e(1) assms(2)]]])
qed

lemma add_files_keyed: "add_files E fns S d = Some (Ok S', d') \<Longrightarrow> definitions_keyed d \<Longrightarrow> definitions_keyed d'"
proof (induction fns arbitrary: S d)
  case (Cons fn fns)
  then obtain S1 f d1 where "insert_file E f d = (None, d1)" "add_files E fns S1 d1 = Some (Ok S', d')"
    by (auto split: option.splits res.splits prod.splits)
  then show ?case using Cons.IH insert_file_keyed Cons.prems(2) by blast
qed simp

lemma addKnownContracts_keyed:
  assumes "addKnownContracts E S d = Some (Ok S', d')" and "definitions_keyed d"
  shows "definitions_keyed d'"
  using assms add_files_keyed
  by (auto simp: addKnownContracts_def split: res.splits option.splits prod.splits if_splits)

text \<open>
  C21. A start of the indexer leaves the contract tables all or nothing: whatever fails, they are as they were or hold every
  definition, interface and operation that the files of the directory describe, and the second only when no interface was stored. A start
  that succeeds on an empty table has stored them all, and has every definition of the database registered.
\<close>

theorem startup_ready:
  assumes "load_contracts E t now d = Some (r, d')"
    and "\<forall>k. range_order (su_register_order E k)" and "distinct (map fst (pg_definitions d))"
  shows "(unchanged d d' \<or> pg_interfaces d = [] \<and> all_stored E d d') \<and>
    (\<forall>S. r = Ok S \<longrightarrow> (pg_interfaces d = [] \<longrightarrow> all_stored E d d') \<and>
      (\<forall>dn x. (dn, x) \<in> set (pg_definitions d') \<longrightarrow> map_of (ts_defs S) dn = Some x))"
proof -
  obtain i d1 c where i: "getInterfaces t d (newContractCache now) = (i, d1, c)" by (cases "getInterfaces t d (newContractCache now)")
  note fresh = getInterfaces_fresh[OF i]
  have keys: "definitions_keyed d1" using unchanged_definitions[OF conjunct1[OF fresh]] assms(3) unfolding definitions_keyed_def by simp
  show ?thesis
  proof (cases "is_ok i")
    case False
    then show ?thesis using assms(1) i fresh by (cases i) (auto simp: load_contracts_def)
  next
    case True
    then obtain "is" where ok: "i = Ok is" "is = pg_interfaces d" using fresh by (cases i) auto
    let ?added = "if is = [] then addKnownContracts E tlb_empty d1 else Some (Ok tlb_empty, d1)"
    obtain a d2 where a: "?added = Some (a, d2)" using assms(1) i ok by (auto simp: load_contracts_def split: option.splits)
    have d2: "unchanged d1 d2 \<or> is = [] \<and> is_ok a \<and> all_stored E d1 d2" "is = [] \<Longrightarrow> is_ok a \<Longrightarrow> all_stored E d1 d2"
      using a addKnownContracts_cases[of E d1 a d2] by (auto simp: unchanged_refl split: if_splits)
    show ?thesis
    proof (cases a)
      case (Ok S)
      then have reg: "register_stored E S d2 = Some (r, d')" using assms(1) i ok(1) a by (simp add: load_contracts_def)
      have "definitions_keyed d2" using a Ok keys addKnownContracts_keyed by (auto split: if_splits)
      then have "\<forall>S. r = Ok S \<longrightarrow> (\<forall>dn x. (dn, x) \<in> set (pg_definitions d') \<longrightarrow> map_of (ts_defs S) dn = Some x)"
        using register_stored_registers[OF _ assms(2)] reg unfolding definitions_keyed_def by blast
      moreover note keep = register_stored_keeps[OF reg]
      have "all_stored E d d'" if "is = []" using all_stored_faults[OF conjunct1[OF fresh] d2(2)[OF that] keep] Ok by simp
      moreover have "unchanged d d' \<or> is = [] \<and> all_stored E d d'"
        using d2(1) unchanged_trans[OF unchanged_trans[OF conjunct1[OF fresh]] keep] all_stored_faults[OF conjunct1[OF fresh] _ keep] by blast
      ultimately show ?thesis unfolding ok(2) by blast
    next
      case (Err e)
      then show ?thesis using assms(1) i ok a d2 unchanged_trans[OF conjunct1[OF fresh]] by (auto simp: load_contracts_def)
    next
      case (Panic e)
      then show ?thesis using assms(1) i ok a d2 unchanged_trans[OF conjunct1[OF fresh]] by (auto simp: load_contracts_def)
    qed
  qed
qed

subsection \<open>A first start\<close>

definition ex_startup :: startup_env where
  "ex_startup = \<lparr>su_case = plain_case, su_crc = (\<lambda>x. 0), su_bound = 0, su_register_order = (\<lambda>k. rev), su_order = rev,
     su_ReadDir = Ok [''README.md'', ''wallets.json''], su_ReadFile = (\<lambda>fn. Ok []), su_unmarshal = (\<lambda>j. Ok [ex_described]),
     su_Begin = None, su_Commit = None\<rparr>"

definition ex_first :: db where
  "ex_first = db_empty\<lparr>pg_definitions := [ex_leaf]\<rparr>"

lemma ex_parse_next: "parse_next ex_startup tlb_empty [ex_described] =
    Some (Ok (tlb_empty, [], [ex_wallet [ex_op ''ping'' ''wallet'' 0x5f]], [ex_op ''ping'' ''wallet'' 0x5f]))"
proof -
  have "registerDefinitions plain_case 0 (\<lambda>k. rev) [] tlb_empty = Some (Ok (), tlb_empty)"
    by (subst registerDefinitions_def, subst register_from.simps) (simp add: range_map_def)
  moreover have "ex_op ''ping'' ''wallet'' 0x5f\<lparr>co_outgoing := False\<rparr> = ex_op ''ping'' ''wallet'' 0x5f"
    by (simp add: ex_op_def)
  ultimately show ?thesis
    by (simp add: parse_next_def ex_startup_def ex_described_def parseInterfaceDesc_def ex_parse_ping std64_decode_def
        ex_wallet_def tlb_empty_def)
qed

lemma ex_add_known:
  "addKnownContracts ex_startup tlb_empty ex_first = Some (Ok tlb_empty,
    ex_first\<lparr>pg_interfaces := [ex_wallet []], pg_operations := [ex_op ''ping'' ''wallet'' 0x5f]\<rparr>)"
proof -
  have "getAllKnownContractFilenames (su_ReadDir ex_startup) = Ok [''wallets.json'']"
    by (simp add: ex_startup_def getAllKnownContractFilenames_def has_suffix_def)
  moreover have "read_description ex_startup fn = Ok [ex_described]" for fn
    by (simp add: ex_startup_def read_description_def)
  moreover have "insert_file ex_startup ([], [ex_wallet [ex_op ''ping'' ''wallet'' 0x5f]], [ex_op ''ping'' ''wallet'' 0x5f]) ex_first =
      (None, ex_first\<lparr>pg_interfaces := [ex_wallet []], pg_operations := [ex_op ''ping'' ''wallet'' 0x5f]\<rparr>)"
    by (simp add: insert_file_def range_map_def ex_startup_def insert_interface_def insert_operation_def exec_unless_def exec_def
        then_exec_def wrap_exec_def ex_first_def db_empty_def interface_row_def ex_wallet_def)
  moreover have "su_Begin ex_startup = None" "su_Commit ex_startup = None" by (simp_all add: ex_startup_def)
  ultimately show ?thesis by (simp add: addKnownContracts_def ex_parse_next)
qed

theorem startup_ready_witness:
  "\<exists>S d'. load_contracts ex_startup (0, 0) 0 ex_first = Some (Ok S, d') \<and> all_stored ex_startup ex_first d' \<and>
    map_of (ts_defs S) (fst ex_leaf) = Some (snd ex_leaf)"
proof -
  let ?d = "ex_first\<lparr>pg_interfaces := [ex_wallet []], pg_operations := [ex_op ''ping'' ''wallet'' 0x5f]\<rparr>"
  let ?S = "tlb_empty\<lparr>ts_defs := [ex_leaf]\<rparr>"
  have none: "pg_interfaces ex_first = []" and defs: "pg_definitions ?d = [ex_leaf]" by (simp_all add: ex_first_def db_empty_def)
  have ints: "getInterfaces (0, 0) ex_first (newContractCache 0) = (Ok [], ex_first, setInterfaces [] (snd (cache_getInterfaces (0, 0) (newContractCache 0))))"
    by (simp add: getInterfaces_def cache_getInterfaces_def contract_clearCaches_def newContractCache_def query_def none)
      (simp add: ex_first_def db_empty_def)
  have reg: "registerDefinitions plain_case 0 (\<lambda>k. rev) [ex_leaf] tlb_empty = Some (Ok (), ?S)"
  proof -
    have "\<forall>k. range_order ((\<lambda>k. rev) k)" by (simp add: range_order_rev)
    from register_single[where dn = "fst ex_leaf" and n = 0 and S = tlb_empty, OF this parse_leaf] show ?thesis by (simp add: tlb_empty_def)
  qed
  have gets: "getDefinitions ?d = (Ok (\<lambda>k. if k = fst ex_leaf then Some (snd ex_leaf) else None), ?d)"
    by (simp add: getDefinitions_def query_def ex_first_def db_empty_def fun_eq_iff)
  have "register_stored ex_startup tlb_empty ?d = Some (Ok ?S, ?d)"
    unfolding register_stored_def gets defs by (simp add: ex_startup_def reg)
  then have run: "load_contracts ex_startup (0, 0) 0 ex_first = Some (Ok ?S, ?d)"
    by (simp add: load_contracts_def ints ex_add_known)
  have "\<forall>k. range_order (su_register_order ex_startup k)" "distinct (map fst (pg_definitions ex_first))"
    by (simp_all add: ex_startup_def range_order_rev ex_first_def db_empty_def)
  from startup_ready[OF run this] have "all_stored ex_startup ex_first ?d" "map_of (ts_defs ?S) (fst ex_leaf) = Some (snd ex_leaf)"
    using none defs by auto
  with run show ?thesis by blast
qed

end
