(* ===== verification/Pipeline.thy ===== *)
theory Pipeline
  imports Saving Kafka
begin

section \<open>From the topic to the tables\<close>

text \<open>
  The consumer of \<open>Kafka\<close> with \<open>processBlock\<close> of \<open>Indexer\<close> as its processing, as \<open>Start\<close> composes them: what
  the offsets that a node commits say about the tables. Fetching, the order of results, the outcomes of all statements and the number of
  attempts may differ from block to block.
\<close>

subsection \<open>Stored blocks stay\<close>

definition block_keys :: "db \<Rightarrow> bytes set" where
  "block_keys d = fst ` set (pg_blocks d)"

lemma block_keys_lookup: "h \<in> block_keys d \<longleftrightarrow> map_of (pg_blocks d) h \<noteq> None"
  by (simp add: block_keys_def map_of_eq_None_iff)

lemma exec_block_keys:
  assumes "\<And>d. block_keys d \<subseteq> block_keys (f d)"
  shows "block_keys d \<subseteq> block_keys (snd (exec f d))"
  using assms[of "d\<lparr>db_faults := fs\<rparr>" for fs] assms[of d]
  by (auto simp: exec_def block_keys_def split: list.split option.split)

lemma then_exec_block_keys:
  assumes "block_keys d \<subseteq> block_keys (snd r)" and "\<And>d. block_keys d \<subseteq> block_keys (snd (k d))"
  shows "block_keys d \<subseteq> block_keys (snd (then_exec r k))"
  using assms(1) assms(2)[of "snd r"] by (cases r) (auto simp: then_exec_def split: option.split)

lemma insert_blocks_block_keys: "block_keys d \<subseteq> block_keys (snd (insert_blocks bs d))"
proof (induction bs arbitrary: d)
  case (Cons b bs)
  have "block_keys d \<subseteq> block_keys (d\<lparr>pg_blocks := AList.update (bl_root_hash b) (block_row b) (pg_blocks d)\<rparr>)" for d
    by (auto simp: block_keys_lookup update_conv')
  then have "block_keys d \<subseteq> block_keys (snd (then_exec (exec (\<lambda>d. d\<lparr>pg_blocks := AList.update (bl_root_hash b) (block_row b) (pg_blocks d)\<rparr>) d)
      (insert_blocks bs)))" for d
    by (rule then_exec_block_keys[OF exec_block_keys]) (rule Cons.IH)
  then show ?case by simp
qed simp

lemma addBlocks_block_keys: "block_keys d \<subseteq> block_keys (snd (addBlocks bs d))"
proof -
  have "block_keys d \<subseteq> block_keys (snd (then_exec (insert_blocks bs d) (exec (\<lambda>d. d\<lparr>ch_blocks := ch_blocks d @ map block_row bs\<rparr>))))"
    by (rule then_exec_block_keys[OF insert_blocks_block_keys]) (rule exec_block_keys, simp add: block_keys_def)
  then show ?thesis by (simp add: addBlocks_def)
qed

lemma insertData_block_keys:
  assumes "insertData ord accs msgs txs bs d = (r, accs', d')"
  shows "block_keys d \<subseteq> block_keys d' \<and> (r = None \<longrightarrow> bl_root_hash ` set bs \<subseteq> block_keys d')"
proof (cases "pg_blocks d' \<noteq> pg_blocks d \<or> ch_blocks d' \<noteq> ch_blocks d \<or> r = None")
  case True
  obtain d1 d2 d3 where st: "addAccountStates ord accs d = (None, accs', d1)"
    "addMessages (sort_key ms_created_lt msgs) d1 = (None, d2)" "addTransactions txs d2 = (None, d3)"
    "snd (addBlocks bs d3) = d'" "r = None \<Longrightarrow> fst (addBlocks bs d3) = None"
    using insertData_blocks[OF assms True] by blast
  have "pg_blocks d3 = pg_blocks d"
    using addTransactions_keeps[of pg_blocks txs d2] addMessages_keeps[of pg_blocks "sort_key ms_created_lt msgs" d1]
      addAccountStates_keeps[of pg_blocks ord accs d] st by (simp add: insert_message_def)
  then have "block_keys d \<subseteq> block_keys d'" using addBlocks_block_keys[of d3 bs] st(4) by (simp add: block_keys_def)
  moreover have "bl_root_hash b \<in> block_keys d'" if "r = None" "b \<in> set bs" for b
  proof -
    have "addBlocks bs d3 = (None, d')" using st(4,5) that(1) by (metis prod.collapse)
    from addBlocks_Ok[OF this, of "bl_root_hash b"] that(2) show ?thesis
      by (auto simp: block_keys_lookup find_None_iff split: option.splits)
  qed
  ultimately show ?thesis by blast
qed (auto simp: block_keys_def)

subsection \<open>A block that was processed is stored\<close>

definition root_hashes :: "block \<Rightarrow> bytes set" where
  "root_hashes b = insert (bl_root_hash b) (bl_root_hash ` set (bl_shards b))"

lemma left_block_hashes: "root_hashes (left_block accs msgs b) = root_hashes b"
  by (auto simp: root_hashes_def left_block_def Let_def image_image)

lemma query_block_keys: "query f d = (r, d') \<Longrightarrow> block_keys d' = block_keys d"
  by (auto simp: query_def block_keys_def split: list.splits option.splits)

lemma getMessageSource_block_keys: "getMessageSource m d = (r, d') \<Longrightarrow> block_keys d' = block_keys d"
  by (auto simp: getMessageSource_def getMessage_def countMasterBlocks_def split: prod.splits res.splits option.splits if_splits
      dest!: query_block_keys)

lemma with_sources_block_keys: "with_sources ms d = (r, d') \<Longrightarrow> block_keys d' = block_keys d"
proof (induction ms arbitrary: d r d')
  case (Cons m ms)
  obtain q d1 where q: "(if ms_type m = Internal \<and> ms_src_tx_lt m = 0 \<and> ms_dst_tx_lt m \<noteq> 0
      then getMessageSource m d else (Ok (False, m), d)) = (q, d1)" by fastforce
  then have d1: "block_keys d1 = block_keys d" by (auto split: if_splits dest: getMessageSource_block_keys)
  obtain q2 d2 where ms: "with_sources ms d1 = (q2, d2)" by fastforce
  show ?case using Cons.prems q ms d1 Cons.IH[OF ms] by (cases q) auto
qed simp

lemma saveBlock_block_keys:
  assumes "saveBlock E master w = (r, master', w')"
  shows "block_keys (fst w) \<subseteq> block_keys (fst w') \<and> root_hashes master' = root_hashes master \<and>
    (r = Ok () \<longrightarrow> root_hashes master \<subseteq> block_keys (fst w'))"
proof -
  let ?txs = "block_transactions master"
  obtain u d where u: "uniqMessages (se_messages E) ?txs (fst w) = (u, d)" by fastforce
  have d: "block_keys d = block_keys (fst w)"
    using with_sources_block_keys u unfolding uniqMessages_def by blast
  show ?thesis
  proof (cases u)
    case (Ok msgs)
    obtain ins accs' d' where i: "insertData (se_latest E) (uniqAccounts (se_insert_accounts E) (se_insert_lts E) ?txs) msgs ?txs
        (master # bl_shards master) d = (ins, accs', d')" by (metis prod_cases3)
    obtain bc topic where b: "broadcastNewData (se_codec E) (se_produce E)
        (uniqAccounts (se_broadcast_accounts E) (se_broadcast_lts E) ?txs) (snd w) = (bc, topic)" by fastforce
    have "fst w' = d'" "master' = left_block accs' msgs master" "r = Ok () \<Longrightarrow> ins = None"
      using assms Ok u i b by (auto simp: saveBlock_def Let_def split: res.splits option.splits if_splits)
    then show ?thesis using insertData_block_keys[OF i] d by (simp add: left_block_hashes) (simp add: root_hashes_def)
  qed (use assms u d in \<open>auto simp: saveBlock_def Let_def\<close>)
qed

lemma save_tries_block_keys:
  assumes "save_tries E Es master w = (r, w')"
  shows "block_keys (fst w) \<subseteq> block_keys (fst w') \<and> (r = Ok () \<longrightarrow> root_hashes master \<subseteq> block_keys (fst w'))"
  using assms
proof (induction Es arbitrary: E master w)
  case Nil
  obtain q m1 w1 where "saveBlock E master w = (q, m1, w1)" by (metis prod_cases3)
  with saveBlock_block_keys[OF this] Nil show ?case by (cases q) auto
next
  case (Cons E' Es)
  obtain q m1 w1 where s: "saveBlock E master w = (q, m1, w1)" by (metis prod_cases3)
  note one = saveBlock_block_keys[OF s]
  show ?case
  proof (cases q)
    case (Err e)
    then have "save_tries E' Es m1 w1 = (r, w')" using Cons.prems s by simp
    from Cons.IH[OF this] one show ?thesis by auto
  qed (use Cons.prems s one in auto)
qed

definition blocks_stored :: "block_ext \<Rightarrow> block_ext list \<Rightarrow> db \<Rightarrow> bool" where
  "blocks_stored master shards d \<longleftrightarrow> be_root ` set (master # shards) \<subseteq> block_keys d"

lemma processBlock_stores:
  assumes "range_order ord" and "processBlock fetch now ord E Es master shards w = (r, w')"
  shows "block_keys (fst w) \<subseteq> block_keys (fst w') \<and>
    (r = Ok () \<longrightarrow> (\<forall>s \<in> set shards. be_workchain s \<noteq> be_workchain master) \<longrightarrow> blocks_stored master shards (fst w'))"
proof (cases "getBlockTxs (fetch master) now ord master shards")
  case (Ok b)
  then have st: "save_tries E Es b w = (r, w')" using assms(2) by (simp add: processBlock_def)
  have "root_hashes b = be_root ` set (master # shards)" if apart: "\<forall>s \<in> set shards. be_workchain s \<noteq> be_workchain master"
  proof -
    have "\<forall>x \<in> set (master # shards). \<not> is_panic (fetch master x)"
    proof -
      have "find is_panic (map (fetch master \<circ> snd) ((False, master) # map (\<lambda>s. (True, s)) shards)) = None"
        using Ok unfolding getBlockTxs_def Let_def by (simp only: split: option.splits) simp
      then have "\<not> is_panic (fetch master (snd t))" if "t \<in> set ((False, master) # map (\<lambda>s. (True, s)) shards)" for t
        using that unfolding find_None_iff by auto
      from this[of "(False, master)"] this[of "(True, s)" for s] show ?thesis by auto
    qed
    note built = getBlockTxs_built[OF assms(1) apart this, of now]
    then have "\<forall>x \<in> set (master # shards). is_ok (fetch master x)" using Ok by (auto split: if_splits)
    then obtain ss where b: "b = with_shards (fst (fetched_block (fetch master) now master False master)) ss"
        and ss: "mset ss = image_mset (\<lambda>s. fst (fetched_block (fetch master) now master True s)) (mset shards)"
      using built Ok by auto
    have "set ss = (\<lambda>s. fst (fetched_block (fetch master) now master True s)) ` set shards"
      using arg_cong[OF ss, of set_mset] by simp
    then show ?thesis by (auto simp: root_hashes_def b with_shards_def fetched_block_def image_image split: prod.splits)
  qed
  then show ?thesis using save_tries_block_keys[OF st] unfolding blocks_stored_def by auto
qed (use assms(2) in \<open>auto simp: processBlock_def\<close>)

subsection \<open>The consumer's promise\<close>

text \<open>The processing of a node: \<open>processBlock\<close>, in an environment of each block's own.\<close>

definition processes_blocks :: "(db \<times> bytes list) processor \<Rightarrow> bool" where
  "processes_blocks process \<longleftrightarrow>
     (\<forall>master shards w. \<exists>fetch now ord E Es. range_order ord \<and> process master shards w = processBlock fetch now ord E Es master shards w)"

definition record_stored :: "proto_unseen codec \<Rightarrow> krecord \<Rightarrow> db \<Rightarrow> bool" where
  "record_stored K r d \<longleftrightarrow>
     (\<exists>i. rbind (rwrap ''failed to decode block info'' (cd_decode K (kr_value r))) mapFromProto = Ok i \<and>
       ((\<forall>s \<in> set (ui_shards i). be_workchain s \<noteq> be_workchain (the (ui_master i))) \<longrightarrow>
        blocks_stored (the (ui_master i)) (ui_shards i) d))"

lemma record_stored_mono: "record_stored K r d \<Longrightarrow> block_keys d \<subseteq> block_keys d' \<Longrightarrow> record_stored K r d'"
  unfolding record_stored_def blocks_stored_def by (meson subset_trans)

lemma work_stores:
  assumes "processes_blocks process" and "work K process r w = (q, w')"
  shows "block_keys (fst w) \<subseteq> block_keys (fst w') \<and> (q = Ok () \<longrightarrow> record_stored K r (fst w'))"
proof (cases "rbind (rwrap ''failed to decode block info'' (cd_decode K (kr_value r))) mapFromProto")
  case (Ok i)
  obtain fetch now ord E Es where p: "range_order ord"
      "process (the (ui_master i)) (ui_shards i) w = processBlock fetch now ord E Es (the (ui_master i)) (ui_shards i) w"
    using assms(1) unfolding processes_blocks_def by blast
  have "processBlock fetch now ord E Es (the (ui_master i)) (ui_shards i) w = (q, w')"
    using assms(2) Ok p(2) by (simp add: work_def)
  from processBlock_stores[OF p(1) this] show ?thesis unfolding record_stored_def using Ok by auto
qed (use assms(2) in \<open>auto simp: work_def\<close>)

definition successes_stored :: "proto_unseen codec \<Rightarrow> (db \<times> bytes list) consumer \<Rightarrow> bool" where
  "successes_stored K c \<longleftrightarrow> (\<forall>j. (j, None) \<in> set (cs_done c) \<longrightarrow> record_stored K (cs_log c ! j) (fst (cs_world c)))"

lemma finish_work_stored:
  assumes "successes_stored K c" and "block_keys (fst (cs_world c)) \<subseteq> block_keys (fst w)" and "e = None \<Longrightarrow> record_stored K (cs_log c ! i) (fst w)"
  shows "successes_stored K (finish_work i e w c)"
  unfolding successes_stored_def
proof (intro allI impI)
  fix j
  assume "(j, None) \<in> set (cs_done (finish_work i e w c))"
  then have "(j, None) \<in> set (cs_done c) \<or> j = i \<and> e = None" by (auto simp: finish_work_def)
  then show "record_stored K (cs_log (finish_work i e w c) ! j) (fst (cs_world (finish_work i e w c)))"
    using assms record_stored_mono unfolding successes_stored_def by (auto simp: finish_work_def)
qed

lemma work_all_stored:
  assumes "processes_blocks process" and "work_all K process is e c = (Ok r, c')" and "successes_stored K c"
  shows "successes_stored K c'"
  using assms(2,3)
proof (induction "is" arbitrary: e c)
  case (Cons i "is")
  obtain q w where q: "work K process (cs_log c ! i) (cs_world c) = (q, w)" by (cases "work K process (cs_log c ! i) (cs_world c)")
  note one = work_stores[OF assms(1) q]
  show ?case
  proof (cases q)
    case (Ok u)
    have "successes_stored K (finish_work i None w c)" by (rule finish_work_stored[OF Cons.prems(2)]) (use one Ok in auto)
    then show ?thesis using Cons.IH Cons.prems(1) q Ok by simp
  next
    case (Err x)
    have "successes_stored K (finish_work i (Some x) w c)" by (rule finish_work_stored[OF Cons.prems(2)]) (use one in auto)
    then show ?thesis using Cons.IH Cons.prems(1) q Err by simp
  qed (use Cons.prems(1) q in simp)
qed simp

lemma work_all_no_Err: "work_all K process is e c \<noteq> (Err x, c')"
  by (induction K process "is" e c rule: work_all.induct) (auto split: prod.split res.split)

lemma consume_round_stored:
  assumes "processes_blocks process" and "consume_round K process target benchmark E c = Again c'" and "successes_stored K c"
  shows "successes_stored K c'"
proof (cases "ce_poll E = None")
  case False
  then show ?thesis using assms(2,3) by (auto simp: consume_round_def split: if_splits)
next
  case True
  define n where "n = min (ce_count E) (length (cs_log c) - cs_pos c)"
  define batch where "batch = [cs_pos c ..< cs_pos c + n]"
  have "\<exists>r c1. work_all K process (ce_order E batch) None (c\<lparr>cs_pos := cs_pos c + n\<rparr>) = (Ok r, c1) \<and>
      (c' = c1 \<or> c' = c1\<lparr>cs_committed := cs_pos c1\<rparr>)"
    using assms(2) True work_all_no_Err
    by (fastforce simp: consume_round_def Let_def n_def[symmetric] batch_def[symmetric]
        split: if_splits option.splits prod.splits res.splits)
  then obtain r c1 where c1: "work_all K process (ce_order E batch) None (c\<lparr>cs_pos := cs_pos c + n\<rparr>) = (Ok r, c1)"
    "c' = c1 \<or> c' = c1\<lparr>cs_committed := cs_pos c1\<rparr>" by blast
  have "successes_stored K (c\<lparr>cs_pos := cs_pos c + n\<rparr>)" using assms(3) by (simp add: successes_stored_def)
  from work_all_stored[OF assms(1) c1(1) this] show ?thesis using c1(2) by (auto simp: successes_stored_def)
qed

lemma committed_records_stored:
  assumes "consume_rounds K process target benchmark Es c = Again c'" and "processes_blocks process"
    and "\<forall>E \<in> set Es. range_order (ce_order E)"
    and "cs_pos c = 0" and "cs_committed c = 0" and "cs_done c = []"
  shows "\<forall>j < cs_committed c'. record_stored K (cs_log c ! j) (fst (cs_world c')) \<or> (\<exists>e. (j, Some e) \<in> set (cs_done c'))"
proof -
  have run: "successes_stored K c' \<and> consumer_ok c' \<and> cs_log c' = cs_log c"
    if "consume_rounds K process target benchmark Es c = Again c'" "consumer_ok c" "successes_stored K c"
      "\<forall>E \<in> set Es. range_order (ce_order E)" for c
    using that
  proof (induction Es arbitrary: c)
    case (Cons E Es)
    obtain c1 where c1: "consume_round K process target benchmark E c = Again c1"
      using Cons.prems(1) by (auto split: round.splits)
    have "consumer_ok c1" "cs_log c1 = cs_log c" using consume_round_Again[OF c1] Cons.prems by auto
    with Cons.IH[of c1] Cons.prems c1 consume_round_stored[OF assms(2) c1 Cons.prems(3)] show ?case by simp
  qed simp
  have "consumer_ok c" "successes_stored K c" using assms(4-6) by (simp_all add: consumer_ok_def successes_stored_def)
  then have end_state: "successes_stored K c'" "consumer_ok c'" "cs_log c' = cs_log c" using run[OF assms(1)] assms(3) by blast+
  show ?thesis
  proof (intro allI impI)
    fix j
    assume "j < cs_committed c'"
    then have "j \<in> fst ` set (cs_done c')" using end_state(2) by (auto simp: consumer_ok_def)
    then obtain e where "(j, e) \<in> set (cs_done c')" by auto
    then show "record_stored K (cs_log c ! j) (fst (cs_world c')) \<or> (\<exists>e. (j, Some e) \<in> set (cs_done c'))"
      using end_state(1,3) unfolding successes_stored_def by (cases e) auto
  qed
qed



subsection \<open>A round\<close>

definition ex_processing :: "(db \<times> bytes list) processor" where
  "ex_processing = processBlock (\<lambda>master b. Ok []) (\<lambda>b. 0) rev (ex_save_env None) []"

definition ex_topic :: "(db \<times> bytes list) consumer" where
  "ex_topic = \<lparr>cs_log = [\<lparr>kr_key = ''1'', kr_value = [1]\<rparr>], cs_pos = 0, cs_committed = 0, cs_total = 0, cs_world = (db_empty, []), cs_done = []\<rparr>"

lemma ex_processing_Ok: "fst (ex_processing (ex_block\<lparr>be_seqno := 1\<rparr>) [] (db_empty, [])) = Ok ()"
proof -
  have "getBlockTxs (\<lambda>b. Ok []) (\<lambda>b. 0) rev (ex_block\<lparr>be_seqno := 1\<rparr>) [] = Ok (Block 0 1 1 [] [] None [] [] [] 0)"
    by (simp add: getBlockTxs_def fetched_block_def ex_block_def with_shards_def)
  moreover have "fst (saveBlock (ex_save_env None) (Block 0 1 1 [] [] None [] [] [] 0) (db_empty, [])) = Ok ()"
    by (simp add: saveBlock_def block_transactions_def uniqMessages_def uniqAccounts_def range_map_def broadcastNewData_def
        produceAccounts_def insertData_def addAccountStates_def addMessages_def addTransactions_def addBlocks_def then_exec_def
        wrap_exec_def exec_def db_empty_def ex_envs)
  ultimately show ?thesis
    by (cases "saveBlock (ex_save_env None) (Block 0 1 1 [] [] None [] [] [] 0) (db_empty, [])") (simp add: ex_processing_def processBlock_def)
qed

lemma ex_key: "show_nat (Suc 0) = ''1''"
  by (subst show_nat.simps) (simp add: digit_char_def char_of_def bit_0)

lemma ex_processes: "processes_blocks ex_processing"
  unfolding processes_blocks_def ex_processing_def using range_order_rev by blast

lemma ex_decoded: "rbind (rwrap ''failed to decode block info'' (cd_decode ex_codec [1])) mapFromProto =
    Ok \<lparr>ui_master = Some (ex_block\<lparr>be_seqno := 1\<rparr>), ui_shards = []\<rparr>"
  by (simp add: ex_codec_def mapFromProto_def ex_unseen_def)

lemma ex_round:
  "\<exists>c'. consume_rounds ex_codec ex_processing 9 False [ex_round_env] ex_topic = Again c' \<and> cs_committed c' = 1 \<and> cs_done c' = [(0, None)]"
proof -
  obtain w where "ex_processing (ex_block\<lparr>be_seqno := 1\<rparr>) [] (db_empty, []) = (Ok (), w)"
    using ex_processing_Ok by (metis prod.collapse)
  then show ?thesis
    using ex_decoded by (simp add: consume_round_def Let_def handed_out_def ex_topic_def ex_round_env_def work_def finish_work_def word_le_nat_alt)
qed



end
